(* ===== verification/Conc_Prelude.thy ===== *)
theory Conc_Prelude
  imports Main "HOL-Library.Char_ord" "HOL-Library.List_Lexorder"
begin

text \<open>
  What the components share: the result type of a fallible Go function, the functions of
  Go's \<^verbatim>\<open>strings\<close> package the sources call, Go times, association lists as Go maps with a
  fixed iteration order, and generic lemmas on lists of digits. A Go \<^verbatim>\<open>string\<close> is a byte
  sequence and is modelled by \<^typ>\<open>string\<close>, whose characters are bytes.
\<close>

named_theorems go_simps "rewrite rules for the Go string functions and results"

section \<open>Results\<close>

text \<open>A Go function that returns \<^verbatim>\<open>(T, error)\<close> returns a sum: \<open>Inl\<close> is a non-nil error.\<close>

type_synonym ('e, 'a) result = "'e + 'a"

text \<open>The \<^verbatim>\<open>if err != nil { return err }\<close> idiom.\<close>

definition rbind :: "('e, 'a) result \<Rightarrow> ('a \<Rightarrow> ('e, 'b) result) \<Rightarrow> ('e, 'b) result" where
  "rbind r f = (case r of Inl e \<Rightarrow> Inl e | Inr a \<Rightarrow> f a)"

text \<open>An early return guarded by a condition.\<close>

definition rguard :: "bool \<Rightarrow> 'e \<Rightarrow> ('e, unit) result" where
  "rguard b e = (if b then Inr () else Inl e)"

definition rmap_err :: "('e \<Rightarrow> 'f) \<Rightarrow> ('e, 'a) result \<Rightarrow> ('f, 'a) result" where
  "rmap_err g r = (case r of Inl e \<Rightarrow> Inl (g e) | Inr a \<Rightarrow> Inr a)"

fun is_ok :: "('e, 'a) result \<Rightarrow> bool" where
  "is_ok (Inl _) = False"
| "is_ok (Inr _) = True"

text \<open>\<^verbatim>\<open>for _, x := range xs\<close> with a body that may return an error: the loop stops at the first.\<close>

fun rmap_list :: "('a \<Rightarrow> ('e, 'b) result) \<Rightarrow> 'a list \<Rightarrow> ('e, 'b list) result" where
  "rmap_list f [] = Inr []"
| "rmap_list f (x # xs) =
     (case f x of Inl e \<Rightarrow> Inl e
      | Inr y \<Rightarrow> (case rmap_list f xs of Inl e \<Rightarrow> Inl e | Inr ys \<Rightarrow> Inr (y # ys)))"

lemma rbind_simps [simp, go_simps]:
  "rbind (Inl e) f = Inl e" "rbind (Inr a) f = f a"
  by (simp_all add: rbind_def)

lemma rbind_eq_Inr [go_simps]: "rbind r f = Inr b \<longleftrightarrow> (\<exists>a. r = Inr a \<and> f a = Inr b)"
  by (cases r) auto

lemma rbind_eq_Inl: "rbind r f = Inl e \<longleftrightarrow> r = Inl e \<or> (\<exists>a. r = Inr a \<and> f a = Inl e)"
  by (cases r) auto

lemma rguard_eq [simp, go_simps]:
  "rguard b e = Inr u \<longleftrightarrow> b" "rguard b e = Inl e' \<longleftrightarrow> \<not> b \<and> e' = e"
  by (auto simp: rguard_def)

lemma rguard_simps [simp, go_simps]: "rguard True e = Inr ()" "rguard False e = Inl e"
  by (simp_all add: rguard_def)

lemma rmap_err_eq [simp, go_simps]: "rmap_err g r = Inr a \<longleftrightarrow> r = Inr a"
  by (cases r) (auto simp: rmap_err_def)

lemma rmap_err_simps [simp, go_simps]:
  "rmap_err g (Inl e) = Inl (g e)" "rmap_err g (Inr a) = Inr a"
  by (simp_all add: rmap_err_def)

lemma is_ok_iff [go_simps]: "is_ok r \<longleftrightarrow> (\<exists>a. r = Inr a)"
  by (cases r) auto

lemma rmap_list_length: "rmap_list f xs = Inr ys \<Longrightarrow> length ys = length xs"
  by (induction xs arbitrary: ys) (auto split: sum.splits)

lemma rmap_list_nth: "rmap_list f xs = Inr ys \<Longrightarrow> i < length xs \<Longrightarrow> f (xs ! i) = Inr (ys ! i)"
  by (induction xs arbitrary: ys i) (auto split: sum.splits simp: nth_Cons split: nat.splits)

lemma rmap_list_InrI: "(\<And>x. x \<in> set xs \<Longrightarrow> f x = Inr (g x)) \<Longrightarrow> rmap_list f xs = Inr (map g xs)"
  by (induction xs) auto

section \<open>Strings\<close>

definition has_prefix :: "'a list \<Rightarrow> 'a list \<Rightarrow> bool" where
  "has_prefix s p \<longleftrightarrow> take (length p) s = p"

definition has_suffix :: "'a list \<Rightarrow> 'a list \<Rightarrow> bool" where
  "has_suffix s p \<longleftrightarrow> length p \<le> length s \<and> drop (length s - length p) s = p"

definition trim_prefix :: "'a list \<Rightarrow> 'a list \<Rightarrow> 'a list" where
  "trim_prefix s p = (if has_prefix s p then drop (length p) s else s)"

definition trim_suffix :: "'a list \<Rightarrow> 'a list \<Rightarrow> 'a list" where
  "trim_suffix s p = (if has_suffix s p then take (length s - length p) s else s)"

text \<open>\<^verbatim>\<open>strings.Contains(s, c)\<close> and \<^verbatim>\<open>strings.Split(s, c)\<close> for a one-byte separator.\<close>

definition contains_char :: "string \<Rightarrow> char \<Rightarrow> bool" where
  "contains_char s c \<longleftrightarrow> c \<in> set s"

fun split_char :: "char \<Rightarrow> string \<Rightarrow> string list" where
  "split_char c [] = [[]]"
| "split_char c (x # xs) =
     (if x = c then [] # split_char c xs
      else (case split_char c xs of [] \<Rightarrow> [[x]] | w # ws \<Rightarrow> (x # w) # ws))"

fun join_with :: "string \<Rightarrow> string list \<Rightarrow> string" where
  "join_with sep [] = []"
| "join_with sep [w] = w"
| "join_with sep (w # ws) = w @ sep @ join_with sep ws"

text \<open>\<^verbatim>\<open>strings.Cut(s, c)\<close>: the part before the first separator, the part after it, and
  whether it occurs.\<close>

definition cut_char :: "char \<Rightarrow> string \<Rightarrow> string \<times> string \<times> bool" where
  "cut_char c s = (takeWhile (\<lambda>x. x \<noteq> c) s, drop 1 (dropWhile (\<lambda>x. x \<noteq> c) s), c \<in> set s)"

text \<open>The part up to and the part after the last occurrence, as \<^verbatim>\<open>strings.LastIndex\<close> splits.\<close>

definition cut_last :: "char \<Rightarrow> string \<Rightarrow> string \<times> string" where
  "cut_last c s = (rev (drop 1 (dropWhile (\<lambda>x. x \<noteq> c) (rev s))),
                   rev (takeWhile (\<lambda>x. x \<noteq> c) (rev s)))"

lemma has_prefix_iff: "has_prefix s p \<longleftrightarrow> (\<exists>r. s = p @ r)"
  unfolding has_prefix_def by (metis append_eq_conv_conj append_take_drop_id)

lemma has_suffix_iff: "has_suffix s p \<longleftrightarrow> (\<exists>r. s = r @ p)"
proof
  assume "has_suffix s p"
  then have "s = take (length s - length p) s @ p"
    unfolding has_suffix_def by (metis append_take_drop_id)
  then show "\<exists>r. s = r @ p" by blast
qed (auto simp: has_suffix_def)

lemma has_prefix_append [simp, go_simps]: "has_prefix (p @ r) p"
  by (auto simp: has_prefix_iff)

lemma has_prefix_Nil [simp, go_simps]: "has_prefix s []"
  by (simp add: has_prefix_def)

lemma has_suffix_append [simp, go_simps]: "has_suffix (r @ p) p"
  by (auto simp: has_suffix_iff)

lemma trim_prefix_append [simp, go_simps]: "trim_prefix (p @ r) p = r"
  by (simp add: trim_prefix_def)

lemma trim_suffix_append [simp, go_simps]: "trim_suffix (r @ p) p = r"
  by (simp add: trim_suffix_def)

lemma split_char_ne [simp, go_simps]: "split_char c s \<noteq> []"
  by (induction s) (auto split: list.splits)

lemma split_char_none: "c \<notin> set s \<Longrightarrow> split_char c s = [s]"
  by (induction s) auto

lemma split_char_append:
  "c \<notin> set a \<Longrightarrow> split_char c (a @ c # b) = a # split_char c b"
  by (induction a) auto

lemma join_split [simp]: "join_with [c] (split_char c s) = s"
proof (induction s)
  case (Cons x xs)
  obtain w ws where "split_char c xs = w # ws"
    using split_char_ne by (metis neq_Nil_conv)
  with Cons show ?case by (cases ws) auto
qed simp

lemma split_char_no_sep: "w \<in> set (split_char c s) \<Longrightarrow> c \<notin> set w"
proof (induction s arbitrary: w)
  case (Cons x xs)
  obtain v vs where "split_char c xs = v # vs"
    using split_char_ne by (metis neq_Nil_conv)
  with Cons show ?case by (auto split: if_splits)
qed simp

lemma split_join:
  "ws \<noteq> [] \<Longrightarrow> (\<And>w. w \<in> set ws \<Longrightarrow> c \<notin> set w) \<Longrightarrow> split_char c (join_with [c] ws) = ws"
proof (induction "[c]" ws rule: join_with.induct)
  case (3 w v vs)
  then show ?case by (simp add: split_char_append)
qed (simp_all add: split_char_none)

lemma cut_char_append:
  "c \<notin> set a \<Longrightarrow> cut_char c (a @ c # b) = (a, b, True)"
  unfolding cut_char_def by (induction a) auto

lemma cut_char_none: "c \<notin> set s \<Longrightarrow> cut_char c s = (s, [], False)"
  unfolding cut_char_def by (induction s) auto

lemma while_before:
  "c \<notin> set a \<Longrightarrow> takeWhile (\<lambda>x. x \<noteq> c) (a @ c # b) = a" "c \<notin> set a \<Longrightarrow> takeWhile (\<lambda>x. x \<noteq> c) a = a"
  "c \<notin> set a \<Longrightarrow> dropWhile (\<lambda>x. x \<noteq> c) (a @ c # b) = c # b" "c \<notin> set a \<Longrightarrow> dropWhile (\<lambda>x. x \<noteq> c) a = []"
  by (induction a) auto

lemma cut_last_append:
  assumes "c \<notin> set b"
  shows "cut_last c (a @ c # b) = (a, b)"
proof -
  have "takeWhile (\<lambda>x. x \<noteq> c) (rev b @ c # rev a) = rev b"
    using assms by (subst takeWhile_append2) auto
  moreover have "dropWhile (\<lambda>x. x \<noteq> c) (rev b @ c # rev a) = c # rev a"
    using assms by (subst dropWhile_append2) auto
  ultimately show ?thesis by (simp add: cut_last_def)
qed

section \<open>Times and Go maps\<close>

text \<open>A \<^verbatim>\<open>time.Time\<close> is the instant in nanoseconds since the Unix epoch; \<^verbatim>\<open>UnixMilli\<close> rounds
  towards minus infinity. The zero \<^verbatim>\<open>time.Time\<close> is midnight of 1 January of year 1.\<close>

type_synonym gotime = int

definition unix_milli :: "gotime \<Rightarrow> int" where
  "unix_milli t = t div 1000000"

definition zero_time :: gotime where
  "zero_time = -62135596800 * 1000000000"

definition seconds :: "int \<Rightarrow> int" where
  "seconds n = n * 1000000000"

text \<open>A Go map is an association list with distinct keys, in the order the runtime happens to
  iterate; \<open>gmap_set\<close> is \<^verbatim>\<open>m[k] = v\<close>, \<open>gmap_del\<close> is \<^verbatim>\<open>delete(m, k)\<close>, and \<open>map_of\<close> looks up.\<close>

type_synonym ('k, 'v) gmap = "('k \<times> 'v) list"

fun gmap_set :: "'k \<Rightarrow> 'v \<Rightarrow> ('k, 'v) gmap \<Rightarrow> ('k, 'v) gmap" where
  "gmap_set k v [] = [(k, v)]"
| "gmap_set k v ((k', v') # m) = (if k = k' then (k, v) # m else (k', v') # gmap_set k v m)"

definition gmap_del :: "'k \<Rightarrow> ('k, 'v) gmap \<Rightarrow> ('k, 'v) gmap" where
  "gmap_del k m = filter (\<lambda>kv. fst kv \<noteq> k) m"

definition gmap_ok :: "('k, 'v) gmap \<Rightarrow> bool" where
  "gmap_ok m \<longleftrightarrow> distinct (map fst m)"

lemma map_of_gmap_set [simp]: "map_of (gmap_set k v m) = (map_of m)(k \<mapsto> v)"
  by (induction m) auto

lemma map_of_gmap_del [simp]: "map_of (gmap_del k m) = (map_of m)(k := None)"
  by (induction m) (auto simp: gmap_del_def)

lemma set_gmap_set: "fst ` set (gmap_set k v m) = insert k (fst ` set m)"
proof (induction m)
  case (Cons kv m)
  then show ?case by (cases kv) (simp add: insert_commute)
qed simp

lemma gmap_ok_set [simp, intro]: "gmap_ok m \<Longrightarrow> gmap_ok (gmap_set k v m)"
  unfolding gmap_ok_def
proof (induction m)
  case (Cons kv m)
  obtain k' v' where kv: "kv = (k', v')" by (cases kv)
  have "k' \<noteq> k \<Longrightarrow> k' \<notin> fst ` set (gmap_set k v m)"
    using Cons.prems kv by (auto simp: set_gmap_set)
  with Cons kv show ?case by auto
qed simp

lemma gmap_ok_del [simp, intro]: "gmap_ok m \<Longrightarrow> gmap_ok (gmap_del k m)"
  unfolding gmap_ok_def gmap_del_def by (induction m) auto

section \<open>Lists of digits\<close>

text \<open>The value of a list of digits, most significant first, and the fact that for lists of
  one length it orders them as the lexicographic order does.\<close>

fun digits_val :: "nat \<Rightarrow> nat list \<Rightarrow> nat" where
  "digits_val b [] = 0"
| "digits_val b (d # ds) = d * b ^ length ds + digits_val b ds"

lemma digits_val_append:
  "digits_val b (xs @ ys) = digits_val b xs * b ^ length ys + digits_val b ys"
  by (induction xs) (auto simp: power_add algebra_simps)

lemma digits_val_less: "(\<And>d. d \<in> set ds \<Longrightarrow> d < b) \<Longrightarrow> digits_val b ds < b ^ length ds"
proof (induction ds)
  case (Cons d ds)
  then have "digits_val b ds < b ^ length ds" and "d + 1 \<le> b"
    by (simp, metis Cons.prems Suc_eq_plus1 Suc_leI list.set_intros(1))
  then have "(d + 1) * b ^ length ds \<le> b * b ^ length ds" by (intro mult_le_mono1)
  with \<open>digits_val b ds < b ^ length ds\<close> show ?case by (simp add: algebra_simps)
qed simp

lemma digits_val_lex:
  assumes "length xs = length ys"
    and "\<And>d. d \<in> set xs \<Longrightarrow> d < b" and "\<And>d. d \<in> set ys \<Longrightarrow> d < b"
    and "digits_val b xs < digits_val b ys"
  shows "xs < ys"
  using assms
proof (induction xs ys rule: list_induct2)
  case (Cons x xs y ys)
  have less: "digits_val b xs < b ^ length xs" "digits_val b ys < b ^ length xs"
    using Cons.hyps Cons.prems digits_val_less[of xs b] digits_val_less[of ys b] by auto
  have "\<not> y < x"
  proof
    assume "y < x"
    then have "(y + 1) * b ^ length xs \<le> x * b ^ length xs" by (intro mult_le_mono1) simp
    with Cons less show False by (simp add: algebra_simps)
  qed
  with Cons show ?case by (cases "x = y") auto
qed simp

end
