(* ===== verification/Cdid.thy ===== *)
theory Cdid
  imports Conc_Prelude "HOL-Library.Word"
begin

text \<open>
  Content identifiers, \<^verbatim>\<open>src/cdid/cdid.go\<close>: the \<^verbatim>\<open>CDID\<close> struct, its constructors, the
  clamped 48-bit millisecond clock, the base32 text form and its parser. The base32 codec of
  \<^verbatim>\<open>encoding/base32\<close> (no padding) is modelled on bit lists: the encoder regroups the bits by
  five, the decoder regroups them by eight and keeps as many bytes as the last quantum of
  characters determines.

  Shown here: the text form parses back to the identifier, uses only the 32 characters of the
  alphabet, tells the two kinds apart, and orders identifiers by their clamped time.
\<close>

section \<open>The base32 codec\<close>

definition encoding :: string where
  "encoding = ''0123456789abcdefghjkmnpqrstuvwyz''"

text \<open>The bits of a number, most significant first, and back.\<close>

fun to_bits :: "nat \<Rightarrow> nat \<Rightarrow> nat list" where
  "to_bits 0 n = []"
| "to_bits (Suc k) n = (n div 2 ^ k) mod 2 # to_bits k n"

text \<open>Regrouping a bit list into numbers of \<open>Suc k\<close> bits; a short last group is filled with zeros.\<close>

function regroup :: "nat \<Rightarrow> nat list \<Rightarrow> nat list" where
  "regroup k bs = (if bs = [] then []
     else digits_val 2 (take (Suc k) bs @ replicate (Suc k - length bs) 0) # regroup k (drop (Suc k) bs))"
  by pat_completeness auto
termination
  by (relation "measure (\<lambda>(k, bs). length bs)") auto

declare regroup.simps [simp del]

definition base32_encode :: "8 word list \<Rightarrow> string" where
  "base32_encode bs = map ((!) encoding) (regroup 4 (concat (map (\<lambda>b. to_bits 8 (unat b)) bs)))"

text \<open>The position of a character in the alphabet; \<open>None\<close> is the decoder's 0xFF.\<close>

fun index_of :: "'a \<Rightarrow> 'a list \<Rightarrow> nat option" where
  "index_of c [] = None"
| "index_of c (x # xs) = (if c = x then Some 0 else map_option Suc (index_of c xs))"

text \<open>How many bytes the characters of the last quantum yield: \<^verbatim>\<open>decode\<close> writes bytes for 2, 4,
  5, 7 and 8 characters only.\<close>

definition quantum_bytes :: "nat \<Rightarrow> nat" where
  "quantum_bytes r = (if r = 2 then 1 else if r = 4 then 2 else if r = 5 then 3
                      else if r = 7 then 4 else 0)"

fun decode_digits :: "string \<Rightarrow> nat list option" where
  "decode_digits [] = Some []"
| "decode_digits (c # cs) = (case index_of c encoding of None \<Rightarrow> None
     | Some d \<Rightarrow> map_option (Cons d) (decode_digits cs))"

text \<open>\<^verbatim>\<open>DecodeString\<close> drops carriage returns and newlines before it decodes.\<close>

definition base32_decode :: "string \<Rightarrow> 8 word list option" where
  "base32_decode s =
     (let t = filter (\<lambda>c. c \<noteq> CHR 0x0A \<and> c \<noteq> CHR 0x0D) s;
          n = 5 * (length t div 8) + quantum_bytes (length t mod 8)
      in map_option (\<lambda>ds. map of_nat (regroup 7 (take (8 * n) (concat (map (to_bits 5) ds)))))
           (decode_digits t))"

section \<open>Identifiers\<close>

datatype cdid_kind = KindTime | KindHash

record cdid =
  cd_kind :: cdid_kind
  cd_time :: "8 word list"
  cd_data :: "8 word list"
  cd_hash :: "8 word list"

text \<open>The zero value of the struct: arrays of 6, 10 and 15 zero bytes.\<close>

definition zero_cdid :: cdid where
  "zero_cdid = \<lparr>cd_kind = KindTime, cd_time = replicate 6 0, cd_data = replicate 10 0,
                cd_hash = replicate 15 0\<rparr>"

definition cdid_wf :: "cdid \<Rightarrow> bool" where
  "cdid_wf c \<longleftrightarrow> length (cd_time c) = 6 \<and> length (cd_data c) = 10 \<and> length (cd_hash c) = 15"

definition clamp_milli :: "gotime \<Rightarrow> int" where
  "clamp_milli t = min (max (unix_milli t) 0) (2 ^ 48 - 1)"

definition setTime :: "cdid \<Rightarrow> gotime \<Rightarrow> cdid" where
  "setTime c t = (if cd_kind c = KindHash then c
     else (let m = clamp_milli t in
       c\<lparr>cd_time := [word_of_int (m div 2 ^ 40), word_of_int (m div 2 ^ 32),
                     word_of_int (m div 2 ^ 24), word_of_int (m div 2 ^ 16),
                     word_of_int (m div 2 ^ 8), word_of_int m]\<rparr>))"

definition New :: "8 word list \<Rightarrow> gotime \<Rightarrow> cdid" where
  "New data t = setTime (zero_cdid\<lparr>cd_kind := KindTime, cd_data := data\<rparr>) t"

definition NewFromHash :: "8 word list \<Rightarrow> cdid" where
  "NewFromHash data = zero_cdid\<lparr>cd_kind := KindHash, cd_hash := data\<rparr>"

text \<open>The Keccak-256 digest comes from \<^verbatim>\<open>golang.org/x/crypto/sha3\<close> and is a parameter.\<close>

definition MakeHash :: "(string \<Rightarrow> 8 word list) \<Rightarrow> string \<Rightarrow> cdid" where
  "MakeHash keccak b = NewFromHash (take 15 (keccak b))"

definition cdid_milli :: "cdid \<Rightarrow> int" where
  "cdid_milli c = int (digits_val 256 (map unat (cd_time c)))"

definition GetTime :: "cdid \<Rightarrow> gotime" where
  "GetTime c = (if cd_kind c = KindHash then zero_time
     else (let m = cdid_milli c; s = m div 1000; n = (m mod 1000) * 1000000 in seconds s + n))"

definition cdid_bytes :: "cdid \<Rightarrow> 8 word list" where
  "cdid_bytes c = (if cd_kind c = KindHash then cd_hash c else cd_time c @ cd_data c)"

definition cdid_string :: "cdid \<Rightarrow> string" where
  "cdid_string c = (if cd_kind c = KindHash then CHR ''x'' # base32_encode (cd_hash c)
     else base32_encode (cdid_bytes c))"

text \<open>Indexing the empty string panics in \<^verbatim>\<open>Parse\<close>; a decoder error is returned; a wrong byte
  count gives the zero identifier and no error.\<close>

datatype cdid_error = IndexPanic | CorruptInput

definition Parse :: "string \<Rightarrow> (cdid_error, cdid) result" where
  "Parse s = (case s of [] \<Rightarrow> Inl IndexPanic
     | c # cs \<Rightarrow>
        if c = CHR ''x'' then
          (case base32_decode cs of None \<Rightarrow> Inl CorruptInput
           | Some b \<Rightarrow> if length b \<noteq> 15 then Inr zero_cdid
                       else Inr (zero_cdid\<lparr>cd_kind := KindHash, cd_hash := b\<rparr>))
        else
          (case base32_decode s of None \<Rightarrow> Inl CorruptInput
           | Some b \<Rightarrow> if length b \<noteq> 16 then Inr zero_cdid
                       else Inr (zero_cdid\<lparr>cd_time := take 6 b, cd_data := drop 6 b\<rparr>)))"

definition IsHashCDID :: "string \<Rightarrow> bool" where
  "IsHashCDID s \<longleftrightarrow> length s > 0 \<and> s ! 0 = CHR ''x''"

definition IsTimeCDID :: "string \<Rightarrow> bool" where
  "IsTimeCDID s \<longleftrightarrow> length s > 0 \<and> s ! 0 \<noteq> CHR ''x''"

definition IsCDIDChar :: "char \<Rightarrow> bool" where
  "IsCDIDChar c \<longleftrightarrow> ((CHR ''0'' \<le> c \<and> c \<le> CHR ''9'') \<or> (CHR ''a'' \<le> c \<and> c \<le> CHR ''z''))
     \<and> c \<noteq> CHR ''i'' \<and> c \<noteq> CHR ''l'' \<and> c \<noteq> CHR ''o'' \<and> c \<noteq> CHR ''x''"

section \<open>The codec\<close>

lemma to_bits_length [simp]: "length (to_bits k n) = k"
  by (induction k) auto

lemma to_bits_bit: "d \<in> set (to_bits k n) \<Longrightarrow> d < 2"
  by (induction k) auto

lemma to_bits_val: "digits_val 2 (to_bits k n) = n mod 2 ^ k"
proof (induction k)
  case (Suc k)
  have "n mod 2 ^ Suc k = (n div 2 ^ k mod 2) * 2 ^ k + n mod 2 ^ k"
    using mod_mult2_eq[of n "2 ^ k" 2] by (simp add: mult.commute)
  with Suc show ?case by simp
qed simp

lemma to_bits_mod: "m \<le> k \<Longrightarrow> to_bits m (n mod 2 ^ k) = to_bits m n"
proof (induction m)
  case (Suc m)
  then obtain j where k: "k = m + Suc j" by (metis add_Suc_right less_eqE add_Suc)
  have "n mod 2 ^ k = 2 ^ m * (n div 2 ^ m mod 2 ^ Suc j) + n mod 2 ^ m"
    by (simp only: k power_add mod_mult2_eq)
  then have "n mod 2 ^ k div 2 ^ m = n div 2 ^ m mod 2 ^ Suc j" by simp
  then have "n mod 2 ^ k div 2 ^ m mod 2 = n div 2 ^ m mod 2"
    by (simp only:) (rule mod_mod_cancel, simp)
  with Suc show ?case by simp
qed simp

lemma to_bits_of_val:
  "(\<And>d. d \<in> set bs \<Longrightarrow> d < 2) \<Longrightarrow> to_bits (length bs) (digits_val 2 bs) = bs"
proof (induction bs)
  case (Cons b bs)
  have less: "digits_val 2 bs < 2 ^ length bs" and b: "b < 2"
    using Cons.prems by (auto intro!: digits_val_less)
  have "to_bits (length bs) (b * 2 ^ length bs + digits_val 2 bs)
        = to_bits (length bs) (digits_val 2 bs)"
    using to_bits_mod[of "length bs" "length bs" "b * 2 ^ length bs + digits_val 2 bs"] less
    by simp
  with Cons less b show ?case by simp
qed simp

lemma regroup_Nil [simp]: "regroup k [] = []"
  by (simp add: regroup.simps)

lemma regroup_full: "length as = Suc k \<Longrightarrow> regroup k (as @ bs) = digits_val 2 as # regroup k bs"
  by (subst regroup.simps) auto

lemma regroup_short: "bs \<noteq> [] \<Longrightarrow> length bs \<le> Suc k \<Longrightarrow>
    regroup k bs = [digits_val 2 (bs @ replicate (Suc k - length bs) 0)]"
  by (subst regroup.simps) simp

text \<open>Splitting off the first full group: the induction every fact about \<^const>\<open>regroup\<close> uses.\<close>

lemma regroup_induct [case_names Nil Short Full]:
  assumes "P []"
    and "\<And>bs. bs \<noteq> [] \<Longrightarrow> length bs \<le> Suc k \<Longrightarrow> P bs"
    and "\<And>as bs. length as = Suc k \<Longrightarrow> bs \<noteq> [] \<Longrightarrow> P bs \<Longrightarrow> P (as @ bs)"
  shows "P bs"
proof (induction bs rule: length_induct)
  case (1 bs)
  show ?case
  proof (cases "length bs \<le> Suc k")
    case True
    then show ?thesis using assms(1,2) by (cases "bs = []") auto
  next
    case False
    then have "P (drop (Suc k) bs)" using "1.IH" by simp
    with False have "P (take (Suc k) bs @ drop (Suc k) bs)"
      by (intro assms(3)) auto
    then show ?thesis by simp
  qed
qed

lemma regroup_length: "length (regroup k bs) = (length bs + k) div Suc k"
proof (induction bs rule: regroup_induct[where k = k])
  case (Short bs)
  then have "(length bs + k) div Suc k = 1"
    by (cases bs) (auto intro!: div_nat_eqI)
  with Short show ?case by (simp add: regroup_short)
next
  case (Full as bs)
  then have "(length as + length bs + k) div Suc k = Suc ((length bs + k) div Suc k)"
    by (metis add.assoc div_add_self1 nat.distinct(1) add.commute plus_1_eq_Suc)
  with Full show ?case by (simp add: regroup_full)
qed simp

text \<open>The zero bits the last group is filled with.\<close>

definition fill :: "nat \<Rightarrow> nat list \<Rightarrow> nat" where
  "fill k bs = Suc k * length (regroup k bs) - length bs"

lemma fill_simps:
  "fill k [] = 0"
  "bs \<noteq> [] \<Longrightarrow> length bs \<le> Suc k \<Longrightarrow> fill k bs = Suc k - length bs"
  "length as = Suc k \<Longrightarrow> fill k (as @ bs) = fill k bs"
  by (simp_all add: fill_def regroup_short regroup_full)

lemma regroup_bits:
  assumes "\<And>d. d \<in> set bs \<Longrightarrow> d < 2"
  shows "concat (map (to_bits (Suc k)) (regroup k bs)) = bs @ replicate (fill k bs) 0"
  using assms
proof (induction bs rule: regroup_induct[where k = k])
  case (Short bs)
  let ?bs = "bs @ replicate (Suc k - length bs) 0"
  have "to_bits (length ?bs) (digits_val 2 ?bs) = ?bs"
    using Short.prems by (intro to_bits_of_val) auto
  moreover have "length ?bs = Suc k" using Short by simp
  ultimately have "to_bits (Suc k) (digits_val 2 ?bs) = ?bs" by metis
  with Short show ?case by (simp add: regroup_short fill_simps del: to_bits.simps)
next
  case (Full as bs)
  have "to_bits (Suc k) (digits_val 2 as) = as"
    using Full to_bits_of_val[of as] by simp
  with Full show ?case by (simp add: regroup_full fill_simps del: to_bits.simps)
qed (simp add: fill_simps)

lemma regroup_less:
  assumes "\<And>d. d \<in> set bs \<Longrightarrow> d < 2" and "n \<in> set (regroup k bs)"
  shows "n < 2 ^ Suc k"
  using assms
proof (induction bs rule: regroup_induct[where k = k])
  case (Short bs)
  let ?bs = "bs @ replicate (Suc k - length bs) 0"
  have "digits_val 2 ?bs < 2 ^ length ?bs"
    using Short.prems by (intro digits_val_less) auto
  with Short show ?case by (simp add: regroup_short)
next
  case (Full as bs)
  have "digits_val 2 as < 2 ^ length as"
    using Full.prems by (intro digits_val_less) auto
  with Full show ?case by (auto simp: regroup_full)
qed simp

lemma digits_val_groups:
  assumes "\<And>n. n \<in> set ns \<Longrightarrow> n < 2 ^ m"
  shows "digits_val 2 (concat (map (to_bits m) ns)) = digits_val (2 ^ m) ns"
  using assms
proof (induction ns)
  case (Cons n ns)
  have "length (concat (map (to_bits m) ns)) = m * length ns"
    by (induction ns) auto
  with Cons show ?case
    by (simp add: digits_val_append to_bits_val power_mult)
qed simp

lemma regroup_val:
  assumes "\<And>d. d \<in> set bs \<Longrightarrow> d < 2"
  shows "digits_val (2 ^ Suc k) (regroup k bs) = digits_val 2 bs * 2 ^ fill k bs"
proof -
  have rep: "digits_val 2 (replicate n 0) = 0" for n by (induction n) auto
  have "digits_val (2 ^ Suc k) (regroup k bs)
        = digits_val 2 (concat (map (to_bits (Suc k)) (regroup k bs)))"
    using regroup_less[OF assms] by (intro digits_val_groups[symmetric]) auto
  also have "\<dots> = digits_val 2 (bs @ replicate (fill k bs) 0)"
    by (simp only: regroup_bits[OF assms])
  finally show ?thesis by (simp add: digits_val_append rep)
qed

lemma regroup_concat:
  assumes "\<And>n. n \<in> set ns \<Longrightarrow> n < 2 ^ Suc k"
  shows "regroup k (concat (map (to_bits (Suc k)) ns)) = ns"
  using assms
proof (induction ns)
  case (Cons n ns)
  have "digits_val 2 (to_bits (Suc k) n) = n"
    using Cons.prems by (simp add: to_bits_val del: to_bits.simps)
  with Cons show ?case by (simp add: regroup_full del: to_bits.simps)
qed simp

lemma index_of_nth: "distinct xs \<Longrightarrow> i < length xs \<Longrightarrow> index_of (xs ! i) xs = Some i"
  by (induction xs arbitrary: i) (auto simp: nth_Cons split: nat.splits)

lemma encoding_length [simp]: "length encoding = 32"
  by (simp add: encoding_def)

lemma encoding_distinct: "distinct encoding"
  by (simp add: encoding_def)

lemma encoding_sorted: "sorted_wrt (<) encoding"
  by (simp add: encoding_def)

lemma encoding_CDIDChar: "c \<in> set encoding \<Longrightarrow> IsCDIDChar c"
  by (auto simp: encoding_def IsCDIDChar_def)

lemma decode_digits_encoded:
  "(\<And>d. d \<in> set ds \<Longrightarrow> d < 32) \<Longrightarrow> decode_digits (map ((!) encoding) ds) = Some ds"
  by (induction ds) (auto simp: index_of_nth encoding_distinct)

definition byte_bits :: "8 word list \<Rightarrow> nat list" where
  "byte_bits bs = concat (map (\<lambda>b. to_bits 8 (unat b)) bs)"

lemma byte_bits_map: "byte_bits bs = concat (map (to_bits 8) (map unat bs))"
  by (simp add: byte_bits_def comp_def)

lemma byte_bits_bit: "d \<in> set (byte_bits bs) \<Longrightarrow> d < 2"
  by (auto simp: byte_bits_def dest: to_bits_bit)

lemma byte_bits_length [simp]: "length (byte_bits bs) = 8 * length bs"
  by (induction bs) (auto simp: byte_bits_def)

lemma byte_less_256: "n \<in> set (map unat (bs :: 8 word list)) \<Longrightarrow> n < 256"
proof -
  have "unat b < 2 ^ LENGTH(8)" for b :: "8 word"
    by (rule unsigned_less)
  then show "n \<in> set (map unat bs) \<Longrightarrow> n < 256" by auto
qed

lemma byte_bits_val: "digits_val 2 (byte_bits bs) = digits_val 256 (map unat bs)"
  using digits_val_groups[of "map unat bs" 8] byte_less_256[of _ bs]
  by (simp add: byte_bits_map)

lemma regroup_byte_bits: "map of_nat (regroup 7 (byte_bits bs)) = bs"
proof -
  have "regroup 7 (byte_bits bs) = map unat bs"
    using regroup_concat[of "map unat bs" 7] byte_less_256[of _ bs] by (simp add: byte_bits_map)
  then show ?thesis by (simp add: comp_def)
qed

lemma base32_encode_alt: "base32_encode bs = map ((!) encoding) (regroup 4 (byte_bits bs))"
  by (simp add: base32_encode_def byte_bits_def)

lemma base32_digit_less: "d \<in> set (regroup 4 (byte_bits bs)) \<Longrightarrow> d < 32"
  using regroup_less[of "byte_bits bs" d 4] byte_bits_bit by simp

lemma base32_encode_length: "length (base32_encode bs) = (8 * length bs + 4) div 5"
  by (simp add: base32_encode_alt regroup_length)

lemma base32_encode_chars: "c \<in> set (base32_encode bs) \<Longrightarrow> c \<in> set encoding"
  by (auto simp: base32_encode_alt dest!: base32_digit_less)

text \<open>The text of \<open>n\<close> bytes determines exactly \<open>n\<close> bytes again.\<close>

lemma quantum_bytes_encode:
  "5 * ((8 * n + 4) div 5 div 8) + quantum_bytes ((8 * n + 4) div 5 mod 8) = n"
proof -
  obtain q r where n: "n = 5 * q + r" and r: "r < 5"
    using mult_div_mod_eq[of 5 n] by (metis mod_less_divisor zero_less_numeral)
  let ?c = "(8 * r + 4) div 5"
  have "(8 * n + 4) div 5 = 8 * q + ?c" by (simp add: n)
  moreover have "(8 * q + ?c) div 8 = q" "(8 * q + ?c) mod 8 = ?c" using r by auto
  moreover have "r \<in> {0, 1, 2, 3, 4}" using r by auto
  then have "quantum_bytes ?c = r" by (auto simp: quantum_bytes_def)
  ultimately show ?thesis by (simp only: n)
qed

lemma base32_roundtrip: "base32_decode (base32_encode bs) = Some bs"
proof -
  let ?ds = "regroup 4 (byte_bits bs)" and ?t = "base32_encode bs"
  have nl: "filter (\<lambda>c. c \<noteq> CHR 0x0A \<and> c \<noteq> CHR 0x0D) ?t = ?t"
    by (intro filter_True) (auto dest!: base32_encode_chars simp: encoding_def)
  have n: "5 * (length ?t div 8) + quantum_bytes (length ?t mod 8) = length bs"
    by (simp only: base32_encode_length quantum_bytes_encode)
  have "decode_digits ?t = Some ?ds"
    unfolding base32_encode_alt by (rule decode_digits_encoded) (rule base32_digit_less)
  moreover have "take (8 * length bs) (concat (map (to_bits 5) ?ds)) = byte_bits bs"
    using regroup_bits[of "byte_bits bs" 4] byte_bits_bit by simp
  ultimately show ?thesis
    unfolding base32_decode_def Let_def nl n by (simp add: regroup_byte_bits)
qed

lemma map_less_mono:
  assumes "xs < ys" and "\<And>a b. a \<in> set xs \<Longrightarrow> b \<in> set ys \<Longrightarrow> a < b \<Longrightarrow> f a < f b"
    and "length xs = length ys"
  shows "map f xs < map f (ys :: nat list)"
  using assms(3,1,2) by (induction xs ys rule: list_induct2) auto

lemma encoding_mono: "i < j \<Longrightarrow> j < 32 \<Longrightarrow> encoding ! i < encoding ! j"
  using encoding_sorted by (simp add: sorted_wrt_iff_nth_less)

lemma base32_encode_less:
  assumes "length as = length bs" and "digits_val 256 (map unat as) < digits_val 256 (map unat bs)"
  shows "base32_encode as < base32_encode bs"
proof -
  let ?f = "\<lambda>x. regroup 4 (byte_bits x)"
  have len: "length (?f as) = length (?f bs)"
    using assms(1) by (simp add: regroup_length)
  have "fill 4 (byte_bits as) = fill 4 (byte_bits bs)"
    using len assms(1) by (simp add: fill_def)
  moreover have "digits_val 32 (?f x) = digits_val 256 (map unat x) * 2 ^ fill 4 (byte_bits x)" for x
    using regroup_val[of "byte_bits x" 4] byte_bits_bit by (simp add: byte_bits_val)
  ultimately have "digits_val 32 (?f as) < digits_val 32 (?f bs)" using assms(2) by simp
  then have "?f as < ?f bs"
    by (rule digits_val_lex[OF len, rotated 2]) (auto dest: base32_digit_less)
  then have "map ((!) encoding) (?f as) < map ((!) encoding) (?f bs)"
    by (rule map_less_mono) (auto intro!: encoding_mono dest: base32_digit_less simp: len)
  then show ?thesis by (simp add: base32_encode_alt)
qed

section \<open>Identifiers: shape, round trips, order\<close>

lemma clamp_milli_range: "0 \<le> clamp_milli t" "clamp_milli t < 2 ^ 48"
  by (auto simp: clamp_milli_def)

lemma New_fields:
  "cd_kind (New d t) = KindTime" "cd_data (New d t) = d" "cd_hash (New d t) = replicate 15 0"
  "length (cd_time (New d t)) = 6"
  by (simp_all add: New_def setTime_def zero_cdid_def Let_def)

lemma NewFromHash_fields:
  "cd_kind (NewFromHash h) = KindHash" "cd_hash (NewFromHash h) = h"
  by (simp_all add: NewFromHash_def)

lemma byte_of_int: "unat (word_of_int k :: 8 word) = nat (k mod 256)"
  by (simp add: unsigned_of_int take_bit_eq_mod)

lemma horner_six:
  "digits_val 256 [a, b, c, d, e, f] = ((((a * 256 + b) * 256 + c) * 256 + d) * 256 + e) * 256 + f"
  by simp

lemma milli_horner:
  fixes m :: int
  assumes "0 \<le> m" and "m < 2 ^ 48"
  shows "(((((m div 2 ^ 40 mod 256) * 256 + m div 2 ^ 32 mod 256) * 256 + m div 2 ^ 24 mod 256) * 256
           + m div 2 ^ 16 mod 256) * 256 + m div 2 ^ 8 mod 256) * 256 + m mod 256 = m"
proof -
  have step: "m div (k * 256) * 256 + m div k mod 256 = m div k" for k
    by (simp add: zdiv_zmult2_eq)
  have "m div 2 ^ 40 mod 256 = m div 2 ^ 40"
    using assms by (intro mod_pos_pos_trivial) (auto intro: div_int_pos_iff[THEN iffD2])
  moreover have "m div 2 ^ 40 * 256 + m div 2 ^ 32 mod 256 = m div 2 ^ 32"
    using step[of "2 ^ 32"] by simp
  moreover have "m div 2 ^ 32 * 256 + m div 2 ^ 24 mod 256 = m div 2 ^ 24"
    using step[of "2 ^ 24"] by simp
  moreover have "m div 2 ^ 24 * 256 + m div 2 ^ 16 mod 256 = m div 2 ^ 16"
    using step[of "2 ^ 16"] by simp
  moreover have "m div 2 ^ 16 * 256 + m div 2 ^ 8 mod 256 = m div 2 ^ 8"
    using step[of "2 ^ 8"] by simp
  moreover have "m div 2 ^ 8 * 256 + m mod 256 = m" by simp
  ultimately show ?thesis by (simp only:)
qed

lemma New_milli: "cdid_milli (New d t) = clamp_milli t"
proof -
  have "cdid_milli (New d t) = int (digits_val 256 (map (\<lambda>k. nat (clamp_milli t div 2 ^ k mod 256))
      [40, 32, 24, 16, 8, 0]))"
    by (simp add: cdid_milli_def New_def setTime_def zero_cdid_def Let_def byte_of_int
        del: digits_val.simps)
  also have "\<dots> = clamp_milli t"
    using milli_horner[OF clamp_milli_range, of t]
    by (simp only: list.map horner_six of_nat_add of_nat_mult of_nat_numeral nat_0_le
        pos_mod_sign zero_less_numeral power_0 div_by_1)
  finally show ?thesis .
qed

lemma New_time_val: "digits_val 256 (map unat (cd_time (New d t))) = nat (clamp_milli t)"
  using New_milli[of d t] by (simp add: cdid_milli_def)

lemma cdid_bytes_length: "cdid_wf c \<Longrightarrow> length (cdid_bytes c) = (if cd_kind c = KindHash then 15 else 16)"
  by (simp add: cdid_bytes_def cdid_wf_def)

lemma encode_not_x: "base32_encode bs = c # cs \<Longrightarrow> c \<noteq> CHR ''x''"
  using base32_encode_chars[of c bs] by (auto simp: encoding_def)

lemma encode_ne: "bs \<noteq> [] \<Longrightarrow> base32_encode bs \<noteq> []"
  by (metis base32_encode_length length_0_conv base32_roundtrip option.inject
      base32_encode_def byte_bits_def regroup_Nil list.simps(8) concat.simps(1))

text \<open>An identifier's text parses back to it: for both constructors, on arrays of the sizes the
  Go types fix, \<^verbatim>\<open>Parse(c.String())\<close> returns the same identifier and no error.\<close>

theorem Parse_String_roundtrip:
  assumes "length d = 10" and "length h = 15"
  shows "Parse (cdid_string (New d t)) = Inr (New d t)
    \<and> Parse (cdid_string (NewFromHash h)) = Inr (NewFromHash h)"
proof
  let ?b = "cd_time (New d t) @ d"
  have "?b \<noteq> []" using assms by auto
  then obtain c cs where e: "base32_encode ?b = c # cs"
    using encode_ne by (metis neq_Nil_conv)
  have "zero_cdid\<lparr>cd_time := cd_time (New d t), cd_data := d\<rparr> = New d t"
    by (simp add: New_def setTime_def zero_cdid_def Let_def)
  then show "Parse (cdid_string (New d t)) = Inr (New d t)"
    using e encode_not_x[OF e] base32_roundtrip[of ?b] assms
    by (simp add: Parse_def cdid_string_def cdid_bytes_def New_fields)
  show "Parse (cdid_string (NewFromHash h)) = Inr (NewFromHash h)"
    using assms by (simp add: Parse_def cdid_string_def NewFromHash_fields base32_roundtrip
        NewFromHash_def)
qed

theorem Parse_String_roundtrip_witness:
  "Parse (cdid_string (New (replicate 10 7) 1700000000000000000)) = Inr (New (replicate 10 7) 1700000000000000000)
   \<and> Parse (cdid_string (NewFromHash (replicate 15 255))) = Inr (NewFromHash (replicate 15 255))"
  using Parse_String_roundtrip[of "replicate 10 7" "replicate 15 255" 1700000000000000000] by simp

text \<open>Order on the text of time-based identifiers follows the order of their clamped
  millisecond clocks, whatever the hash bytes are.\<close>

theorem String_time_order:
  assumes "length d = 10" and "length d' = 10" and "clamp_milli t < clamp_milli t'"
  shows "cdid_string (New d t) < cdid_string (New d' t')"
proof -
  let ?v = "\<lambda>bs. digits_val 256 (map unat bs)"
  have "?v d < 256 ^ 10"
    using digits_val_less[of "map unat d" 256] byte_less_256[of _ d] assms(1) by simp
  moreover have "?v (cd_time (New d t)) + 1 \<le> ?v (cd_time (New d' t'))"
    using assms(3) clamp_milli_range[of t] by (simp add: New_time_val)
  then have "(?v (cd_time (New d t)) + 1) * 256 ^ 10 \<le> ?v (cd_time (New d' t')) * 256 ^ 10"
    by (rule mult_le_mono1)
  ultimately have "?v (cd_time (New d t) @ d) < ?v (cd_time (New d' t') @ d')"
    using assms(1,2) by (simp add: digits_val_append algebra_simps)
  then show ?thesis
    using assms by (auto intro!: base32_encode_less simp: cdid_string_def cdid_bytes_def New_fields)
qed

theorem String_time_order_witness:
  "cdid_string (New (replicate 10 255) 1700000000000000000) < cdid_string (New (replicate 10 0) 1700000000001000000)"
  by (rule String_time_order) (simp_all add: clamp_milli_def unix_milli_def)

text \<open>The clock of a time-based identifier reads back the creation time at millisecond
  precision, clamped to the range of 48 bits: earlier instants read as the epoch, later ones as
  the last representable millisecond.\<close>

theorem GetTime_New: "GetTime (New d t) = 1000000 * min (max (t div 1000000) 0) (2 ^ 48 - 1)"
proof -
  have "GetTime (New d t) = 1000000 * clamp_milli t"
    using mult_div_mod_eq[of 1000 "clamp_milli t"]
    unfolding GetTime_def New_fields New_milli Let_def seconds_def by (simp only: cdid_kind.distinct if_False)
  then show ?thesis by (simp add: clamp_milli_def unix_milli_def)
qed

text \<open>The text form: 26 characters of the alphabet for a time-based identifier, \<open>x\<close> and 24
  of them for a hash-based one; the two tests tell the kinds apart.\<close>

theorem String_shape:
  assumes "cdid_wf c"
  shows "if cd_kind c = KindHash
    then length (cdid_string c) = 25 \<and> list_all IsCDIDChar (tl (cdid_string c))
         \<and> IsHashCDID (cdid_string c) \<and> \<not> IsTimeCDID (cdid_string c)
    else length (cdid_string c) = 26 \<and> list_all IsCDIDChar (cdid_string c)
         \<and> IsTimeCDID (cdid_string c) \<and> \<not> IsHashCDID (cdid_string c)"
proof -
  have len: "length (base32_encode (cdid_bytes c)) = (if cd_kind c = KindHash then 24 else 26)"
    by (simp add: base32_encode_length cdid_bytes_length[OF assms])
  have chars: "list_all IsCDIDChar (base32_encode (cdid_bytes c))"
    using base32_encode_chars encoding_CDIDChar by (auto simp: list_all_iff)
  show ?thesis
  proof (cases "cd_kind c = KindHash")
    case True
    with len chars show ?thesis
      by (simp add: cdid_string_def cdid_bytes_def IsTimeCDID_def IsHashCDID_def)
  next
    case False
    with len chars encode_not_x[of "cdid_bytes c"] show ?thesis
      by (cases "base32_encode (cdid_bytes c)")
        (auto simp: cdid_string_def IsTimeCDID_def IsHashCDID_def)
  qed
qed

theorem String_shape_witness:
  "length (cdid_string (New (replicate 10 1) 0)) = 26 \<and> IsHashCDID (cdid_string (NewFromHash (replicate 15 9)))"
  using String_shape[of "New (replicate 10 1) 0"] String_shape[of "NewFromHash (replicate 15 9)"]
  by (simp add: cdid_wf_def New_fields NewFromHash_fields NewFromHash_def zero_cdid_def)

end
