(* ===== verification/Documents.thy ===== *)
theory Documents
  imports Complex_Main Cdid
begin

text \<open>
  The protocol's data, \<^verbatim>\<open>src/types.go\<close> and \<^verbatim>\<open>src/schemas\<close>: documents, proofs, signed documents
  and events, with the operations on them. Decoding and encoding of JSON text
  (\<^verbatim>\<open>encoding/json\<close>) and the Keccak digest enter as a record of functions, \<open>codec\<close>, which every
  definition that reads a document's text takes as an argument: nothing proved about them
  depends on how the text is decoded.

  Shown here: what an event's public view keeps and drops, that the internal visibility flags
  never survive it or an inbound document's stripping, and that a public view of a received
  event loses nothing but deep nesting.
\<close>

section \<open>JSON values\<close>

text \<open>A decoded JSON value (Go's \<^verbatim>\<open>any\<close>): objects are Go maps, numbers are compared by value.\<close>

datatype jval = JNull | JBool bool | JNum rat | JStr string | JArr "jval list"
  | JObj "(string \<times> jval) list"

section \<open>Documents\<close>

abbreviation ProofTypeEcrecover :: string where
  "ProofTypeEcrecover \<equiv> ''concrnt-ecrecover-direct''"
abbreviation ProofTypeDocumentReference :: string where
  "ProofTypeDocumentReference \<equiv> ''document-reference''"
abbreviation ProofTypeDocumentDirect :: string where
  "ProofTypeDocumentDirect \<equiv> ''document-direct''"
abbreviation ProofTypeSubkey :: string where
  "ProofTypeSubkey \<equiv> ''concrnt-ecrecover-subkey''"
abbreviation ProofTypeNone :: string where
  "ProofTypeNone \<equiv> ''none''"

record policy_entry =
  pe_url :: "string option"
  pe_params :: "(string, jval) gmap option"
  pe_defaults :: "(string, string) gmap option"
  pe_errored :: bool

record policy_ref =
  pr_entries :: "policy_entry list"
  pr_virtualParents :: "string list option"
  pr_source :: string

text \<open>\<^verbatim>\<open>Document[any]\<close>.\<close>

record document =
  d_kind :: string
  d_key :: string
  d_value :: jval
  d_author :: string
  d_schema :: string
  d_createdAt :: gotime
  d_onUpdate :: "string option"
  d_distributes :: "string list option"
  d_associate :: "string option"
  d_associationVariant :: "string option"
  d_policy :: "policy_ref option"

datatype proof_t = Proof
  (pf_type: string)
  (pf_signature: "string option")
  (pf_href: "string option")
  (pf_key: "string option")
  (pf_document: "string option")
  (pf_proof: "proof_t option")

datatype signed_document = SignedDocument
  (sd_cckv: "string option")
  (sd_ccfs: "string option")
  (sd_document: string)
  (sd_proof: proof_t)
  (sd_references: "(string \<times> signed_document) list")
  (sd_isPublic: "bool option")

fun set_isPublic :: "bool option \<Rightarrow> signed_document \<Rightarrow> signed_document" where
  "set_isPublic b (SignedDocument kv fs d p r _) = SignedDocument kv fs d p r b"

fun set_references :: "(string \<times> signed_document) list \<Rightarrow> signed_document \<Rightarrow> signed_document" where
  "set_references r (SignedDocument kv fs d p _ b) = SignedDocument kv fs d p r b"

fun set_cckv :: "string option \<Rightarrow> signed_document \<Rightarrow> signed_document" where
  "set_cckv kv (SignedDocument _ fs d p r b) = SignedDocument kv fs d p r b"

fun set_ccfs :: "string option \<Rightarrow> signed_document \<Rightarrow> signed_document" where
  "set_ccfs fs (SignedDocument kv _ d p r b) = SignedDocument kv fs d p r b"

text \<open>A signed document with only its text and proof set.\<close>

definition bare_sd :: "string \<Rightarrow> proof_t \<Rightarrow> signed_document" where
  "bare_sd d p = SignedDocument None None d p [] None"

section \<open>Decoding\<close>

record reference =
  rf_href :: string
  rf_schema :: "string option"
  rf_createdAt :: "gotime option"

record entity_value =
  ev_domain :: string
  ev_alias :: "string option"
  ev_aliasProofType :: "string option"

text \<open>\<^verbatim>\<open>json.Unmarshal\<close> into \<^verbatim>\<open>Document[T]\<close> for the \<^verbatim>\<open>T\<close> the sources use, \<^verbatim>\<open>json.Marshal\<close> of a
  \<^verbatim>\<open>Document[any]\<close>, and the Keccak-256 digest. \<open>None\<close> is a decoding or encoding error.\<close>

record codec =
  dec_doc :: "string \<Rightarrow> document option"
  dec_subkey :: "string \<Rightarrow> (document \<times> string) option"
  dec_revoked :: "string \<Rightarrow> (document \<times> signed_document) option"
  dec_reference :: "string \<Rightarrow> (document \<times> reference) option"
  dec_entity :: "string \<Rightarrow> (document \<times> entity_value) option"
  dec_delete :: "string \<Rightarrow> (document \<times> string) option"
  enc_doc :: "document \<Rightarrow> string option"
  keccak :: "string \<Rightarrow> 8 word list"

abbreviation SubkeyURL :: string where
  "SubkeyURL \<equiv> ''https://schema.concrnt.net/subkey.json''"
abbreviation RevokedSubkeyURL :: string where
  "RevokedSubkeyURL \<equiv> ''https://schema.concrnt.net/revoked-subkey.json''"
abbreviation ReferenceURL :: string where
  "ReferenceURL \<equiv> ''https://schema.concrnt.net/reference.json''"

definition ParsedDocument :: "codec \<Rightarrow> signed_document \<Rightarrow> document option" where
  "ParsedDocument C sd = dec_doc C (sd_document sd)"

text \<open>The identifier of a text created at a given time.\<close>

definition document_id :: "codec \<Rightarrow> string \<Rightarrow> gotime \<Rightarrow> string" where
  "document_id C text t = cdid_string (New (take 10 (keccak C text)) t)"

definition CDID :: "codec \<Rightarrow> signed_document \<Rightarrow> string option" where
  "CDID C sd = (case ParsedDocument C sd of None \<Rightarrow> None
     | Some doc \<Rightarrow> Some (document_id C (sd_document sd) (d_createdAt doc)))"

datatype derive_error = DeriveDecode | DeriveKind string | DeriveEncode

definition DeriveAcked :: "codec \<Rightarrow> signed_document \<Rightarrow> (derive_error, signed_document) result" where
  "DeriveAcked C sd = (case ParsedDocument C sd of None \<Rightarrow> Inl DeriveDecode
     | Some doc \<Rightarrow>
       let kind' = (if d_kind doc = ''ack'' then Some ''acked''
                    else if d_kind doc = ''unack'' then Some ''unacked'' else None)
       in (case kind' of None \<Rightarrow> Inl (DeriveKind (d_kind doc))
           | Some k \<Rightarrow> (case enc_doc C (doc\<lparr>d_kind := k\<rparr>) of None \<Rightarrow> Inl DeriveEncode
               | Some derived \<Rightarrow> Inr (bare_sd derived
                   (Proof ProofTypeDocumentDirect None None None (Some (sd_document sd)) (Some (sd_proof sd)))))))"

section \<open>Events\<close>

record event =
  e_type :: string
  e_source :: string
  e_uri :: string
  e_association :: "string option"
  e_references :: "(string \<times> signed_document) list"
  e_timestamp :: gotime

definition is_public :: "signed_document \<Rightarrow> bool" where
  "is_public sd \<longleftrightarrow> sd_isPublic sd = Some True"

text \<open>The documents of the second level that the public view keeps, without their own references.\<close>

definition public_nested :: "(string \<times> signed_document) list \<Rightarrow> (string \<times> signed_document) list" where
  "public_nested refs = map (\<lambda>(u, d). (u, set_references [] (set_isPublic None d)))
     (filter (\<lambda>(u, d). is_public d) refs)"

definition PublicView :: "event \<Rightarrow> event" where
  "PublicView e = (if e_references e = [] then e
     else e\<lparr>e_references := map (\<lambda>(u, d). (u, set_references (public_nested (sd_references d)) (set_isPublic None d)))
            (filter (\<lambda>(u, d). is_public d) (e_references e))\<rparr>)"

definition MarkAllPublic :: "event \<Rightarrow> event" where
  "MarkAllPublic e = (if e_references e = [] then e
     else e\<lparr>e_references := map (\<lambda>(u, d). (u, set_references
               (map (\<lambda>(v, n). (v, set_isPublic (Some True) n)) (sd_references d))
               (set_isPublic (Some True) d))) (e_references e)\<rparr>)"

function StripInternalFlags :: "signed_document \<Rightarrow> signed_document" where
  "StripInternalFlags (SignedDocument kv fs d p r b) =
     SignedDocument kv fs d p (map (\<lambda>(u, s). (u, StripInternalFlags s)) r) None"
  by pat_completeness auto
termination
  by (relation "measure size") (auto simp: less_Suc_eq_le intro!: trans_le_add2 size_list_estimation')

section \<open>Properties of documents and events\<close>

lemma set_isPublic_fields [simp]:
  "sd_cckv (set_isPublic b d) = sd_cckv d" "sd_ccfs (set_isPublic b d) = sd_ccfs d"
  "sd_document (set_isPublic b d) = sd_document d" "sd_proof (set_isPublic b d) = sd_proof d"
  "sd_references (set_isPublic b d) = sd_references d" "sd_isPublic (set_isPublic b d) = b"
  by (cases d; simp)+

lemma set_references_fields [simp]:
  "sd_cckv (set_references r d) = sd_cckv d" "sd_ccfs (set_references r d) = sd_ccfs d"
  "sd_document (set_references r d) = sd_document d" "sd_proof (set_references r d) = sd_proof d"
  "sd_references (set_references r d) = r" "sd_isPublic (set_references r d) = sd_isPublic d"
  by (cases d; simp)+

lemma set_cckv_ccfs_fields [simp]:
  "sd_cckv (set_cckv x d) = x" "sd_ccfs (set_cckv x d) = sd_ccfs d"
  "sd_document (set_cckv x d) = sd_document d" "sd_proof (set_cckv x d) = sd_proof d"
  "sd_references (set_cckv x d) = sd_references d" "sd_isPublic (set_cckv x d) = sd_isPublic d"
  "sd_cckv (set_ccfs x d) = sd_cckv d" "sd_ccfs (set_ccfs x d) = x"
  "sd_document (set_ccfs x d) = sd_document d" "sd_proof (set_ccfs x d) = sd_proof d"
  "sd_references (set_ccfs x d) = sd_references d" "sd_isPublic (set_ccfs x d) = sd_isPublic d"
  by (cases d; simp)+

text \<open>No document in the tree carries an internal flag.\<close>

inductive unflagged :: "signed_document \<Rightarrow> bool" where
  unflagged: "(\<And>u s. (u, s) \<in> set r \<Longrightarrow> unflagged s) \<Longrightarrow> unflagged (SignedDocument kv fs d p r None)"

inductive_simps unflagged_iff: "unflagged (SignedDocument kv fs d p r b)"

lemma unflagged_set:
  "unflagged (set_references r (set_isPublic None d)) \<longleftrightarrow> (\<forall>(u, s) \<in> set r. unflagged s)"
  by (cases d) (auto simp: unflagged_iff)

lemma unflagged_StripInternalFlags: "unflagged (StripInternalFlags sd)"
proof (induction sd rule: StripInternalFlags.induct)
  case (1 kv fs d p r b)
  then show ?case by (auto simp: unflagged_iff)
qed

lemma public_nested_mem:
  "(u, s) \<in> set (public_nested refs) \<longleftrightarrow>
     (\<exists>n. (u, n) \<in> set refs \<and> is_public n \<and> s = set_references [] (set_isPublic None n))"
  by (auto simp: public_nested_def)

lemma PublicView_refs:
  "e_references (PublicView e) = map (\<lambda>(u, d). (u, set_references (public_nested (sd_references d)) (set_isPublic None d)))
     (filter (\<lambda>(u, d). is_public d) (e_references e))"
  by (simp add: PublicView_def)

lemma PublicView_mem:
  "(u, s) \<in> set (e_references (PublicView e)) \<longleftrightarrow>
     (\<exists>d. (u, d) \<in> set (e_references e) \<and> is_public d
        \<and> s = set_references (public_nested (sd_references d)) (set_isPublic None d))"
  by (auto simp: PublicView_refs)

text \<open>C38. The public view of an event fails closed: every document it carries was flagged readable
  by an anonymous requester, and so was the document it is nested in; documents of a third level
  are gone, no internal flag is left, and texts and proofs are those of the event.\<close>

theorem PublicView_fail_closed:
  assumes "(u, s) \<in> set (e_references (PublicView e))"
  shows "unflagged s \<and> (\<exists>d. (u, d) \<in> set (e_references e) \<and> sd_isPublic d = Some True
      \<and> sd_document s = sd_document d \<and> sd_proof s = sd_proof d
      \<and> (\<forall>(v, n) \<in> set (sd_references s). sd_references n = [] \<and>
            (\<exists>m. (v, m) \<in> set (sd_references d) \<and> sd_isPublic m = Some True
               \<and> sd_document n = sd_document m \<and> sd_proof n = sd_proof m)))"
proof -
  from assms obtain d where d: "(u, d) \<in> set (e_references e)" "is_public d"
    and s: "s = set_references (public_nested (sd_references d)) (set_isPublic None d)"
    by (auto simp: PublicView_mem)
  have "unflagged s"
    unfolding s unflagged_set by (auto simp: public_nested_mem unflagged_set)
  moreover have "\<forall>(v, n) \<in> set (sd_references s). sd_references n = [] \<and>
            (\<exists>m. (v, m) \<in> set (sd_references d) \<and> sd_isPublic m = Some True
               \<and> sd_document n = sd_document m \<and> sd_proof n = sd_proof m)"
    by (fastforce simp: s public_nested_mem is_public_def)
  ultimately show ?thesis using d s by (auto simp: is_public_def)
qed

definition demo_sd :: "string \<Rightarrow> bool option \<Rightarrow> (string \<times> signed_document) list \<Rightarrow> signed_document" where
  "demo_sd d b r = SignedDocument None None d (Proof ''none'' None None None None None) r b"

definition demo_event :: event where
  "demo_event = \<lparr>e_type = ''created'', e_source = '''', e_uri = ''k'', e_association = None,
     e_references = [(''a'', demo_sd ''A'' (Some True) [(''b'', demo_sd ''B'' (Some True) [(''c'', demo_sd ''C'' (Some True) [])]),
                                                     (''s'', demo_sd ''S'' (Some False) [])]),
                     (''x'', demo_sd ''X'' None [])],
     e_timestamp = 0\<rparr>"

lemma demo_event_view:
  "e_references (PublicView demo_event) = [(''a'', demo_sd ''A'' None [(''b'', demo_sd ''B'' None [])])]"
  by (simp add: PublicView_def demo_event_def demo_sd_def is_public_def public_nested_def)

theorem PublicView_fail_closed_witness:
  "(''a'', demo_sd ''A'' None [(''b'', demo_sd ''B'' None [])]) \<in> set (e_references (PublicView demo_event))
   \<and> unflagged (demo_sd ''A'' None [(''b'', demo_sd ''B'' None [])])"
  using PublicView_fail_closed[of "''a''" "demo_sd ''A'' None [(''b'', demo_sd ''B'' None [])]" demo_event]
  by (simp add: demo_event_view)

text \<open>Republishing a remote server's public feed loses nothing: the public view of an event
  whose documents were all marked public keeps every document of the first two levels, in order,
  with the flags stripped, and drops only what is nested deeper.\<close>

theorem PublicView_MarkAllPublic:
  "e_references (PublicView (MarkAllPublic e)) =
     map (\<lambda>(u, d). (u, set_references (map (\<lambda>(v, n). (v, set_references [] (set_isPublic None n))) (sd_references d))
                          (set_isPublic None d))) (e_references e)"
proof -
  have idem: "set_isPublic a (set_isPublic b n) = set_isPublic a n" for a b n by (cases n) simp
  have nested: "public_nested (map (\<lambda>(v, n). (v, set_isPublic (Some True) n)) r)
      = map (\<lambda>(v, n). (v, set_references [] (set_isPublic None n))) r" for r
    by (induction r) (auto simp: public_nested_def is_public_def idem)
  have eq: "set_references a (set_isPublic b (set_references c (set_isPublic f d)))
      = set_references a (set_isPublic b d)" for a b c f d by (cases d) simp
  have "filter (\<lambda>(u, d). is_public d) (e_references (MarkAllPublic e)) = e_references (MarkAllPublic e)"
    by (intro filter_True) (auto simp: MarkAllPublic_def is_public_def)
  then show ?thesis
    by (auto simp: PublicView_refs MarkAllPublic_def nested eq)
qed

function texts :: "signed_document \<Rightarrow> (string \<times> proof_t) list" where
  "texts (SignedDocument kv fs d p r b) = (d, p) # concat (map (\<lambda>(u, s). texts s) r)"
  by pat_completeness auto
termination
  by (relation "measure size") (auto simp: less_Suc_eq_le intro!: trans_le_add2 size_list_estimation')

lemma texts_Strip: "texts (StripInternalFlags sd) = texts sd"
proof (induction sd rule: StripInternalFlags.induct)
  case (1 kv fs d p r b)
  then have "map (texts \<circ> StripInternalFlags \<circ> snd) r = map (texts \<circ> snd) r"
    by (intro map_cong) auto
  then show ?case by (simp only: StripInternalFlags.simps texts.simps map_map comp_def split_def fst_conv snd_conv)
qed

lemma Strip_unflagged: "unflagged sd \<Longrightarrow> StripInternalFlags sd = sd"
proof (induction rule: unflagged.induct)
  case (unflagged r kv fs d p)
  then have "map (\<lambda>(u, s). (u, StripInternalFlags s)) r = r"
    by (intro map_idI) auto
  then show ?case by simp
qed

text \<open>Stripping the internal flags of an inbound document removes them at every depth, keeps
  every text, proof and reference, and is the identity on exactly the documents that carry none.\<close>

theorem StripInternalFlags_spec:
  "unflagged (StripInternalFlags sd) \<and> texts (StripInternalFlags sd) = texts sd
   \<and> (StripInternalFlags sd = sd \<longleftrightarrow> unflagged sd)"
  using unflagged_StripInternalFlags[of sd] Strip_unflagged[of sd] texts_Strip[of sd] by auto

end
