(* ===== verification/Go_Url.thy ===== *)
theory Go_Url
  imports Conc_Prelude
begin

text \<open>
  What the sources use of Go's \<^verbatim>\<open>net/url\<close> and \<^verbatim>\<open>path\<close>: percent-decoding and encoding in each
  mode, \<^verbatim>\<open>url.Parse\<close>, \<^verbatim>\<open>URL.String\<close> and \<^verbatim>\<open>url.JoinPath\<close>. Every error of \<^verbatim>\<open>url.Parse\<close> is
  \<open>None\<close>. A bracketed IP literal in the authority is outside the protocol (an owner is a key
  identifier or a domain name) and is treated as a parse error.

  Shown here: the functions are the identity on texts of unreserved characters, so that a
  composed URI parses into its parts and its parent is the path without the last segment.
\<close>

section \<open>Characters and escapes\<close>

definition is_upper :: "char \<Rightarrow> bool" where
  "is_upper c \<longleftrightarrow> CHR ''A'' \<le> c \<and> c \<le> CHR ''Z''"

definition is_lower :: "char \<Rightarrow> bool" where
  "is_lower c \<longleftrightarrow> CHR ''a'' \<le> c \<and> c \<le> CHR ''z''"

definition is_num :: "char \<Rightarrow> bool" where
  "is_num c \<longleftrightarrow> CHR ''0'' \<le> c \<and> c \<le> CHR ''9''"

definition is_alnum :: "char \<Rightarrow> bool" where
  "is_alnum c \<longleftrightarrow> is_upper c \<or> is_lower c \<or> is_num c"

definition to_lower :: "char \<Rightarrow> char" where
  "to_lower c = (if is_upper c then char_of (of_char c + 32 :: nat) else c)"

fun unhex :: "char \<Rightarrow> nat option" where
  "unhex c = (if is_num c then Some (of_char c - 48)
     else if CHR ''a'' \<le> c \<and> c \<le> CHR ''f'' then Some (of_char c - 87)
     else if CHR ''A'' \<le> c \<and> c \<le> CHR ''F'' then Some (of_char c - 55) else None)"

definition upperhex :: string where
  "upperhex = ''0123456789ABCDEF''"

datatype enc_mode = EncPath | EncHost | EncUserPassword | EncQueryComponent | EncFragment

definition shouldEscape :: "char \<Rightarrow> enc_mode \<Rightarrow> bool" where
  "shouldEscape c mode =
     (if is_alnum c then False
      else if mode = EncHost \<and> c \<in> set ''!$&()*+,;=:[]<>'' \<union> {CHR 0x22, CHR 0x27} then False
      else if c \<in> set ''-_.~'' then False
      else if c \<in> set ''$&+,/:;=?@'' then
        (case mode of EncPath \<Rightarrow> c = CHR ''?''
         | EncUserPassword \<Rightarrow> c \<in> set ''@/?:''
         | EncQueryComponent \<Rightarrow> True
         | EncFragment \<Rightarrow> False
         | EncHost \<Rightarrow> True)
      else if mode = EncFragment \<and> c \<in> set ''!()*'' then False
      else True)"

text \<open>\<^verbatim>\<open>unescape\<close>: \<open>None\<close> on a malformed escape, on an escape of an ASCII byte other than \<open>%25\<close> in a
  host, and on a raw ASCII byte that a host may not contain.\<close>

fun unescape :: "enc_mode \<Rightarrow> string \<Rightarrow> string option" where
  "unescape mode [] = Some []"
| "unescape mode (c # cs) =
     (if c = CHR ''%'' then
        (case cs of h # l # rest \<Rightarrow>
           (case (unhex h, unhex l) of (Some a, Some b) \<Rightarrow>
              if mode = EncHost \<and> a < 8 \<and> \<not> (h = CHR ''2'' \<and> l = CHR ''5'') then None
              else map_option (Cons (char_of (16 * a + b))) (unescape mode rest)
            | _ \<Rightarrow> None)
         | _ \<Rightarrow> None)
      else if c = CHR ''+'' then
        map_option (Cons (if mode = EncQueryComponent then CHR '' '' else CHR ''+'')) (unescape mode cs)
      else if mode = EncHost \<and> (of_char c :: nat) < 128 \<and> shouldEscape c mode then None
      else map_option (Cons c) (unescape mode cs))"

definition escape_char :: "enc_mode \<Rightarrow> char \<Rightarrow> string" where
  "escape_char mode c =
     (if shouldEscape c mode then
        (if c = CHR '' '' \<and> mode = EncQueryComponent then ''+''
         else [CHR ''%'', upperhex ! (of_char c div 16), upperhex ! (of_char c mod 16)])
      else [c])"

definition escape :: "enc_mode \<Rightarrow> string \<Rightarrow> string" where
  "escape mode s = concat (map (escape_char mode) s)"

definition QueryUnescape :: "string \<Rightarrow> string option" where
  "QueryUnescape s = unescape EncQueryComponent s"

text \<open>\<^verbatim>\<open>validEncoded\<close> for a path: what may stand in it as written.\<close>

definition validEncoded :: "string \<Rightarrow> enc_mode \<Rightarrow> bool" where
  "validEncoded s mode \<longleftrightarrow> list_all (\<lambda>c. c \<in> set ''!$&()*+,;=:@[]%'' \<or> c = CHR 0x27 \<or> \<not> shouldEscape c mode) s"

section \<open>Parsing\<close>

record url =
  u_scheme :: string
  u_opaque :: string
  u_user :: "(string \<times> string option) option"
  u_host :: string
  u_path :: string
  u_rawPath :: string
  u_omitHost :: bool
  u_forceQuery :: bool
  u_rawQuery :: string
  u_fragment :: string
  u_rawFragment :: string

definition empty_url :: url where
  "empty_url = \<lparr>u_scheme = '''', u_opaque = '''', u_user = None, u_host = '''', u_path = '''',
     u_rawPath = '''', u_omitHost = False, u_forceQuery = False, u_rawQuery = '''',
     u_fragment = '''', u_rawFragment = ''''\<rparr>"

text \<open>\<^verbatim>\<open>getScheme\<close>: the scheme and the rest, an error when the text starts with a colon, and no scheme
  when a byte that cannot stand in one comes first. The first argument is what was read so far.\<close>

fun getScheme_at :: "string \<Rightarrow> string \<Rightarrow> (string \<times> string) option" where
  "getScheme_at acc [] = Some ('''', acc)"
| "getScheme_at acc (c # cs) =
     (if is_upper c \<or> is_lower c then getScheme_at (acc @ [c]) cs
      else if is_num c \<or> c \<in> set ''+-.'' then
        (if acc = [] then Some ('''', acc @ c # cs) else getScheme_at (acc @ [c]) cs)
      else if c = CHR '':'' then (if acc = [] then None else Some (acc, cs))
      else Some ('''', acc @ c # cs))"

definition getScheme :: "string \<Rightarrow> (string \<times> string) option" where
  "getScheme s = getScheme_at [] s"

definition validOptionalPort :: "string \<Rightarrow> bool" where
  "validOptionalPort p = (case p of [] \<Rightarrow> True | c # cs \<Rightarrow> c = CHR '':'' \<and> list_all is_num cs)"

definition parseHost :: "string \<Rightarrow> string option" where
  "parseHost host =
     (if CHR ''['' \<in> set host then None
      else if CHR '':'' \<in> set host
        \<and> \<not> validOptionalPort (CHR '':'' # fst (snd (cut_char CHR '':'' host))) then None
      else unescape EncHost host)"

definition validUserinfo :: "string \<Rightarrow> bool" where
  "validUserinfo s \<longleftrightarrow> list_all (\<lambda>c. is_alnum c \<or> c \<in> set ''-._:~!$&()*+,;=%@'' \<or> c = CHR 0x27) s"

definition parseAuthority :: "string \<Rightarrow> ((string \<times> string option) option \<times> string) option" where
  "parseAuthority a =
     (if CHR ''@'' \<notin> set a then map_option (\<lambda>h. (None, h)) (parseHost a)
      else (let (userinfo, hostpart) = cut_last CHR ''@'' a in
        (case parseHost hostpart of None \<Rightarrow> None
         | Some h \<Rightarrow>
            if \<not> validUserinfo userinfo then None
            else if CHR '':'' \<notin> set userinfo then
              map_option (\<lambda>u. (Some (u, None), h)) (unescape EncUserPassword userinfo)
            else (let (nm, pw, _) = cut_char CHR '':'' userinfo in
              (case (unescape EncUserPassword nm, unescape EncUserPassword pw) of
                 (Some n, Some w) \<Rightarrow> Some (Some (n, Some w), h) | _ \<Rightarrow> None)))))"

definition setPath :: "url \<Rightarrow> string \<Rightarrow> url option" where
  "setPath u p = (case unescape EncPath p of None \<Rightarrow> None
     | Some q \<Rightarrow> Some (u\<lparr>u_path := q, u_rawPath := (if p = escape EncPath q then '''' else p)\<rparr>))"

definition has_ctl :: "string \<Rightarrow> bool" where
  "has_ctl s \<longleftrightarrow> list_ex (\<lambda>c. (of_char c :: nat) < 32 \<or> of_char c = (127 :: nat)) s"

definition split_query :: "string \<Rightarrow> bool \<times> string \<times> string" where
  "split_query rest =
     (if has_suffix rest ''?'' \<and> length (filter (\<lambda>c. c = CHR ''?'') rest) = 1
      then (True, butlast rest, '''')
      else (let (r, q, _) = cut_char CHR ''?'' rest in (False, r, q)))"

definition parse_no_frag :: "string \<Rightarrow> url option" where
  "parse_no_frag raw =
     (if has_ctl raw then None
      else if raw = ''*'' then Some (empty_url\<lparr>u_path := ''*''\<rparr>)
      else (case getScheme raw of None \<Rightarrow> None
        | Some (sch, rest0) \<Rightarrow>
          let scheme = map to_lower sch; (fq, rest, q) = split_query rest0;
              u = empty_url\<lparr>u_scheme := scheme, u_forceQuery := fq, u_rawQuery := q\<rparr>
          in if \<not> has_prefix rest ''/'' \<and> scheme \<noteq> '''' then Some (u\<lparr>u_opaque := rest\<rparr>)
             else if \<not> has_prefix rest ''/'' \<and> CHR '':'' \<in> set (fst (cut_char CHR ''/'' rest)) then None
             else if (scheme \<noteq> '''' \<or> \<not> has_prefix rest ''///'') \<and> has_prefix rest ''//'' then
               (let auth = takeWhile (\<lambda>c. c \<noteq> CHR ''/'') (drop 2 rest);
                    path = dropWhile (\<lambda>c. c \<noteq> CHR ''/'') (drop 2 rest)
                in (case parseAuthority auth of None \<Rightarrow> None
                    | Some (usr, h) \<Rightarrow> setPath (u\<lparr>u_user := usr, u_host := h\<rparr>) path))
             else setPath (u\<lparr>u_omitHost := (scheme \<noteq> '''' \<and> has_prefix rest ''/'')\<rparr>) rest))"

definition url_parse :: "string \<Rightarrow> url option" where
  "url_parse raw = (let (r, frag, _) = cut_char CHR ''#'' raw in
     (case parse_no_frag r of None \<Rightarrow> None
      | Some u \<Rightarrow> if frag = '''' then Some u
         else (case unescape EncFragment frag of None \<Rightarrow> None
               | Some f \<Rightarrow> Some (u\<lparr>u_fragment := f,
                   u_rawFragment := (if frag = escape EncFragment f then '''' else frag)\<rparr>))))"

section \<open>Printing and joining\<close>

definition EscapedPath :: "url \<Rightarrow> string" where
  "EscapedPath u =
     (if u_rawPath u \<noteq> '''' \<and> validEncoded (u_rawPath u) EncPath
         \<and> unescape EncPath (u_rawPath u) = Some (u_path u) then u_rawPath u
      else if u_path u = ''*'' then ''*'' else escape EncPath (u_path u))"

definition EscapedFragment :: "url \<Rightarrow> string" where
  "EscapedFragment u =
     (if u_rawFragment u \<noteq> '''' \<and> validEncoded (u_rawFragment u) EncFragment
         \<and> unescape EncFragment (u_rawFragment u) = Some (u_fragment u) then u_rawFragment u
      else escape EncFragment (u_fragment u))"

definition userinfo_string :: "(string \<times> string option) \<Rightarrow> string" where
  "userinfo_string ui = escape EncUserPassword (fst ui)
     @ (case snd ui of None \<Rightarrow> '''' | Some w \<Rightarrow> '':'' @ escape EncUserPassword w)"

definition url_string :: "url \<Rightarrow> string" where
  "url_string u =
     (let scheme = (if u_scheme u \<noteq> '''' then u_scheme u @ '':'' else '''');
          auth = (if (u_scheme u \<noteq> '''' \<or> u_host u \<noteq> '''' \<or> u_user u \<noteq> None)
                     \<and> \<not> (u_omitHost u \<and> u_host u = '''' \<and> u_user u = None)
                  then (if u_host u \<noteq> '''' \<or> u_path u \<noteq> '''' \<or> u_user u \<noteq> None then ''//'' else '''')
                    @ (case u_user u of None \<Rightarrow> '''' | Some ui \<Rightarrow> userinfo_string ui @ ''@'')
                    @ escape EncHost (u_host u)
                  else '''');
          path = EscapedPath u;
          slash = (if path \<noteq> '''' \<and> \<not> has_prefix path ''/'' \<and> u_host u \<noteq> '''' then ''/'' else '''');
          dot = (if scheme @ auth @ slash = '''' \<and> CHR '':'' \<in> set (fst (cut_char CHR ''/'' path))
                 then ''./'' else '''');
          body = (if u_opaque u \<noteq> '''' then u_opaque u else auth @ slash @ dot @ path)
      in scheme @ body
         @ (if u_forceQuery u \<or> u_rawQuery u \<noteq> '''' then ''?'' @ u_rawQuery u else '''')
         @ (if u_fragment u \<noteq> '''' then ''#'' @ EscapedFragment u else ''''))"

text \<open>\<^verbatim>\<open>path.Clean\<close> of a rooted path, on its segments: empty and \<open>.\<close> segments vanish, \<open>..\<close> removes
  the segment before it. The accumulator holds the segments kept so far, last first.\<close>

fun clean_segs :: "string list \<Rightarrow> string list \<Rightarrow> string list" where
  "clean_segs acc [] = rev acc"
| "clean_segs acc (s # ss) =
     (if s = '''' \<or> s = ''.'' then clean_segs acc ss
      else if s = ''..'' then clean_segs (drop 1 acc) ss
      else clean_segs (s # acc) ss)"

definition path_join_rooted :: "string list \<Rightarrow> string" where
  "path_join_rooted elems = ''/'' @ join_with ''/'' (clean_segs [] (split_char CHR ''/''
     (join_with ''/'' (filter (\<lambda>e. e \<noteq> '''') elems))))"

text \<open>\<^verbatim>\<open>url.JoinPath(base, elem)\<close> with one element.\<close>

definition join_path_url :: "url \<Rightarrow> string \<Rightarrow> url option" where
  "join_path_url u elem =
     (let e = EscapedPath u;
          p = (if has_prefix e ''/'' then path_join_rooted [e, elem]
               else drop 1 (path_join_rooted [''/'' @ e, elem]));
          p' = (if has_suffix elem ''/'' \<and> \<not> has_suffix p ''/'' then p @ ''/'' else p)
      in setPath u p')"

definition JoinPath :: "string \<Rightarrow> string \<Rightarrow> string option" where
  "JoinPath base elem = (case url_parse base of None \<Rightarrow> None
     | Some u \<Rightarrow> map_option url_string (join_path_url u elem))"

section \<open>Texts of unreserved characters\<close>

definition unreserved :: "char \<Rightarrow> bool" where
  "unreserved c \<longleftrightarrow> is_alnum c \<or> c \<in> set ''-_.~''"

definition safe :: "string \<Rightarrow> bool" where
  "safe s \<longleftrightarrow> list_all unreserved s"

definition safe_path :: "string \<Rightarrow> bool" where
  "safe_path s \<longleftrightarrow> list_all (\<lambda>c. unreserved c \<or> c = CHR ''/'') s"

definition lower_word :: "string \<Rightarrow> bool" where
  "lower_word s \<longleftrightarrow> s \<noteq> [] \<and> list_all is_lower s"

lemma alnum_ranges: "is_alnum c \<Longrightarrow> 48 \<le> (of_char c :: nat) \<and> (of_char c :: nat) < 123"
  by (auto simp: is_alnum_def is_upper_def is_lower_def is_num_def less_eq_char_def)

lemma reserved_simps [simp]:
  "\<not> unreserved CHR ''%''" "\<not> unreserved CHR ''+''" "\<not> unreserved CHR '':''" "\<not> unreserved CHR ''@''"
  "\<not> unreserved CHR ''/''" "\<not> unreserved CHR ''?''" "\<not> unreserved CHR ''#''" "\<not> unreserved CHR ''[''"
  "\<not> unreserved CHR ''*''"
  by (simp_all add: unreserved_def is_alnum_def is_upper_def is_lower_def is_num_def less_eq_char_def)

lemma unreserved_noescape: "unreserved c \<Longrightarrow> \<not> shouldEscape c m"
  by (auto simp: unreserved_def shouldEscape_def)

lemma unreserved_range:
  "unreserved c \<Longrightarrow> \<not> ((of_char c :: nat) < 32) \<and> (of_char c :: nat) \<noteq> 127"
  using alnum_ranges[of c] by (auto simp: unreserved_def)

lemma unreserved_neq:
  "unreserved c \<Longrightarrow> c \<noteq> CHR ''%''" "unreserved c \<Longrightarrow> c \<noteq> CHR ''+''" "unreserved c \<Longrightarrow> c \<noteq> CHR ''/''"
  by auto

lemmas unreserved_props = unreserved_noescape unreserved_range unreserved_neq

lemma slash_path [simp]: "\<not> shouldEscape CHR ''/'' EncPath"
  by (simp add: shouldEscape_def)

lemma safe_simps [simp]: "safe []" "safe (c # s) \<longleftrightarrow> unreserved c \<and> safe s"
  "safe (s @ t) \<longleftrightarrow> safe s \<and> safe t"
  by (simp_all add: safe_def)

lemma safe_path_simps [simp]: "safe_path []" "safe_path (c # s) \<longleftrightarrow> (unreserved c \<or> c = CHR ''/'') \<and> safe_path s"
  "safe_path (s @ t) \<longleftrightarrow> safe_path s \<and> safe_path t"
  by (simp_all add: safe_path_def)

lemma safe_imp_path: "safe s \<Longrightarrow> safe_path s"
  by (auto simp: safe_def safe_path_def list_all_iff)

lemma safe_notin: assumes "safe s"
  shows "CHR ''%'' \<notin> set s" "CHR ''+'' \<notin> set s" "CHR '':'' \<notin> set s" "CHR ''@'' \<notin> set s"
    "CHR ''/'' \<notin> set s" "CHR ''?'' \<notin> set s" "CHR ''#'' \<notin> set s" "CHR ''['' \<notin> set s" "CHR ''*'' \<notin> set s"
  using assms by (auto simp: safe_def list_all_iff dest!: bspec)

lemma safe_path_notin: assumes "safe_path s"
  shows "CHR '':'' \<notin> set s" "CHR ''?'' \<notin> set s" "CHR ''#'' \<notin> set s"
  using assms by (auto simp: safe_path_def list_all_iff dest!: bspec)

lemma unescape_safe: "safe s \<Longrightarrow> unescape m s = Some s"
  by (induction s) (auto simp: unreserved_props)

lemma unescape_path_safe: "safe_path s \<Longrightarrow> m \<noteq> EncHost \<Longrightarrow> unescape m s = Some s"
  by (induction s) (auto simp: unreserved_props)

lemma escape_safe: "safe s \<Longrightarrow> escape m s = s"
  by (induction s) (auto simp: escape_def escape_char_def unreserved_props)

lemma escape_path_safe: "safe_path s \<Longrightarrow> escape EncPath s = s"
  by (induction s) (auto simp: escape_def escape_char_def unreserved_props)

lemma has_ctl_simps [simp]: "has_ctl [] = False"
  "has_ctl (c # s) = ((of_char c :: nat) < 32 \<or> of_char c = (127 :: nat) \<or> has_ctl s)"
  "has_ctl (s @ t) = (has_ctl s \<or> has_ctl t)"
  by (simp_all add: has_ctl_def)

lemma safe_path_no_ctl: "safe_path s \<Longrightarrow> \<not> has_ctl s"
  by (induction s) (auto simp: unreserved_props)

lemma lower_props: "is_lower c \<Longrightarrow> unreserved c \<and> to_lower c = c"
  by (auto simp: unreserved_def is_alnum_def to_lower_def is_upper_def is_lower_def less_eq_char_def)

lemma lower_word_safe: "lower_word s \<Longrightarrow> safe s"
  using lower_props by (auto simp: lower_word_def safe_def list_all_iff)

lemma getScheme_at_lower:
  "list_all is_lower s \<Longrightarrow> acc @ s \<noteq> [] \<Longrightarrow> getScheme_at acc (s @ CHR '':'' # r) = Some (acc @ s, r)"
proof (induction s arbitrary: acc)
  case Nil
  have "\<not> is_upper CHR '':''" "\<not> is_lower CHR '':''" "\<not> is_num CHR '':''"
    by (simp_all add: is_upper_def is_lower_def is_num_def less_eq_char_def)
  with Nil show ?case by simp
qed auto

lemma getScheme_lower: "lower_word s \<Longrightarrow> getScheme (s @ CHR '':'' # r) = Some (s, r)"
  using getScheme_at_lower[of s "[]" r] by (simp add: getScheme_def lower_word_def)

lemma split_query_none: "CHR ''?'' \<notin> set r \<Longrightarrow> split_query r = (False, r, '''')"
  by (auto simp: split_query_def cut_char_none has_suffix_iff Let_def)

lemma map_to_lower: "lower_word s \<Longrightarrow> map to_lower s = s"
  using lower_props by (auto simp: lower_word_def list_all_iff intro!: map_idI)

lemma setPath_safe: "safe_path p \<Longrightarrow> setPath u p = Some (u\<lparr>u_path := p, u_rawPath := ''''\<rparr>)"
  by (simp add: setPath_def unescape_path_safe escape_path_safe)

definition path_ok :: "string \<Rightarrow> bool" where
  "path_ok p \<longleftrightarrow> safe_path p \<and> (p = [] \<or> (\<exists>q. p = CHR ''/'' # q))"

text \<open>A composed URI: a scheme of lower-case letters, an authority without a slash, a path.\<close>

lemma url_parse_authority:
  assumes "lower_word sch" and "path_ok p" and "\<not> has_ctl a"
    and "CHR ''/'' \<notin> set a" "CHR ''?'' \<notin> set a" "CHR ''#'' \<notin> set a"
    and "parseAuthority a = Some (usr, h)"
  shows "url_parse (sch @ ''://'' @ a @ p)
      = Some (empty_url\<lparr>u_scheme := sch, u_user := usr, u_host := h, u_path := p\<rparr>)"
proof -
  let ?s = "sch @ ''://'' @ a @ p"
  have sp: "safe_path p" and sw: "safe sch" using assms lower_word_safe by (auto simp: path_ok_def)
  have ne: "sch \<noteq> []" using assms(1) by (simp add: lower_word_def)
  have frag: "cut_char CHR ''#'' ?s = (?s, [], False)"
    using safe_path_notin[OF sp] safe_notin[OF sw] assms by (intro cut_char_none) auto
  have ctl: "\<not> has_ctl ?s"
    using safe_path_no_ctl[OF sp] safe_path_no_ctl[OF safe_imp_path[OF sw]] assms(3) by simp
  have star: "?s \<noteq> ''*''" using safe_notin[OF sw] ne by (cases sch) auto
  have q: "split_query (''//'' @ a @ p) = (False, ''//'' @ a @ p, '''')"
    using safe_path_notin[OF sp] assms by (intro split_query_none) auto
  have "p = [] \<or> (\<exists>q. p = CHR ''/'' # q)" using assms(2) by (simp add: path_ok_def)
  then have tw: "takeWhile (\<lambda>c. c \<noteq> CHR ''/'') (a @ p) = a" "dropWhile (\<lambda>c. c \<noteq> CHR ''/'') (a @ p) = p"
    by (elim disjE exE; simp only: append_Nil2 while_before[OF assms(4)])+
  have pre: "has_prefix (''//'' @ a @ p) ''/''" "has_prefix (''//'' @ a @ p) ''//''"
    by (simp_all add: has_prefix_def)
  have "getScheme ?s = Some (sch, ''//'' @ a @ p)"
    using getScheme_lower[OF assms(1), of "''//'' @ a @ p"] by simp
  then have "parse_no_frag ?s = setPath (empty_url\<lparr>u_scheme := sch, u_forceQuery := False,
      u_rawQuery := '''', u_user := usr, u_host := h\<rparr>) p"
    unfolding parse_no_frag_def if_not_P[OF ctl] if_not_P[OF star] Let_def
    by (simp only: option.case prod.case map_to_lower[OF assms(1)] q pre ne simp_thms if_True if_False)
      (simp add: tw assms(7))
  then show ?thesis
    unfolding url_parse_def frag Let_def by (simp add: setPath_safe[OF sp] empty_url_def)
qed

lemma parseHost_safe: "safe h \<Longrightarrow> parseHost h = Some h"
  using safe_notin[of h] by (simp add: parseHost_def unescape_safe)

lemma parseAuthority_plain: "safe h \<Longrightarrow> parseAuthority h = Some (None, h)"
  using safe_notin[of h] by (simp add: parseAuthority_def parseHost_safe)

lemma parseAuthority_user: "safe o1 \<Longrightarrow> safe h \<Longrightarrow> parseAuthority (o1 @ ''@'' @ h) = Some (Some (o1, None), h)"
proof -
  assume a: "safe o1" "safe h"
  have "list_all (\<lambda>c. is_alnum c \<or> c \<in> set ''-._:~!$&()*+,;=%@'' \<or> c = CHR 0x27) o1"
    using a(1) by (auto simp: safe_def list_all_iff unreserved_def)
  then show ?thesis
    using a safe_notin[OF a(1)] safe_notin[OF a(2)] cut_last_append[of "CHR ''@''" h o1]
    by (simp add: parseAuthority_def parseHost_safe validUserinfo_def unescape_safe)
qed

lemma url_parse_plain:
  assumes "lower_word sch" "path_ok p" "safe h"
  shows "url_parse (sch @ ''://'' @ h @ p) = Some (empty_url\<lparr>u_scheme := sch, u_host := h, u_path := p\<rparr>)"
  using url_parse_authority[OF assms(1,2) _ _ _ _ parseAuthority_plain[OF assms(3)]]
    safe_notin[OF assms(3)] safe_path_no_ctl[OF safe_imp_path[OF assms(3)]]
  by (simp add: empty_url_def)

lemma url_parse_user:
  assumes "lower_word sch" "path_ok p" "safe o1" "safe h"
  shows "url_parse (sch @ ''://'' @ o1 @ ''@'' @ h @ p)
    = Some (empty_url\<lparr>u_scheme := sch, u_user := Some (o1, None), u_host := h, u_path := p\<rparr>)"
  using url_parse_authority[OF assms(1,2) _ _ _ _ parseAuthority_user[OF assms(3,4)]]
    safe_notin[OF assms(3)] safe_notin[OF assms(4)] safe_path_no_ctl[OF safe_imp_path[OF assms(3)]]
    safe_path_no_ctl[OF safe_imp_path[OF assms(4)]]
  by simp

section \<open>Composed URIs, their parents and children\<close>

text \<open>A path segment that \<^verbatim>\<open>path.Clean\<close> and the escapes leave alone.\<close>

definition seg_ok :: "string \<Rightarrow> bool" where
  "seg_ok s \<longleftrightarrow> s \<noteq> [] \<and> s \<noteq> ''.'' \<and> s \<noteq> ''..'' \<and> safe s"

definition mk_uri :: "string \<Rightarrow> string \<Rightarrow> string list \<Rightarrow> string" where
  "mk_uri sch own ss = sch @ ''://'' @ own @ ''/'' @ join_with ''/'' ss"

lemma seg_ok_notin: "seg_ok s \<Longrightarrow> CHR ''/'' \<notin> set s"
  using safe_notin(5) by (auto simp: seg_ok_def)

lemma clean_segs_ok: "list_all seg_ok ss \<Longrightarrow> clean_segs acc (ss @ r) = clean_segs (rev ss @ acc) r"
  by (induction ss arbitrary: acc) (auto simp: seg_ok_def)

lemma join_with_snoc: "ws \<noteq> [] \<Longrightarrow> join_with sep (ws @ [w]) = join_with sep ws @ sep @ w"
  by (induction sep ws rule: join_with.induct) auto

lemma join_with_Cons: "ws \<noteq> [] \<Longrightarrow> join_with sep (w # ws) = w @ sep @ join_with sep ws"
  by (cases ws) auto

lemma safe_path_join: "list_all seg_ok ss \<Longrightarrow> safe_path (join_with ''/'' ss)"
  by (induction "''/''" ss rule: join_with.induct) (auto simp: seg_ok_def intro: safe_imp_path)

lemma split_rooted:
  assumes "list_all seg_ok ss" and "CHR ''/'' \<notin> set e"
  shows "split_char CHR ''/'' (''/'' @ join_with ''/'' ss @ ''/'' @ e)
      = (if ss = [] then ['''', '''', e] else '''' # ss @ [e])"
proof (cases "ss = []")
  case True
  with assms show ?thesis by (simp add: split_char_none)
next
  case False
  then have "''/'' @ join_with ''/'' ss @ ''/'' @ e = join_with ''/'' ('''' # ss @ [e])"
    by (simp add: join_with_Cons join_with_snoc)
  moreover have "split_char CHR ''/'' (join_with ''/'' ('''' # ss @ [e])) = '''' # ss @ [e]"
    using assms seg_ok_notin by (intro split_join) (auto simp: list_all_iff)
  ultimately show ?thesis using False by simp
qed

lemma path_join_rooted_ok:
  assumes "list_all seg_ok ss"
  shows "path_join_rooted [''/'' @ join_with ''/'' ss, ''..''] = ''/'' @ join_with ''/'' (butlast ss)"
    and "seg_ok e \<Longrightarrow> path_join_rooted [''/'' @ join_with ''/'' ss, e] = ''/'' @ join_with ''/'' (ss @ [e])"
proof -
  have c: "clean_segs [] (ss @ [e]) = clean_segs (rev ss) [e]" for e
    using clean_segs_ok[OF assms, of "[]" "[e]"] by simp
  have pj: "path_join_rooted [''/'' @ join_with ''/'' ss, e]
      = ''/'' @ join_with ''/'' (clean_segs (rev ss) [e])" if "e \<noteq> []" "CHR ''/'' \<notin> set e" for e
    using split_rooted[OF assms that(2)] c[of e] that(1) unfolding path_join_rooted_def
    by (cases "ss = []") simp_all
  show "path_join_rooted [''/'' @ join_with ''/'' ss, ''..''] = ''/'' @ join_with ''/'' (butlast ss)"
    using pj[of "''..''"] by (cases ss rule: rev_cases) simp_all
  show "path_join_rooted [''/'' @ join_with ''/'' ss, e] = ''/'' @ join_with ''/'' (ss @ [e])" if "seg_ok e"
    using pj[of e] that seg_ok_notin[OF that] by (simp add: seg_ok_def)
qed

lemma url_string_plain:
  assumes "safe_path p" and "has_prefix p ''/''" and "safe h" and "sch \<noteq> []" "h \<noteq> []"
  shows "url_string (empty_url\<lparr>u_scheme := sch, u_host := h, u_path := p\<rparr>) = sch @ ''://'' @ h @ p"
proof -
  have "p \<noteq> ''*''" using assms(2) by (auto simp: has_prefix_def)
  then show ?thesis
    using assms by (simp add: url_string_def EscapedPath_def empty_url_def escape_safe escape_path_safe)
qed

lemma has_suffix_last: "has_suffix e [c] \<longleftrightarrow> e \<noteq> [] \<and> last e = c"
  by (cases e rule: rev_cases) (auto simp: has_suffix_iff)

lemma JoinPath_mk_uri:
  assumes "lower_word sch" "safe own" "own \<noteq> []" "list_all seg_ok ss"
    and "\<not> has_suffix e ''/''" and "list_all seg_ok ss'"
    and "path_join_rooted [''/'' @ join_with ''/'' ss, e] = ''/'' @ join_with ''/'' ss'"
  shows "JoinPath (mk_uri sch own ss) e = Some (mk_uri sch own ss')"
proof -
  let ?p = "''/'' @ join_with ''/'' ss" and ?p' = "''/'' @ join_with ''/'' ss'"
  have sp: "safe_path ?p" "safe_path ?p'" using assms safe_path_join by auto
  then have "path_ok ?p" by (simp add: path_ok_def)
  then have parse: "url_parse (mk_uri sch own ss) = Some (empty_url\<lparr>u_scheme := sch, u_host := own, u_path := ?p\<rparr>)"
    using url_parse_plain[OF assms(1) _ assms(2)] by (simp add: mk_uri_def)
  have esc: "EscapedPath (empty_url\<lparr>u_scheme := sch, u_host := own, u_path := ?p\<rparr>) = ?p"
    using escape_path_safe[OF sp(1)] by (simp add: EscapedPath_def empty_url_def)
  have "join_path_url (empty_url\<lparr>u_scheme := sch, u_host := own, u_path := ?p\<rparr>) e
      = Some (empty_url\<lparr>u_scheme := sch, u_host := own, u_path := ?p'\<rparr>)"
    using assms(5,7) esc setPath_safe[OF sp(2)]
    by (simp add: join_path_url_def has_prefix_def empty_url_def)
  moreover have "url_string (empty_url\<lparr>u_scheme := sch, u_host := own, u_path := ?p'\<rparr>) = mk_uri sch own ss'"
    using url_string_plain[OF sp(2) _ assms(2) _ assms(3), of sch] assms(1)
    by (simp add: mk_uri_def has_prefix_def lower_word_def)
  ultimately show ?thesis by (simp add: JoinPath_def parse)
qed

text \<open>The parent of a composed URI drops its last segment, and the owner's root is its own parent.\<close>

lemma JoinPath_parent:
  assumes "lower_word sch" "safe own" "own \<noteq> []" "list_all seg_ok ss"
  shows "JoinPath (mk_uri sch own ss) ''..'' = Some (mk_uri sch own (butlast ss))"
  using assms by (intro JoinPath_mk_uri path_join_rooted_ok)
    (auto simp: has_suffix_last list_all_iff dest: in_set_butlastD)

lemma JoinPath_child:
  assumes "lower_word sch" "safe own" "own \<noteq> []" "list_all seg_ok ss" "seg_ok e"
  shows "JoinPath (mk_uri sch own ss) e = Some (mk_uri sch own (ss @ [e]))"
  using assms seg_ok_notin[OF assms(5)] by (intro JoinPath_mk_uri path_join_rooted_ok)
    (auto simp: has_suffix_last seg_ok_def dest!: last_in_set)

end
