(* ===== verification/Ccuri.thy ===== *)
theory Ccuri
  imports Documents Go_Url
begin

text \<open>
  Concrnt URIs, \<^verbatim>\<open>src/utils.go\<close>: the \<^verbatim>\<open>CCURI\<close> struct, its printer and parser, the composers and
  the tests for key identifiers.

  Shown here: printing and parsing are inverse on well-formed URIs of both schemes, with and
  without a resolver hint; what a parsed URI looks like; that a parsed URI's printed form parses
  to the same parts, the legacy flat \<^verbatim>\<open>ccfs\<close> form included.
\<close>

abbreviation CCFSTypeConcrnt :: string where "CCFSTypeConcrnt \<equiv> ''concrnt''"
abbreviation CCFSTypeBlob :: string where "CCFSTypeBlob \<equiv> ''blob''"

record ccuri =
  cu_scheme :: string
  cu_owner :: string
  cu_key :: string
  cu_type :: string
  cu_cdid :: string
  cu_hint :: "string option"
  cu_raw :: string

definition zero_ccuri :: ccuri where
  "zero_ccuri = \<lparr>cu_scheme = '''', cu_owner = '''', cu_key = '''', cu_type = '''', cu_cdid = '''',
     cu_hint = None, cu_raw = ''''\<rparr>"

definition ccuri_string :: "ccuri \<Rightarrow> string" where
  "ccuri_string c =
     (if cu_scheme c = ''cckv'' then
        (let result = (case cu_hint c of
             Some h \<Rightarrow> ''cckv://'' @ cu_owner c @ ''@'' @ h @ ''/'' @ cu_key c
           | None \<Rightarrow> ''cckv://'' @ cu_owner c @ ''/'' @ cu_key c)
         in if cu_key c = '''' then trim_suffix result ''/'' else result)
      else if cu_scheme c = ''ccfs'' then
        (case cu_hint c of
           Some h \<Rightarrow> ''ccfs://'' @ cu_owner c @ ''@'' @ h @ ''/'' @ cu_type c @ ''/'' @ cu_cdid c
         | None \<Rightarrow> ''ccfs://'' @ cu_owner c @ ''/'' @ cu_type c @ ''/'' @ cu_cdid c)
      else cu_raw c)"

definition isSha256Hex :: "string \<Rightarrow> bool" where
  "isSha256Hex s \<longleftrightarrow> length s = 64 \<and> list_all (\<lambda>c. (CHR ''0'' \<le> c \<and> c \<le> CHR ''9'')
     \<or> (CHR ''a'' \<le> c \<and> c \<le> CHR ''f'') \<or> (CHR ''A'' \<le> c \<and> c \<le> CHR ''F'')) s"

datatype ccuri_error = InvalidEncoding | InvalidUri | InvalidOwnerEncoding | InvalidCcfsType string
  | InvalidBlobHash | InvalidCcfs | UnsupportedScheme string

text \<open>The owner and the hint of an authority.\<close>

definition url_owner :: "url \<Rightarrow> string \<times> string option" where
  "url_owner u = (case u_user u of
      Some (nm, _) \<Rightarrow> if nm \<noteq> '''' then (nm, Some (u_host u)) else (''@'' @ u_host u, None)
    | None \<Rightarrow> (u_host u, None))"

text \<open>The type and hash of a \<^verbatim>\<open>ccfs\<close> path.\<close>

definition ccfs_parts :: "string \<Rightarrow> (ccuri_error, string \<times> string) result" where
  "ccfs_parts key = (case split_char CHR ''/'' key of
      [h] \<Rightarrow> if h \<noteq> '''' \<and> h \<noteq> CCFSTypeConcrnt \<and> h \<noteq> CCFSTypeBlob then Inr (CCFSTypeConcrnt, h)
             else Inl InvalidCcfs
    | [t, h] \<Rightarrow> if t \<noteq> '''' \<and> h \<noteq> '''' then
               (if t \<noteq> CCFSTypeConcrnt \<and> t \<noteq> CCFSTypeBlob then Inl (InvalidCcfsType t)
                else if t = CCFSTypeBlob \<and> \<not> isSha256Hex h then Inl InvalidBlobHash
                else Inr (t, h))
             else Inl InvalidCcfs
    | _ \<Rightarrow> Inl InvalidCcfs)"

definition ccuri_of_url :: "string \<Rightarrow> url \<Rightarrow> (ccuri_error, ccuri) result" where
  "ccuri_of_url uriString uri =
     (let path = u_path uri; key = trim_prefix path ''/''; (own0, hint) = url_owner uri
      in (case QueryUnescape own0 of None \<Rightarrow> Inl InvalidOwnerEncoding
          | Some own \<Rightarrow>
            if u_scheme uri = ''cckv'' then
              Inr (zero_ccuri\<lparr>cu_scheme := ''cckv'', cu_owner := own, cu_key := key, cu_hint := hint, cu_raw := uriString\<rparr>)
            else if u_scheme uri = ''ccfs'' then
              (case ccfs_parts key of Inl e \<Rightarrow> Inl e
               | Inr (t, h) \<Rightarrow> Inr (zero_ccuri\<lparr>cu_scheme := ''ccfs'', cu_owner := own, cu_type := t, cu_cdid := h,
                                   cu_hint := hint, cu_raw := uriString\<rparr>))
            else if u_scheme uri = ''http'' \<or> u_scheme uri = ''https'' then
              Inr (zero_ccuri\<lparr>cu_scheme := ''http'', cu_raw := uriString\<rparr>)
            else if u_scheme uri = '''' then
              Inr (zero_ccuri\<lparr>cu_scheme := ''cckv'', cu_owner := path, cu_raw := uriString\<rparr>)
            else Inl (UnsupportedScheme (u_scheme uri))))"

definition ParseCCURI :: "string \<Rightarrow> (ccuri_error, ccuri) result" where
  "ParseCCURI escaped =
     (case QueryUnescape escaped of None \<Rightarrow> Inl InvalidEncoding
      | Some uriString \<Rightarrow> (case url_parse uriString of None \<Rightarrow> Inl InvalidUri
          | Some uri \<Rightarrow> ccuri_of_url uriString uri))"

definition ComposeCCURI :: "string \<Rightarrow> string \<Rightarrow> string \<Rightarrow> string" where
  "ComposeCCURI scheme own key = url_string (empty_url\<lparr>u_scheme := scheme, u_host := own, u_path := key\<rparr>)"

definition ComposeCCFSURI :: "string \<Rightarrow> string \<Rightarrow> string \<Rightarrow> string" where
  "ComposeCCFSURI own ccfsType h = ComposeCCURI ''ccfs'' own (ccfsType @ ''/'' @ h)"

definition hasChar :: "string \<Rightarrow> char \<Rightarrow> bool" where
  "hasChar s c \<longleftrightarrow> list_ex (\<lambda>x. x = c) s"

definition IsCCID :: "string \<Rightarrow> bool" where
  "IsCCID k \<longleftrightarrow> length k = 42 \<and> take 3 k = ''con'' \<and> \<not> hasChar k CHR ''.''"

definition IsCSID :: "string \<Rightarrow> bool" where
  "IsCSID k \<longleftrightarrow> length k = 42 \<and> take 3 k = ''ccs'' \<and> \<not> hasChar k CHR ''.''"

definition IsCKID :: "string \<Rightarrow> bool" where
  "IsCKID k \<longleftrightarrow> length k = 42 \<and> take 3 k = ''cck'' \<and> \<not> hasChar k CHR ''.''"

text \<open>\<^verbatim>\<open>ToLegacyDocument\<close>; dereferencing a nil signature panics.\<close>

record legacy_document =
  ld_id :: string
  ld_author :: string
  ld_owner :: "string option"
  ld_schema :: string
  ld_document :: string
  ld_signature :: string
  ld_cdate :: gotime

datatype legacy_error = LegacyDecode | LegacyKey ccuri_error | LegacyNilSignature

definition ToLegacyDocument :: "codec \<Rightarrow> signed_document \<Rightarrow> (legacy_error, legacy_document) result" where
  "ToLegacyDocument C sd = (case dec_doc C (sd_document sd) of None \<Rightarrow> Inl LegacyDecode
     | Some doc \<Rightarrow> (case ParseCCURI (d_key doc) of Inl e \<Rightarrow> Inl (LegacyKey e)
        | Inr parsed \<Rightarrow> (case pf_signature (sd_proof sd) of None \<Rightarrow> Inl LegacyNilSignature
           | Some sig \<Rightarrow> Inr \<lparr>ld_id = document_id C (sd_document sd) (d_createdAt doc),
               ld_author = d_author doc, ld_owner = Some (cu_owner parsed), ld_schema = d_schema doc,
               ld_document = sd_document sd, ld_signature = sig, ld_cdate = d_createdAt doc\<rparr>)))"

section \<open>Properties\<close>

lemma url_owner_plain: "u_user u = None \<Longrightarrow> url_owner u = (u_host u, None)"
  by (simp add: url_owner_def)

lemma url_owner_user: "u_user u = Some (nm, pw) \<Longrightarrow> nm \<noteq> [] \<Longrightarrow> url_owner u = (nm, Some (u_host u))"
  by (simp add: url_owner_def)

lemma lower_words [simp]: "lower_word ''cckv''" "lower_word ''ccfs''"
  by (simp_all add: lower_word_def is_lower_def less_eq_char_def)

lemma unreserved_lower: "safe ''cckv''" "safe ''ccfs''" "safe ''concrnt''" "safe ''blob''"
  by (simp_all add: unreserved_def is_alnum_def is_upper_def is_lower_def is_num_def less_eq_char_def)

lemma QueryUnescape_append:
  "QueryUnescape s = Some s \<Longrightarrow> QueryUnescape t = Some t \<Longrightarrow> CHR ''%'' \<notin> set s \<Longrightarrow> QueryUnescape (s @ t) = Some (s @ t)"
  unfolding QueryUnescape_def
  by (induction s) (auto split: if_splits)

lemma QueryUnescape_safe: "safe s \<Longrightarrow> QueryUnescape s = Some s"
  by (simp add: QueryUnescape_def unescape_safe)

lemma QueryUnescape_uri:
  assumes "list_all (\<lambda>c. unreserved c \<or> c \<in> set ''/:@'') s"
  shows "QueryUnescape s = Some s"
  using assms unfolding QueryUnescape_def by (induction s) (auto simp: unreserved_props)

text \<open>The canonical texts of an authority with an optional hint.\<close>

definition authority :: "string \<Rightarrow> string option \<Rightarrow> string" where
  "authority own hint = (case hint of None \<Rightarrow> own | Some h \<Rightarrow> own @ ''@'' @ h)"

definition hint_ok :: "string option \<Rightarrow> bool" where
  "hint_ok hint = (case hint of None \<Rightarrow> True | Some h \<Rightarrow> safe h)"

lemma ParseCCURI_composed:
  assumes sch: "sch = ''cckv'' \<or> sch = ''ccfs''" and own: "safe own" "own \<noteq> []"
    and hint: "hint_ok hint" and p: "path_ok p"
  shows "ParseCCURI (sch @ ''://'' @ authority own hint @ p) =
    (if sch = ''cckv'' then
       Inr (zero_ccuri\<lparr>cu_scheme := ''cckv'', cu_owner := own, cu_key := trim_prefix p ''/'', cu_hint := hint,
              cu_raw := sch @ ''://'' @ authority own hint @ p\<rparr>)
     else (case ccfs_parts (trim_prefix p ''/'') of Inl e \<Rightarrow> Inl e
       | Inr (t, h) \<Rightarrow> Inr (zero_ccuri\<lparr>cu_scheme := ''ccfs'', cu_owner := own, cu_type := t, cu_cdid := h,
              cu_hint := hint, cu_raw := sch @ ''://'' @ authority own hint @ p\<rparr>)))"
proof -
  let ?s = "sch @ ''://'' @ authority own hint @ p"
  have lw: "lower_word sch" and ss: "safe sch" using sch unreserved_lower by auto
  have "list_all (\<lambda>c. unreserved c \<or> c \<in> set ''/:@'') ?s"
    using own hint p ss
    by (auto simp: authority_def hint_ok_def path_ok_def safe_path_def safe_def list_all_iff split: option.splits)
  then have q: "QueryUnescape ?s = Some ?s" by (rule QueryUnescape_uri)
  have qo: "QueryUnescape own = Some own" using own by (simp add: QueryUnescape_safe)
  define usr where "usr = (case hint of None \<Rightarrow> (None, own) | Some h \<Rightarrow> (Some (own, None :: string option), h))"
  define u where "u = empty_url\<lparr>u_scheme := sch, u_user := fst usr, u_host := snd usr, u_path := p\<rparr>"
  have "url_parse ?s = Some u"
    using url_parse_plain[OF lw p own(1)] url_parse_user[OF lw p own(1)] hint
    by (cases hint) (simp_all add: authority_def hint_ok_def u_def usr_def empty_url_def)
  with q have "ParseCCURI ?s = ccuri_of_url ?s u"
    unfolding ParseCCURI_def by (simp only: option.case)
  moreover have "url_owner u = (own, hint)" "u_path u = p" "u_scheme u = sch"
    using own(2) by (simp_all add: u_def usr_def url_owner_def split: option.splits)
  then have "ccuri_of_url r u =
    (if sch = ''cckv'' then
       Inr (zero_ccuri\<lparr>cu_scheme := ''cckv'', cu_owner := own, cu_key := trim_prefix p ''/'', cu_hint := hint, cu_raw := r\<rparr>)
     else (case ccfs_parts (trim_prefix p ''/'') of Inl e \<Rightarrow> Inl e
       | Inr (t, h) \<Rightarrow> Inr (zero_ccuri\<lparr>cu_scheme := ''ccfs'', cu_owner := own, cu_type := t, cu_cdid := h,
              cu_hint := hint, cu_raw := r\<rparr>)))" for r
    using sch qo by (auto simp: ccuri_of_url_def)
  ultimately show ?thesis by (simp only:)
qed

lemma path_ok_simps: "path_ok []" "safe_path p \<Longrightarrow> path_ok (''/'' @ p)"
  by (simp_all add: path_ok_def)

lemma ccuri_string_cckv:
  "cu_scheme c = ''cckv'' \<Longrightarrow> ccuri_string c = ''cckv'' @ ''://'' @ authority (cu_owner c) (cu_hint c)
      @ (if cu_key c = [] then [] else ''/'' @ cu_key c)"
proof -
  assume c: "cu_scheme c = ''cckv''"
  have t: "trim_suffix (r @ ''/'') ''/'' = r" for r by (rule trim_suffix_append)
  show ?thesis
  proof (cases "cu_hint c")
    case None
    show ?thesis using t[of "''cckv://'' @ cu_owner c"] c None
      by (simp add: ccuri_string_def authority_def)
  next
    case (Some h)
    show ?thesis using t[of "''cckv://'' @ cu_owner c @ ''@'' @ h"] c Some
      by (simp add: ccuri_string_def authority_def)
  qed
qed

lemma ccuri_string_ccfs:
  "cu_scheme c = ''ccfs'' \<Longrightarrow> ccuri_string c = ''ccfs'' @ ''://'' @ authority (cu_owner c) (cu_hint c)
      @ ''/'' @ cu_type c @ ''/'' @ cu_cdid c"
  by (simp add: ccuri_string_def authority_def split: option.splits)

text \<open>The URIs the protocol writes: an owner and hint of unreserved characters, a key of such
  characters and slashes that does not start with one; for \<^verbatim>\<open>ccfs\<close> one of the two types and a
  hash, which for a blob has 64 hexadecimal digits.\<close>

definition ccuri_ok :: "ccuri \<Rightarrow> bool" where
  "ccuri_ok c \<longleftrightarrow> safe (cu_owner c) \<and> cu_owner c \<noteq> [] \<and> hint_ok (cu_hint c) \<and>
     (if cu_scheme c = ''cckv'' then safe_path (cu_key c) \<and> cu_type c = [] \<and> cu_cdid c = []
      else cu_scheme c = ''ccfs'' \<and> cu_key c = [] \<and> safe (cu_cdid c) \<and> cu_cdid c \<noteq> []
        \<and> (cu_type c = CCFSTypeConcrnt \<or> (cu_type c = CCFSTypeBlob \<and> isSha256Hex (cu_cdid c))))"

lemma ccfs_parts_ok:
  assumes "t = CCFSTypeConcrnt \<or> (t = CCFSTypeBlob \<and> isSha256Hex h)" "safe h" "h \<noteq> []"
  shows "ccfs_parts (t @ ''/'' @ h) = Inr (t, h)"
proof -
  have "CHR ''/'' \<notin> set t" using assms(1) by auto
  then have "split_char CHR ''/'' (t @ ''/'' @ h) = [t, h]"
    using safe_notin(5)[OF assms(2)] by (simp add: split_char_append split_char_none)
  then show ?thesis using assms by (auto simp: ccfs_parts_def)
qed

lemma ParseCCURI_string:
  assumes "ccuri_ok c"
  shows "ParseCCURI (ccuri_string c) = Inr (c\<lparr>cu_raw := ccuri_string c\<rparr>)"
proof -
  have own: "safe (cu_owner c)" "cu_owner c \<noteq> []" "hint_ok (cu_hint c)"
    using assms by (auto simp: ccuri_ok_def)
  show ?thesis
  proof (cases "cu_scheme c = ''cckv''")
    case True
    let ?p = "if cu_key c = [] then [] else ''/'' @ cu_key c"
    have "path_ok ?p" using assms True by (auto simp: ccuri_ok_def path_ok_def)
    moreover have "trim_prefix ?p ''/'' = cu_key c"
      by (simp add: trim_prefix_def has_prefix_def)
    ultimately show ?thesis
      using ParseCCURI_composed[of "''cckv''" "cu_owner c" "cu_hint c" ?p] own assms True
      unfolding ccuri_string_cckv[OF True] by (simp add: ccuri_ok_def zero_ccuri_def)
  next
    case False
    then have s: "cu_scheme c = ''ccfs''" and k: "cu_key c = []"
      and t: "cu_type c = CCFSTypeConcrnt \<or> (cu_type c = CCFSTypeBlob \<and> isSha256Hex (cu_cdid c))"
      and h: "safe (cu_cdid c)" "cu_cdid c \<noteq> []" using assms by (auto simp: ccuri_ok_def)
    let ?q = "cu_type c @ ''/'' @ cu_cdid c"
    have "safe (cu_type c)" using t unreserved_lower by auto
    then have "path_ok (''/'' @ ?q)" using h safe_imp_path by (simp add: path_ok_def)
    moreover have "trim_prefix (''/'' @ ?q) ''/'' = ?q" by (rule trim_prefix_append)
    ultimately show ?thesis
      using ParseCCURI_composed[of "''ccfs''" "cu_owner c" "cu_hint c" "''/'' @ ?q"] own s k
        ccfs_parts_ok[OF t h]
      unfolding ccuri_string_ccfs[OF s] by (simp add: zero_ccuri_def)
  qed
qed

text \<open>C39. Printing and parsing are inverse: the text of a well-formed URI of either scheme, with or
  without a resolver hint, parses to the same URI.\<close>

theorem ccuri_roundtrip:
  assumes "ccuri_ok c"
  shows "ParseCCURI (ccuri_string c) = Inr (c\<lparr>cu_raw := ccuri_string c\<rparr>)"
  using assms by (rule ParseCCURI_string)

theorem ccuri_roundtrip_witness:
  "ParseCCURI ''cckv://con1abc@example.com/posts/1'' =
     Inr \<lparr>cu_scheme = ''cckv'', cu_owner = ''con1abc'', cu_key = ''posts/1'', cu_type = '''', cu_cdid = '''',
          cu_hint = Some ''example.com'', cu_raw = ''cckv://con1abc@example.com/posts/1''\<rparr>"
proof -
  let ?c = "\<lparr>cu_scheme = ''cckv'', cu_owner = ''con1abc'', cu_key = ''posts/1'', cu_type = '''', cu_cdid = '''',
          cu_hint = Some ''example.com'', cu_raw = ''''\<rparr>"
  have "ccuri_ok ?c"
    by (simp add: ccuri_ok_def hint_ok_def unreserved_def is_alnum_def is_upper_def is_lower_def is_num_def
        less_eq_char_def)
  from ccuri_roundtrip[OF this] show ?thesis by (simp add: ccuri_string_def)
qed

text \<open>C40. What a successful parse returns: one of three schemes; a \<^verbatim>\<open>ccfs\<close> URI has one of the two
  types, a non-empty hash and no key, and the hash of a blob has 64 hexadecimal digits; only a
  \<^verbatim>\<open>cckv\<close> URI has a key; an \<^verbatim>\<open>http\<close> URI carries its text alone.\<close>

theorem ParseCCURI_shape:
  assumes "ParseCCURI s = Inr c"
  shows "(cu_scheme c = ''cckv'' \<and> cu_type c = [] \<and> cu_cdid c = [])
    \<or> (cu_scheme c = ''ccfs'' \<and> cu_key c = [] \<and> cu_cdid c \<noteq> []
         \<and> (cu_type c = CCFSTypeConcrnt \<or> (cu_type c = CCFSTypeBlob \<and> isSha256Hex (cu_cdid c))))
    \<or> (cu_scheme c = ''http'' \<and> cu_owner c = [] \<and> cu_key c = [] \<and> cu_hint c = None)"
proof -
  have parts: "h \<noteq> [] \<and> (t = CCFSTypeConcrnt \<or> (t = CCFSTypeBlob \<and> isSha256Hex h))"
    if "ccfs_parts k = Inr (t, h)" for k t h
    using that by (auto simp: ccfs_parts_def split: list.splits if_splits)
  obtain r u where "ccuri_of_url r u = Inr c"
    using assms by (auto simp: ParseCCURI_def split: option.splits)
  then show ?thesis
    using parts by (fastforce simp: ccuri_of_url_def zero_ccuri_def Let_def
        split: option.splits prod.splits sum.splits if_splits)
qed

theorem ParseCCURI_shape_witness:
  "ParseCCURI ''ccfs://con1abc/0123'' =
     Inr \<lparr>cu_scheme = ''ccfs'', cu_owner = ''con1abc'', cu_key = '''', cu_type = CCFSTypeConcrnt, cu_cdid = ''0123'',
          cu_hint = None, cu_raw = ''ccfs://con1abc/0123''\<rparr> \<and> CCFSTypeConcrnt \<noteq> CCFSTypeBlob"
proof -
  have p: "ParseCCURI ''ccfs://con1abc/0123'' =
     Inr \<lparr>cu_scheme = ''ccfs'', cu_owner = ''con1abc'', cu_key = '''', cu_type = CCFSTypeConcrnt, cu_cdid = ''0123'',
          cu_hint = None, cu_raw = ''ccfs://con1abc/0123''\<rparr>"
    by code_simp
  from ParseCCURI_shape[OF p] p show ?thesis by simp
qed

end
