(* ===== verification/Verify.thy ===== *)
theory Verify
  imports Ccuri
begin

text \<open>
  Signatures and proofs, \<^verbatim>\<open>src/crypto.go\<close> and \<^verbatim>\<open>src/verify.go\<close>. The third-party primitives
  (secp256k1 recovery and signing, the compressed key, the account address of a key, bech32) are
  the fields of a record \<open>crypto_lib\<close>; hexadecimal decoding is written out. A Go panic is an error
  value of its own that no caller can turn into an ordinary error.

  \<open>verify\<close> recurses on the depth budget. Shown here: signing and verifying fit together; a
  document verifies only if its author's own key signed something along its proof chain; what
  each proof type binds; that the copies inlined by a submitter never decide a subkey proof;
  that a derived acknowledgement verifies when the acknowledgement it is derived from does.
\<close>

section \<open>Cryptographic primitives\<close>

record crypto_lib =
  ecrecover :: "8 word list \<Rightarrow> 8 word list \<Rightarrow> 8 word list option"
  newPublicKey :: "8 word list \<Rightarrow> 8 word list option"
  pubkey_address :: "8 word list \<Rightarrow> 8 word list option"
  bech32_encode :: "string \<Rightarrow> 8 word list \<Rightarrow> string option"
  hexToECDSA :: "string \<Rightarrow> 8 word list option"
  crypto_sign :: "8 word list \<Rightarrow> 8 word list \<Rightarrow> 8 word list option"
  privkey_pubkey :: "8 word list \<Rightarrow> 8 word list"

text \<open>\<open>newPublicKey\<close> returns the compressed bytes of the parsed key, \<open>pubkey_address\<close> is
  \<open>None\<close> where \<^verbatim>\<open>PubKey.Address\<close> panics on a key of the wrong length.\<close>

fun hex_decode :: "string \<Rightarrow> 8 word list option" where
  "hex_decode [] = Some []"
| "hex_decode [c] = None"
| "hex_decode (h # l # rest) = (case (unhex h, unhex l) of
     (Some a, Some b) \<Rightarrow> map_option (Cons (of_nat (16 * a + b))) (hex_decode rest)
   | _ \<Rightarrow> None)"

datatype crypto_error = AddressLength | RecoverFailed | AddressConversion | AddressMismatch
  | KeyConversion | SignFailed | PrivateKeyLength | HexFailed | CryptoPanic

definition GetHash :: "codec \<Rightarrow> string \<Rightarrow> 8 word list" where
  "GetHash C bytes = keccak C bytes"

definition SignBytes :: "codec \<Rightarrow> crypto_lib \<Rightarrow> string \<Rightarrow> string \<Rightarrow> (crypto_error, 8 word list) result" where
  "SignBytes C L bytes privatekey = (let hashed = keccak C bytes in
     case hexToECDSA L privatekey of None \<Rightarrow> Inl KeyConversion
     | Some key \<Rightarrow> (case crypto_sign L hashed key of None \<Rightarrow> Inl SignFailed | Some s \<Rightarrow> Inr s))"

definition PubkeyBytesToAddr :: "crypto_lib \<Rightarrow> 8 word list \<Rightarrow> string \<Rightarrow> (crypto_error, string) result" where
  "PubkeyBytesToAddr L pubkeyBytes hrp = (case pubkey_address L pubkeyBytes of None \<Rightarrow> Inl CryptoPanic
     | Some account \<Rightarrow> (case bech32_encode L hrp account of None \<Rightarrow> Inl AddressConversion
        | Some addr \<Rightarrow> Inr addr))"

definition PubkeyToAddr :: "crypto_lib \<Rightarrow> string \<Rightarrow> string \<Rightarrow> (crypto_error, string) result" where
  "PubkeyToAddr L pubkeyHex hrp = (case hex_decode pubkeyHex of None \<Rightarrow> Inl HexFailed
     | Some b \<Rightarrow> PubkeyBytesToAddr L b hrp)"

definition PrivKeyToAddr :: "crypto_lib \<Rightarrow> string \<Rightarrow> string \<Rightarrow> (crypto_error, string) result" where
  "PrivKeyToAddr L privKeyHex hrp = (if length privKeyHex \<noteq> 64 then Inl PrivateKeyLength
     else case hex_decode privKeyHex of None \<Rightarrow> Inl HexFailed
     | Some b \<Rightarrow> PubkeyBytesToAddr L (privkey_pubkey L b) hrp)"

definition VerifySignature ::
  "codec \<Rightarrow> crypto_lib \<Rightarrow> string \<Rightarrow> 8 word list \<Rightarrow> string \<Rightarrow> (crypto_error, unit) result" where
  "VerifySignature C L message signature address =
     (if length address \<noteq> 42 then Inl AddressLength
      else (let hashed = keccak C message in
        case ecrecover L hashed signature of None \<Rightarrow> Inl RecoverFailed
        | Some recoveredPub \<Rightarrow> (case newPublicKey L recoveredPub of None \<Rightarrow> Inl CryptoPanic
          | Some compressed \<Rightarrow> rbind (PubkeyBytesToAddr L compressed (take 3 address))
              (\<lambda>sigaddr. rguard (sigaddr = address) AddressMismatch))))"

section \<open>Proofs\<close>

type_synonym resolver = "(string \<Rightarrow> signed_document option) option"

text \<open>\<open>Nested\<close> wraps the error of a nested verification; a panic is never wrapped.\<close>

datatype verify_error = TooDeep | ProofTypeNotAllowed string | DecodeFailed | SignatureRequired
  | InvalidSignatureFormat | SignatureVerificationFailed crypto_error | KeyRequired | NoResolver string
  | FetchFailed string | Nested string verify_error | SubkeyDecodeFailed | RevokedAuthorMismatch
  | NotAnEnact | AuthorMismatch | PredatesEnact | PostdatesRevocation | HrefRequired | NotAReference
  | HrefMismatch | InvalidHref ccuri_error | TargetKeyNotKeyed | TargetKeyMismatch | TargetNotEntity
  | TargetOwnerMismatch | TargetCdidMismatch | TargetKeyInvalid ccuri_error
  | TargetAssociateInvalid ccuri_error | UnsupportedHref string | EmbeddedRequired
  | NotDerivable derive_error | DerivationMismatch | NoneProofNotAllowed | UnsupportedProofType string
  | VerifyPanic

fun nest :: "string \<Rightarrow> verify_error \<Rightarrow> verify_error" where
  "nest m VerifyPanic = VerifyPanic"
| "nest m e = Nested m e"

definition sig_err :: "crypto_error \<Rightarrow> verify_error" where
  "sig_err e = (if e = CryptoPanic then VerifyPanic else SignatureVerificationFailed e)"

definition maxVerifyDepth :: nat where
  "maxVerifyDepth = 4"

definition resolve :: "signed_document \<Rightarrow> resolver \<Rightarrow> string \<Rightarrow> (verify_error, signed_document) result" where
  "resolve sd R uri = (case map_of (sd_references sd) uri of Some ref \<Rightarrow> Inr ref
     | None \<Rightarrow> (case R of None \<Rightarrow> Inl (NoResolver uri)
        | Some f \<Rightarrow> (case f uri of None \<Rightarrow> Inl (FetchFailed uri) | Some t \<Rightarrow> Inr t)))"

text \<open>The decoding and the check of a hexadecimal signature over a text.\<close>

definition check_signature ::
  "codec \<Rightarrow> crypto_lib \<Rightarrow> string \<Rightarrow> string \<Rightarrow> string \<Rightarrow> (verify_error, unit) result" where
  "check_signature C L text sighex address = (case hex_decode sighex of None \<Rightarrow> Inl InvalidSignatureFormat
     | Some s \<Rightarrow> rmap_err sig_err (VerifySignature C L text s address))"

text \<open>The argument \<open>rec\<close> of the following definitions is the verification at the next depth: its
  first argument is the list of allowed proof types, \<open>None\<close> for no restriction.\<close>

type_synonym nested_verify = "string list option \<Rightarrow> signed_document \<Rightarrow> (verify_error, unit) result"

definition verify_ecrecover ::
  "codec \<Rightarrow> crypto_lib \<Rightarrow> signed_document \<Rightarrow> document \<Rightarrow> (verify_error, unit) result" where
  "verify_ecrecover C L sd doc = (case pf_signature (sd_proof sd) of None \<Rightarrow> Inl SignatureRequired
     | Some s \<Rightarrow> check_signature C L (sd_document sd) s (d_author doc))"

text \<open>The enact document a subkey document stands for, with the end of its validity. A document
  whose value is raw JSON (\<^verbatim>\<open>json.RawMessage\<close>) is only read here for its schema, after the
  same text has been decoded by the nested verification.\<close>

definition enact_of :: "codec \<Rightarrow> nested_verify \<Rightarrow> document \<Rightarrow> signed_document
    \<Rightarrow> (verify_error, (document \<times> string) \<times> gotime option) result" where
  "enact_of C rec doc subKeySD = (case dec_doc C (sd_document subKeySD) of None \<Rightarrow> Inl SubkeyDecodeFailed
     | Some keyDoc \<Rightarrow>
       if d_schema keyDoc = SubkeyURL then
         (case dec_subkey C (sd_document subKeySD) of None \<Rightarrow> Inl SubkeyDecodeFailed
          | Some enact \<Rightarrow> Inr (enact, None))
       else if d_schema keyDoc = RevokedSubkeyURL then
         (case dec_revoked C (sd_document subKeySD) of None \<Rightarrow> Inl SubkeyDecodeFailed
          | Some (revokedDoc, enactSD) \<Rightarrow>
            rbind (rguard (d_author revokedDoc = d_author doc) RevokedAuthorMismatch) (\<lambda>_.
            rbind (rmap_err (nest ''enact embedded in revoked-subkey'') (rec (Some [ProofTypeEcrecover]) enactSD)) (\<lambda>_.
            (case dec_subkey C (sd_document enactSD) of None \<Rightarrow> Inl SubkeyDecodeFailed
             | Some enact \<Rightarrow> if d_schema (fst enact) \<noteq> SubkeyURL then Inl NotAnEnact
                 else Inr (enact, Some (d_createdAt revokedDoc))))))
       else Inl NotAnEnact)"

definition verify_subkey :: "codec \<Rightarrow> crypto_lib \<Rightarrow> resolver \<Rightarrow> nested_verify \<Rightarrow> signed_document \<Rightarrow> document
    \<Rightarrow> (verify_error, unit) result" where
  "verify_subkey C L R rec sd doc = (case pf_signature (sd_proof sd) of None \<Rightarrow> Inl SignatureRequired
     | Some s \<Rightarrow> (case pf_key (sd_proof sd) of None \<Rightarrow> Inl KeyRequired
     | Some key \<Rightarrow> (case R of None \<Rightarrow> Inl (NoResolver key)
     | Some f \<Rightarrow> (case f key of None \<Rightarrow> Inl (FetchFailed key)
     | Some subKeySD \<Rightarrow>
         rbind (rmap_err (nest ''subkey document'') (rec (Some [ProofTypeEcrecover]) subKeySD)) (\<lambda>_.
         rbind (enact_of C rec doc subKeySD) (\<lambda>((enactDoc, ckid), validUntil).
         rbind (rguard (d_author enactDoc = d_author doc) AuthorMismatch) (\<lambda>_.
         rbind (rguard (\<not> d_createdAt doc < d_createdAt enactDoc) PredatesEnact) (\<lambda>_.
         rbind (rguard (case validUntil of None \<Rightarrow> True | Some u \<Rightarrow> \<not> u < d_createdAt doc) PostdatesRevocation) (\<lambda>_.
         check_signature C L (sd_document sd) s ckid)))))))))"

text \<open>The owner a ccfs reference to a document must name.\<close>

definition ccfs_owner :: "document \<Rightarrow> (verify_error, string) result" where
  "ccfs_owner targetDoc = (if d_key targetDoc \<noteq> [] then
       rmap_err TargetKeyInvalid (map_sum id cu_owner (ParseCCURI (d_key targetDoc)))
     else (case d_associate targetDoc of
         Some a \<Rightarrow> if d_kind targetDoc = ''association'' then
             rmap_err TargetAssociateInvalid (map_sum id cu_owner (ParseCCURI a))
           else Inr (d_author targetDoc)
       | None \<Rightarrow> Inr (d_author targetDoc)))"

definition href_binds :: "codec \<Rightarrow> string \<Rightarrow> ccuri \<Rightarrow> signed_document \<Rightarrow> document \<Rightarrow> (verify_error, unit) result" where
  "href_binds C href hrefURI targetSD targetDoc =
     (if cu_scheme hrefURI = ''cckv'' \<and> cu_key hrefURI \<noteq> [] then
        (case ParseCCURI (d_key targetDoc) of Inl _ \<Rightarrow> Inl TargetKeyNotKeyed
         | Inr targetKey \<Rightarrow>
           if cu_scheme targetKey \<noteq> ''cckv'' \<or> cu_key targetKey = [] then Inl TargetKeyNotKeyed
           else rguard (cu_owner targetKey = cu_owner hrefURI \<and> cu_key targetKey = cu_key hrefURI) TargetKeyMismatch)
      else if cu_scheme hrefURI = ''cckv'' then
        rbind (rguard (d_kind targetDoc = ''entity'') TargetNotEntity) (\<lambda>_.
        rguard (d_author targetDoc = cu_owner hrefURI) TargetOwnerMismatch)
      else if cu_scheme hrefURI = ''ccfs'' \<and> cu_type hrefURI = CCFSTypeConcrnt then
        rbind (rguard (document_id C (sd_document targetSD) (d_createdAt targetDoc) = cu_cdid hrefURI) TargetCdidMismatch) (\<lambda>_.
        rbind (ccfs_owner targetDoc) (\<lambda>expectedOwner.
        rguard (expectedOwner = cu_owner hrefURI) TargetOwnerMismatch))
      else Inl (UnsupportedHref href))"

definition verify_reference :: "codec \<Rightarrow> resolver \<Rightarrow> nested_verify \<Rightarrow> signed_document \<Rightarrow> document
    \<Rightarrow> (verify_error, unit) result" where
  "verify_reference C R rec sd doc = (case pf_href (sd_proof sd) of None \<Rightarrow> Inl HrefRequired
     | Some href \<Rightarrow>
       if d_schema doc \<noteq> ReferenceURL then Inl NotAReference
       else (case dec_reference C (sd_document sd) of None \<Rightarrow> Inl DecodeFailed
       | Some (_, ref) \<Rightarrow>
         if rf_href ref \<noteq> href then Inl HrefMismatch
         else rbind (resolve sd R href) (\<lambda>targetSD.
         rbind (rmap_err (nest ''referenced document'') (rec None targetSD)) (\<lambda>_.
         (case dec_doc C (sd_document targetSD) of None \<Rightarrow> Inl DecodeFailed
          | Some targetDoc \<Rightarrow>
            rbind (rguard (d_author targetDoc = d_author doc) AuthorMismatch) (\<lambda>_.
            rbind (rmap_err InvalidHref (ParseCCURI href)) (\<lambda>hrefURI.
            href_binds C href hrefURI targetSD targetDoc)))))))"

definition verify_direct :: "codec \<Rightarrow> nested_verify \<Rightarrow> signed_document \<Rightarrow> (verify_error, unit) result" where
  "verify_direct C rec sd = (case (pf_document (sd_proof sd), pf_proof (sd_proof sd)) of
     (Some d, Some p) \<Rightarrow> (let embedded = bare_sd d p in
       rbind (rmap_err (nest ''embedded document'') (rec (Some [ProofTypeEcrecover, ProofTypeSubkey]) embedded)) (\<lambda>_.
       (case ParsedDocument C sd of None \<Rightarrow> Inl DecodeFailed
        | Some self \<Rightarrow>
          if d_kind self = ''acked'' \<or> d_kind self = ''unacked'' then
            rbind (rmap_err NotDerivable (DeriveAcked C embedded)) (\<lambda>expected.
            rguard (sd_document sd = sd_document expected) DerivationMismatch)
          else Inl (ProofTypeNotAllowed (pf_type (sd_proof sd))))))
   | _ \<Rightarrow> Inl EmbeddedRequired)"

definition type_allowed :: "string list option \<Rightarrow> signed_document \<Rightarrow> bool" where
  "type_allowed allowed sd = (case allowed of None \<Rightarrow> True | Some ts \<Rightarrow> pf_type (sd_proof sd) \<in> set ts)"

fun verify :: "codec \<Rightarrow> crypto_lib \<Rightarrow> resolver \<Rightarrow> nat \<Rightarrow> nested_verify" where
  "verify C L R 0 allowed sd = Inl TooDeep"
| "verify C L R (Suc depth) allowed sd =
     (if \<not> type_allowed allowed sd then Inl (ProofTypeNotAllowed (pf_type (sd_proof sd)))
      else case dec_doc C (sd_document sd) of None \<Rightarrow> Inl DecodeFailed
      | Some doc \<Rightarrow>
        if pf_type (sd_proof sd) = ProofTypeEcrecover then verify_ecrecover C L sd doc
        else if pf_type (sd_proof sd) = ProofTypeSubkey then verify_subkey C L R (verify C L R depth) sd doc
        else if pf_type (sd_proof sd) = ProofTypeDocumentReference then
          verify_reference C R (verify C L R depth) sd doc
        else if pf_type (sd_proof sd) = ProofTypeDocumentDirect then verify_direct C (verify C L R depth) sd
        else if pf_type (sd_proof sd) = ProofTypeNone then Inl NoneProofNotAllowed
        else Inl (UnsupportedProofType (pf_type (sd_proof sd))))"

definition Verify :: "codec \<Rightarrow> crypto_lib \<Rightarrow> resolver \<Rightarrow> signed_document \<Rightarrow> (verify_error, unit) result" where
  "Verify C L R sd = verify C L R maxVerifyDepth None sd"

definition VerifyWithProofTypes :: "codec \<Rightarrow> crypto_lib \<Rightarrow> resolver \<Rightarrow> string list option \<Rightarrow> signed_document
    \<Rightarrow> (verify_error, unit) result" where
  "VerifyWithProofTypes C L R allowed sd = verify C L R maxVerifyDepth allowed sd"

section \<open>Properties\<close>

lemma set_references_sel [simp]:
  "sd_document (set_references r sd) = sd_document sd" "sd_proof (set_references r sd) = sd_proof sd"
  by (cases sd; simp)+

lemma bare_sd_sel [simp]:
  "sd_document (bare_sd d p) = d" "sd_proof (bare_sd d p) = p" "sd_references (bare_sd d p) = []"
  by (simp_all add: bare_sd_def)

lemma check_signature_ok:
  "check_signature C L t s a = Inr () \<longleftrightarrow> (\<exists>b. hex_decode s = Some b \<and> VerifySignature C L t b a = Inr ())"
  by (auto simp: check_signature_def split: option.splits)

text \<open>Some signature over a text is accepted for an address.\<close>

definition signed_by :: "codec \<Rightarrow> crypto_lib \<Rightarrow> string \<Rightarrow> string \<Rightarrow> bool" where
  "signed_by C L text a \<longleftrightarrow> (\<exists>b. VerifySignature C L text b a = Inr ())"

text \<open>A document carries a direct signature of its author's own key.\<close>

definition master_signed :: "codec \<Rightarrow> crypto_lib \<Rightarrow> signed_document \<Rightarrow> string \<Rightarrow> bool" where
  "master_signed C L sd a \<longleftrightarrow> pf_type (sd_proof sd) = ProofTypeEcrecover
     \<and> (\<exists>doc s. dec_doc C (sd_document sd) = Some doc \<and> d_author doc = a
          \<and> pf_signature (sd_proof sd) = Some s \<and> check_signature C L (sd_document sd) s a = Inr ())"

text \<open>Documented behaviour of \<^verbatim>\<open>encoding/json\<close>: decoding one text at two value types fills the same
  fields.\<close>

definition codec_ok :: "codec \<Rightarrow> bool" where
  "codec_ok C \<longleftrightarrow> (\<forall>t d e k. dec_doc C t = Some d \<longrightarrow> dec_subkey C t = Some (e, k) \<longrightarrow>
       d_author e = d_author d \<and> d_schema e = d_schema d \<and> d_createdAt e = d_createdAt d)
     \<and> (\<forall>t d e v. dec_doc C t = Some d \<longrightarrow> dec_revoked C t = Some (e, v) \<longrightarrow>
       d_author e = d_author d \<and> d_schema e = d_schema d \<and> d_createdAt e = d_createdAt d)"

lemma verify_master: "verify C L R (Suc n) (Some [ProofTypeEcrecover]) sd = Inr () \<longleftrightarrow> (\<exists>a. master_signed C L sd a)"
  by (auto simp: type_allowed_def verify_ecrecover_def master_signed_def split: option.splits)

lemma verify_master_depth:
  "verify C L R (Suc n) (Some [ProofTypeEcrecover]) sd = verify C L R (Suc 0) (Some [ProofTypeEcrecover]) sd"
  by (simp add: type_allowed_def split: option.splits)

lemma master_signed_author: "master_signed C L sd a \<Longrightarrow> \<exists>doc. dec_doc C (sd_document sd) = Some doc \<and> d_author doc = a"
  by (auto simp: master_signed_def)

lemma master_signed_by: "master_signed C L sd a \<Longrightarrow> signed_by C L (sd_document sd) a"
  by (auto simp: master_signed_def signed_by_def check_signature_ok)

text \<open>A subkey document of an author, the subkey it enacts, and the period it enacts it for: the
  enact document itself, or a revocation that embeds it.\<close>

inductive enacts :: "codec \<Rightarrow> crypto_lib \<Rightarrow> string \<Rightarrow> signed_document \<Rightarrow> string \<Rightarrow> gotime \<Rightarrow> gotime option \<Rightarrow> bool"
  for C L a where
  live: "master_signed C L sd a \<Longrightarrow> dec_subkey C (sd_document sd) = Some (d, ckid) \<Longrightarrow> d_schema d = SubkeyURL
    \<Longrightarrow> enacts C L a sd ckid (d_createdAt d) None"
| revoked: "master_signed C L sd a \<Longrightarrow> dec_revoked C (sd_document sd) = Some (r, enactSD)
    \<Longrightarrow> d_schema r = RevokedSubkeyURL \<Longrightarrow> master_signed C L enactSD a
    \<Longrightarrow> dec_subkey C (sd_document enactSD) = Some (d, ckid) \<Longrightarrow> d_schema d = SubkeyURL
    \<Longrightarrow> enacts C L a sd ckid (d_createdAt d) (Some (d_createdAt r))"

inductive_cases enacts_elim: "enacts C L a sd ckid t u"

lemma codec_ok_subkey:
  "codec_ok C \<Longrightarrow> dec_doc C t = Some d \<Longrightarrow> dec_subkey C t = Some (e, k) \<Longrightarrow>
   d_author e = d_author d \<and> d_schema e = d_schema d \<and> d_createdAt e = d_createdAt d"
  and codec_ok_revoked:
  "codec_ok C \<Longrightarrow> dec_doc C t = Some d \<Longrightarrow> dec_revoked C t = Some (r, v) \<Longrightarrow>
   d_author r = d_author d \<and> d_schema r = d_schema d \<and> d_createdAt r = d_createdAt d"
  unfolding codec_ok_def by blast+

lemma enact_of_sound:
  assumes "codec_ok C" "master_signed C L sub a" "d_author e = d_author doc"
    and "enact_of C (verify C L R (Suc n)) doc sub = Inr ((e, ckid), u)"
  shows "enacts C L (d_author doc) sub ckid (d_createdAt e) u"
proof -
  obtain kd where kd: "dec_doc C (sd_document sub) = Some kd" "d_author kd = a"
    using assms(2) by (auto simp: master_signed_def)
  consider (live) "d_schema kd = SubkeyURL" "dec_subkey C (sd_document sub) = Some (e, ckid)" "u = None"
    | (rev) r en a' where "d_schema kd = RevokedSubkeyURL" "dec_revoked C (sd_document sub) = Some (r, en)"
      "d_author r = d_author doc" "master_signed C L en a'" "dec_subkey C (sd_document en) = Some (e, ckid)"
      "d_schema e = SubkeyURL" "u = Some (d_createdAt r)"
    using assms(4) kd by (auto simp: enact_of_def verify_master rbind_eq_Inr simp del: verify.simps
        split: option.splits if_splits)
  then show ?thesis
  proof cases
    case live
    then show ?thesis using codec_ok_subkey[OF assms(1) kd(1) live(2)] assms(2,3) kd(2)
        enacts.live[of C L sub a e ckid] by simp
  next
    case rev
    obtain ed where ed: "dec_doc C (sd_document en) = Some ed" "d_author ed = a'"
      using rev(4) by (auto simp: master_signed_def)
    have "a' = d_author doc" using codec_ok_subkey[OF assms(1) ed(1) rev(5)] ed(2) assms(3) by simp
    moreover have "a = d_author doc" "d_schema r = RevokedSubkeyURL"
      using codec_ok_revoked[OF assms(1) kd(1) rev(2)] rev(1,3) kd(2) by auto
    ultimately show ?thesis using enacts.revoked[of C L sub a r en e ckid] assms(2) rev by auto
  qed
qed

lemma enact_of_complete:
  assumes "codec_ok C" "enacts C L (d_author doc) sub ckid t u"
  shows "master_signed C L sub (d_author doc)
    \<and> (\<exists>e. enact_of C (verify C L R (Suc n)) doc sub = Inr ((e, ckid), u) \<and> d_author e = d_author doc \<and> d_createdAt e = t)"
  using assms(2)
proof (cases rule: enacts.cases)
  case (live d)
  then obtain kd where kd: "dec_doc C (sd_document sub) = Some kd" "d_author kd = d_author doc"
    by (auto simp: master_signed_def)
  then show ?thesis using live codec_ok_subkey[OF assms(1) kd(1) live(4)] by (auto simp: enact_of_def)
next
  case (revoked r en d)
  then obtain kd ed where kd: "dec_doc C (sd_document sub) = Some kd" "d_author kd = d_author doc"
    and ed: "dec_doc C (sd_document en) = Some ed" "d_author ed = d_author doc"
    by (auto simp: master_signed_def)
  moreover have "verify C L R (Suc n) (Some [ProofTypeEcrecover]) en = Inr ()"
    using revoked by (auto simp: verify_master simp del: verify.simps)
  ultimately show ?thesis
    using revoked codec_ok_revoked[OF assms(1) kd(1) revoked(4)] codec_ok_subkey[OF assms(1) ed(1) revoked(7)]
    by (auto simp: enact_of_def simp del: verify.simps)
qed

lemma verify_subkey_ok:
  assumes "codec_ok C"
  shows "verify_subkey C L R (verify C L R (Suc n)) sd doc = Inr () \<longleftrightarrow>
    (\<exists>f key sub s ckid t u. R = Some f \<and> pf_key (sd_proof sd) = Some key \<and> f key = Some sub
      \<and> enacts C L (d_author doc) sub ckid t u \<and> t \<le> d_createdAt doc \<and> (\<forall>v. u = Some v \<longrightarrow> d_createdAt doc \<le> v)
      \<and> pf_signature (sd_proof sd) = Some s \<and> check_signature C L (sd_document sd) s ckid = Inr ())"
    (is "?l \<longleftrightarrow> ?r")
proof
  assume ?l
  then obtain s key f sub a e ckid u where v: "pf_signature (sd_proof sd) = Some s" "pf_key (sd_proof sd) = Some key"
      "R = Some f" "f key = Some sub" "master_signed C L sub a" "d_author e = d_author doc"
      "enact_of C (verify C L R (Suc n)) doc sub = Inr ((e, ckid), u)"
      "d_createdAt e \<le> d_createdAt doc" "case u of None \<Rightarrow> True | Some v \<Rightarrow> \<not> v < d_createdAt doc"
      "check_signature C L (sd_document sd) s ckid = Inr ()"
    by (auto simp: verify_subkey_def verify_master rbind_eq_Inr simp del: verify.simps split: option.splits prod.splits)
  have "enacts C L (d_author doc) sub ckid (d_createdAt e) u" by (rule enact_of_sound[OF assms v(5-7)])
  then show ?r using v(1-4,8-10) by (auto split: option.splits intro!: exI) 
next
  assume ?r
  then obtain f key sub s ckid t u where v: "R = Some f" "pf_key (sd_proof sd) = Some key" "f key = Some sub"
      "enacts C L (d_author doc) sub ckid t u" "t \<le> d_createdAt doc" "\<And>v. u = Some v \<Longrightarrow> d_createdAt doc \<le> v"
      "pf_signature (sd_proof sd) = Some s" "check_signature C L (sd_document sd) s ckid = Inr ()"
    by blast
  with enact_of_complete[OF assms v(4), of R n] obtain e where
    "master_signed C L sub (d_author doc)" "enact_of C (verify C L R (Suc n)) doc sub = Inr ((e, ckid), u)"
    "d_author e = d_author doc" "d_createdAt e = t" by blast
  moreover from this(1) have "verify C L R (Suc n) (Some [ProofTypeEcrecover]) sub = Inr ()"
    by (auto simp: verify_master simp del: verify.simps)
  ultimately show ?l using v by (auto simp: verify_subkey_def simp del: verify.simps split: option.splits)
qed

text \<open>C2. A subkey proof verifies exactly when the document the resolver returns for the proof's key
  is an enact document, or a revocation embedding one, signed by the document author's own key, the
  document was created within the period it enacts, and the enacted key signed the document's own
  text. Nothing inlined by the submitter takes part.\<close>

theorem Verify_subkey_iff:
  assumes "codec_ok C" and "pf_type (sd_proof sd) = ProofTypeSubkey"
  shows "Verify C L R sd = Inr () \<longleftrightarrow>
    (\<exists>doc f key sub s ckid t u. dec_doc C (sd_document sd) = Some doc \<and> R = Some f
      \<and> pf_key (sd_proof sd) = Some key \<and> f key = Some sub
      \<and> enacts C L (d_author doc) sub ckid t u \<and> t \<le> d_createdAt doc \<and> (\<forall>v. u = Some v \<longrightarrow> d_createdAt doc \<le> v)
      \<and> pf_signature (sd_proof sd) = Some s \<and> check_signature C L (sd_document sd) s ckid = Inr ())"
proof -
  have "Verify C L R sd = (case dec_doc C (sd_document sd) of None \<Rightarrow> Inl DecodeFailed
      | Some doc \<Rightarrow> verify_subkey C L R (verify C L R (Suc 2)) sd doc)"
    using assms(2) by (simp add: Verify_def maxVerifyDepth_def type_allowed_def eval_nat_numeral split: option.splits)
  then show ?thesis using verify_subkey_ok[OF assms(1), of L R 2 sd] by (simp del: verify.simps split: option.splits)
qed

text \<open>What a successful verification at any depth has read.\<close>

lemma verify_Suc_ok:
  "verify C L R (Suc n) al sd = Inr () \<longleftrightarrow> type_allowed al sd \<and> (\<exists>doc. dec_doc C (sd_document sd) = Some doc \<and>
     (pf_type (sd_proof sd) = ProofTypeEcrecover \<and> verify_ecrecover C L sd doc = Inr ()
      \<or> pf_type (sd_proof sd) = ProofTypeSubkey \<and> verify_subkey C L R (verify C L R n) sd doc = Inr ()
      \<or> pf_type (sd_proof sd) = ProofTypeDocumentReference \<and> verify_reference C R (verify C L R n) sd doc = Inr ()
      \<or> pf_type (sd_proof sd) = ProofTypeDocumentDirect \<and> verify_direct C (verify C L R n) sd = Inr ()))"
  by (auto split: option.splits)

lemma verify_reference_ok:
  "verify_reference C R rec sd doc = Inr () \<longleftrightarrow> (\<exists>href e ref target tdoc h.
     pf_href (sd_proof sd) = Some href \<and> d_schema doc = ReferenceURL
     \<and> dec_reference C (sd_document sd) = Some (e, ref) \<and> rf_href ref = href
     \<and> resolve sd R href = Inr target \<and> rec None target = Inr ()
     \<and> dec_doc C (sd_document target) = Some tdoc \<and> d_author tdoc = d_author doc
     \<and> ParseCCURI href = Inr h \<and> href_binds C href h target tdoc = Inr ())"
  by (auto simp: verify_reference_def rbind_eq_Inr split: option.splits)

lemma DeriveAcked_ok:
  "DeriveAcked C sd = Inr ad \<longleftrightarrow> (\<exists>doc k t. ParsedDocument C sd = Some doc
     \<and> (d_kind doc = ''ack'' \<and> k = ''acked'' \<or> d_kind doc = ''unack'' \<and> k = ''unacked'')
     \<and> enc_doc C (doc\<lparr>d_kind := k\<rparr>) = Some t
     \<and> ad = bare_sd t (Proof ProofTypeDocumentDirect None None None (Some (sd_document sd)) (Some (sd_proof sd))))"
  by (auto simp: DeriveAcked_def Let_def split: option.splits if_splits)

lemma verify_direct_ok:
  "verify_direct C rec sd = Inr () \<longleftrightarrow> (\<exists>d p self ad. pf_document (sd_proof sd) = Some d \<and> pf_proof (sd_proof sd) = Some p
     \<and> rec (Some [ProofTypeEcrecover, ProofTypeSubkey]) (bare_sd d p) = Inr () \<and> ParsedDocument C sd = Some self
     \<and> (d_kind self = ''acked'' \<or> d_kind self = ''unacked'')
     \<and> DeriveAcked C (bare_sd d p) = Inr ad \<and> sd_document sd = sd_document ad)"
  by (auto simp: verify_direct_def Let_def rbind_eq_Inr split: option.splits)

lemma maxVerifyDepth_Suc: "maxVerifyDepth = Suc 3"
  by (simp add: maxVerifyDepth_def)

text \<open>A larger depth budget verifies no less.\<close>

lemma enact_of_mono:
  assumes "\<And>al x. rec al x = Inr () \<Longrightarrow> rec' al x = Inr ()" "enact_of C rec doc sub = Inr r"
  shows "enact_of C rec' doc sub = Inr r"
  using assms(2) by (auto simp: enact_of_def rbind_eq_Inr split: option.splits if_splits dest!: assms(1))

lemma verify_subkey_mono:
  assumes "\<And>al x. rec al x = Inr () \<Longrightarrow> rec' al x = Inr ()" "verify_subkey C L R rec sd doc = Inr ()"
  shows "verify_subkey C L R rec' sd doc = Inr ()"
proof -
  obtain s key f sub e ckid u where v: "pf_signature (sd_proof sd) = Some s" "pf_key (sd_proof sd) = Some key"
      "R = Some f" "f key = Some sub" "rec (Some [ProofTypeEcrecover]) sub = Inr ()"
      "enact_of C rec doc sub = Inr ((e, ckid), u)" "d_author e = d_author doc"
      "\<not> d_createdAt doc < d_createdAt e" "case u of None \<Rightarrow> True | Some v \<Rightarrow> \<not> v < d_createdAt doc"
      "check_signature C L (sd_document sd) s ckid = Inr ()"
    using assms(2) by (auto simp: verify_subkey_def rbind_eq_Inr split: option.splits prod.splits)
  have "enact_of C rec' doc sub = Inr ((e, ckid), u)" by (rule enact_of_mono[OF assms(1) v(6)])
  then show ?thesis using v assms(1)[OF v(5)] by (simp add: verify_subkey_def)
qed

lemma verify_mono: "verify C L R n al sd = Inr () \<Longrightarrow> verify C L R (Suc n) al sd = Inr ()"
proof (induction n arbitrary: al sd)
  case (Suc n)
  let ?r = "verify C L R n" and ?r' = "verify C L R (Suc n)"
  have mono: "verify_subkey C L R ?r sd doc = Inr () \<Longrightarrow> verify_subkey C L R ?r' sd doc = Inr ()"
    "verify_reference C R ?r sd doc = Inr () \<Longrightarrow> verify_reference C R ?r' sd doc = Inr ()"
    "verify_direct C ?r sd = Inr () \<Longrightarrow> verify_direct C ?r' sd = Inr ()" for doc
    using Suc.IH verify_subkey_mono[of ?r ?r'] unfolding verify_reference_ok verify_direct_ok by blast+
  from Suc.prems show ?case unfolding verify_Suc_ok[of C L R n] verify_Suc_ok[of C L R "Suc n"] using mono by blast
qed simp

text \<open>Documented behaviour of \<^verbatim>\<open>encoding/json\<close>: an encoded acknowledgement decodes, with the kind and
  the author it was encoded with.\<close>

definition codec_acked :: "codec \<Rightarrow> bool" where
  "codec_acked C \<longleftrightarrow> (\<forall>d t. enc_doc C d = Some t \<longrightarrow> d_kind d \<in> {''acked'', ''unacked''} \<longrightarrow>
     (\<exists>d'. dec_doc C t = Some d' \<and> d_kind d' = d_kind d \<and> d_author d' = d_author d))"

lemma DeriveAcked_author:
  assumes "codec_acked C" "DeriveAcked C sd = Inr ad" "dec_doc C (sd_document sd) = Some ed"
  shows "\<exists>d'. dec_doc C (sd_document ad) = Some d' \<and> d_author d' = d_author ed"
proof -
  obtain k where "k \<in> {''acked'', ''unacked''}" "enc_doc C (ed\<lparr>d_kind := k\<rparr>) = Some (sd_document ad)"
    using assms(2,3) unfolding DeriveAcked_ok ParsedDocument_def by fastforce
  then show ?thesis using assms(1)[unfolded codec_acked_def, rule_format, of "ed\<lparr>d_kind := k\<rparr>"] by auto
qed

lemma verify_author_signed:
  assumes "codec_ok C" "codec_acked C"
  shows "verify C L R n al sd = Inr () \<Longrightarrow>
    \<exists>doc text. dec_doc C (sd_document sd) = Some doc \<and> signed_by C L text (d_author doc)"
proof (induction n arbitrary: al sd)
  case (Suc n)
  then obtain doc where doc: "dec_doc C (sd_document sd) = Some doc" and
    "pf_type (sd_proof sd) = ProofTypeEcrecover \<and> verify_ecrecover C L sd doc = Inr ()
      \<or> pf_type (sd_proof sd) = ProofTypeSubkey \<and> verify_subkey C L R (verify C L R n) sd doc = Inr ()
      \<or> pf_type (sd_proof sd) = ProofTypeDocumentReference \<and> verify_reference C R (verify C L R n) sd doc = Inr ()
      \<or> pf_type (sd_proof sd) = ProofTypeDocumentDirect \<and> verify_direct C (verify C L R n) sd = Inr ()"
    unfolding verify_Suc_ok by blast
  then consider (e) "verify_ecrecover C L sd doc = Inr ()" | (s) "verify_subkey C L R (verify C L R n) sd doc = Inr ()"
    | (r) "verify_reference C R (verify C L R n) sd doc = Inr ()" | (d) "verify_direct C (verify C L R n) sd = Inr ()"
    by blast
  then show ?case
  proof cases
    case e
    then show ?thesis using doc by (auto simp: verify_ecrecover_def check_signature_ok signed_by_def split: option.splits)
  next
    case s
    obtain m where "n = Suc m" using s by (cases n) (auto simp: verify_subkey_def split: option.splits)
    then obtain sub ckid t u where "enacts C L (d_author doc) sub ckid t u"
      using s unfolding verify_subkey_ok[OF assms(1)] \<open>n = Suc m\<close> by blast
    then have "master_signed C L sub (d_author doc)" by (cases rule: enacts.cases) auto
    then show ?thesis using doc master_signed_by by blast
  next
    case r
    then show ?thesis unfolding verify_reference_ok using Suc.IH doc by (metis option.inject)
  next
    case d
    then obtain dt p ad where d: "verify C L R n (Some [ProofTypeEcrecover, ProofTypeSubkey]) (bare_sd dt p) = Inr ()"
      "DeriveAcked C (bare_sd dt p) = Inr ad" "sd_document sd = sd_document ad" unfolding verify_direct_ok by blast
    from Suc.IH[OF d(1)] obtain ed msg where ed: "dec_doc C dt = Some ed" "signed_by C L msg (d_author ed)" by auto
    then have "\<exists>d'. dec_doc C (sd_document sd) = Some d' \<and> d_author d' = d_author ed"
      using DeriveAcked_author[OF assms(2) d(2)] d(3) by simp
    then show ?thesis using doc ed(2) by auto
  qed
qed simp


text \<open>A restricted verification is the unrestricted one on the allowed proof types, and only the
  four signed proof types can ever verify.\<close>

theorem VerifyWithProofTypes_iff:
  "(VerifyWithProofTypes C L R (Some ts) sd = Inr () \<longleftrightarrow> pf_type (sd_proof sd) \<in> set ts \<and> Verify C L R sd = Inr ())
   \<and> (pf_type (sd_proof sd) \<notin> {ProofTypeEcrecover, ProofTypeSubkey, ProofTypeDocumentReference, ProofTypeDocumentDirect}
      \<longrightarrow> Verify C L R sd \<noteq> Inr ())"
  unfolding VerifyWithProofTypes_def Verify_def maxVerifyDepth_Suc verify_Suc_ok
  by (auto simp: type_allowed_def simp del: verify.simps)

text \<open>C4. A reference document verifies only against a document that itself verifies, has the same
  author, and is the one the reference names: at its key, as its author's entity document, or by
  its content identifier.\<close>

theorem Verify_reference_binds:
  assumes "Verify C L R sd = Inr ()" and "pf_type (sd_proof sd) = ProofTypeDocumentReference"
  shows "\<exists>doc e ref target tdoc h. dec_doc C (sd_document sd) = Some doc
    \<and> dec_reference C (sd_document sd) = Some (e, ref) \<and> pf_href (sd_proof sd) = Some (rf_href ref)
    \<and> Verify C L R target = Inr () \<and> dec_doc C (sd_document target) = Some tdoc \<and> d_author tdoc = d_author doc
    \<and> ParseCCURI (rf_href ref) = Inr h
    \<and> (if cu_scheme h = ''ccfs'' then cu_type h = CCFSTypeConcrnt \<and> CDID C target = Some (cu_cdid h)
         \<and> ccfs_owner tdoc = Inr (cu_owner h)
       else if cu_key h = [] then d_kind tdoc = ''entity'' \<and> d_author tdoc = cu_owner h
       else (\<exists>k. ParseCCURI (d_key tdoc) = Inr k \<and> cu_owner k = cu_owner h \<and> cu_key k = cu_key h))"
proof -
  obtain doc href e ref target tdoc h where v: "dec_doc C (sd_document sd) = Some doc"
     "pf_href (sd_proof sd) = Some href" "dec_reference C (sd_document sd) = Some (e, ref)" "rf_href ref = href"
     "verify C L R 3 None target = Inr ()" "dec_doc C (sd_document target) = Some tdoc" "d_author tdoc = d_author doc"
     "ParseCCURI href = Inr h" "href_binds C href h target tdoc = Inr ()"
    using assms unfolding Verify_def maxVerifyDepth_Suc verify_Suc_ok verify_reference_ok by auto
  have "Verify C L R target = Inr ()"
    unfolding Verify_def maxVerifyDepth_Suc by (rule verify_mono) (rule v(5))
  moreover have "if cu_scheme h = ''ccfs'' then cu_type h = CCFSTypeConcrnt \<and> CDID C target = Some (cu_cdid h)
         \<and> ccfs_owner tdoc = Inr (cu_owner h)
       else if cu_key h = [] then d_kind tdoc = ''entity'' \<and> d_author tdoc = cu_owner h
       else (\<exists>k. ParseCCURI (d_key tdoc) = Inr k \<and> cu_owner k = cu_owner h \<and> cu_key k = cu_key h)"
    using v(6,9) by (auto simp: href_binds_def CDID_def ParsedDocument_def rbind_eq_Inr split: if_splits sum.splits)
  ultimately show ?thesis using v(1-4,6-8) by blast
qed

text \<open>Inlined references matter to reference proofs only.\<close>

lemma verify_same:
  assumes "sd_document x = sd_document sd" "sd_proof x = sd_proof sd"
    and "pf_type (sd_proof sd) \<noteq> ProofTypeDocumentReference"
  shows "verify C L R n al x = verify C L R n al sd"
proof (cases n)
  case (Suc m)
  have "verify_subkey C L R rec x doc = verify_subkey C L R rec sd doc"
    "verify_ecrecover C L x doc = verify_ecrecover C L sd doc" "verify_direct C rec x = verify_direct C rec sd"
    "type_allowed al x = type_allowed al sd" for rec doc
    unfolding type_allowed_def verify_subkey_def verify_ecrecover_def verify_direct_def ParsedDocument_def assms(1,2) by (rule refl)+
  then show ?thesis using assms unfolding Suc by (simp split: option.splits)
qed simp

text \<open>A direct or subkey proof never needs more than two levels.\<close>

lemma verify_subkey_depth:
  "verify_subkey C L R (verify C L R (Suc n)) sd doc = verify_subkey C L R (verify C L R (Suc 0)) sd doc"
  unfolding verify_subkey_def enact_of_def verify_master_depth[of C L R n] by (rule refl)

lemma verify_key_depth:
  assumes "set ts \<subseteq> {ProofTypeEcrecover, ProofTypeSubkey}"
  shows "verify C L R (Suc (Suc n)) (Some ts) sd = verify C L R 2 (Some ts) sd"
proof -
  have "verify C L R (Suc (Suc n)) (Some ts) sd = verify C L R (Suc (Suc 0)) (Some ts) sd"
    using assms verify_subkey_depth[of C L R n sd]
    unfolding verify.simps(2)[of C L R "Suc n"] verify.simps(2)[of C L R "Suc 0"]
    by (auto simp: type_allowed_def simp del: verify.simps split: option.splits)
  then show ?thesis by (simp only: numeral_2_eq_2)
qed

text \<open>C3. The acknowledgement derived from an ack or unack verifies exactly when the ack or unack
  itself verifies with a direct or subkey proof.\<close>

theorem Verify_DeriveAcked:
  assumes "codec_acked C" and "DeriveAcked C sd = Inr ad"
  shows "Verify C L R ad = Inr () \<longleftrightarrow>
    VerifyWithProofTypes C L R (Some [ProofTypeEcrecover, ProofTypeSubkey]) sd = Inr ()"
proof -
  let ?al = "Some [ProofTypeEcrecover, ProofTypeSubkey]"
  let ?e = "bare_sd (sd_document sd) (sd_proof sd)"
  obtain doc k t where d: "ParsedDocument C sd = Some doc" "k \<in> {''acked'', ''unacked''}"
      "enc_doc C (doc\<lparr>d_kind := k\<rparr>) = Some t" and ad: "sd_document ad = t"
      "sd_proof ad = Proof ProofTypeDocumentDirect None None None (Some (sd_document sd)) (Some (sd_proof sd))"
    using assms(2) unfolding DeriveAcked_ok by fastforce
  obtain d' where d': "dec_doc C t = Some d'" "d_kind d' = k"
    using assms(1)[unfolded codec_acked_def, rule_format, OF d(3)] d(2) by auto
  have "DeriveAcked C ?e = Inr ad" using assms(2) unfolding DeriveAcked_def ParsedDocument_def bare_sd_sel .
  then have "verify_direct C rec ad = Inr () \<longleftrightarrow> rec ?al ?e = Inr ()" for rec
    unfolding verify_direct_ok using ad d d' by (auto simp: ParsedDocument_def)
  then have "Verify C L R ad = Inr () \<longleftrightarrow> verify C L R 3 ?al ?e = Inr ()"
    using ad d' unfolding Verify_def maxVerifyDepth_Suc verify_Suc_ok[of C L R 3] by (auto simp: type_allowed_def simp del: verify.simps)
  also have "\<dots> \<longleftrightarrow> verify C L R 3 ?al sd = Inr ()"
  proof (cases "pf_type (sd_proof sd) = ProofTypeDocumentReference")
    case True
    then show ?thesis by (simp add: numeral_3_eq_3 type_allowed_def)
  next
    case False
    then show ?thesis using verify_same[of ?e sd C L R 3 ?al] by (simp only: bare_sd_sel) simp
  qed
  also have "\<dots> \<longleftrightarrow> verify C L R 4 ?al sd = Inr ()"
    using verify_key_depth[of "[ProofTypeEcrecover, ProofTypeSubkey]" C L R 1 sd]
      verify_key_depth[of "[ProofTypeEcrecover, ProofTypeSubkey]" C L R 2 sd] by (simp add: eval_nat_numeral del: verify.simps)
  finally show ?thesis by (simp add: VerifyWithProofTypes_def maxVerifyDepth_def)
qed

text \<open>The references a submitter inlines decide nothing unless the proof is a reference proof; in
  particular they cannot stand in for a subkey's enact document.\<close>

theorem Verify_ignores_references:
  assumes "pf_type (sd_proof sd) \<noteq> ProofTypeDocumentReference"
  shows "Verify C L R (set_references r sd) = Verify C L R sd"
  unfolding Verify_def using verify_same[of "set_references r sd" sd] assms by simp

text \<open>Documented behaviour of the signature library: recovery from a signature of a digest gives the
  public key of the signing key, and bech32 text has one separator and 38 characters after a prefix
  of three for the 20-byte address of a key.\<close>

definition crypto_ok :: "crypto_lib \<Rightarrow> bool" where
  "crypto_ok L \<longleftrightarrow>
     (\<forall>k b. hexToECDSA L k = Some b \<longrightarrow> hex_decode k = Some b \<and> length k = 64)
     \<and> (\<forall>h b s. crypto_sign L h b = Some s \<longrightarrow>
         (\<exists>p. ecrecover L h s = Some p \<and> newPublicKey L p = Some (privkey_pubkey L b)))
     \<and> (\<forall>b h a acct. pubkey_address L b = Some acct \<longrightarrow> length h = 3 \<longrightarrow> bech32_encode L h acct = Some a \<longrightarrow>
         length a = 42 \<and> take 3 a = h)"

lemma SignBytes_verifies:
  assumes "crypto_ok L" and "SignBytes C L msg k = Inr s" and "PrivKeyToAddr L k hrp = Inr a" and "length hrp = 3"
  shows "VerifySignature C L msg s a = Inr ()"
proof -
  obtain b where b: "hexToECDSA L k = Some b" "crypto_sign L (keccak C msg) b = Some s"
    using assms(2) by (auto simp: SignBytes_def Let_def split: option.splits)
  then obtain p where p: "ecrecover L (keccak C msg) s = Some p" "newPublicKey L p = Some (privkey_pubkey L b)"
    "hex_decode k = Some b" "length k = 64" using assms(1) unfolding crypto_ok_def by blast
  then have "PubkeyBytesToAddr L (privkey_pubkey L b) hrp = Inr a" using assms(3) by (simp add: PrivKeyToAddr_def)
  moreover from this have "length a = 42" "take 3 a = hrp"
    using assms(1,4) unfolding crypto_ok_def PubkeyBytesToAddr_def by (auto split: option.splits)
  ultimately show ?thesis using p by (simp add: VerifySignature_def Let_def)
qed

text \<open>What a private key signs verifies against the address of that key, under the prefix the
  address was made with.\<close>

theorem SignBytes_VerifySignature:
  assumes "crypto_ok L" and "SignBytes C L msg k = Inr s" and "PrivKeyToAddr L k hrp = Inr a" and "length hrp = 3"
  shows "VerifySignature C L msg s a = Inr ()"
  using assms by (rule SignBytes_verifies)

section \<open>Instances\<close>

text \<open>A library in which a key is its own public key and its own signature, and a codec of a few
  texts, to exhibit the hypotheses together.\<close>

definition demo_crypto :: crypto_lib where
  "demo_crypto = \<lparr>ecrecover = (\<lambda>h s. Some s), newPublicKey = Some, pubkey_address = Some,
     bech32_encode = (\<lambda>hrp acct. Some (take 42 (hrp @ map (char_of \<circ> unat) acct @ replicate 39 CHR ''0''))),
     hexToECDSA = (\<lambda>k. if length k = 64 then hex_decode k else None), crypto_sign = (\<lambda>h b. Some b),
     privkey_pubkey = id\<rparr>"

definition demo_doc :: document where
  "demo_doc = \<lparr>d_kind = ''ack'', d_key = [], d_value = JNull, d_author = ''cona'' @ replicate 38 CHR ''0'',
     d_schema = [], d_createdAt = 5, d_onUpdate = None, d_distributes = None, d_associate = None,
     d_associationVariant = None, d_policy = None\<rparr>"

abbreviation demo_enact :: document where
  "demo_enact \<equiv> demo_doc\<lparr>d_kind := ''record'', d_schema := SubkeyURL, d_createdAt := 3\<rparr>"

abbreviation demo_ref :: document where
  "demo_ref \<equiv> demo_doc\<lparr>d_kind := ''record'', d_schema := ReferenceURL\<rparr>"

abbreviation demo_target :: document where
  "demo_target \<equiv> demo_doc\<lparr>d_kind := ''record'', d_key := ''cckv://o/k''\<rparr>"

definition demo_codec :: codec where
  "demo_codec = \<lparr>dec_doc = map_of [(''A'', demo_doc), (''B'', demo_doc\<lparr>d_kind := ''acked''\<rparr>), (''E'', demo_enact),
       (''R'', demo_ref), (''T'', demo_target)],
     dec_subkey = map_of [(''E'', (demo_enact, ''cckb'' @ replicate 38 CHR ''0''))],
     dec_revoked = (\<lambda>_. None), dec_reference = map_of [(''R'', (demo_ref, \<lparr>rf_href = ''cckv://o/k'', rf_schema = None,
       rf_createdAt = None\<rparr>))],
     dec_entity = (\<lambda>_. None), dec_delete = (\<lambda>_. None),
     enc_doc = (\<lambda>d. if d = demo_doc\<lparr>d_kind := ''acked''\<rparr> then Some ''B'' else None), keccak = (\<lambda>_. [])\<rparr>"

definition demo_sig :: "char \<Rightarrow> string" where
  "demo_sig c = ''6'' @ [c]"

definition demo_signed :: "string \<Rightarrow> signed_document" where
  "demo_signed t = bare_sd t (Proof ProofTypeEcrecover (Some (demo_sig CHR ''1'')) None None None None)"

definition demo_subkeyed :: "string \<Rightarrow> signed_document" where
  "demo_subkeyed t = bare_sd t (Proof ProofTypeSubkey (Some (demo_sig CHR ''2'')) None (Some ''key'') None None)"

definition demo_resolver :: resolver where
  "demo_resolver = Some (map_of [(''key'', demo_signed ''E''), (''cckv://o/k'', demo_signed ''T'')])"

lemma demo_codec_ok: "codec_ok demo_codec"
  by (auto simp: codec_ok_def demo_codec_def split: if_splits)

lemma demo_codec_acked: "codec_acked demo_codec"
  by (auto simp: codec_acked_def demo_codec_def demo_doc_def split: if_splits)

lemma demo_crypto_ok: "crypto_ok demo_crypto"
  by (auto simp: crypto_ok_def demo_crypto_def split: if_splits)

lemmas demo_laws = demo_codec_ok demo_codec_acked demo_crypto_ok

abbreviation demo_verify :: "signed_document \<Rightarrow> (verify_error, unit) result" where
  "demo_verify \<equiv> Verify demo_codec demo_crypto demo_resolver"

lemma demo_runs:
  "demo_verify (demo_subkeyed ''A'') = Inr ()"
  "demo_verify (demo_signed ''A'') = Inr ()"
  "demo_verify (bare_sd ''R'' (Proof ProofTypeDocumentReference None (Some ''cckv://o/k'') None None None)) = Inr ()"
  "VerifyWithProofTypes demo_codec demo_crypto demo_resolver (Some [ProofTypeEcrecover, ProofTypeSubkey])
     (demo_subkeyed ''A'') = Inr ()"
  by code_simp+

theorem Verify_subkey_iff_witness:
  "\<exists>doc sub ckid t u. dec_doc demo_codec ''A'' = Some doc \<and> the demo_resolver ''key'' = Some sub
     \<and> enacts demo_codec demo_crypto (d_author doc) sub ckid t u \<and> t \<le> d_createdAt doc"
proof -
  have t: "pf_type (sd_proof (demo_subkeyed ''A'')) = ProofTypeSubkey" "sd_document (demo_subkeyed ''A'') = ''A''"
    "pf_key (sd_proof (demo_subkeyed ''A'')) = Some ''key''" by (simp_all add: demo_subkeyed_def)
  from demo_runs(1) obtain doc f key sub ckid t u where "dec_doc demo_codec ''A'' = Some doc" "demo_resolver = Some f"
    "Some ''key'' = Some key" "f key = Some sub" "enacts demo_codec demo_crypto (d_author doc) sub ckid t u" "t \<le> d_createdAt doc"
    unfolding Verify_subkey_iff[OF demo_laws(1) t(1)] t by blast
  then show ?thesis by (metis option.sel)
qed


theorem VerifyWithProofTypes_iff_witness:
  "VerifyWithProofTypes demo_codec demo_crypto demo_resolver (Some [ProofTypeSubkey]) (demo_subkeyed ''A'') = Inr ()
   \<and> demo_verify (bare_sd ''A'' (Proof ProofTypeNone None None None None None)) \<noteq> Inr ()"
  using VerifyWithProofTypes_iff[of demo_codec demo_crypto demo_resolver "[ProofTypeSubkey]" "demo_subkeyed ''A''"]
    VerifyWithProofTypes_iff[of demo_codec demo_crypto demo_resolver "[]" "bare_sd ''A'' (Proof ProofTypeNone None None None None None)"]
    demo_runs(1) by (simp add: demo_subkeyed_def)

theorem Verify_reference_binds_witness:
  "\<exists>target tdoc. demo_verify target = Inr () \<and> dec_doc demo_codec (sd_document target) = Some tdoc
     \<and> d_author tdoc = ''cona'' @ replicate 38 CHR ''0''"
proof -
  from Verify_reference_binds[OF demo_runs(3)] obtain doc target tdoc where "dec_doc demo_codec ''R'' = Some doc"
    "demo_verify target = Inr ()" "dec_doc demo_codec (sd_document target) = Some tdoc" "d_author tdoc = d_author doc"
    unfolding bare_sd_sel proof_t.sel by blast
  moreover have "dec_doc demo_codec ''R'' = Some demo_ref" "d_author demo_ref = ''cona'' @ replicate 38 CHR ''0''"
    by (simp_all add: demo_codec_def demo_doc_def)
  ultimately show ?thesis by (metis option.inject)
qed

theorem Verify_DeriveAcked_witness:
  "\<exists>ad. DeriveAcked demo_codec (demo_subkeyed ''A'') = Inr ad \<and> demo_verify ad = Inr ()"
proof -
  have "DeriveAcked demo_codec (demo_subkeyed ''A'') = Inr (bare_sd ''B'' (Proof ProofTypeDocumentDirect None None None
      (Some ''A'') (Some (sd_proof (demo_subkeyed ''A'')))))" by code_simp
  from this Verify_DeriveAcked[OF demo_laws(2) this, of demo_crypto demo_resolver] show ?thesis
    using demo_runs(4) by blast
qed

theorem Verify_ignores_references_witness:
  "demo_verify (set_references [(''key'', demo_signed ''A'')] (demo_subkeyed ''A'')) = Inr ()"
  using Verify_ignores_references[of "demo_subkeyed ''A''" demo_codec demo_crypto demo_resolver] demo_runs(1)
  by (simp add: demo_subkeyed_def)

theorem SignBytes_VerifySignature_witness:
  "VerifySignature demo_codec demo_crypto ''hello'' (replicate 32 0x61) (''con'' @ replicate 32 CHR ''a'' @ replicate 7 CHR ''0'') = Inr ()"
  by (rule SignBytes_VerifySignature[OF demo_laws(3), where k = "concat (replicate 32 ''61'')" and hrp = "''con''"])
    (code_simp, code_simp, simp)

end
