(* ===== verification/Tags.thy ===== *)
theory Tags
  imports Conc_Prelude
begin

text \<open>
  Tag strings, \<^verbatim>\<open>src/impl/tags/tag.go\<close>: the comma separated \<open>key:value\<close> lists servers and
  entities carry. \<^verbatim>\<open>Tags.Body\<close> is a Go map; \<open>ToString\<close> depends on its iteration order, which
  is the order of the association list, so a statement about any list covers any order.
\<close>

record tags =
  Body :: "(string, string) gmap"

definition NewTags :: tags where
  "NewTags = \<lparr>Body = []\<rparr>"

definition add_tag :: "tags \<Rightarrow> string \<Rightarrow> string \<Rightarrow> tags" where
  "add_tag t key val = t\<lparr>Body := gmap_set key val (Body t)\<rparr>"

definition has_tag :: "tags \<Rightarrow> string \<Rightarrow> bool" where
  "has_tag t key \<longleftrightarrow> map_of (Body t) key \<noteq> None"

definition remove_tag :: "tags \<Rightarrow> string \<Rightarrow> tags" where
  "remove_tag t key = t\<lparr>Body := gmap_del key (Body t)\<rparr>"

definition get_tag :: "tags \<Rightarrow> string \<Rightarrow> string" where
  "get_tag t key = (case map_of (Body t) key of None \<Rightarrow> '''' | Some v \<Rightarrow> v)"

text \<open>One segment: a bare key, a key with a value, or nothing when it has two colons or more.\<close>

definition add_segment :: "tags \<Rightarrow> string \<Rightarrow> tags" where
  "add_segment t seg = (case split_char CHR '':'' seg of
      [k] \<Rightarrow> add_tag t k ''''
    | [k, v] \<Rightarrow> add_tag t k v
    | _ \<Rightarrow> t)"

definition parse_tags :: "string \<Rightarrow> tags" where
  "parse_tags input = foldl add_segment NewTags (split_char CHR '','' input)"

definition tag_text :: "string \<times> string \<Rightarrow> string" where
  "tag_text kv = fst kv @ (if snd kv = '''' then '''' else '':'' @ snd kv)"

definition tags_string :: "tags \<Rightarrow> string" where
  "tags_string t = foldl (\<lambda>result kv.
     (if result \<noteq> '''' then result @ '','' else result) @ tag_text kv) '''' (Body t)"

text \<open>\<^verbatim>\<open>strconv.Atoi\<close>: an optional sign, at least one decimal digit, the range of a 64-bit int.\<close>

definition is_digit :: "char \<Rightarrow> bool" where
  "is_digit c \<longleftrightarrow> CHR ''0'' \<le> c \<and> c \<le> CHR ''9''"

definition dec_val :: "string \<Rightarrow> nat" where
  "dec_val s = digits_val 10 (map (\<lambda>c. of_char c - of_char CHR ''0'') s)"

definition atoi :: "string \<Rightarrow> int option" where
  "atoi s =
     (let neg = has_prefix s ''-''; ds = (if neg \<or> has_prefix s ''+'' then drop 1 s else s);
          n = (if neg then - int (dec_val ds) else int (dec_val ds))
      in if ds \<noteq> [] \<and> list_all is_digit ds \<and> - (2 ^ 63) \<le> n \<and> n < 2 ^ 63 then Some n else None)"

definition get_as_int :: "tags \<Rightarrow> string \<Rightarrow> int \<times> bool" where
  "get_as_int t key = (case map_of (Body t) key of None \<Rightarrow> (0, False)
     | Some v \<Rightarrow> (case atoi v of None \<Rightarrow> (0, False) | Some n \<Rightarrow> (n, True)))"

section \<open>Round trip\<close>

definition tag_ok :: "string \<times> string \<Rightarrow> bool" where
  "tag_ok kv \<longleftrightarrow> fst kv \<noteq> '''' \<and> CHR '','' \<notin> set (fst kv) \<and> CHR '':'' \<notin> set (fst kv)
     \<and> CHR '','' \<notin> set (snd kv) \<and> CHR '':'' \<notin> set (snd kv)"

lemma tag_text_ok: "tag_ok kv \<Longrightarrow> tag_text kv \<noteq> '''' \<and> CHR '','' \<notin> set (tag_text kv)"
  by (auto simp: tag_ok_def tag_text_def)

lemma add_segment_text: "tag_ok (k, v) \<Longrightarrow> add_segment t (tag_text (k, v)) = add_tag t k v"
  by (auto simp: add_segment_def tag_text_def tag_ok_def split_char_none split_char_append)

lemma tags_string_acc:
  "acc \<noteq> '''' \<Longrightarrow> foldl (\<lambda>result kv. (if result \<noteq> '''' then result @ '','' else result) @ tag_text kv) acc kvs
    = acc @ concat (map (\<lambda>kv. '','' @ tag_text kv) kvs)"
  by (induction kvs arbitrary: acc) auto

lemma tags_string_join:
  assumes "list_all tag_ok (Body t)" and "Body t \<noteq> []"
  shows "tags_string t = join_with '','' (map tag_text (Body t))"
proof -
  obtain kv kvs where b: "Body t = kv # kvs" using assms(2) by (metis neq_Nil_conv)
  have "join_with '','' (w # ws) = w @ concat (map (\<lambda>v. '','' @ v) ws)" for w ws
    by (induction ws arbitrary: w) auto
  then show ?thesis
    using assms(1) b tag_text_ok[of kv]
    by (simp add: tags_string_def tags_string_acc comp_def)
qed

lemma fold_segments:
  "list_all tag_ok kvs \<Longrightarrow> map_of (Body (foldl add_segment t (map tag_text kvs))) = map_of (Body t) ++ map_of (rev kvs)"
proof (induction kvs arbitrary: t)
  case (Cons kv kvs)
  then show ?case
    by (cases kv) (simp add: add_segment_text add_tag_def map_add_assoc[symmetric] map_of_append)
qed simp

lemma map_of_rev_distinct: "distinct (map fst kvs) \<Longrightarrow> map_of (rev kvs) = map_of kvs"
  by (metis distinct_rev map_of_eqI map_of_inject_set rev_map set_rev)

text \<open>A tag set whose keys are non-empty and whose keys and values contain no separator
  survives printing and parsing, in whatever order the map is iterated.\<close>

theorem tags_roundtrip:
  assumes "list_all tag_ok (Body t)" and "gmap_ok (Body t)" and "Body t \<noteq> []"
  shows "map_of (Body (parse_tags (tags_string t))) = map_of (Body t)"
proof -
  have "split_char CHR '','' (tags_string t) = map tag_text (Body t)"
    using assms tag_text_ok by (auto simp: tags_string_join list_all_iff intro!: split_join)
  then show ?thesis
    using assms fold_segments[of "Body t" NewTags] map_of_rev_distinct[of "Body t"]
    by (simp add: parse_tags_def NewTags_def gmap_ok_def)
qed

theorem tags_roundtrip_witness:
  "map_of (Body (parse_tags (tags_string \<lparr>Body = [(''_blocked'', ''''), (''limit'', ''10'')]\<rparr>)))
     = map_of [(''_blocked'', ''''), (''limit'', ''10'')]"
  using tags_roundtrip[of "\<lparr>Body = [(''_blocked'', ''''), (''limit'', ''10'')]\<rparr>"]
  by (simp add: tag_ok_def gmap_ok_def)

end
