(* ===== verification/Domain.thy ===== *)
theory Domain
  imports Tags Ccuri
begin

text \<open>
  The domain types of \<^verbatim>\<open>src/internal/domain\<close>: commit modes and limits, entities, servers'
  configuration, and the errors the use cases return. \<open>EOther\<close> is an error of no domain type and
  \<open>EPanic\<close> a Go panic.
\<close>

datatype commit_mode = CommitModeUnknown | CommitModeExecute | CommitModeDryRun | CommitModeLocalOnlyExecute

definition MaxBackdate :: gotime where
  "MaxBackdate = seconds (7 * 24 * 60 * 60)"

definition MaxFutureSkew :: gotime where
  "MaxFutureSkew = seconds (12 * 60 * 60)"

definition MaxDocumentSize :: nat where
  "MaxDocumentSize = 32768"

definition MaxAssociationVariantSize :: nat where
  "MaxAssociationVariantSize = 512"

definition MaxRecordKeySize :: nat where
  "MaxRecordKeySize = 1024"

record server_config =
  cf_FQDN :: string
  cf_CSID :: string
  cf_Layer :: string
  cf_Registration :: string

record entity =
  en_id :: string
  en_alias :: "string option"
  en_domain :: string
  en_tag :: string
  en_signedDocument :: "signed_document option"

definition entity_tags :: "entity \<Rightarrow> tags" where
  "entity_tags e = parse_tags (en_tag e)"

definition entity_CCKV :: "entity \<Rightarrow> string" where
  "entity_CCKV e = ComposeCCURI ''cckv'' (en_id e) []"

definition CCKVWithHint :: "entity \<Rightarrow> string" where
  "CCKVWithHint e = ''cckv://'' @ en_id e @ ''@'' @ en_domain e"

definition zero_entity :: entity where
  "zero_entity = \<lparr>en_id = [], en_alias = None, en_domain = [], en_tag = [], en_signedDocument = None\<rparr>"

record entity_meta =
  em_id :: string
  em_inviter :: "string option"
  em_info :: string

record well_known =
  wk_version :: string
  wk_domain :: string
  wk_csid :: string
  wk_layer :: string
  wk_endpoints :: "(string, string) gmap"

record server =
  sv_tagString :: string
  sv_wellKnown :: well_known

definition server_Layer :: "server \<Rightarrow> string" where
  "server_Layer s = wk_layer (sv_wellKnown s)"

definition server_Tag :: "server \<Rightarrow> tags" where
  "server_Tag s = parse_tags (sv_tagString s)"

datatype domain_error = ENotFound string string string | EPermission string | ERedirect string
  | EValidation string string | EOther string | EPanic

definition ErrNotFound :: domain_error where
  "ErrNotFound = ENotFound [] [] []"

fun error_text :: "domain_error \<Rightarrow> string" where
  "error_text (ENotFound resource message code) = (if message \<noteq> [] then message
     else if resource = [] then ''not found'' else resource @ '' not found'')"
| "error_text (EPermission reason) = (if reason = [] then ''permission denied'' else ''permission denied: '' @ reason)"
| "error_text (ERedirect location) = ''redirect to '' @ location"
| "error_text (EValidation fld message) = (if fld = [] then ''validation error: '' @ message
     else ''validation error on field '' @ [CHR 0x27] @ fld @ [CHR 0x27] @ '': '' @ message)"
| "error_text (EOther m) = m"
| "error_text EPanic = ''panic''"

text \<open>\<^verbatim>\<open>errors.Is(err, domain.ErrNotFound)\<close>, and likewise for the other sentinels.\<close>

fun is_not_found :: "domain_error \<Rightarrow> bool" where
  "is_not_found (ENotFound _ _ _) = True"
| "is_not_found _ = False"

fun is_permission :: "domain_error \<Rightarrow> bool" where
  "is_permission (EPermission _) = True"
| "is_permission _ = False"

end
