(* ===== verification/Act.thy ===== *)
theory Act
  imports Domain
begin

text \<open>
  Actions of the use cases: functions of a state that return an error or a value and the next
  state. \<open>None\<close> is a call that does not return. \<open>sbind\<close> is the \<^verbatim>\<open>if err != nil { return nil, err }\<close>
  idiom, \<open>attempt\<close> hands the error to the caller. \<open>triple\<close> is partial correctness of an action:
  from a state satisfying the first predicate, a value is returned only with the second and an
  error only with the third; its rules, collected as \<open>act_rules\<close>, walk through an action.
\<close>

named_theorems act_rules
named_theorems act_simps

type_synonym ('s, 'a) act = "'s \<Rightarrow> ((domain_error, 'a) result \<times> 's) option"

definition ret :: "'a \<Rightarrow> ('s, 'a) act" where
  "ret x s = Some (Inr x, s)"

definition fail :: "domain_error \<Rightarrow> ('s, 'a) act" where
  "fail e s = Some (Inl e, s)"

definition sbind :: "('s, 'a) act \<Rightarrow> ('a \<Rightarrow> ('s, 'b) act) \<Rightarrow> ('s, 'b) act" where
  "sbind m f s = (case m s of None \<Rightarrow> None | Some (Inl e, s') \<Rightarrow> Some (Inl e, s') | Some (Inr x, s') \<Rightarrow> f x s')"

definition attempt :: "('s, 'a) act \<Rightarrow> ('s, (domain_error, 'a) result) act" where
  "attempt m s = map_option (\<lambda>(r, s'). (Inr r, s')) (m s)"

definition lift :: "(domain_error, 'a) result \<Rightarrow> ('s, 'a) act" where
  "lift r s = Some (r, s)"

definition lift_option :: "domain_error \<Rightarrow> 'a option \<Rightarrow> ('s, 'a) act" where
  "lift_option e r = lift (case r of None \<Rightarrow> Inl e | Some x \<Rightarrow> Inr x)"

definition diverges_or :: "(domain_error, 'a) result option \<Rightarrow> ('s, 'a) act" where
  "diverges_or r s = map_option (\<lambda>x. (x, s)) r"

definition gets :: "('s \<Rightarrow> 'a) \<Rightarrow> ('s, 'a) act" where
  "gets f s = Some (Inr (f s), s)"

definition modify :: "('s \<Rightarrow> 's) \<Rightarrow> ('s, unit) act" where
  "modify f s = Some (Inr (), f s)"

definition sguard :: "bool \<Rightarrow> domain_error \<Rightarrow> ('s, unit) act" where
  "sguard b e = (if b then ret () else fail e)"

definition seq :: "('s, unit) act \<Rightarrow> ('s, 'b) act \<Rightarrow> ('s, 'b) act" where
  "seq m k = sbind m (\<lambda>_. k)"

fun smap :: "('a \<Rightarrow> ('s, 'b) act) \<Rightarrow> 'a list \<Rightarrow> ('s, 'b list) act" where
  "smap f [] = ret []"
| "smap f (x # xs) = sbind (f x) (\<lambda>y. sbind (smap f xs) (\<lambda>ys. ret (y # ys)))"

text \<open>A loop that threads an accumulator.\<close>

fun sfold :: "('a \<Rightarrow> 'b \<Rightarrow> ('s, 'b) act) \<Rightarrow> 'a list \<Rightarrow> 'b \<Rightarrow> ('s, 'b) act" where
  "sfold f [] acc = ret acc"
| "sfold f (x # xs) acc = sbind (f x acc) (sfold f xs)"

section \<open>Evaluation\<close>

lemma act_eval [act_simps]:
  "ret x s = Some (Inr x, s)" "fail e s = Some (Inl e, s)" "lift r s = Some (r, s)"
  "gets f s = Some (Inr (f s), s)" "modify g s = Some (Inr (), g s)" "diverges_or q s = map_option (\<lambda>x. (x, s)) q"
  by (simp_all add: ret_def fail_def lift_def gets_def modify_def diverges_or_def)

lemma sbind_Some [act_simps]:
  "sbind m f s = Some (r, s') \<longleftrightarrow> (\<exists>e. m s = Some (Inl e, s') \<and> r = Inl e) \<or> (\<exists>x s1. m s = Some (Inr x, s1) \<and> f x s1 = Some (r, s'))"
  by (auto simp: sbind_def split: option.splits sum.splits)

lemma attempt_Some [act_simps]: "attempt m s = Some (r, s') \<longleftrightarrow> (\<exists>q. m s = Some (q, s') \<and> r = Inr q)"
  by (auto simp: attempt_def)

lemma lift_option_eval [act_simps]: "lift_option e r s = Some (case r of None \<Rightarrow> Inl e | Some x \<Rightarrow> Inr x, s)"
  by (simp add: lift_option_def lift_def)

lemma sguard_eval [act_simps]: "sguard b e s = Some (if b then Inr () else Inl e, s)"
  by (simp add: sguard_def ret_def fail_def)

lemma seq_Some [act_simps]:
  "seq m k s = Some (r, s') \<longleftrightarrow> (\<exists>e. m s = Some (Inl e, s') \<and> r = Inl e) \<or> (\<exists>s1. m s = Some (Inr (), s1) \<and> k s1 = Some (r, s'))"
  by (simp add: seq_def sbind_Some)

section \<open>Triples\<close>

definition triple :: "('s \<Rightarrow> bool) \<Rightarrow> ('s, 'a) act \<Rightarrow> ('a \<Rightarrow> 's \<Rightarrow> bool) \<Rightarrow> (domain_error \<Rightarrow> 's \<Rightarrow> bool) \<Rightarrow> bool" where
  "triple P m Q E \<longleftrightarrow> (\<forall>s r s'. P s \<longrightarrow> m s = Some (r, s') \<longrightarrow> (case r of Inl e \<Rightarrow> E e s' | Inr x \<Rightarrow> Q x s'))"

lemma tripleI: "(\<And>s r s'. P s \<Longrightarrow> m s = Some (r, s') \<Longrightarrow> case r of Inl e \<Rightarrow> E e s' | Inr x \<Rightarrow> Q x s') \<Longrightarrow> triple P m Q E"
  by (simp add: triple_def)

lemma tripleD: "triple P m Q E \<Longrightarrow> P s \<Longrightarrow> m s = Some (r, s') \<Longrightarrow> case r of Inl e \<Rightarrow> E e s' | Inr x \<Rightarrow> Q x s'"
  by (simp add: triple_def)

lemma triple_conseq:
  assumes "triple P m Q E" "\<And>s. P' s \<Longrightarrow> P s" "\<And>x s. Q x s \<Longrightarrow> Q' x s" "\<And>e s. E e s \<Longrightarrow> E' e s"
  shows "triple P' m Q' E'"
  using assms by (fastforce simp: triple_def split: sum.splits)

lemma triple_sbind [act_rules]:
  assumes "triple P m R E" "\<And>x. triple (R x) (f x) Q E"
  shows "triple P (sbind m f) Q E"
  using assms by (fastforce simp: triple_def sbind_Some split: sum.splits)

lemma triple_seq [act_rules]:
  assumes "triple P m (\<lambda>_. R) E" "triple R k Q E"
  shows "triple P (seq m k) Q E"
  unfolding seq_def by (rule triple_sbind[OF assms(1)]) (rule assms(2))

lemma triple_if [act_rules]:
  "(b \<Longrightarrow> triple P m Q E) \<Longrightarrow> (\<not> b \<Longrightarrow> triple P n Q E) \<Longrightarrow> triple P (if b then m else n) Q E"
  by simp

lemma triple_option [act_rules]:
  "(x = None \<Longrightarrow> triple P m Q E) \<Longrightarrow> (\<And>y. x = Some y \<Longrightarrow> triple P (f y) Q E) \<Longrightarrow> triple P (case x of None \<Rightarrow> m | Some y \<Rightarrow> f y) Q E"
  by (cases x) simp_all

lemma triple_sum [act_rules]:
  "(\<And>e. x = Inl e \<Longrightarrow> triple P (f e) Q E) \<Longrightarrow> (\<And>y. x = Inr y \<Longrightarrow> triple P (g y) Q E) \<Longrightarrow> triple P (case x of Inl e \<Rightarrow> f e | Inr y \<Rightarrow> g y) Q E"
  by (cases x) simp_all

lemma triple_prod [act_rules]: "(\<And>a b. x = (a, b) \<Longrightarrow> triple P (f a b) Q E) \<Longrightarrow> triple P (case x of (a, b) \<Rightarrow> f a b) Q E"
  by (cases x) simp

lemma triple_Let [act_rules]: "triple P (f t) Q E \<Longrightarrow> triple P (let x = t in f x) Q E"
  by simp

text \<open>An invariant is kept on values and errors alike.\<close>

definition keeps :: "('s \<Rightarrow> bool) \<Rightarrow> ('s, 'a) act \<Rightarrow> bool" where
  "keeps I m \<longleftrightarrow> triple I m (\<lambda>_. I) (\<lambda>_. I)"

lemma keepsD: "keeps I m \<Longrightarrow> I s \<Longrightarrow> m s = Some (r, s') \<Longrightarrow> I s'"
  by (auto simp: keeps_def triple_def split: sum.splits)

lemma keepsI: "(\<And>s r s'. I s \<Longrightarrow> m s = Some (r, s') \<Longrightarrow> I s') \<Longrightarrow> keeps I m"
  by (auto simp: keeps_def triple_def split: sum.splits)

named_theorems keeps_rules

lemma keeps_basic [keeps_rules]:
  "keeps I (ret x)" "keeps I (fail e)" "keeps I (lift r)" "keeps I (gets f)" "keeps I (diverges_or q)"
  "keeps I (lift_option e y)" "keeps I (sguard b e)"
  by (auto intro!: keepsI simp: act_simps)

lemma keeps_modify [keeps_rules]: "(\<And>s. I s \<Longrightarrow> I (f s)) \<Longrightarrow> keeps I (modify f)"
  by (auto intro!: keepsI simp: act_simps)

lemma keeps_sbind [keeps_rules]: "keeps I m \<Longrightarrow> (\<And>x. keeps I (f x)) \<Longrightarrow> keeps I (sbind m f)"
  unfolding keeps_def by (rule triple_sbind)

lemma keeps_attempt [keeps_rules]: "keeps I m \<Longrightarrow> keeps I (attempt m)"
  by (auto intro!: keepsI simp: act_simps dest: keepsD)

lemma keeps_seq [keeps_rules]: "keeps I m \<Longrightarrow> keeps I k \<Longrightarrow> keeps I (seq m k)"
  unfolding seq_def by (rule keeps_sbind)

lemma keeps_if [keeps_rules]: "(b \<Longrightarrow> keeps I m) \<Longrightarrow> (\<not> b \<Longrightarrow> keeps I n) \<Longrightarrow> keeps I (if b then m else n)"
  by simp

lemma keeps_option [keeps_rules]:
  "(x = None \<Longrightarrow> keeps I m) \<Longrightarrow> (\<And>y. x = Some y \<Longrightarrow> keeps I (f y)) \<Longrightarrow> keeps I (case x of None \<Rightarrow> m | Some y \<Rightarrow> f y)"
  by (cases x) simp_all

lemma keeps_sum [keeps_rules]:
  "(\<And>e. x = Inl e \<Longrightarrow> keeps I (f e)) \<Longrightarrow> (\<And>y. x = Inr y \<Longrightarrow> keeps I (g y)) \<Longrightarrow> keeps I (case x of Inl e \<Rightarrow> f e | Inr y \<Rightarrow> g y)"
  by (cases x) simp_all

lemma keeps_prod [keeps_rules]: "(\<And>a b. x = (a, b) \<Longrightarrow> keeps I (f a b)) \<Longrightarrow> keeps I (case x of (a, b) \<Rightarrow> f a b)"
  by (cases x) simp

lemma keeps_Let [keeps_rules]: "keeps I (f t) \<Longrightarrow> keeps I (let x = t in f x)"
  by simp

lemma keeps_smap [keeps_rules]: "(\<And>x. x \<in> set xs \<Longrightarrow> keeps I (f x)) \<Longrightarrow> keeps I (smap f xs)"
  by (induction xs) (auto intro!: keeps_rules)

lemma keeps_sfold [keeps_rules]: "(\<And>x acc. x \<in> set xs \<Longrightarrow> keeps I (f x acc)) \<Longrightarrow> keeps I (sfold f xs acc)"
  by (induction xs arbitrary: acc) (auto intro!: keeps_rules)

text \<open>A step whose result is used by a triple, and which keeps the precondition.\<close>

lemma triple_keeps: "keeps I m \<Longrightarrow> triple I m (\<lambda>_. I) (\<lambda>_. I)"
  by (simp add: keeps_def)

lemma triple_sbind_keeps:
  assumes "keeps I m" "\<And>x. triple I (f x) Q (\<lambda>_. I)"
  shows "triple I (sbind m f) Q (\<lambda>_. I)"
  using assms unfolding keeps_def by (rule triple_sbind)

lemma triple_ret: "(\<And>s. P s \<Longrightarrow> Q x s) \<Longrightarrow> triple P (ret x) Q E"
  by (auto simp: triple_def act_simps)

lemma triple_fail: "(\<And>s. P s \<Longrightarrow> E e s) \<Longrightarrow> triple P (fail e) Q E"
  by (auto simp: triple_def act_simps)

end
