(* ===== verification/Policy_Engine.thy ===== *)
theory Policy_Engine
  imports Ccuri
begin

text \<open>
  The policy language, \<^verbatim>\<open>src/policy\<close>: conclusions and how they combine, conditions over a request
  context, statements selected by action and key pattern, and stacks of layers. A conclusion is
  a string in the source (a policy document may carry any text there) and stays one here. The
  values a condition computes with are Go \<^verbatim>\<open>any\<close> values; comparing two slices or two maps with
  \<^verbatim>\<open>==\<close> panics, which is an error of its own that no statement can skip. The tree of
  intermediate results the source keeps for tracing is left out.

  Shown here: what a layer and a stack conclude in terms of their parts, that no decision above
  a strong one matters, that evaluation of a policy cannot fail except by that panic, which keys
  a pattern selects, and the loading of nested values.
\<close>

section \<open>Conclusions\<close>

type_synonym Conclusion = string

abbreviation UNSET :: Conclusion where "UNSET \<equiv> ''unset''"
abbreviation OK :: Conclusion where "OK \<equiv> ''ok''"
abbreviation NG :: Conclusion where "NG \<equiv> ''ng''"
abbreviation ALLOW :: Conclusion where "ALLOW \<equiv> ''allow''"
abbreviation DENY :: Conclusion where "DENY \<equiv> ''deny''"

definition ParseConclusion :: "string \<Rightarrow> Conclusion" where
  "ParseConclusion s = (if s = ''allow'' then ALLOW else if s = ''deny'' then DENY
     else if s = ''ok'' then OK else if s = ''ng'' then NG else UNSET)"

definition c_or :: "Conclusion \<Rightarrow> Conclusion \<Rightarrow> Conclusion" where
  "c_or c other = (if c = UNSET then other
     else if other = UNSET then c
     else if c = DENY \<and> other = ALLOW \<or> c = ALLOW \<and> other = DENY then UNSET
     else if c = DENY \<or> other = DENY then DENY
     else if c = ALLOW \<or> other = ALLOW then ALLOW
     else if c = OK \<and> other = NG \<or> c = NG \<and> other = OK then UNSET
     else if c = OK \<or> other = OK then OK
     else if c = NG \<or> other = NG then NG
     else UNSET)"

section \<open>Values\<close>

text \<open>A Go \<^verbatim>\<open>any\<close>: \<^verbatim>\<open>nil\<close>, a \<^verbatim>\<open>bool\<close>, \<^verbatim>\<open>float64\<close> or \<^verbatim>\<open>string\<close>, a value of another comparable type (its
  type and its text), a \<^verbatim>\<open>[]any\<close>, a \<^verbatim>\<open>map[string]any\<close>, a \<^verbatim>\<open>map[any]any\<close>.\<close>

datatype goval = GNil | GBool bool | GNum rat | GStr string | GScalar string string
  | GSlice "goval list" | GMap "(string \<times> goval) list" | GMapAny "(goval \<times> goval) list"

fun of_jval :: "jval \<Rightarrow> goval" where
  "of_jval JNull = GNil"
| "of_jval (JBool b) = GBool b"
| "of_jval (JNum n) = GNum n"
| "of_jval (JStr s) = GStr s"
| "of_jval (JArr xs) = GSlice (map of_jval xs)"
| "of_jval (JObj m) = GMap (map (\<lambda>(k, v). (k, of_jval v)) m)"

text \<open>\<^verbatim>\<open>==\<close> on interfaces; \<open>None\<close> is the panic on two values of one uncomparable type.\<close>

fun go_eq :: "goval \<Rightarrow> goval \<Rightarrow> bool option" where
  "go_eq (GSlice _) (GSlice _) = None"
| "go_eq (GMap _) (GMap _) = None"
| "go_eq (GMapAny _) (GMapAny _) = None"
| "go_eq a b = Some (a = b)"

section \<open>Reflection\<close>

text \<open>What \<^verbatim>\<open>reflect\<close> shows of a value: a struct is its fields in order, each with its name, whether
  it is exported, its json tag, and whether it is embedded; a map is its entries with whether its
  key type is a string.\<close>

record rfield =
  sf_name :: string
  sf_exported :: bool
  sf_tag :: string
  sf_anonymous :: bool

datatype rval = RInvalid | RInterface "rval option" | RPointer "rval option"
  | RStruct "(rfield \<times> rval) list" | RMap bool "(goval \<times> rval) list" | RSlice "rval list" | RScalar goval

fun key_string :: "goval \<Rightarrow> string" where
  "key_string (GStr s) = s"
| "key_string (GScalar _ s) = s"
| "key_string _ = []"

definition jsonFieldName :: "rfield \<Rightarrow> string option" where
  "jsonFieldName sf = (if sf_tag sf = [] then Some [] else if sf_tag sf = ''-'' then None
     else Some (hd (split_char CHR '','' (sf_tag sf))))"

text \<open>One field of a struct, its value converted, added to the map built so far.\<close>

definition add_field :: "rfield \<Rightarrow> goval \<Rightarrow> (string, goval) gmap \<Rightarrow> (string, goval) gmap" where
  "add_field sf v out = (if \<not> sf_exported sf then out
     else case jsonFieldName sf of None \<Rightarrow> out
     | Some name \<Rightarrow>
       if sf_anonymous sf \<and> name = [] then
         (case v of GMap m \<Rightarrow> fold (\<lambda>(k, x) o'. gmap_set k x o') m out | _ \<Rightarrow> gmap_set (sf_name sf) v out)
       else gmap_set (if name = [] then sf_name sf else name) v out)"

fun toAny :: "rval \<Rightarrow> goval" where
  "toAny RInvalid = GNil"
| "toAny (RInterface None) = GNil"
| "toAny (RInterface (Some v)) = toAny v"
| "toAny (RPointer None) = GNil"
| "toAny (RPointer (Some v)) = toAny v"
| "toAny (RStruct fs) = GMap (fold (\<lambda>(sf, v) out. add_field sf v out) (map (\<lambda>(sf, v). (sf, toAny v)) fs) [])"
| "toAny (RMap True es) = GMap (fold (\<lambda>(k, v) out. gmap_set (key_string k) v out) (map (\<lambda>(k, v). (k, toAny v)) es) [])"
| "toAny (RMap False es) = GMapAny (map (\<lambda>(k, v). (k, toAny v)) es)"
| "toAny (RSlice vs) = GSlice (map toAny vs)"
| "toAny (RScalar v) = v"

definition structToMap :: "rval \<Rightarrow> (string, goval) gmap" where
  "structToMap obj = (case toAny obj of GMap out \<Rightarrow> out | _ \<Rightarrow> [])"

fun resolve_keys :: "(string, goval) gmap \<Rightarrow> string list \<Rightarrow> goval option" where
  "resolve_keys current [] = None"
| "resolve_keys current [k] = map_of current k"
| "resolve_keys current (k # ks) = (case map_of current k of Some (GMap m) \<Rightarrow> resolve_keys m ks | _ \<Rightarrow> None)"

definition resolveDotNotation :: "(string, goval) gmap \<Rightarrow> string \<Rightarrow> goval option" where
  "resolveDotNotation obj key = resolve_keys obj (split_char CHR ''.'' key)"

section \<open>Conditions\<close>

text \<open>The request context. The caller is the network interface conditions may use: resolver, name
  of the interface, parameters.\<close>

type_synonym concrnt_caller = "string \<Rightarrow> string \<Rightarrow> (string, string) gmap \<Rightarrow> goval option"

record request_context =
  rq_requester :: rval
  rq_self :: rval
  rq_params :: "(string, goval) gmap"
  rq_globals :: rval
  rq_caller :: "concrnt_caller option"

definition field :: "string \<Rightarrow> string \<Rightarrow> rfield" where
  "field name tag = \<lparr>sf_name = name, sf_exported = True, sf_tag = tag, sf_anonymous = False\<rparr>"

definition context_rval :: "request_context \<Rightarrow> rval" where
  "context_rval r = RStruct [(field ''Requester'' ''requester'', RInterface (Some (rq_requester r))),
     (field ''Self'' ''self'', RInterface (Some (rq_self r))),
     (field ''Params'' ''params'', RMap True (map (\<lambda>(k, v). (GStr k, RScalar v)) (rq_params r))),
     (field ''Globals'' ''globals'', RInterface (Some (rq_globals r))),
     (field ''Caller'' ''-'', RInterface None)]"

datatype expr = Expr (ex_op: string) (ex_args: "expr list") (ex_const: goval)

datatype eval_error = BadArgument string | UnknownOperator string | KeyNotFound string | CallFailed
  | NoCaller | BadUri ccuri_error | EvalPanic

type_synonym eval_result = "(eval_error, goval) result"

fun opAnd :: "goval list \<Rightarrow> eval_result" where
  "opAnd [] = Inr (GBool True)"
| "opAnd (GBool b # args) = (if \<not> b then Inr (GBool False) else opAnd args)"
| "opAnd (_ # args) = Inl (BadArgument ''And'')"

fun opOr :: "goval list \<Rightarrow> eval_result" where
  "opOr [] = Inr (GBool False)"
| "opOr (GBool b # args) = (if b then Inr (GBool True) else opOr args)"
| "opOr (_ # args) = Inl (BadArgument ''Or'')"

fun opNot :: "goval list \<Rightarrow> eval_result" where
  "opNot [GBool b] = Inr (GBool (\<not> b))"
| "opNot _ = Inl (BadArgument ''Not'')"

definition opEq :: "goval list \<Rightarrow> eval_result" where
  "opEq args = (case args of [a, b] \<Rightarrow> (case go_eq a b of None \<Rightarrow> Inl EvalPanic | Some r \<Rightarrow> Inr (GBool r))
     | _ \<Rightarrow> Inl (BadArgument ''Eq''))"

fun slices_contains :: "goval list \<Rightarrow> goval \<Rightarrow> bool option" where
  "slices_contains [] v = Some False"
| "slices_contains (x # xs) v = (case go_eq x v of None \<Rightarrow> None
     | Some True \<Rightarrow> Some True | Some False \<Rightarrow> slices_contains xs v)"

definition opContains :: "goval list \<Rightarrow> eval_result" where
  "opContains args = (case args of
     [GSlice xs, v] \<Rightarrow> (case slices_contains xs v of None \<Rightarrow> Inl EvalPanic | Some r \<Rightarrow> Inr (GBool r))
   | _ \<Rightarrow> Inl (BadArgument ''Contains''))"

definition opCCUriOwner :: "goval list \<Rightarrow> eval_result" where
  "opCCUriOwner args = (case args of
     [GStr s] \<Rightarrow> (case ParseCCURI s of Inl e \<Rightarrow> Inl (BadUri e) | Inr parsed \<Rightarrow> Inr (GStr (cu_owner parsed)))
   | _ \<Rightarrow> Inl (BadArgument ''CCUriOwner''))"

definition opLoad :: "request_context \<Rightarrow> goval list \<Rightarrow> eval_result" where
  "opLoad rctx args = (case args of
     [GStr key] \<Rightarrow> (case resolveDotNotation (structToMap (context_rval rctx)) key of
        None \<Rightarrow> Inl (KeyNotFound key) | Some v \<Rightarrow> Inr v)
   | _ \<Rightarrow> Inl (BadArgument ''Load''))"

fun call_params :: "goval list \<Rightarrow> (string, string) gmap \<Rightarrow> (eval_error, (string, string) gmap) result" where
  "call_params [] params = Inr params"
| "call_params (GStr k # GStr v # rest) params = call_params rest (gmap_set k v params)"
| "call_params _ params = Inl (BadArgument ''ConcrntCall'')"

definition opConcrntCall :: "request_context \<Rightarrow> goval list \<Rightarrow> eval_result" where
  "opConcrntCall rctx args = (case rq_caller rctx of None \<Rightarrow> Inl NoCaller
   | Some call \<Rightarrow>
     if length args < 2 \<or> (length args - 2) mod 2 \<noteq> 0 then Inl (BadArgument ''ConcrntCall'')
     else (case args of
        GStr resolver # GStr api # rest \<Rightarrow> rbind (call_params rest []) (\<lambda>params.
          (case call resolver api params of None \<Rightarrow> Inl CallFailed | Some v \<Rightarrow> Inr v))
      | _ \<Rightarrow> Inl (BadArgument ''ConcrntCall'')))"

fun opIsNotEmpty :: "goval list \<Rightarrow> eval_result" where
  "opIsNotEmpty [GNil] = Inr (GBool False)"
| "opIsNotEmpty [GSlice xs] = Inr (GBool (xs \<noteq> []))"
| "opIsNotEmpty [GStr s] = Inr (GBool (s \<noteq> []))"
| "opIsNotEmpty [GMap m] = Inr (GBool (m \<noteq> []))"
| "opIsNotEmpty _ = Inl (BadArgument ''IsNotEmpty'')"

text \<open>The table of operators.\<close>

definition operators :: "request_context \<Rightarrow> string \<Rightarrow> (goval list \<Rightarrow> eval_result) option" where
  "operators rctx = map_of [(''And'', opAnd), (''Or'', opOr), (''Not'', opNot), (''Eq'', opEq),
     (''Contains'', opContains), (''CCUriOwner'', opCCUriOwner), (''Load'', opLoad rctx),
     (''ConcrntCall'', opConcrntCall rctx), (''IsNotEmpty'', opIsNotEmpty)]"

text \<open>A constant on an operator is its first argument; all arguments are evaluated, in order,
  before the operator is looked up.\<close>

fun Eval :: "request_context \<Rightarrow> expr \<Rightarrow> eval_result"
and eval_args :: "request_context \<Rightarrow> expr list \<Rightarrow> (eval_error, goval list) result" where
  "Eval rctx (Expr op args c) = (if op = ''Const'' then Inr c
     else rbind (eval_args rctx args) (\<lambda>vs.
       (case operators rctx op of Some f \<Rightarrow> f (if c \<noteq> GNil then c # vs else vs)
        | None \<Rightarrow> Inl (UnknownOperator op))))"
| "eval_args rctx [] = Inr []"
| "eval_args rctx (e # es) = rbind (Eval rctx e) (\<lambda>v. rbind (eval_args rctx es) (\<lambda>vs. Inr (v # vs)))"

section \<open>Statements and policies\<close>

record statement =
  st_action :: string
  st_key :: string
  st_emit :: Conclusion
  st_condition :: expr
  st_reason :: "string option"

record policy =
  p_statements :: "statement list"
  p_defaults :: "(string, Conclusion) gmap option"

record evaluation_set =
  es_policy :: policy
  es_params :: "(string, goval) gmap option"
  es_errored :: bool

type_synonym policy_stack = "evaluation_set list list"

text \<open>The regular expression built from a key: every character is literal but \<^verbatim>\<open>*\<close>, which is
  \<^verbatim>\<open>.*\<close> and does not cross a newline. Keys are taken to be valid UTF-8, on which matching by
  bytes and by code points agree.\<close>

fun glob :: "string \<Rightarrow> string \<Rightarrow> bool" where
  "glob [] s = (s = [])"
| "glob (p # ps) s = (if p = CHR ''*'' then glob ps s \<or>
       (case s of [] \<Rightarrow> False | c # cs \<Rightarrow> c \<noteq> CHR 0x0A \<and> glob (p # ps) cs)
     else (case s of [] \<Rightarrow> False | c # cs \<Rightarrow> c = p \<and> glob ps cs))"

definition select_statements :: "policy \<Rightarrow> string \<Rightarrow> string \<Rightarrow> statement list" where
  "select_statements p action key = filter (\<lambda>s. st_action s = action \<and> glob (st_key s) key) (p_statements p)"

fun eval_statements :: "request_context \<Rightarrow> statement list \<Rightarrow> Conclusion \<times> string \<Rightarrow> (eval_error, Conclusion \<times> string) result" where
  "eval_statements rctx [] acc = Inr acc"
| "eval_statements rctx (s # ss) (conclusion, reason) = (case Eval rctx (st_condition s) of
     Inl e \<Rightarrow> if e = EvalPanic then Inl EvalPanic else eval_statements rctx ss (conclusion, reason)
   | Inr v \<Rightarrow> eval_statements rctx ss (if v = GBool True
       then (c_or conclusion (st_emit s), (case st_reason s of None \<Rightarrow> reason | Some r \<Rightarrow> reason @ r @ ''; ''))
       else (conclusion, reason)))"

definition lookup_default :: "policy \<Rightarrow> string \<Rightarrow> Conclusion option" where
  "lookup_default p action = (case p_defaults p of None \<Rightarrow> None | Some m \<Rightarrow> map_of m action)"

definition EvaluatePolicy :: "request_context \<Rightarrow> policy \<Rightarrow> string \<Rightarrow> string \<Rightarrow> (eval_error, Conclusion \<times> string) result" where
  "EvaluatePolicy rctx p action key =
     rbind (eval_statements rctx (select_statements p action key) (UNSET, [])) (\<lambda>(conclusion, reason).
       Inr (if conclusion = UNSET then
              (case lookup_default p action of None \<Rightarrow> UNSET | Some def \<Rightarrow> if def \<noteq> [] then def else UNSET)
            else conclusion, reason))"

text \<open>One entry of a layer: its conclusion and the reason it adds.\<close>

definition eval_entry :: "request_context \<Rightarrow> evaluation_set \<Rightarrow> string \<Rightarrow> string \<Rightarrow> (eval_error, Conclusion \<times> string) result" where
  "eval_entry req es action key =
     (let dflt = (case lookup_default (es_policy es) action of None \<Rightarrow> UNSET | Some d \<Rightarrow> d)
      in if es_errored es then Inr (dflt, [])
         else EvaluatePolicy (case es_params es of None \<Rightarrow> req | Some ps \<Rightarrow> req\<lparr>rq_params := ps\<rparr>) (es_policy es) action key)"

fun eval_layer :: "request_context \<Rightarrow> string \<Rightarrow> string \<Rightarrow> evaluation_set list \<Rightarrow> Conclusion \<times> string
    \<Rightarrow> (eval_error, Conclusion \<times> string) result" where
  "eval_layer req action key [] acc = Inr acc"
| "eval_layer req action key (es # rest) (lc, lr) =
     rbind (eval_entry req es action key) (\<lambda>(c, r). eval_layer req action key rest (c_or lc c, lr @ r))"

fun eval_stack :: "request_context \<Rightarrow> string \<Rightarrow> string \<Rightarrow> policy_stack \<Rightarrow> Conclusion \<times> string
    \<Rightarrow> (eval_error, Conclusion \<times> string) result" where
  "eval_stack req action key [] acc = Inr acc"
| "eval_stack req action key (layer # stack) (conclusion, reason) =
     rbind (eval_layer req action key layer (UNSET, [])) (\<lambda>(lc, lr).
       (let reason' = reason @ ''['' @ lr @ ''] '' in
        if lc = DENY then Inr (DENY, reason')
        else if lc = ALLOW then Inr (ALLOW, reason')
        else if lc = UNSET then eval_stack req action key stack (conclusion, reason')
        else eval_stack req action key stack (lc, reason')))"

definition EvaluateStack :: "request_context \<Rightarrow> policy_stack \<Rightarrow> string \<Rightarrow> string \<Rightarrow> (eval_error, Conclusion \<times> string) result" where
  "EvaluateStack req stack action key = eval_stack req action key stack (UNSET, [])"

section \<open>Properties of conclusions and layers\<close>

lemma c_or_comm: "c_or a b = c_or b a"
  unfolding c_or_def by (cases "a = UNSET"; cases "b = UNSET") auto

lemma c_or_unset [simp]: "c_or UNSET c = c" "c_or c UNSET = c"
  by (simp_all add: c_or_def)

lemma c_or_deny: "c \<noteq> ALLOW \<Longrightarrow> c_or DENY c = DENY" "c \<noteq> ALLOW \<Longrightarrow> c_or c DENY = DENY"
  and c_or_allow: "c \<noteq> DENY \<Longrightarrow> c_or ALLOW c = ALLOW" "c \<noteq> DENY \<Longrightarrow> c_or c ALLOW = ALLOW"
  by (simp_all add: c_or_def)

lemma c_or_strong: "c_or a b = DENY \<Longrightarrow> a = DENY \<or> b = DENY" "c_or a b = ALLOW \<Longrightarrow> a = ALLOW \<or> b = ALLOW"
  by (auto simp: c_or_def split: if_splits)

lemma foldl_deny: "DENY \<in> set (c # cs) \<Longrightarrow> ALLOW \<notin> set (c # cs) \<Longrightarrow> foldl c_or c cs = DENY"
proof (induction cs arbitrary: c)
  case (Cons d cs)
  have "c_or c d \<noteq> ALLOW" using Cons.prems c_or_strong(2)[of c d] by auto
  moreover have "DENY \<in> set (c_or c d # cs)" using Cons.prems c_or_deny by auto
  ultimately show ?case using Cons.IH[of "c_or c d"] Cons.prems(2) by auto
qed simp

lemma foldl_allow: "ALLOW \<in> set (c # cs) \<Longrightarrow> DENY \<notin> set (c # cs) \<Longrightarrow> foldl c_or c cs = ALLOW"
proof (induction cs arbitrary: c)
  case (Cons d cs)
  have "c_or c d \<noteq> DENY" using Cons.prems c_or_strong(1)[of c d] by auto
  moreover have "ALLOW \<in> set (c_or c d # cs)" using Cons.prems c_or_allow by auto
  ultimately show ?case using Cons.IH[of "c_or c d"] Cons.prems(2) by auto
qed simp

lemma foldl_strong:
  assumes "\<And>a b. c_or a b = x \<Longrightarrow> a = x \<or> b = x"
  shows "foldl c_or c cs = x \<Longrightarrow> x \<in> set (c # cs)"
proof (induction cs arbitrary: c)
  case (Cons d cs)
  then have "x \<in> set (c_or c d # cs)" by simp
  then show ?case using assms[of c d] by auto
qed simp

lemma eval_layer_fold:
  "eval_layer req a k es (lc, lr) = Inr (c, r) \<Longrightarrow>
   \<exists>cs. list_all2 (\<lambda>e d. \<exists>s. eval_entry req e a k = Inr (d, s)) es cs \<and> c = foldl c_or lc cs"
proof (induction es arbitrary: lc lr)
  case (Cons e es)
  then obtain d s where d: "eval_entry req e a k = Inr (d, s)" "eval_layer req a k es (c_or lc d, lr @ s) = Inr (c, r)"
    by (auto simp: rbind_eq_Inr)
  from Cons.IH[OF d(2)] obtain cs where "list_all2 (\<lambda>e d. \<exists>s. eval_entry req e a k = Inr (d, s)) es cs"
    "c = foldl c_or (c_or lc d) cs" by blast
  then show ?case using d(1) by (intro exI[of _ "d # cs"]) auto
qed simp

lemma foldl_verdict:
  "DENY \<in> set cs \<Longrightarrow> ALLOW \<notin> set cs \<Longrightarrow> foldl c_or UNSET cs = DENY"
  "ALLOW \<in> set cs \<Longrightarrow> DENY \<notin> set cs \<Longrightarrow> foldl c_or UNSET cs = ALLOW"
  "foldl c_or UNSET cs = DENY \<Longrightarrow> DENY \<in> set cs" "foldl c_or UNSET cs = ALLOW \<Longrightarrow> ALLOW \<in> set cs"
  using foldl_deny[of UNSET cs] foldl_allow[of UNSET cs] foldl_strong[OF c_or_strong(1), of UNSET cs]
    foldl_strong[OF c_or_strong(2), of UNSET cs] by simp_all

text \<open>Some entry of a layer has the conclusion \<open>d\<close>.\<close>

definition concludes :: "request_context \<Rightarrow> string \<Rightarrow> string \<Rightarrow> evaluation_set list \<Rightarrow> Conclusion \<Rightarrow> bool" where
  "concludes req action key es d \<longleftrightarrow> (\<exists>e\<in>set es. \<exists>s. eval_entry req e action key = Inr (d, s))"

lemma layer_conclusions:
  assumes "eval_layer req action key es (UNSET, []) = Inr (c, r)"
  obtains cs where "c = foldl c_or UNSET cs" "\<And>d. d \<in> set cs \<longleftrightarrow> concludes req action key es d"
proof -
  from eval_layer_fold[OF assms] obtain cs where cs: "list_all2 (\<lambda>e d. \<exists>s. eval_entry req e action key = Inr (d, s)) es cs"
    "c = foldl c_or UNSET cs" by blast
  have "d \<in> set cs \<longleftrightarrow> concludes req action key es d" for d
    using cs(1) unfolding concludes_def by (induction rule: list_all2_induct) auto
  then show thesis using that cs(2) by blast
qed

text \<open>A layer denies when one of its entries denies and none allows, allows when one allows and
  none denies, and has no strong conclusion that none of its entries has.\<close>

theorem layer_conclusion:
  assumes "eval_layer req action key es (UNSET, []) = Inr (c, r)"
  shows "(concludes req action key es DENY \<and> \<not> concludes req action key es ALLOW \<longrightarrow> c = DENY)
    \<and> (concludes req action key es ALLOW \<and> \<not> concludes req action key es DENY \<longrightarrow> c = ALLOW)
    \<and> (c = DENY \<longrightarrow> concludes req action key es DENY) \<and> (c = ALLOW \<longrightarrow> concludes req action key es ALLOW)"
proof -
  obtain cs where cs: "c = foldl c_or UNSET cs" "\<And>d. concludes req action key es d \<longleftrightarrow> d \<in> set cs"
    using layer_conclusions[OF assms] by metis
  show ?thesis unfolding cs using foldl_verdict[of cs] by blast
qed

section \<open>Properties of stacks\<close>

text \<open>The first strong conclusion of the layers' conclusions, or else the last that is set.\<close>

definition stack_verdict :: "Conclusion list \<Rightarrow> Conclusion" where
  "stack_verdict cs = (case find (\<lambda>c. c = DENY \<or> c = ALLOW) cs of Some c \<Rightarrow> c
     | None \<Rightarrow> last (UNSET # filter (\<lambda>c. c \<noteq> UNSET) cs))"

lemma eval_stack_verdict:
  assumes "list_all2 (\<lambda>l c. \<exists>r. eval_layer req a k l (UNSET, []) = Inr (c, r)) stack cs"
  shows "\<exists>r'. eval_stack req a k stack (c0, r) = Inr
    (case find (\<lambda>c. c = DENY \<or> c = ALLOW) cs of Some c \<Rightarrow> c
     | None \<Rightarrow> last (c0 # filter (\<lambda>c. c \<noteq> UNSET) cs), r')"
  using assms
proof (induction arbitrary: c0 r rule: list_all2_induct)
  case (Cons l ls c cs)
  from Cons(1) obtain lr where "eval_layer req a k l (UNSET, []) = Inr (c, lr)" by blast
  then show ?case using Cons.IH[of c0 "r @ ''['' @ lr @ ''] ''"] Cons.IH[of c "r @ ''['' @ lr @ ''] ''"]
    by (cases "c = DENY"; cases "c = ALLOW"; cases "c = UNSET") (simp_all add: Let_def cong: option.case_cong)
qed simp

text \<open>C34. A stack of layers that all evaluate concludes with the first strong conclusion (deny or
  allow) from the top, and without one with the last layer's conclusion that is set.\<close>

theorem EvaluateStack_verdict:
  assumes "list_all2 (\<lambda>layer c. \<exists>r. eval_layer req action key layer (UNSET, []) = Inr (c, r)) stack cs"
  shows "\<exists>reason. EvaluateStack req stack action key = Inr (stack_verdict cs, reason)"
  unfolding EvaluateStack_def stack_verdict_def by (rule eval_stack_verdict[OF assms])

lemma eval_stack_cut:
  "eval_layer req a k l (UNSET, []) = Inr (c, lr) \<Longrightarrow> c = DENY \<or> c = ALLOW \<Longrightarrow>
   eval_stack req a k (pre @ l # post) acc = eval_stack req a k (pre @ [l]) acc"
proof (induction pre arbitrary: acc)
  case Nil
  then show ?case by (cases acc) (auto simp: Let_def)
next
  case (Cons x pre)
  show ?case by (cases acc) (auto simp: Let_def rbind_def Cons split: sum.splits)
qed

text \<open>A strong conclusion of a layer is final: the layers below it, whatever they hold and
  whether or not they can be evaluated, change neither the conclusion nor the reason.\<close>

theorem EvaluateStack_final:
  assumes "eval_layer req action key layer (UNSET, []) = Inr (c, lr)" and "c = DENY \<or> c = ALLOW"
  shows "EvaluateStack req (upper @ layer # lower) action key = EvaluateStack req (upper @ [layer]) action key"
  unfolding EvaluateStack_def by (rule eval_stack_cut[OF assms])

section \<open>Properties of policies\<close>

text \<open>Conditions that never compare values with \<^verbatim>\<open>==\<close>.\<close>

fun eq_free :: "expr \<Rightarrow> bool" where
  "eq_free (Expr op args c) \<longleftrightarrow> op \<noteq> ''Eq'' \<and> op \<noteq> ''Contains'' \<and> list_all eq_free args"

lemma opAnd_total: "opAnd vs \<noteq> Inl EvalPanic" and opOr_total: "opOr vs \<noteq> Inl EvalPanic"
  by (induction vs rule: opAnd.induct; simp) (induction vs rule: opOr.induct; simp)

lemma opNot_total: "opNot vs \<noteq> Inl EvalPanic" and opIsNotEmpty_total: "opIsNotEmpty vs \<noteq> Inl EvalPanic"
  by (cases vs rule: opNot.cases; simp) (cases vs rule: opIsNotEmpty.cases; simp)

lemma call_params_total: "call_params vs ps \<noteq> Inl EvalPanic"
  by (induction vs ps rule: call_params.induct) auto

lemma opCCUriOwner_total: "opCCUriOwner vs \<noteq> Inl EvalPanic"
  and opLoad_total: "opLoad rctx vs \<noteq> Inl EvalPanic"
  and opConcrntCall_total: "opConcrntCall rctx vs \<noteq> Inl EvalPanic"
  unfolding opCCUriOwner_def opLoad_def opConcrntCall_def
  by (auto simp: rbind_eq_Inl call_params_total split: list.splits goval.splits sum.splits option.splits)

lemmas op_total = opAnd_total opOr_total opNot_total opIsNotEmpty_total opCCUriOwner_total opLoad_total
  opConcrntCall_total

lemma operators_total: "operators rctx op = Some f \<Longrightarrow> op \<noteq> ''Eq'' \<Longrightarrow> op \<noteq> ''Contains'' \<Longrightarrow> f vs \<noteq> Inl EvalPanic"
  unfolding operators_def by (auto split: if_splits simp: op_total)

lemma Eval_total:
  "eq_free e \<Longrightarrow> Eval rctx e \<noteq> Inl EvalPanic" "list_all eq_free es \<Longrightarrow> eval_args rctx es \<noteq> Inl EvalPanic"
  by (induction rctx e and rctx es rule: Eval_eval_args.induct)
    (auto simp: rbind_eq_Inl dest: operators_total split: option.splits)

lemma eval_statements_error: "eval_statements rctx ss acc = Inl e \<Longrightarrow>
    e = EvalPanic \<and> (\<exists>s\<in>set ss. Eval rctx (st_condition s) = Inl EvalPanic)"
  by (induction rctx ss acc rule: eval_statements.induct) (auto split: sum.splits if_splits)

text \<open>Evaluating a policy can fail in one way only, the panic of comparing two slices or maps, and
  not at all when the conditions of the statements it selects compare nothing: a condition that
  cannot be evaluated otherwise just does not hold.\<close>

theorem EvaluatePolicy_total:
  "(\<forall>e. EvaluatePolicy rctx p action key = Inl e \<longrightarrow> e = EvalPanic)
   \<and> (list_all (\<lambda>s. eq_free (st_condition s)) (select_statements p action key)
       \<longrightarrow> is_ok (EvaluatePolicy rctx p action key))"
proof -
  have e: "EvaluatePolicy rctx p action key = Inl e \<Longrightarrow> e = EvalPanic
      \<and> (\<exists>s\<in>set (select_statements p action key). Eval rctx (st_condition s) = Inl EvalPanic)" for e
    unfolding EvaluatePolicy_def by (auto simp: rbind_eq_Inl split: prod.splits dest!: eval_statements_error)
  then show ?thesis using Eval_total(1)
    by (cases "EvaluatePolicy rctx p action key") (auto simp: list_all_iff)
qed

section \<open>Key patterns\<close>

text \<open>Literal pieces with text between them.\<close>

fun weave :: "string list \<Rightarrow> string list \<Rightarrow> string" where
  "weave (p # ps) (w # ws) = p @ w @ weave ps ws"
| "weave [p] [] = p"
| "weave _ _ = []"

definition matches :: "string list \<Rightarrow> string \<Rightarrow> bool" where
  "matches ps s \<longleftrightarrow> (\<exists>ws. length ws + 1 = length ps \<and> list_all (\<lambda>w. CHR 0x0A \<notin> set w) ws \<and> s = weave ps ws)"

lemma matches_single: "matches [p] s \<longleftrightarrow> s = p"
  by (auto simp: matches_def)

lemma weave_push: "length ws + 1 = length (p # ps) \<Longrightarrow> weave ((x # p) # ps) ws = x # weave (p # ps) ws"
  by (cases ws; cases ps) auto

lemma matches_push: "matches ((x # p) # ps) s \<longleftrightarrow> (\<exists>s'. s = x # s' \<and> matches (p # ps) s')"
  unfolding matches_def using weave_push[of _ p ps x] by auto

lemma matches_star: "ps \<noteq> [] \<Longrightarrow>
    matches ([] # ps) s \<longleftrightarrow> (\<exists>w s'. s = w @ s' \<and> CHR 0x0A \<notin> set w \<and> matches ps s')"
proof
  assume ne: "ps \<noteq> []" and "matches ([] # ps) s"
  then obtain w ws where "length ws + 1 = length ps" "CHR 0x0A \<notin> set w" "list_all (\<lambda>w. CHR 0x0A \<notin> set w) ws"
    "s = w @ weave ps ws" by (auto simp: matches_def length_Suc_conv neq_Nil_conv)
  then show "\<exists>w s'. s = w @ s' \<and> CHR 0x0A \<notin> set w \<and> matches ps s'" unfolding matches_def by blast
next
  assume ne: "ps \<noteq> []" and "\<exists>w s'. s = w @ s' \<and> CHR 0x0A \<notin> set w \<and> matches ps s'"
  then obtain w ws where "length ws + 1 = length ps" "CHR 0x0A \<notin> set w" "list_all (\<lambda>w. CHR 0x0A \<notin> set w) ws"
    "s = w @ weave ps ws" by (auto simp: matches_def)
  then show "matches ([] # ps) s" unfolding matches_def by (intro exI[of _ "w # ws"]) auto
qed

lemma matches_star_step:
  assumes "ps \<noteq> []"
  shows "matches ([] # ps) s \<longleftrightarrow>
    matches ps s \<or> (case s of [] \<Rightarrow> False | c # cs \<Rightarrow> c \<noteq> CHR 0x0A \<and> matches ([] # ps) cs)"
proof (cases s)
  case Nil
  then show ?thesis using matches_star[OF assms] by auto
next
  case (Cons c cs)
  have "(\<exists>w s'. c # cs = w @ s' \<and> CHR 0x0A \<notin> set w \<and> matches ps s') \<longleftrightarrow>
    matches ps (c # cs) \<or> c \<noteq> CHR 0x0A \<and> (\<exists>w s'. cs = w @ s' \<and> CHR 0x0A \<notin> set w \<and> matches ps s')"
    (is "?l \<longleftrightarrow> ?r")
  proof
    assume ?l
    then obtain w s' where "c # cs = w @ s'" "CHR 0x0A \<notin> set w" "matches ps s'" by blast
    then show ?r by (cases w) auto
  next
    assume ?r
    then show ?l by (metis append_Cons append_Nil empty_iff empty_set set_ConsD)
  qed
  with Cons show ?thesis using matches_star[OF assms] by simp
qed

lemma glob_matches: "glob p s \<longleftrightarrow> matches (split_char CHR ''*'' p) s"
proof (induction p s rule: glob.induct)
  case (2 p ps s)
  show ?case
  proof (cases "p = CHR ''*''")
    case True
    then show ?thesis using 2(1,2) matches_star_step[of "split_char CHR ''*'' ps" s] by (cases s) auto
  next
    case False
    obtain h t where "split_char CHR ''*'' ps = h # t" by (cases "split_char CHR ''*'' ps") auto
    then show ?thesis using False 2(3) by (cases s) (auto simp: matches_push)
  qed
qed (simp add: matches_single)

text \<open>A key pattern matches exactly the keys made of its literal pieces, in order, with some text
  free of newlines in place of each star.\<close>

theorem glob_iff:
  "glob p s \<longleftrightarrow> (\<exists>ws. length ws + 1 = length (split_char CHR ''*'' p)
     \<and> list_all (\<lambda>w. CHR 0x0A \<notin> set w) ws \<and> s = weave (split_char CHR ''*'' p) ws)"
  using glob_matches unfolding matches_def .

section \<open>Instances\<close>

definition demo_request :: request_context where
  "demo_request = \<lparr>rq_requester = RStruct [(field ''ID'' ''ccid'', RScalar (GStr ''con1bob''))],
     rq_self = RStruct [(field ''Author'' ''author'', RScalar (GStr ''con1alice''))], rq_params = [],
     rq_globals = RInvalid, rq_caller = None\<rparr>"

text \<open>Deny reading to anyone but the author; otherwise no conclusion.\<close>

definition demo_policy :: policy where
  "demo_policy = \<lparr>p_statements = [\<lparr>st_action = ''record:read'', st_key = ''cckv://o/p*'', st_emit = DENY,
     st_condition = Expr ''Not'' [Expr ''Eq'' [Expr ''Load'' [] (GStr ''requester.ccid''), Expr ''Load'' [] (GStr ''self.author'')] GNil] GNil,
     st_reason = Some ''author only''\<rparr>], p_defaults = None\<rparr>"

definition demo_public :: policy where
  "demo_public = \<lparr>p_statements = [\<lparr>st_action = ''record:read'', st_key = ''*'', st_emit = OK,
     st_condition = Expr ''Const'' [] (GBool True), st_reason = None\<rparr>], p_defaults = None\<rparr>"

definition demo_set :: "policy \<Rightarrow> evaluation_set" where
  "demo_set p = \<lparr>es_policy = p, es_params = None, es_errored = False\<rparr>"

lemma demo_entries:
  "eval_entry demo_request (demo_set demo_policy) ''record:read'' ''cckv://o/p/1'' = Inr (DENY, ''author only; '')"
  "eval_entry demo_request (demo_set demo_public) ''record:read'' ''cckv://o/p/1'' = Inr (OK, [])"
  by code_simp+

lemma demo_layers:
  "eval_layer demo_request ''record:read'' ''cckv://o/p/1'' [demo_set demo_public, demo_set demo_policy] (UNSET, []) = Inr (DENY, ''author only; '')"
  "eval_layer demo_request ''record:read'' ''cckv://o/p/1'' [demo_set demo_public] (UNSET, []) = Inr (OK, [])"
  by (simp_all add: demo_entries c_or_def)

theorem layer_conclusion_witness:
  "concludes demo_request ''record:read'' ''cckv://o/p/1'' [demo_set demo_public, demo_set demo_policy] DENY"
  using layer_conclusion[OF demo_layers(1)] by simp

theorem EvaluateStack_verdict_witness:
  "\<exists>reason. EvaluateStack demo_request [[demo_set demo_public], [demo_set demo_public, demo_set demo_policy], [demo_set demo_public]]
     ''record:read'' ''cckv://o/p/1'' = Inr (DENY, reason)"
  using EvaluateStack_verdict[of demo_request "''record:read''" "''cckv://o/p/1''"
    "[[demo_set demo_public], [demo_set demo_public, demo_set demo_policy], [demo_set demo_public]]" "[OK, DENY, OK]"]
    demo_layers by (simp del: eval_layer.simps add: stack_verdict_def)

theorem EvaluateStack_final_witness:
  "EvaluateStack demo_request ([] @ [demo_set demo_public, demo_set demo_policy] # [[demo_set demo_public]]) ''record:read'' ''cckv://o/p/1''
   = EvaluateStack demo_request ([] @ [[demo_set demo_public, demo_set demo_policy]]) ''record:read'' ''cckv://o/p/1''"
  by (rule EvaluateStack_final[OF demo_layers(1)]) simp

theorem EvaluatePolicy_total_witness:
  "is_ok (EvaluatePolicy demo_request demo_public ''record:read'' ''cckv://o/p/1'')"
  using EvaluatePolicy_total[of demo_request demo_public "''record:read''" "''cckv://o/p/1''"]
  by (simp add: select_statements_def demo_public_def)

end
