(* ===== verification/Go_Store.thy ===== *)
theory Go_Store
  imports Conc_Prelude
begin

text \<open>
  The interface of a keyed store with last-write-wins cells, as Go maps, the in-process caches and
  the tables of the repository provide it, with what its clients use: the effect of a run of
  writes, and of a guarded write that keeps the newer of two values. Interpreted here on Go
  maps, and by the repository on its tables.
\<close>

text \<open>The SQL statement that updates the rows satisfying a condition.\<close>

definition upd_where :: "('a \<Rightarrow> bool) \<Rightarrow> ('a \<Rightarrow> 'a) \<Rightarrow> 'a list \<Rightarrow> 'a list" where
  "upd_where P f rows = map (\<lambda>x. if P x then f x else x) rows"

lemma map_upd_where: "(\<And>x. P x \<Longrightarrow> g (f x) = g x) \<Longrightarrow> map g (upd_where P f rows) = map g rows"
  by (auto simp: upd_where_def)

lemma set_upd_where: "x \<in> set (upd_where P f rows) \<longleftrightarrow> x \<in> set rows \<and> \<not> P x \<or> (\<exists>y\<in>set rows. P y \<and> x = f y)"
  by (auto simp: upd_where_def)

lemma upd_where_simps [simp]: "upd_where P f [] = []"
    "upd_where P f (x # xs) = (if P x then f x else x) # upd_where P f xs"
  by (simp_all add: upd_where_def)

lemma find_upd_where:
  assumes "\<And>x. P x \<Longrightarrow> Q (f x) = Q x"
  shows "find Q (upd_where P f rows) = map_option (\<lambda>x. if P x then f x else x) (find Q rows)"
  using assms by (induction rows) auto

text \<open>Giving the row of a key a new value of another unique column keeps that column unique.\<close>

lemma distinct_upd_where:
  assumes "distinct (map g rows)" "distinct (map f rows)" "\<And>x. f (h x) = v" "\<And>x. x \<in> set rows \<Longrightarrow> f x = v \<Longrightarrow> g x = k"
  shows "distinct (map f (upd_where (\<lambda>x. g x = k) h rows))"
  using assms(1,2,4)
proof (induction rows)
  case (Cons x xs)
  have "f y \<noteq> v" if "g x = k" "y \<in> set xs" for y
    using Cons.prems(1) Cons.prems(3)[of y] that by (auto simp: image_iff)
  moreover have "upd_where (\<lambda>x. g x = k) h xs = xs" if "g x = k"
    using Cons.prems(1) that by (auto simp: upd_where_def image_iff intro!: map_idI)
  moreover have "f x \<notin> f ` set (upd_where (\<lambda>x. g x = k) h xs)" if "g x \<noteq> k"
    using Cons.prems that assms(3) by (auto simp: set_upd_where)
  ultimately show ?case using Cons assms(3) by (cases "g x = k") auto
qed simp

lemma find_row:
  assumes "find P xs = Some x"
  shows "x \<in> set xs" "P x"
  using assms by (auto simp: find_Some_iff)

lemma find_SomeD: "find P xs = Some x \<Longrightarrow> x \<in> set xs \<and> P x"
  by (auto simp: find_Some_iff)

lemma find_distinct_iff:
  assumes "distinct (map f xs)"
  shows "find (\<lambda>x. f x = k) xs = Some x \<longleftrightarrow> x \<in> set xs \<and> f x = k"
  using assms by (induction xs) (auto intro: rev_image_eqI)

lemma find_append: "find P (xs @ ys) = (case find P xs of None \<Rightarrow> find P ys | Some x \<Rightarrow> Some x)"
  by (induction xs) auto

lemma find_filter: "find P (filter Q xs) = find (\<lambda>x. Q x \<and> P x) xs"
  by (induction xs) auto

lemma find_filter_distinct:
  assumes "distinct (map f xs)"
  shows "find (\<lambda>x. f x = k) (filter Q xs) = (case find (\<lambda>x. f x = k) xs of Some x \<Rightarrow> if Q x then Some x else None | None \<Rightarrow> None)"
  using assms
proof (induction xs)
  case (Cons x xs)
  have "find (\<lambda>y. f y = f x) xs = None" using Cons.prems by (auto simp: find_None_iff image_iff)
  then show ?case using Cons by auto
qed simp

locale kv_store =
  fixes get :: "'s \<Rightarrow> 'k \<Rightarrow> 'v option"
    and put :: "'k \<Rightarrow> 'v \<Rightarrow> 's \<Rightarrow> 's"
  assumes get_put: "get (put k v s) k' = (if k' = k then Some v else get s k')"
begin

lemma get_put_same [simp]: "get (put k v s) k = Some v"
  by (simp add: get_put)

lemma get_put_other [simp]: "k' \<noteq> k \<Longrightarrow> get (put k v s) k' = get s k'"
  by (simp add: get_put)

lemma get_put_put: "get (put k v (put k w s)) = get (put k v s)"
  by (rule ext) (simp add: get_put)

lemma get_fold_put:
  "get (fold (\<lambda>(k, v). put k v) kvs s) k' = (case map_of (rev kvs) k' of Some v \<Rightarrow> Some v | None \<Rightarrow> get s k')"
proof (induction kvs arbitrary: s)
  case (Cons kv kvs)
  obtain k v where "kv = (k, v)" by (cases kv)
  then show ?case using Cons[of "put k v s"] by (auto simp: get_put map_add_def split: option.splits)
qed simp

end

text \<open>A store that can also drop a key.\<close>

locale kv_store_del = kv_store +
  fixes del :: "'k \<Rightarrow> 's \<Rightarrow> 's"
  assumes get_del: "get (del k s) k' = (if k' = k then None else get s k')"
begin

lemma get_del_put: "get (del k (put k v s)) = get (del k s)"
  by (rule ext) (simp add: get_put get_del)

lemma get_put_del: "get (put k v (del k s)) = get (put k v s)"
  by (rule ext) (simp add: get_put get_del)

end

text \<open>A table of versioned rows: a write carries a rank, and is refused when the stored row
  outranks it. Whatever the order the writes arrive in, the row that remains is the one of
  greatest rank.\<close>

locale ranked_store = kv_store get put
  for get :: "'s \<Rightarrow> 'k \<Rightarrow> 'v option" and put :: "'k \<Rightarrow> 'v \<Rightarrow> 's \<Rightarrow> 's" +
  fixes rank :: "'v \<Rightarrow> 'r :: linorder"
    and upsert :: "'k \<Rightarrow> 'v \<Rightarrow> 's \<Rightarrow> 's"
  assumes upsert_accept: "(\<And>w. get s k = Some w \<Longrightarrow> rank w < rank v) \<Longrightarrow> get (upsert k v s) = get (put k v s)"
    and upsert_refuse: "get s k = Some w \<Longrightarrow> rank v \<le> rank w \<Longrightarrow> get (upsert k v s) = get s"
begin

lemma get_upsert:
  "get (upsert k v s) k' = (if k' \<noteq> k then get s k'
     else Some (case get s k of Some w \<Rightarrow> if rank v \<le> rank w then w else v | None \<Rightarrow> v))"
proof (cases "get s k")
  case None
  then show ?thesis using upsert_accept[of s k v] by (simp add: get_put)
next
  case (Some w)
  then show ?thesis using upsert_accept[of s k v] upsert_refuse[of s k w v] by (auto simp: get_put not_le)
qed

lemma upsert_idem: "get (upsert k v (upsert k v s)) = get (upsert k v s)"
  by (rule ext) (auto simp: get_upsert split: option.splits)

lemma upsert_comm:
  assumes "rank v \<noteq> rank w"
  shows "get (upsert k v (upsert k w s)) = get (upsert k w (upsert k v s))"
  using assms by (intro ext) (auto simp: get_upsert split: option.splits)

text \<open>After any run of writes to a key, the row kept has the greatest rank of those written and of
  the one that was there.\<close>

lemma fold_upsert_rank:
  assumes "get (fold (\<lambda>(k, v). upsert k v) kvs s) k = Some x"
  shows "(\<forall>v. (k, v) \<in> set kvs \<longrightarrow> rank v \<le> rank x) \<and> (\<forall>w. get s k = Some w \<longrightarrow> rank w \<le> rank x)
    \<and> ((k, x) \<in> set kvs \<or> get s k = Some x)"
  using assms
proof (induction kvs arbitrary: s)
  case (Cons kv kvs)
  obtain l v where kv: "kv = (l, v)" by (cases kv)
  from Cons.IH[of "upsert l v s"] Cons.prems kv
  have "(\<forall>v. (k, v) \<in> set kvs \<longrightarrow> rank v \<le> rank x) \<and> (\<forall>w. get (upsert l v s) k = Some w \<longrightarrow> rank w \<le> rank x)
    \<and> ((k, x) \<in> set kvs \<or> get (upsert l v s) k = Some x)" by simp
  then show ?case unfolding kv
    by (cases "l = k"; cases "get s k") (auto simp: get_upsert split: if_splits)
qed simp

lemma fold_upsert_None:
  "get (fold (\<lambda>(k, v). upsert k v) kvs s) k = None \<longleftrightarrow> get s k = None \<and> k \<notin> fst ` set kvs"
proof (induction kvs arbitrary: s)
  case (Cons kv kvs)
  obtain l v where "kv = (l, v)" by (cases kv)
  then show ?case using Cons[of "upsert l v s"] by (auto simp: get_upsert)
qed simp

end

interpretation gm: kv_store_del map_of gmap_set gmap_del
  by unfold_locales auto

end
