(* ===== verification/Policy_Service.thy ===== *)
theory Policy_Service
  imports Policy_Engine Go_Store
begin

text \<open>
  The policy service, \<^verbatim>\<open>src/internal/service/policy.go\<close>: it turns the policies declared along a
  record's hierarchy into a stack of resolved policies under the server's global policy, and
  decides an action on it. HTTP, JSON and the client are the fields of a record \<open>policy_env\<close>;
  the policy cache is the service's state, threaded through the calls (an entry that expires is
  one that is absent).

  Shown here: a resolved policy is served from the cache until it is removed; no policy can
  reach another interface than the allowed one; the global policy has the last word; an action
  is permitted exactly when the stack concludes allow or ok; what an unresolvable entry
  contributes; which keys a relative pattern selects.
\<close>

section \<open>State and environment\<close>

record policy_env =
  http_get :: "string \<Rightarrow> string option"
  dec_policy_document :: "string \<Rightarrow> (string, jval) gmap option"
  enc_any :: "jval \<Rightarrow> string option"
  dec_policy :: "string \<Rightarrow> policy option"
  client_get_record :: "string \<Rightarrow> document option"
  client_call :: "string \<Rightarrow> string \<Rightarrow> (string, string) gmap \<Rightarrow> goval option"

record policy_service =
  ps_globalPolicy :: policy
  ps_fqdn :: string
  ps_cache :: "(string, string) gmap"

datatype policy_error = FetchError | PolicyDecodeError | UnsupportedVersion | PermissionError string
  | EvaluationError eval_error

section \<open>Operations\<close>

definition policyAllowedAPIs :: "string list" where
  "policyAllowedAPIs = [''net.concrnt.core.acknowledges'']"

definition ConcrntCall :: "policy_env \<Rightarrow> concrnt_caller" where
  "ConcrntCall E resolver api params = (if api \<notin> set policyAllowedAPIs then None
     else case client_call E resolver api params of None \<Rightarrow> None
     | Some result \<Rightarrow> (case result of GMap envelope \<Rightarrow>
          (case map_of envelope ''items'' of Some items \<Rightarrow> Some items | None \<Rightarrow> Some result)
        | _ \<Rightarrow> Some result))"

definition ResolvePolicyURL :: "policy_env \<Rightarrow> policy_service \<Rightarrow> string \<Rightarrow> (policy_error, policy) result \<times> policy_service" where
  "ResolvePolicyURL E s policyURL = (case map_of (ps_cache s) policyURL of
     Some cached \<Rightarrow> (case dec_policy E cached of
        None \<Rightarrow> (Inl PolicyDecodeError, s\<lparr>ps_cache := gmap_del policyURL (ps_cache s)\<rparr>)
      | Some p \<Rightarrow> (Inr p, s))
   | None \<Rightarrow> (case http_get E policyURL of None \<Rightarrow> (Inl FetchError, s)
      | Some body \<Rightarrow> (case dec_policy_document E body of None \<Rightarrow> (Inl PolicyDecodeError, s)
      | Some versions \<Rightarrow> (case map_of versions ''2025-12-23'' of None \<Rightarrow> (Inl UnsupportedVersion, s)
      | Some policyAny \<Rightarrow> (case enc_any E policyAny of None \<Rightarrow> (Inl PolicyDecodeError, s)
      | Some policyBytes \<Rightarrow> (case dec_policy E policyBytes of None \<Rightarrow> (Inl PolicyDecodeError, s)
      | Some p \<Rightarrow> (Inr p, s\<lparr>ps_cache := gmap_set policyURL policyBytes (ps_cache s)\<rparr>)))))))"

definition entryDefaults :: "policy_entry \<Rightarrow> (string, Conclusion) gmap option" where
  "entryDefaults p = pe_defaults p"

definition erroredEvaluationSet :: "policy_entry \<Rightarrow> evaluation_set" where
  "erroredEvaluationSet p = \<lparr>es_policy = \<lparr>p_statements = [], p_defaults = entryDefaults p\<rparr>,
     es_params = None, es_errored = True\<rparr>"

text \<open>The entries a virtual parent contributes to its layer.\<close>

definition virtual_entries :: "policy_env \<Rightarrow> string \<Rightarrow> policy_entry list" where
  "virtual_entries E parent = (case client_get_record E parent of
     None \<Rightarrow> [\<lparr>pe_url = None, pe_params = None, pe_defaults = None, pe_errored = True\<rparr>]
   | Some doc \<Rightarrow> (case d_policy doc of None \<Rightarrow> [] | Some p \<Rightarrow> pr_entries p))"

definition parent_source :: "string \<Rightarrow> string" where
  "parent_source source = join_with ''/'' (butlast (split_char CHR ''/'' source))"

definition virtual_layer :: "policy_env \<Rightarrow> policy_ref \<Rightarrow> policy_ref list" where
  "virtual_layer E layer = (case pr_virtualParents layer of None \<Rightarrow> []
     | Some parents \<Rightarrow> if parents = [] then []
       else (let es = concat (map (virtual_entries E) parents) in
         if es = [] then []
         else [\<lparr>pr_entries = es, pr_virtualParents = None, pr_source = parent_source (pr_source layer)\<rparr>]))"

definition rewrite_key :: "string \<Rightarrow> string \<Rightarrow> string" where
  "rewrite_key source key = (if key = ''.'' then source
     else if key = [] \<or> key = ''*'' then source @ ''*''
     else if key = ''./*'' then source @ ''/*''
     else key)"

definition rebase_policy :: "string \<Rightarrow> policy \<Rightarrow> policy" where
  "rebase_policy source p = p\<lparr>p_statements := map (\<lambda>s. s\<lparr>st_key := rewrite_key source (st_key s)\<rparr>) (p_statements p)\<rparr>"

text \<open>Entry defaults override those of the resolved policy.\<close>

definition override_defaults :: "policy_entry \<Rightarrow> policy \<Rightarrow> policy" where
  "override_defaults p pol = (case entryDefaults p of None \<Rightarrow> pol
     | Some ds \<Rightarrow> (case p_defaults pol of None \<Rightarrow> pol\<lparr>p_defaults := Some ds\<rparr>
        | Some m \<Rightarrow> pol\<lparr>p_defaults := Some (fold (\<lambda>(a, c). gmap_set a c) ds m)\<rparr>))"

definition resolve_entry :: "policy_env \<Rightarrow> string \<Rightarrow> policy_entry \<Rightarrow> policy_service \<Rightarrow> evaluation_set list \<times> policy_service" where
  "resolve_entry E source p s = (if pe_errored p then ([erroredEvaluationSet p], s)
     else case pe_url p of None \<Rightarrow> ([], s)
     | Some u \<Rightarrow> (case ResolvePolicyURL E s u of
         (Inl _, s') \<Rightarrow> ([erroredEvaluationSet p], s')
       | (Inr pol, s') \<Rightarrow> ([\<lparr>es_policy = override_defaults p (rebase_policy source pol),
            es_params = map_option (map (\<lambda>(k, v). (k, of_jval v))) (pe_params p), es_errored = False\<rparr>], s')))"

fun resolve_entries :: "policy_env \<Rightarrow> string \<Rightarrow> policy_entry list \<Rightarrow> policy_service \<Rightarrow> evaluation_set list \<times> policy_service" where
  "resolve_entries E source [] s = ([], s)"
| "resolve_entries E source (p # ps) s = (let (x, s1) = resolve_entry E source p s;
     (xs, s2) = resolve_entries E source ps s1 in (x @ xs, s2))"

fun resolve_layers :: "policy_env \<Rightarrow> policy_ref list \<Rightarrow> policy_service \<Rightarrow> policy_stack \<times> policy_service" where
  "resolve_layers E [] s = ([], s)"
| "resolve_layers E (l # ls) s = (let (x, s1) = resolve_entries E (pr_source l) (pr_entries l) s;
     (xs, s2) = resolve_layers E ls s1 in (x # xs, s2))"

definition resolvePolicyStack :: "policy_env \<Rightarrow> policy_ref list \<Rightarrow> policy_service \<Rightarrow> policy_stack \<times> policy_service" where
  "resolvePolicyStack E stack s = resolve_layers E (concat (map (\<lambda>l. virtual_layer E l @ [l]) stack)) s"

definition globals_rval :: "policy_service \<Rightarrow> rval" where
  "globals_rval s = RStruct [(field ''FQDN'' ''fqdn'', RScalar (GStr (ps_fqdn s)))]"

definition policy_Eval :: "policy_env \<Rightarrow> policy_service \<Rightarrow> request_context \<Rightarrow> policy_ref list \<Rightarrow> string \<Rightarrow> string
    \<Rightarrow> (policy_error, unit) result \<times> policy_service" where
  "policy_Eval E s req stack action key =
     (let (additionalStack, s') = resolvePolicyStack E stack s;
          policyStack = [\<lparr>es_policy = ps_globalPolicy s, es_params = None, es_errored = False\<rparr>] # additionalStack;
          requestContext = \<lparr>rq_requester = rq_requester req, rq_self = rq_self req, rq_params = rq_params req,
            rq_globals = globals_rval s, rq_caller = Some (ConcrntCall E)\<rparr>
      in (case EvaluateStack requestContext policyStack action key of
            Inl e \<Rightarrow> (Inl (EvaluationError e), s')
          | Inr (conclusion, reason) \<Rightarrow>
              (if conclusion = ALLOW \<or> conclusion = OK then (Inr (), s')
               else (Inl (PermissionError (''action denied by policy: '' @ reason)), s'))))"

text \<open>The context and the global layer the service evaluates with.\<close>

definition service_context :: "policy_env \<Rightarrow> policy_service \<Rightarrow> request_context \<Rightarrow> request_context" where
  "service_context E s req = \<lparr>rq_requester = rq_requester req, rq_self = rq_self req, rq_params = rq_params req,
     rq_globals = globals_rval s, rq_caller = Some (ConcrntCall E)\<rparr>"

section \<open>Properties\<close>

text \<open>Once a policy has been resolved it is served from the cache, whatever the network answers
  later, and the cache does not change; other addresses are not affected.\<close>

theorem ResolvePolicyURL_cached:
  assumes "ResolvePolicyURL E s u = (Inr p, s')" and "dec_policy E' = dec_policy E"
  shows "ResolvePolicyURL E' s' u = (Inr p, s') \<and> (\<forall>v. v \<noteq> u \<longrightarrow> map_of (ps_cache s') v = map_of (ps_cache s) v)"
  using assms by (auto simp: ResolvePolicyURL_def split: option.splits)

lemma ConcrntCall_cong:
  assumes "\<And>r ps. client_call E r ''net.concrnt.core.acknowledges'' ps = client_call E' r ''net.concrnt.core.acknowledges'' ps"
  shows "ConcrntCall E = ConcrntCall E'"
  using assms by (intro ext) (simp add: ConcrntCall_def policyAllowedAPIs_def)

lemma ResolvePolicyURL_call [simp]: "ResolvePolicyURL (E\<lparr>client_call := f\<rparr>) = ResolvePolicyURL E"
  by (intro ext) (simp add: ResolvePolicyURL_def cong: option.case_cong)

lemma resolve_call [simp]:
  "resolve_entry (E\<lparr>client_call := f\<rparr>) = resolve_entry E" "virtual_entries (E\<lparr>client_call := f\<rparr>) = virtual_entries E"
  by (intro ext; simp add: resolve_entry_def virtual_entries_def cong: option.case_cong)+

lemma resolve_entries_call [simp]: "resolve_entries (E\<lparr>client_call := f\<rparr>) src ps s = resolve_entries E src ps s"
  by (induction ps arbitrary: s) simp_all

lemma resolve_layers_call [simp]: "resolve_layers (E\<lparr>client_call := f\<rparr>) ls s = resolve_layers E ls s"
  by (induction ls arbitrary: s) simp_all

lemma resolvePolicyStack_call [simp]: "resolvePolicyStack (E\<lparr>client_call := f\<rparr>) st s = resolvePolicyStack E st s"
  unfolding resolvePolicyStack_def virtual_layer_def resolve_call resolve_layers_call by (rule refl)

text \<open>Policies reach the network through the one allowed interface only: two networks that answer
  it alike give every decision alike, whatever they answer on any other interface.\<close>

theorem policy_Eval_allowlist:
  assumes "\<And>r ps. f r ''net.concrnt.core.acknowledges'' ps = client_call E r ''net.concrnt.core.acknowledges'' ps"
  shows "policy_Eval (E\<lparr>client_call := f\<rparr>) s req stack action key = policy_Eval E s req stack action key"
proof -
  have "ConcrntCall (E\<lparr>client_call := f\<rparr>) = ConcrntCall E" by (rule ConcrntCall_cong) (simp add: assms)
  then show ?thesis by (simp add: policy_Eval_def)
qed

lemma policy_Eval_strong:
  assumes "EvaluatePolicy (service_context E s req) (ps_globalPolicy s) action key = Inr (c, r)"
  shows "c = DENY \<Longrightarrow> fst (policy_Eval E s req stack action key) = Inl (PermissionError (''action denied by policy: ['' @ r @ ''] ''))"
    and "c = ALLOW \<Longrightarrow> fst (policy_Eval E s req stack action key) = Inr ()"
  using assms by (auto simp: policy_Eval_def service_context_def EvaluateStack_def eval_entry_def Let_def split: prod.splits)

text \<open>The global policy has the last word: when it concludes deny or allow, that is the decision,
  whatever policies the record's hierarchy declares.\<close>

theorem policy_Eval_global:
  assumes "EvaluatePolicy (service_context E s req) (ps_globalPolicy s) action key = Inr (c, r)"
  shows "(c = DENY \<longrightarrow> fst (policy_Eval E s req stack action key) = Inl (PermissionError (''action denied by policy: ['' @ r @ ''] '')))
    \<and> (c = ALLOW \<longrightarrow> fst (policy_Eval E s req stack action key) = Inr ())"
  using policy_Eval_strong[OF assms] by blast

lemma map_of_override: "gmap_ok ds \<Longrightarrow> map_of (fold (\<lambda>(a, c). gmap_set a c) ds m) a =
    (case map_of ds a of Some c \<Rightarrow> Some c | None \<Rightarrow> map_of m a)"
  using gm.get_fold_put[of ds m a] map_of_inject_set[of "rev ds" ds]
  by (simp add: gmap_ok_def flip: rev_map)

lemma lookup_override: "pe_defaults p = Some ds \<Longrightarrow> gmap_ok ds \<Longrightarrow> map_of ds a = Some c \<Longrightarrow>
    lookup_default (override_defaults p pol) a = Some c"
  by (auto simp: lookup_default_def override_defaults_def entryDefaults_def map_of_override split: option.splits)

lemma lookup_errored: "lookup_default (es_policy (erroredEvaluationSet p)) a =
    (case pe_defaults p of None \<Rightarrow> None | Some ds \<Rightarrow> map_of ds a)"
  by (simp add: erroredEvaluationSet_def lookup_default_def entryDefaults_def)

text \<open>The author of a policy entry chooses the fallback: whether the policy it names cannot be
  fetched, cannot be decoded, or has no statement for the action and key, the entry concludes with
  the default it declares for the action.\<close>

theorem resolve_entry_default:
  assumes "pe_defaults p = Some ds" and "gmap_ok ds" and "map_of ds action = Some d" and "d \<noteq> []"
    and "resolve_entry E source p s = (sets, s')" and "es \<in> set sets"
    and "select_statements (es_policy es) action key = []"
  shows "eval_entry req es action key = Inr (d, [])"
proof -
  have "lookup_default (es_policy es) action = Some d"
    using assms(5,6) lookup_override[OF assms(1-3)] assms(1,3)
      lookup_errored[of p action]
    by (auto simp: resolve_entry_def split: if_splits option.splits prod.splits sum.splits)
  then show ?thesis using assms(4,7) by (auto simp: eval_entry_def EvaluatePolicy_def Let_def split: option.splits)
qed

lemma glob_literal: "CHR ''*'' \<notin> set p \<Longrightarrow> glob p s \<longleftrightarrow> s = p"
  unfolding glob_matches by (simp add: split_char_none matches_single)

lemma glob_prefix:
  assumes "CHR ''*'' \<notin> set p"
  shows "glob (p @ ''*'') s \<longleftrightarrow> (\<exists>r. s = p @ r \<and> CHR 0x0A \<notin> set r)"
proof -
  have "glob (p @ ''*'') s \<longleftrightarrow> matches [p, []] s"
    unfolding glob_matches using split_char_append[OF assms, of "[]"] by simp
  also have "\<dots> \<longleftrightarrow> (\<exists>r. s = p @ r \<and> CHR 0x0A \<notin> set r)"
    by (auto simp: matches_def length_Suc_conv)
  finally show ?thesis .
qed

text \<open>The relative keys of a referenced policy select, below the declaring resource: itself, itself
  and every key it is a prefix of, or every key strictly under it; other keys are kept as they are.\<close>

theorem rewrite_key_selects:
  assumes "CHR ''*'' \<notin> set source" and "CHR 0x0A \<notin> set key"
  shows "(glob (rewrite_key source ''.'') key \<longleftrightarrow> key = source)
    \<and> (glob (rewrite_key source ''*'') key \<longleftrightarrow> has_prefix key source)
    \<and> (glob (rewrite_key source []) key \<longleftrightarrow> has_prefix key source)
    \<and> (glob (rewrite_key source ''./*'') key \<longleftrightarrow> has_prefix key (source @ ''/''))
    \<and> (\<forall>k. k \<notin> {''.'', [], ''*'', ''./*''} \<longrightarrow> rewrite_key source k = k)"
proof -
  have p: "glob (p @ ''*'') key \<longleftrightarrow> has_prefix key p" if "CHR ''*'' \<notin> set p" for p
    using glob_prefix[OF that, of key] assms(2) unfolding has_prefix_def by (metis append_eq_conv_conj set_append Un_iff)
  show ?thesis using p[OF assms(1)] p[of "source @ ''/''"] assms(1) glob_literal[OF assms(1), of key]
    by (simp add: rewrite_key_def)
qed

section \<open>Instances\<close>

definition demo_env :: policy_env where
  "demo_env = \<lparr>http_get = (\<lambda>u. if u = ''https://p'' then Some ''body'' else None),
     dec_policy_document = (\<lambda>_. Some [(''2025-12-23'', JNull)]), enc_any = (\<lambda>_. Some ''P''),
     dec_policy = (\<lambda>b. if b = ''P'' then Some demo_policy else None),
     client_get_record = (\<lambda>_. None), client_call = (\<lambda>_ _ _. None)\<rparr>"

definition demo_service :: policy_service where
  "demo_service = \<lparr>ps_globalPolicy = \<lparr>p_statements = [], p_defaults = Some [(''record:read'', DENY)]\<rparr>,
     ps_fqdn = ''example.com'', ps_cache = []\<rparr>"

definition demo_entry :: "string \<Rightarrow> policy_entry" where
  "demo_entry u = \<lparr>pe_url = Some u, pe_params = None, pe_defaults = Some [(''record:create'', NG)], pe_errored = False\<rparr>"

theorem ResolvePolicyURL_cached_witness:
  "ResolvePolicyURL (demo_env\<lparr>http_get := \<lambda>_. None\<rparr>) (snd (ResolvePolicyURL demo_env demo_service ''https://p'')) ''https://p''
     = (Inr demo_policy, snd (ResolvePolicyURL demo_env demo_service ''https://p''))"
proof -
  have "ResolvePolicyURL demo_env demo_service ''https://p'' = (Inr demo_policy, demo_service\<lparr>ps_cache := [(''https://p'', ''P'')]\<rparr>)"
    by (simp add: ResolvePolicyURL_def demo_env_def demo_service_def)
  then show ?thesis using ResolvePolicyURL_cached[of demo_env demo_service "''https://p''" demo_policy _ "demo_env\<lparr>http_get := \<lambda>_. None\<rparr>"] by simp
qed

theorem policy_Eval_allowlist_witness:
  "policy_Eval (demo_env\<lparr>client_call := (\<lambda>_ api _. if api = ''net.concrnt.core.resource'' then Some (GBool True) else None)\<rparr>)
     demo_service demo_request [] ''record:read'' ''k'' = policy_Eval demo_env demo_service demo_request [] ''record:read'' ''k''"
  by (rule policy_Eval_allowlist) (simp add: demo_env_def)

theorem policy_Eval_global_witness:
  "fst (policy_Eval demo_env demo_service demo_request [] ''record:read'' ''k'') = Inl (PermissionError ''action denied by policy: [] '')"
proof -
  have "EvaluatePolicy (service_context demo_env demo_service demo_request) (ps_globalPolicy demo_service) ''record:read'' ''k'' = Inr (DENY, [])"
    by (simp add: EvaluatePolicy_def select_statements_def demo_service_def lookup_default_def)
  from policy_Eval_global[OF this] show ?thesis by simp
qed

theorem resolve_entry_default_witness:
  "eval_entry demo_request (hd (fst (resolve_entry demo_env ''cckv://o/a'' (demo_entry ''https://gone'') demo_service)))
     ''record:create'' ''cckv://o/a/b'' = Inr (NG, [])"
proof -
  have r: "resolve_entry demo_env ''cckv://o/a'' (demo_entry ''https://gone'') demo_service =
      ([erroredEvaluationSet (demo_entry ''https://gone'')], demo_service)"
    by (simp add: resolve_entry_def ResolvePolicyURL_def demo_env_def demo_service_def demo_entry_def)
  show ?thesis unfolding r
    by (rule resolve_entry_default[OF _ _ _ _ r, where ds = "[(''record:create'', NG)]"]) (simp_all add: demo_entry_def gmap_ok_def erroredEvaluationSet_def select_statements_def)
qed

theorem rewrite_key_selects_witness:
  "glob (rewrite_key ''cckv://o/a'' ''./*'') ''cckv://o/a/b'' \<and> \<not> glob (rewrite_key ''cckv://o/a'' ''.'') ''cckv://o/a/b''"
  using rewrite_key_selects[of "''cckv://o/a''" "''cckv://o/a/b''"] by (simp add: has_prefix_def)

end
