(* ===== verification/Default_Policy.thy ===== *)
theory Default_Policy
  imports Policy_Service Domain
begin

text \<open>
  The server's global policy, \<^verbatim>\<open>src/cmd/concrnt/defaultPolicy.go\<close>, as the value its JSON text
  decodes to, with what reflection shows of the documents and entities it is evaluated on.
  Shown here: the decision table of every action, and what it means for permissions.
\<close>

section \<open>The policy\<close>

definition load :: "string \<Rightarrow> expr" where
  "load k = Expr ''Load'' [] (GStr k)"

definition eq :: "expr \<Rightarrow> expr \<Rightarrow> expr" where
  "eq a b = Expr ''Eq'' [a, b] GNil"

definition owner_of :: "expr \<Rightarrow> expr" where
  "owner_of a = Expr ''CCUriOwner'' [a] GNil"

definition allow_stmt :: "string \<Rightarrow> Conclusion \<Rightarrow> string \<Rightarrow> expr \<Rightarrow> statement" where
  "allow_stmt action emit reason c = \<lparr>st_action = action, st_key = ''*'', st_emit = emit, st_condition = c, st_reason = Some reason\<rparr>"

definition stmt_create_own :: statement where
  "stmt_create_own = allow_stmt ''record:create'' ALLOW ''ALLOW if the record is created under the namespace of the requester''
     (Expr ''And'' [eq (load ''requester.domain'') (load ''globals.fqdn''),
                   eq (load ''requester.ccid'') (owner_of (load ''self.key''))] GNil)"

definition stmt_create_server :: statement where
  "stmt_create_server = allow_stmt ''record:create'' OK ''OK if the record is created under the namespace of this server''
     (Expr ''And'' [eq (load ''requester.domain'') (load ''globals.fqdn''),
                   eq (owner_of (load ''self.key'')) (load ''globals.fqdn'')] GNil)"

definition stmt_read_own :: statement where
  "stmt_read_own = allow_stmt ''record:read'' ALLOW ''ALLOW if the record is in the namespace of the requester''
     (eq (load ''requester.ccid'') (owner_of (load ''self.key'')))"

definition stmt_update_own :: statement where
  "stmt_update_own = allow_stmt ''record:update'' ALLOW ''ALLOW if the requester is the author of the record or the record is in the namespace of the requester''
     (Expr ''Or'' [eq (load ''requester.ccid'') (load ''self.author''),
                  eq (load ''requester.ccid'') (owner_of (load ''self.key''))] GNil)"

definition stmt_delete_own :: statement where
  "stmt_delete_own = allow_stmt ''record:delete'' ALLOW ''ALLOW if the requester is the author of the record or the record is in the namespace of the requester''
     (Expr ''Or'' [eq (load ''requester.ccid'') (load ''self.author''),
                  eq (load ''requester.ccid'') (owner_of (load ''self.key''))] GNil)"

definition stmt_association_delete :: statement where
  "stmt_association_delete = allow_stmt ''association:delete'' ALLOW ''ALLOW if the requester is the author of the association or the parent of the association is in the namespace of the requester''
     (Expr ''Or'' [eq (load ''requester.ccid'') (load ''self.author''),
                  eq (load ''requester.ccid'') (owner_of (load ''self.associate''))] GNil)"

definition globalPolicyJson :: policy where
  "globalPolicyJson = \<lparr>p_statements = [stmt_create_own, stmt_create_server, stmt_read_own, stmt_update_own, stmt_delete_own,
       stmt_association_delete],
     p_defaults = Some [(''record:create'', NG), (''record:read'', OK), (''record:update'', NG), (''record:delete'', NG),
       (''association:create'', OK), (''association:read'', OK), (''association:delete'', NG)]\<rparr>"

lemmas stmt_defs = stmt_create_own_def stmt_create_server_def stmt_read_own_def stmt_update_own_def stmt_delete_own_def
  stmt_association_delete_def allow_stmt_def

definition GetGlobalPolicy :: policy where
  "GetGlobalPolicy = globalPolicyJson"

section \<open>What reflection shows\<close>

definition string_rval :: "string \<Rightarrow> rval" where
  "string_rval s = RScalar (GStr s)"

definition entity_rval :: "entity option \<Rightarrow> rval" where
  "entity_rval e = RPointer (map_option (\<lambda>e. RStruct [(field ''ID'' ''ccid'', string_rval (en_id e)),
     (field ''Alias'' ''alias,omitempty'', RPointer (map_option string_rval (en_alias e))),
     (field ''Domain'' ''domain'', string_rval (en_domain e)),
     (field ''TagString'' ''tag,omitempty'', string_rval (en_tag e)),
     (field ''SignedDocument'' ''-'', RPointer None)]) e)"

definition policy_entry_rval :: "policy_entry \<Rightarrow> rval" where
  "policy_entry_rval p = RStruct [(field ''URL'' ''url'', RPointer (map_option string_rval (pe_url p))),
     (field ''Params'' ''params,omitempty'', RPointer (map_option (\<lambda>m. RMap True (map (\<lambda>(k, v). (GStr k, RScalar (of_jval v))) m)) (pe_params p))),
     (field ''Defaults'' ''defaults,omitempty'', RPointer (map_option (\<lambda>m. RMap True (map (\<lambda>(k, v). (GStr k, string_rval v)) m)) (pe_defaults p))),
     (field ''Errored'' ''-'', RScalar (GBool (pe_errored p)))]"

definition policy_ref_rval :: "policy_ref \<Rightarrow> rval" where
  "policy_ref_rval p = RStruct [(field ''Entries'' ''entries'', RSlice (map policy_entry_rval (pr_entries p))),
     (field ''VirtualParents'' ''-'', RPointer None), (field ''Source'' ''-'', string_rval (pr_source p))]"

text \<open>\<^verbatim>\<open>time.Time\<close> has unexported fields only.\<close>

definition time_rval :: rval where
  "time_rval = RStruct [(\<lparr>sf_name = ''wall'', sf_exported = False, sf_tag = [], sf_anonymous = False\<rparr>, RInvalid),
     (\<lparr>sf_name = ''ext'', sf_exported = False, sf_tag = [], sf_anonymous = False\<rparr>, RInvalid),
     (\<lparr>sf_name = ''loc'', sf_exported = False, sf_tag = [], sf_anonymous = False\<rparr>, RInvalid)]"

definition document_rval :: "document \<Rightarrow> rval" where
  "document_rval d = RStruct [(field ''Kind'' ''kind'', string_rval (d_kind d)),
     (field ''Key'' ''key'', string_rval (d_key d)),
     (field ''Value'' ''value'', RInterface (Some (RScalar (of_jval (d_value d))))),
     (field ''Author'' ''author'', string_rval (d_author d)),
     (field ''Schema'' ''schema,omitempty'', string_rval (d_schema d)),
     (field ''CreatedAt'' ''createdAt'', time_rval),
     (field ''OnUpdate'' ''onUpdate,omitempty'', RPointer (map_option string_rval (d_onUpdate d))),
     (field ''Distributes'' ''distributes,omitempty'', RPointer (map_option (\<lambda>ds. RSlice (map string_rval ds)) (d_distributes d))),
     (field ''Associate'' ''associate,omitempty'', RPointer (map_option string_rval (d_associate d))),
     (field ''AssociationVariant'' ''associationVariant,omitempty'', RPointer (map_option string_rval (d_associationVariant d))),
     (field ''Policy'' ''policy,omitempty'', RPointer (map_option policy_ref_rval (d_policy d)))]"

text \<open>The context of a request by an entity (or by nobody) about a document.\<close>

definition request :: "entity option \<Rightarrow> document \<Rightarrow> request_context" where
  "request e d = \<lparr>rq_requester = entity_rval e, rq_self = document_rval d, rq_params = [], rq_globals = RInvalid, rq_caller = None\<rparr>"

section \<open>Properties\<close>

lemma field_sel [simp]: "sf_name (field n t) = n" "sf_exported (field n t)" "sf_tag (field n t) = t" "\<not> sf_anonymous (field n t)"
  by (simp_all add: field_def)

lemma toAny_string [simp]: "toAny (string_rval s) = GStr s"
  by (simp add: string_rval_def)

lemma toAny_entity: "toAny (entity_rval e) = (case e of None \<Rightarrow> GNil | Some e \<Rightarrow>
    GMap [(''ccid'', GStr (en_id e)), (''alias'', case en_alias e of None \<Rightarrow> GNil | Some a \<Rightarrow> GStr a),
      (''domain'', GStr (en_domain e)), (''tag'', GStr (en_tag e))])"
  by (cases e; cases "en_alias (the e)") (auto simp: entity_rval_def add_field_def jsonFieldName_def)

lemma toAny_document: "\<exists>m. toAny (document_rval d) = GMap m \<and> map_of m ''key'' = Some (GStr (d_key d))
    \<and> map_of m ''author'' = Some (GStr (d_author d))
    \<and> map_of m ''associate'' = Some (case d_associate d of None \<Rightarrow> GNil | Some a \<Rightarrow> GStr a)"
  by (cases "d_associate d") (auto simp: document_rval_def add_field_def jsonFieldName_def)

definition ctx :: "policy_env \<Rightarrow> policy_service \<Rightarrow> entity option \<Rightarrow> document \<Rightarrow> request_context" where
  "ctx E s e d = service_context E s (request e d)"

lemma ctx_map: "structToMap (context_rval (ctx E s e d)) = [(''requester'', toAny (entity_rval e)),
    (''self'', toAny (document_rval d)), (''params'', GMap []), (''globals'', GMap [(''fqdn'', GStr (ps_fqdn s))])]"
  by (simp add: structToMap_def context_rval_def ctx_def service_context_def request_def globals_rval_def
      add_field_def jsonFieldName_def)

lemma Eval_load: "Eval r (load k) = (case resolveDotNotation (structToMap (context_rval r)) k of
    None \<Rightarrow> Inl (KeyNotFound k) | Some v \<Rightarrow> Inr v)"
  by (simp add: load_def operators_def opLoad_def)

lemma loads:
  "Eval (ctx E s e d) (load ''globals.fqdn'') = Inr (GStr (ps_fqdn s))"
  "Eval (ctx E s (Some x) d) (load ''requester.ccid'') = Inr (GStr (en_id x))"
  "Eval (ctx E s (Some x) d) (load ''requester.domain'') = Inr (GStr (en_domain x))"
  "Eval (ctx E s None d) (load ''requester.ccid'') = Inl (KeyNotFound ''requester.ccid'')"
  "Eval (ctx E s None d) (load ''requester.domain'') = Inl (KeyNotFound ''requester.domain'')"
  "Eval (ctx E s e d) (load ''self.key'') = Inr (GStr (d_key d))"
  "Eval (ctx E s e d) (load ''self.author'') = Inr (GStr (d_author d))"
  "Eval (ctx E s e d) (load ''self.associate'') = Inr (case d_associate d of None \<Rightarrow> GNil | Some a \<Rightarrow> GStr a)"
  unfolding Eval_load ctx_map resolveDotNotation_def using toAny_document[of d] by (auto simp: toAny_entity)

definition uri_owner :: "string \<Rightarrow> string option" where
  "uri_owner u = (case ParseCCURI u of Inl _ \<Rightarrow> None | Inr c \<Rightarrow> Some (cu_owner c))"

lemma Eval_owner: "Eval r (owner_of a) = rbind (Eval r a) (\<lambda>v. opCCUriOwner [v])"
  by (cases "Eval r a") (simp_all add: owner_of_def operators_def)

lemma Eval_eq: "Eval r (eq a b) = rbind (Eval r a) (\<lambda>v. rbind (Eval r b) (\<lambda>w. opEq [v, w]))"
  by (cases "Eval r a"; cases "Eval r b") (simp_all add: eq_def operators_def)

lemma Eval_and: "Eval r (Expr ''And'' [a, b] GNil) = rbind (Eval r a) (\<lambda>v. rbind (Eval r b) (\<lambda>w. opAnd [v, w]))"
  and Eval_or: "Eval r (Expr ''Or'' [a, b] GNil) = rbind (Eval r a) (\<lambda>v. rbind (Eval r b) (\<lambda>w. opOr [v, w]))"
  by (cases "Eval r a"; cases "Eval r b"; simp add: operators_def)+

lemma opCCUriOwner_str: "opCCUriOwner [GStr u] = (case ParseCCURI u of Inl e \<Rightarrow> Inl (BadUri e) | Inr c \<Rightarrow> Inr (GStr (cu_owner c)))"
  by (simp add: opCCUriOwner_def)

lemma opEq_str [simp]: "opEq [GStr a, GStr b] = Inr (GBool (a = b))"
  by (simp add: opEq_def)

lemmas decision_simps = EvaluatePolicy_def select_statements_def GetGlobalPolicy_def globalPolicyJson_def stmt_defs
  Eval_owner Eval_eq Eval_and Eval_or loads opCCUriOwner_str lookup_default_def

text \<open>The decision table of the policy: local users create in their own namespace and in the
  server's; owners read, update and delete what is theirs, authors update and delete what they
  wrote; everyone reads and associates.\<close>

definition decision :: "string \<Rightarrow> entity option \<Rightarrow> document \<Rightarrow> string \<Rightarrow> Conclusion" where
  "decision fqdn e d action =
    (let owner = uri_owner (d_key d);
         mine = (\<lambda>o'. case (e, o') of (Some x, Some ow) \<Rightarrow> d_author d = en_id x \<or> ow = en_id x | _ \<Rightarrow> False) in
     if action = ''record:create'' then
       (case e of None \<Rightarrow> NG | Some x \<Rightarrow> if en_domain x = fqdn \<and> owner = Some (en_id x) then ALLOW
          else if en_domain x = fqdn \<and> owner = Some fqdn then OK else NG)
     else if action = ''record:read'' then (case e of None \<Rightarrow> OK | Some x \<Rightarrow> if owner = Some (en_id x) then ALLOW else OK)
     else if action = ''record:update'' \<or> action = ''record:delete'' then (if mine owner then ALLOW else NG)
     else if action = ''association:delete'' then
       (if mine (Option.bind (d_associate d) uri_owner) then ALLOW else NG)
     else if action = ''association:create'' \<or> action = ''association:read'' then OK
     else UNSET)"

lemma glob_star: "CHR 0x0A \<notin> set key \<Longrightarrow> glob ''*'' key"
  using glob_prefix[of "[]" key] by simp

lemma decision_create:
  assumes "CHR 0x0A \<notin> set key"
  shows "\<exists>r. EvaluatePolicy (ctx E s e d) GetGlobalPolicy ''record:create'' key = Inr (decision (ps_fqdn s) e d ''record:create'', r)"
  using glob_star[OF assms] by (cases e; cases "ParseCCURI (d_key d)")
    (auto simp: decision_simps decision_def uri_owner_def c_or_def simp del: glob.simps Eval.simps)

lemma decision_read:
  assumes "CHR 0x0A \<notin> set key"
  shows "\<exists>r. EvaluatePolicy (ctx E s e d) GetGlobalPolicy ''record:read'' key = Inr (decision (ps_fqdn s) e d ''record:read'', r)"
  using glob_star[OF assms] by (cases e; cases "ParseCCURI (d_key d)")
    (auto simp: decision_simps decision_def uri_owner_def c_or_def simp del: glob.simps Eval.simps)

lemma decision_update:
  assumes "CHR 0x0A \<notin> set key"
  shows "\<exists>r. EvaluatePolicy (ctx E s e d) GetGlobalPolicy ''record:update'' key = Inr (decision (ps_fqdn s) e d ''record:update'', r)"
  using glob_star[OF assms] by (cases e; cases "ParseCCURI (d_key d)")
    (auto simp: decision_simps decision_def uri_owner_def c_or_def simp del: glob.simps Eval.simps)

lemma decision_delete:
  assumes "CHR 0x0A \<notin> set key"
  shows "\<exists>r. EvaluatePolicy (ctx E s e d) GetGlobalPolicy ''record:delete'' key = Inr (decision (ps_fqdn s) e d ''record:delete'', r)"
  using glob_star[OF assms] by (cases e; cases "ParseCCURI (d_key d)")
    (auto simp: decision_simps decision_def uri_owner_def c_or_def simp del: glob.simps Eval.simps)

lemma decision_association_delete:
  assumes "CHR 0x0A \<notin> set key"
  shows "\<exists>r. EvaluatePolicy (ctx E s e d) GetGlobalPolicy ''association:delete'' key
    = Inr (decision (ps_fqdn s) e d ''association:delete'', r)"
proof (cases "d_associate d")
  case None
  then show ?thesis using glob_star[OF assms] by (cases e)
    (auto simp: decision_simps decision_def opCCUriOwner_def c_or_def simp del: glob.simps Eval.simps)
next
  case (Some a)
  then show ?thesis using glob_star[OF assms] by (cases e; cases "ParseCCURI a")
    (auto simp: decision_simps decision_def uri_owner_def c_or_def simp del: glob.simps Eval.simps)
qed

lemma decision_other:
  assumes "''record:create'' \<noteq> action" "''record:read'' \<noteq> action" "''record:update'' \<noteq> action" "''record:delete'' \<noteq> action"
    "''association:delete'' \<noteq> action"
  shows "EvaluatePolicy (ctx E s e d) GetGlobalPolicy action key = Inr (decision (ps_fqdn s) e d action, [])"
proof -
  have sel: "select_statements GetGlobalPolicy action key = []"
    unfolding select_statements_def GetGlobalPolicy_def globalPolicyJson_def stmt_defs policy.select_convs filter.simps
      statement.select_convs using assms by (simp only: simp_thms if_False)
  have def: "lookup_default GetGlobalPolicy action = (if ''association:create'' = action \<or> ''association:read'' = action then Some OK else None)"
    unfolding lookup_default_def GetGlobalPolicy_def globalPolicyJson_def policy.select_convs option.case map_of.simps fst_conv snd_conv
    using assms by (simp only: fun_upd_apply if_False eq_commute[of action]) simp
  have "decision (ps_fqdn s) e d action = (if ''association:create'' = action \<or> ''association:read'' = action then OK else UNSET)"
    unfolding decision_def Let_def eq_commute[of action] using assms by (simp only: if_False simp_thms)
  with sel def show ?thesis unfolding EvaluatePolicy_def by simp
qed

lemma decision_table:
  assumes "CHR 0x0A \<notin> set key"
  shows "\<exists>r. EvaluatePolicy (ctx E s e d) GetGlobalPolicy action key = Inr (decision (ps_fqdn s) e d action, r)"
proof -
  consider "''record:create'' = action" | "''record:read'' = action" | "''record:update'' = action" | "''record:delete'' = action"
    | "''association:delete'' = action" | "''record:create'' \<noteq> action" "''record:read'' \<noteq> action" "''record:update'' \<noteq> action"
      "''record:delete'' \<noteq> action" "''association:delete'' \<noteq> action" by argo
  then show ?thesis
  proof cases
    case 1 show ?thesis unfolding 1[symmetric] by (rule decision_create[OF assms])
  next
    case 2 show ?thesis unfolding 2[symmetric] by (rule decision_read[OF assms])
  next
    case 3 show ?thesis unfolding 3[symmetric] by (rule decision_update[OF assms])
  next
    case 4 show ?thesis unfolding 4[symmetric] by (rule decision_delete[OF assms])
  next
    case 5 show ?thesis unfolding 5[symmetric] by (rule decision_association_delete[OF assms])
  next
    case 6 show ?thesis using decision_other[OF 6, of E s e d key] by (rule exI)
  qed
qed

text \<open>The server's own policy is its decision table: for every requester, document and action,
  evaluation ends without an error in the conclusion the table gives.\<close>

theorem GetGlobalPolicy_table:
  assumes "CHR 0x0A \<notin> set key"
  shows "\<exists>r. EvaluatePolicy (ctx E s e d) GetGlobalPolicy action key = Inr (decision (ps_fqdn s) e d action, r)"
  by (rule decision_table[OF assms])

text \<open>C33. On a server with this policy, an entity always reads, updates and deletes the records of its
  own namespace and, when it lives on the server, always creates them there, whatever policies are
  declared along the hierarchy; and the author of a record may always update and delete it.\<close>

theorem owner_permitted:
  assumes "ps_globalPolicy s = GetGlobalPolicy" and "CHR 0x0A \<notin> set key" and "uri_owner (d_key d) = Some ow"
    and "action = ''record:create'' \<and> en_domain x = ps_fqdn s \<and> ow = en_id x
       \<or> action = ''record:read'' \<and> ow = en_id x
       \<or> (action = ''record:update'' \<or> action = ''record:delete'') \<and> (ow = en_id x \<or> d_author d = en_id x)"
  shows "fst (policy_Eval E s (request (Some x) d) stack action key) = Inr ()"
proof -
  have "decision (ps_fqdn s) (Some x) d action = ALLOW"
    using assms(4) by (elim disjE conjE) (simp_all add: decision_def assms(3))
  then obtain r where "EvaluatePolicy (service_context E s (request (Some x) d)) (ps_globalPolicy s) action key = Inr (ALLOW, r)"
    using decision_table[OF assms(2), of E s "Some x" d action] unfolding ctx_def assms(1) by auto
  from policy_Eval_strong(2)[OF this refl] show ?thesis .
qed

section \<open>Instances\<close>

definition demo_alice :: entity where
  "demo_alice = \<lparr>en_id = ''con1alice'', en_alias = None, en_domain = ''example.com'', en_tag = [], en_signedDocument = None\<rparr>"

definition demo_post :: document where
  "demo_post = \<lparr>d_kind = ''record'', d_key = ''cckv://con1alice/posts/1'', d_value = JNull, d_author = ''con1alice'',
     d_schema = [], d_createdAt = 0, d_onUpdate = None, d_distributes = None, d_associate = None,
     d_associationVariant = None, d_policy = None\<rparr>"

theorem GetGlobalPolicy_table_witness:
  "\<exists>r. EvaluatePolicy (ctx demo_env demo_service None demo_post) GetGlobalPolicy ''record:delete'' ''cckv://con1alice/posts/1'' = Inr (NG, r)"
  using GetGlobalPolicy_table[of "''cckv://con1alice/posts/1''" demo_env demo_service None demo_post "''record:delete''"]
  by (simp add: decision_def)

theorem owner_permitted_witness:
  "fst (policy_Eval demo_env (demo_service\<lparr>ps_globalPolicy := GetGlobalPolicy\<rparr>) (request (Some demo_alice) demo_post)
     [] ''record:create'' ''cckv://con1alice/posts/1'') = Inr ()"
proof (rule owner_permitted)
  show "uri_owner (d_key demo_post) = Some ''con1alice''" by code_simp
qed (simp_all add: demo_alice_def demo_service_def)

end
