(* ===== verification/Record_Store.thy ===== *)
theory Record_Store
  imports Domain Go_Store "HOL-Library.Product_Lexorder"
begin

text \<open>
  The record repository, \<^verbatim>\<open>src/internal/infra/repository/postgres/record.go\<close>, over the tables of
  \<^verbatim>\<open>src/internal/infra/database/models/core.go\<close>. The database is a record of tables, a table the list
  of its rows in insertion order; primary keys, unique indexes, foreign keys and their cascades
  are written out as the schema declares them, and a statement that violates one is an error.
  A transaction is one operation after the other; an error is rolled back by the caller, so it
  carries no database. Proofs and policies are stored as JSON text in the source and as the
  values themselves here. Texts are compared as bytes (the C collation).

  The loops that climb a URI's parents use the library's \<^verbatim>\<open>url.JoinPath\<close>; they are partial
  functions whose value \<open>None\<close> is divergence, and are shown to end on composed keys.
\<close>

section \<open>Tables\<close>

record commit_log =
  cl_id :: string
  cl_ip :: string
  cl_document :: string
  cl_proof :: proof_t
  cl_owner :: string
  cl_gc :: bool
  cl_cdate :: gotime

record record_key =
  rk_id :: int
  rk_parent :: "int option"
  rk_uri :: string
  rk_record :: "string option"
  rk_createdAt :: "gotime option"
  rk_clean :: bool

record record_row =
  r_id :: string
  r_owner :: string
  r_author :: string
  r_redirect :: "string option"
  r_schema :: string
  r_policies :: "policy_ref option"
  r_distributions :: "string list"
  r_createdAt :: gotime

record ack_row =
  a_from :: string
  a_to :: string
  a_schema :: string
  a_id :: string
  a_valid :: bool
  a_createdAt :: gotime

record association =
  as_id :: string
  as_target :: int
  as_owner :: string
  as_author :: string
  as_schema :: string
  as_variant :: "string option"
  as_unique :: string
  as_createdAt :: gotime

record entity_row =
  ent_id :: string
  ent_alias :: "string option"
  ent_domain :: string
  ent_tag :: string
  ent_document :: string
  ent_createdAt :: gotime

record db =
  commit_logs :: "commit_log list"
  record_keys :: "record_key list"
  records :: "record_row list"
  acks :: "ack_row list"
  ackeds :: "ack_row list"
  associations :: "association list"
  entities :: "entity_row list"
  next_key :: int

definition empty_db :: db where
  "empty_db = \<lparr>commit_logs = [], record_keys = [], records = [], acks = [], ackeds = [], associations = [],
     entities = [], next_key = 1\<rparr>"

type_synonym 'a db_result = "(domain_error, 'a) result"

definition fk_violation :: domain_error where
  "fk_violation = EOther ''violates foreign key constraint''"

definition unique_violation :: domain_error where
  "unique_violation = EOther ''violates unique constraint''"

section \<open>Lookups\<close>

definition find_log :: "db \<Rightarrow> string \<Rightarrow> commit_log option" where
  "find_log d i = find (\<lambda>c. cl_id c = i) (commit_logs d)"

definition find_key :: "db \<Rightarrow> string \<Rightarrow> record_key option" where
  "find_key d u = find (\<lambda>k. rk_uri k = u) (record_keys d)"

definition find_record :: "db \<Rightarrow> string \<Rightarrow> record_row option" where
  "find_record d i = find (\<lambda>r. r_id r = i) (records d)"

definition has_log :: "db \<Rightarrow> string \<Rightarrow> bool" where
  "has_log d i \<longleftrightarrow> i \<in> set (map cl_id (commit_logs d))"

definition HasCommitLog :: "db \<Rightarrow> string \<Rightarrow> bool" where
  "HasCommitLog d i = (find_log d i \<noteq> None)"

definition GetRecordKeyByURI :: "db \<Rightarrow> string \<Rightarrow> record_key db_result" where
  "GetRecordKeyByURI d uri = (case find_key d uri of None \<Rightarrow> Inl (ENotFound ''record key'' [] []) | Some rk \<Rightarrow> Inr rk)"

section \<open>Writes\<close>

text \<open>The conditional upsert of an entity: replaced by a strictly newer document only.\<close>

definition upsert_entity :: "entity_row \<Rightarrow> entity_row list \<Rightarrow> bool \<times> entity_row list" where
  "upsert_entity e rows = (case find (\<lambda>x. ent_id x = ent_id e) rows of
     None \<Rightarrow> (True, rows @ [e])
   | Some old \<Rightarrow> if ent_createdAt old < ent_createdAt e
       then (True, upd_where (\<lambda>x. ent_id x = ent_id e) (\<lambda>x. x\<lparr>ent_alias := ent_alias e, ent_domain := ent_domain e,
                 ent_document := ent_document e, ent_createdAt := ent_createdAt e\<rparr>) rows)
       else (False, rows))"

definition CreateEntity :: "db \<Rightarrow> string \<Rightarrow> string option \<Rightarrow> string \<Rightarrow> string \<Rightarrow> gotime \<Rightarrow> (bool \<times> db) db_result" where
  "CreateEntity d ccid alias dmn documentID createdAt =
     (let (written, rows) = upsert_entity \<lparr>ent_id = ccid, ent_alias = alias, ent_domain = dmn, ent_tag = [],
            ent_document = documentID, ent_createdAt = createdAt\<rparr> (entities d)
      in if written \<and> \<not> has_log d documentID then Inl fk_violation
         else Inr (written, d\<lparr>entities := rows\<rparr>))"

definition CreateCommitLog :: "db \<Rightarrow> gotime \<Rightarrow> string \<Rightarrow> string \<Rightarrow> string \<Rightarrow> proof_t \<Rightarrow> string \<Rightarrow> db" where
  "CreateCommitLog d now i ip doc prf owner = (if has_log d i then d
     else d\<lparr>commit_logs := commit_logs d @ [\<lparr>cl_id = i, cl_ip = ip, cl_document = doc, cl_proof = prf, cl_owner = owner,
            cl_gc = False, cl_cdate = now\<rparr>]\<rparr>)"

definition MarkCommitLogGcCandidate :: "db \<Rightarrow> string \<Rightarrow> db" where
  "MarkCommitLogGcCandidate d i =
     d\<lparr>commit_logs := upd_where (\<lambda>c. cl_id c = i) (\<lambda>c. c\<lparr>cl_gc := True\<rparr>) (commit_logs d)\<rparr>"

text \<open>Deleting a record takes its key with it, and with the key the associations to it.\<close>

definition delete_records :: "(string \<Rightarrow> bool) \<Rightarrow> db \<Rightarrow> db" where
  "delete_records P d = (let dead = filter (\<lambda>k. case rk_record k of None \<Rightarrow> False | Some i \<Rightarrow> P i) (record_keys d);
       ids = map rk_id dead in
     d\<lparr>records := filter (\<lambda>r. \<not> P (r_id r)) (records d),
       record_keys := filter (\<lambda>k. case rk_record k of None \<Rightarrow> True | Some i \<Rightarrow> \<not> P i) (record_keys d),
       associations := filter (\<lambda>a. as_target a \<notin> set ids) (associations d)\<rparr>)"

definition DeleteRecordByDocumentID :: "db \<Rightarrow> string \<Rightarrow> db" where
  "DeleteRecordByDocumentID d documentID = delete_records (\<lambda>i. i = documentID) d"

definition DeleteRecordByKey :: "db \<Rightarrow> string \<Rightarrow> db" where
  "DeleteRecordByKey d targetURI = (case Option.bind (find_key d targetURI) rk_record of None \<Rightarrow> d
     | Some i \<Rightarrow> delete_records (\<lambda>j. j = i) d)"

definition DeleteAssociation :: "db \<Rightarrow> string \<Rightarrow> db" where
  "DeleteAssociation d documentID = d\<lparr>associations := filter (\<lambda>a. as_id a \<noteq> documentID) (associations d)\<rparr>"

text \<open>The row of a URI's parent, created with its own parents as placeholders where it is missing. A
  top-level key has none.\<close>

definition insert_key :: "record_key \<Rightarrow> db \<Rightarrow> record_key \<times> db" where
  "insert_key rk d = (let rk' = rk\<lparr>rk_id := next_key d\<rparr> in
     (rk', d\<lparr>record_keys := record_keys d @ [rk'], next_key := next_key d + 1\<rparr>))"

definition placeholder :: "string \<Rightarrow> int option \<Rightarrow> record_key" where
  "placeholder u pid = \<lparr>rk_id = 0, rk_parent = pid, rk_uri = u, rk_record = None, rk_createdAt = None, rk_clean = False\<rparr>"

partial_function (option) getOrCreateParentRecordKey ::
  "db \<Rightarrow> string \<Rightarrow> (domain_error, record_key option \<times> db) result option" where
  "getOrCreateParentRecordKey d uri = (case JoinPath uri ''..'' of None \<Rightarrow> Some (Inl (EOther ''join path''))
     | Some parentURI \<Rightarrow> (case url_parse parentURI of None \<Rightarrow> Some (Inl (EOther ''parse''))
     | Some parsed \<Rightarrow>
        if u_path parsed = [] \<or> u_path parsed = ''/'' then Some (Inr (None, d))
        else (case find_key d parentURI of Some rk \<Rightarrow> Some (Inr (Some rk, d))
          | None \<Rightarrow> Option.bind (getOrCreateParentRecordKey d parentURI) (\<lambda>r.
              (case r of Inl e \<Rightarrow> Some (Inl e)
               | Inr (parent, d1) \<Rightarrow>
                 (case find_key d1 parentURI of Some rk \<Rightarrow> Some (Inr (Some rk, d1))
                  | None \<Rightarrow> (let (rk, d2) = insert_key (placeholder parentURI (map_option rk_id parent)) d1
                             in Some (Inr (Some rk, d2)))))))))"

text \<open>The conditional upsert of a record key. The index on \<open>record_id\<close> is unique.\<close>

definition upsert_key :: "string \<Rightarrow> int option \<Rightarrow> string \<Rightarrow> gotime \<Rightarrow> bool \<Rightarrow> db \<Rightarrow> (bool \<times> db) db_result" where
  "upsert_key key pid documentID createdAt clean d =
     (if \<exists>k\<in>set (record_keys d). rk_record k = Some documentID \<and> rk_uri k \<noteq> key then Inl unique_violation
      else case find_key d key of
        None \<Rightarrow> Inr (True, snd (insert_key \<lparr>rk_id = 0, rk_parent = pid, rk_uri = key, rk_record = Some documentID,
                   rk_createdAt = Some createdAt, rk_clean = clean\<rparr> d))
      | Some old \<Rightarrow>
          if rk_record old = None \<or> rk_createdAt old = None \<or> the (rk_createdAt old) < createdAt
          then Inr (True, d\<lparr>record_keys := upd_where (\<lambda>k. rk_uri k = key) (\<lambda>k. k\<lparr>rk_record := Some documentID, rk_parent := pid,
                   rk_createdAt := Some createdAt, rk_clean := clean\<rparr>) (record_keys d)\<rparr>)
          else Inr (False, d))"

definition insert_record :: "record_row \<Rightarrow> db \<Rightarrow> db db_result" where
  "insert_record r d = (if r_id r \<in> r_id ` set (records d) then Inr d
     else if \<not> has_log d (r_id r) then Inl fk_violation
     else Inr (d\<lparr>records := records d @ [r]\<rparr>))"

text \<open>The garbage flag and the removal of the record a key pointed to before.\<close>

definition clean_old :: "record_key option \<Rightarrow> string \<Rightarrow> db \<Rightarrow> db" where
  "clean_old old documentID d = (case old of None \<Rightarrow> d
     | Some k \<Rightarrow> (case rk_record k of None \<Rightarrow> d
        | Some i \<Rightarrow> if rk_clean k \<and> i \<noteq> documentID
            then DeleteRecordByDocumentID (MarkCommitLogGcCandidate d i) i else d))"

definition key_refuses :: "record_key option \<Rightarrow> gotime \<Rightarrow> bool" where
  "key_refuses old createdAt = (case old of None \<Rightarrow> False
     | Some k \<Rightarrow> rk_record k \<noteq> None \<and> (case rk_createdAt k of None \<Rightarrow> False | Some t \<Rightarrow> \<not> t < createdAt))"

definition CreateRecord :: "db \<Rightarrow> record_row \<Rightarrow> string \<Rightarrow> string option \<Rightarrow> (bool \<times> db) db_result option" where
  "CreateRecord d row key onUpdate =
     (let documentID = r_id row; createdAt = r_createdAt row; old = find_key d key in
      if key_refuses old createdAt then Some (Inr (False, d))
      else case insert_record row d of Inl e \<Rightarrow> Some (Inl e)
      | Inr d1 \<Rightarrow> Option.bind (getOrCreateParentRecordKey d1 key) (\<lambda>r.
          (case r of Inl e \<Rightarrow> Some (Inl e)
           | Inr (parentRK, d2) \<Rightarrow>
             (case upsert_key key (map_option rk_id parentRK) documentID createdAt (onUpdate \<noteq> Some ''retain'') d2 of
                Inl e \<Rightarrow> Some (Inl e)
              | Inr (False, d3) \<Rightarrow> Some (Inr (False, d3))
              | Inr (True, d3) \<Rightarrow> Some (Inr (True, clean_old old documentID d3))))))"

definition CreateAssociation :: "db \<Rightarrow> string \<Rightarrow> string \<Rightarrow> string \<Rightarrow> string \<Rightarrow> string \<Rightarrow> string option \<Rightarrow> string \<Rightarrow> gotime
    \<Rightarrow> (bool \<times> db) db_result" where
  "CreateAssociation d documentID targetURI owner author schema variant unique createdAt =
     rbind (GetRecordKeyByURI d targetURI) (\<lambda>targetRK.
       if \<exists>a\<in>set (associations d). as_id a = documentID \<or> as_unique a = unique then Inr (False, d)
       else if \<not> has_log d documentID then Inl fk_violation
       else Inr (True, d\<lparr>associations := associations d @ [\<lparr>as_id = documentID, as_target = rk_id targetRK, as_owner = owner,
              as_author = author, as_schema = schema, as_variant = variant, as_unique = unique, as_createdAt = createdAt\<rparr>]\<rparr>))"

text \<open>The conditional upsert of an acknowledgement, the same for both tables.\<close>

definition ack_key :: "ack_row \<Rightarrow> string \<times> string \<times> string" where
  "ack_key a = (a_from a, a_to a, a_schema a)"

definition upsert_ack :: "ack_row \<Rightarrow> ack_row list \<Rightarrow> bool \<times> ack_row list" where
  "upsert_ack a rows = (case find (\<lambda>x. ack_key x = ack_key a) rows of
     None \<Rightarrow> (True, rows @ [a])
   | Some old \<Rightarrow> if a_createdAt old < a_createdAt a
       then (True, upd_where (\<lambda>x. ack_key x = ack_key a)
                (\<lambda>x. x\<lparr>a_valid := a_valid a, a_id := a_id a, a_createdAt := a_createdAt a\<rparr>) rows)
       else (False, rows))"

definition write_ack :: "db \<Rightarrow> ack_row \<Rightarrow> ack_row list \<Rightarrow> (bool \<times> ack_row list) db_result" where
  "write_ack d a rows = (let (written, rows') = upsert_ack a rows in
     if \<not> written then Inr (False, rows)
     else if \<exists>x\<in>set rows. a_id x = a_id a \<and> ack_key x \<noteq> ack_key a then Inl unique_violation
     else if \<not> has_log d (a_id a) then Inl fk_violation
     else Inr (True, rows'))"

definition processAck :: "db \<Rightarrow> string \<Rightarrow> string \<Rightarrow> string \<Rightarrow> string \<Rightarrow> gotime \<Rightarrow> bool \<Rightarrow> (bool \<times> db) db_result" where
  "processAck d documentID frm to schema createdAt valid =
     rbind (write_ack d \<lparr>a_from = frm, a_to = to, a_schema = schema, a_id = documentID, a_valid = valid,
              a_createdAt = createdAt\<rparr> (acks d)) (\<lambda>(b, rows). Inr (b, d\<lparr>acks := rows\<rparr>))"

definition processAcked :: "db \<Rightarrow> string \<Rightarrow> string \<Rightarrow> string \<Rightarrow> string \<Rightarrow> gotime \<Rightarrow> bool \<Rightarrow> (bool \<times> db) db_result" where
  "processAcked d documentID frm to schema createdAt valid =
     rbind (write_ack d \<lparr>a_from = frm, a_to = to, a_schema = schema, a_id = documentID, a_valid = valid,
              a_createdAt = createdAt\<rparr> (ackeds d)) (\<lambda>(b, rows). Inr (b, d\<lparr>ackeds := rows\<rparr>))"

definition Acknowledge :: "db \<Rightarrow> string \<Rightarrow> string \<Rightarrow> string \<Rightarrow> string \<Rightarrow> gotime \<Rightarrow> (bool \<times> db) db_result" where
  "Acknowledge d i f t s c = processAck d i f t s c True"

definition UnAcknowledge :: "db \<Rightarrow> string \<Rightarrow> string \<Rightarrow> string \<Rightarrow> string \<Rightarrow> gotime \<Rightarrow> (bool \<times> db) db_result" where
  "UnAcknowledge d i f t s c = processAck d i f t s c False"

definition Acknowledged :: "db \<Rightarrow> string \<Rightarrow> string \<Rightarrow> string \<Rightarrow> string \<Rightarrow> gotime \<Rightarrow> (bool \<times> db) db_result" where
  "Acknowledged d i f t s c = processAcked d i f t s c True"

definition UnAcknowledged :: "db \<Rightarrow> string \<Rightarrow> string \<Rightarrow> string \<Rightarrow> string \<Rightarrow> gotime \<Rightarrow> (bool \<times> db) db_result" where
  "UnAcknowledged d i f t s c = processAcked d i f t s c False"

section \<open>The invariant\<close>

text \<open>What the schema's keys, unique indexes and foreign keys promise.\<close>

definition logs_ok :: "db \<Rightarrow> bool" where
  "logs_ok d \<longleftrightarrow> distinct (map cl_id (commit_logs d))
     \<and> distinct (map ent_id (entities d)) \<and> (\<forall>e\<in>set (entities d). has_log d (ent_document e))"

definition acks_ok :: "db \<Rightarrow> ack_row list \<Rightarrow> bool" where
  "acks_ok d rows \<longleftrightarrow> distinct (map ack_key rows) \<and> distinct (map a_id rows) \<and> (\<forall>a\<in>set rows. has_log d (a_id a))"

definition keys_ok :: "db \<Rightarrow> bool" where
  "keys_ok d \<longleftrightarrow> distinct (map r_id (records d)) \<and> (\<forall>r\<in>set (records d). has_log d (r_id r))
     \<and> distinct (map rk_uri (record_keys d)) \<and> distinct (map rk_id (record_keys d))
     \<and> (\<forall>k\<in>set (record_keys d). rk_id k < next_key d)
     \<and> (\<forall>k\<in>set (record_keys d). \<forall>i. rk_record k = Some i \<longrightarrow> i \<in> r_id ` set (records d))
     \<and> (\<forall>k\<in>set (record_keys d). \<forall>k'\<in>set (record_keys d). rk_record k \<noteq> None \<longrightarrow> rk_record k = rk_record k' \<longrightarrow> k = k')"

definition assocs_ok :: "db \<Rightarrow> bool" where
  "assocs_ok d \<longleftrightarrow> distinct (map as_id (associations d)) \<and> distinct (map as_unique (associations d))
     \<and> (\<forall>a\<in>set (associations d). has_log d (as_id a) \<and> as_target a \<in> rk_id ` set (record_keys d))"

definition db_ok :: "db \<Rightarrow> bool" where
  "db_ok d \<longleftrightarrow> logs_ok d \<and> acks_ok d (acks d) \<and> acks_ok d (ackeds d) \<and> keys_ok d \<and> assocs_ok d"

lemmas ok_defs = db_ok_def logs_ok_def acks_ok_def keys_ok_def assocs_ok_def

lemma has_log_cong [simp]:
  "has_log (d\<lparr>record_keys := x1\<rparr>) = has_log d" "has_log (d\<lparr>records := x2\<rparr>) = has_log d" "has_log (d\<lparr>acks := x3\<rparr>) = has_log d"
  "has_log (d\<lparr>ackeds := x3\<rparr>) = has_log d" "has_log (d\<lparr>associations := x4\<rparr>) = has_log d" "has_log (d\<lparr>entities := x5\<rparr>) = has_log d"
  "has_log (d\<lparr>next_key := x6\<rparr>) = has_log d"
  by (simp_all add: has_log_def fun_eq_iff)

lemma empty_db_ok: "db_ok empty_db"
  by (simp add: ok_defs empty_db_def)

lemma CreateCommitLog_ok: "db_ok d \<Longrightarrow> db_ok (CreateCommitLog d now i ip doc prf owner)"
  by (auto simp: CreateCommitLog_def ok_defs has_log_def)

lemma CreateCommitLog_has [simp]: "has_log (CreateCommitLog d now i ip doc prf owner) i"
  by (simp add: CreateCommitLog_def has_log_def)

lemma mark_ids [simp]: "map cl_id (commit_logs (MarkCommitLogGcCandidate d i)) = map cl_id (commit_logs d)"
  by (simp add: MarkCommitLogGcCandidate_def map_upd_where)

lemma mark_sel [simp]:
  "record_keys (MarkCommitLogGcCandidate d i) = record_keys d" "records (MarkCommitLogGcCandidate d i) = records d"
  "acks (MarkCommitLogGcCandidate d i) = acks d" "ackeds (MarkCommitLogGcCandidate d i) = ackeds d"
  "associations (MarkCommitLogGcCandidate d i) = associations d" "entities (MarkCommitLogGcCandidate d i) = entities d"
  "next_key (MarkCommitLogGcCandidate d i) = next_key d"
  by (simp_all add: MarkCommitLogGcCandidate_def)

lemma has_log_mark [simp]: "has_log (MarkCommitLogGcCandidate d i) = has_log d"
  unfolding has_log_def mark_ids by (rule refl)

lemma MarkCommitLogGcCandidate_ok: "db_ok d \<Longrightarrow> db_ok (MarkCommitLogGcCandidate d i)"
  unfolding ok_defs mark_sel mark_ids has_log_mark by assumption

lemma upsert_entity_rows:
  assumes "distinct (map ent_id rows)" "\<forall>x\<in>set rows. P (ent_document x)" "upsert_entity e rows = (b, rows')" "b \<Longrightarrow> P (ent_document e)"
  shows "distinct (map ent_id rows') \<and> (\<forall>x\<in>set rows'. P (ent_document x))"
  using assms by (auto simp: upsert_entity_def map_upd_where set_upd_where find_None_iff split: option.splits if_splits; blast)

lemma CreateEntity_ok: "db_ok d \<Longrightarrow> CreateEntity d c a dmn i t = Inr (b, d') \<Longrightarrow> db_ok d'"
  using upsert_entity_rows[of "entities d" "has_log d"]
  by (auto simp: CreateEntity_def ok_defs split: prod.splits if_splits)

lemma write_ack_rows:
  assumes "acks_ok d rows" "write_ack d a rows = Inr (b, rows')"
  shows "acks_ok d rows'"
proof (cases "find (\<lambda>x. ack_key x = ack_key a) rows")
  case None
  then have n: "ack_key x \<noteq> ack_key a" if "x \<in> set rows" for x using that by (auto simp: find_None_iff)
  then show ?thesis using assms None
    by (auto simp: write_ack_def upsert_ack_def acks_ok_def Let_def split: if_splits; blast)
next
  case (Some old)
  let ?h = "\<lambda>x. x\<lparr>a_valid := a_valid a, a_id := a_id a, a_createdAt := a_createdAt a\<rparr>"
  have k: "ack_key (?h x) = ack_key x" for x by (simp add: ack_key_def)
  show ?thesis using assms Some k distinct_upd_where[of ack_key rows a_id ?h "a_id a" "ack_key a"]
    by (auto simp: write_ack_def upsert_ack_def acks_ok_def Let_def map_upd_where set_upd_where split: if_splits)
qed

lemma acks_ok_cong [simp]: "acks_ok (d\<lparr>acks := x\<rparr>) = acks_ok d" "acks_ok (d\<lparr>ackeds := x\<rparr>) = acks_ok d"
  by (simp_all add: acks_ok_def fun_eq_iff)

lemma other_ok_acks [simp]:
  "logs_ok (d\<lparr>acks := x\<rparr>) = logs_ok d" "keys_ok (d\<lparr>acks := x\<rparr>) = keys_ok d" "assocs_ok (d\<lparr>acks := x\<rparr>) = assocs_ok d"
  "logs_ok (d\<lparr>ackeds := x\<rparr>) = logs_ok d" "keys_ok (d\<lparr>ackeds := x\<rparr>) = keys_ok d" "assocs_ok (d\<lparr>ackeds := x\<rparr>) = assocs_ok d"
  by (simp_all add: logs_ok_def keys_ok_def assocs_ok_def)

lemma processAck_ok: "db_ok d \<Longrightarrow> processAck d i f t s c v = Inr (b, d') \<Longrightarrow> db_ok d'"
  and processAcked_ok: "db_ok d \<Longrightarrow> processAcked d i f t s c v = Inr (b, d') \<Longrightarrow> db_ok d'"
  by (auto simp: processAck_def processAcked_def db_ok_def rbind_eq_Inr intro: write_ack_rows)

lemma CreateAssociation_ok: "db_ok d \<Longrightarrow> CreateAssociation d i u ow au sc v un c = Inr (b, d') \<Longrightarrow> db_ok d'"
  by (auto simp: CreateAssociation_def GetRecordKeyByURI_def find_key_def ok_defs rbind_eq_Inr image_iff
      split: option.splits if_splits dest!: find_SomeD; blast)

lemma DeleteAssociation_ok: "db_ok d \<Longrightarrow> db_ok (DeleteAssociation d i)"
  by (auto simp: DeleteAssociation_def ok_defs distinct_map_filter)

lemma delete_records_sel [simp]:
  "commit_logs (delete_records P d) = commit_logs d" "acks (delete_records P d) = acks d" "ackeds (delete_records P d) = ackeds d"
  "entities (delete_records P d) = entities d" "next_key (delete_records P d) = next_key d"
  "has_log (delete_records P d) = has_log d"
  by (simp_all add: delete_records_def Let_def)

lemma delete_records_rows:
  "record_keys (delete_records P d) = filter (\<lambda>k. case rk_record k of None \<Rightarrow> True | Some i \<Rightarrow> \<not> P i) (record_keys d)"
  "records (delete_records P d) = filter (\<lambda>r. \<not> P (r_id r)) (records d)"
  "associations (delete_records P d) = filter (\<lambda>a. as_target a \<notin> rk_id ` {k \<in> set (record_keys d).
      case rk_record k of None \<Rightarrow> False | Some i \<Rightarrow> P i}) (associations d)"
  by (simp_all add: delete_records_def Let_def)

lemma delete_keys_ok: "keys_ok d \<Longrightarrow> keys_ok (delete_records P d)"
  unfolding keys_ok_def delete_records_rows delete_records_sel
  by (auto simp: distinct_map_filter image_iff split: option.splits; metis)

lemma delete_assocs_ok: "assocs_ok d \<Longrightarrow> assocs_ok (delete_records P d)"
  unfolding assocs_ok_def delete_records_rows delete_records_sel
  by (fastforce simp: distinct_map_filter image_iff split: option.splits)

lemma delete_records_ok: "db_ok d \<Longrightarrow> db_ok (delete_records P d)"
  using delete_keys_ok delete_assocs_ok by (simp add: db_ok_def logs_ok_def acks_ok_def)

lemma insert_key_sel [simp]:
  "commit_logs (snd (insert_key k d)) = commit_logs d" "acks (snd (insert_key k d)) = acks d" "ackeds (snd (insert_key k d)) = ackeds d"
  "entities (snd (insert_key k d)) = entities d" "records (snd (insert_key k d)) = records d"
  "associations (snd (insert_key k d)) = associations d" "has_log (snd (insert_key k d)) = has_log d"
  "next_key (snd (insert_key k d)) = next_key d + 1"
  "record_keys (snd (insert_key k d)) = record_keys d @ [k\<lparr>rk_id := next_key d\<rparr>]"
  "fst (insert_key k d) = k\<lparr>rk_id := next_key d\<rparr>"
  by (simp_all add: insert_key_def Let_def)

text \<open>A key may point to a record that no other key points to.\<close>

definition free_for :: "db \<Rightarrow> string \<Rightarrow> string option \<Rightarrow> bool" where
  "free_for d u r \<longleftrightarrow> (\<forall>i. r = Some i \<longrightarrow> i \<in> r_id ` set (records d) \<and> (\<forall>k\<in>set (record_keys d). rk_record k = Some i \<longrightarrow> rk_uri k = u))"

lemma insert_key_ok:
  assumes "db_ok d" "find_key d (rk_uri k) = None" "free_for d (rk_uri k) (rk_record k)"
  shows "db_ok (snd (insert_key k d))"
proof -
  have n: "rk_uri x \<noteq> rk_uri k" if "x \<in> set (record_keys d)" for x
    using assms(2) that by (auto simp: find_key_def find_None_iff)
  have r: "rk_record x \<noteq> rk_record k" if "x \<in> set (record_keys d)" "rk_record k \<noteq> None" for x
    using assms(3) n that by (auto simp: free_for_def)
  have "keys_ok (snd (insert_key k d))"
    using assms(1,3) n r unfolding db_ok_def keys_ok_def free_for_def insert_key_sel
    by (auto simp: image_iff; (blast | fastforce))
  then show ?thesis using assms(1) by (simp add: db_ok_def logs_ok_def acks_ok_def assocs_ok_def)
qed

text \<open>What creating the missing parents of a key changes: rows are added, none is touched.\<close>

definition extends_keys :: "db \<Rightarrow> db \<Rightarrow> bool" where
  "extends_keys d d' \<longleftrightarrow> commit_logs d' = commit_logs d \<and> records d' = records d \<and> acks d' = acks d \<and> ackeds d' = ackeds d
     \<and> associations d' = associations d \<and> entities d' = entities d
     \<and> (\<exists>ks. record_keys d' = record_keys d @ ks \<and> (\<forall>k\<in>set ks. rk_record k = None))"

lemma extends_keys_refl [simp]: "extends_keys d d"
  by (simp add: extends_keys_def)

lemma extends_keys_trans: "extends_keys d d1 \<Longrightarrow> extends_keys d1 d2 \<Longrightarrow> extends_keys d d2"
  by (auto simp: extends_keys_def)

lemma extends_insert: "rk_record k = None \<Longrightarrow> extends_keys d (snd (insert_key k d))"
  by (simp add: extends_keys_def)

lemma parent_key_ok:
  assumes "getOrCreateParentRecordKey d uri = Some r"
  shows "\<forall>p d'. r = Inr (p, d') \<longrightarrow> db_ok d \<longrightarrow> db_ok d' \<and> extends_keys d d'"
proof (rule getOrCreateParentRecordKey.raw_induct[OF _ assms], goal_cases)
  case (1 rec d uri r)
  show ?case
  proof (intro allI impI)
    fix p d' assume r: "r = Inr (p, d')" and ok: "db_ok d"
    from 1(2) r consider (same) "d' = d" | (made) u r1 where "rec d u = Some r1"
        "(case r1 of Inl e \<Rightarrow> Some (Inl e) | Inr (parent, d1) \<Rightarrow>
            (case find_key d1 u of Some rk \<Rightarrow> Some (Inr (Some rk, d1))
             | None \<Rightarrow> (let (rk, d2) = insert_key (placeholder u (map_option rk_id parent)) d1 in Some (Inr (Some rk, d2)))))
          = Some (Inr (p, d'))"
      by (auto simp: bind_eq_Some_conv split: option.splits if_splits)
    then show "db_ok d' \<and> extends_keys d d'"
    proof cases
      case same
      then show ?thesis using ok by simp
    next
      case made
      then obtain parent d1 where r1: "r1 = Inr (parent, d1)"
        and d': "find_key d1 u = None \<and> d' = snd (insert_key (placeholder u (map_option rk_id parent)) d1) \<or> d' = d1"
        by (auto simp: Let_def case_prod_unfold split: sum.splits option.splits)
      have IH: "db_ok d1" "extends_keys d d1" using 1(1)[OF made(1)] r1 ok by auto
      have "db_ok (snd (insert_key (placeholder u pid) d1))" if "find_key d1 u = None" for pid
        using insert_key_ok[OF IH(1), of "placeholder u pid"] that by (simp add: placeholder_def free_for_def)
      moreover have "extends_keys d1 (snd (insert_key (placeholder u pid) d1))" for pid
        by (rule extends_insert) (simp add: placeholder_def)
      ultimately show ?thesis using d' IH extends_keys_trans by blast
    qed
  qed
qed

text \<open>Pointing a key to another record keeps the keys consistent when no other key points to it.\<close>

lemma repoint_ok:
  assumes "keys_ok d" "i \<in> r_id ` set (records d)" "free_for d u (Some i)"
    and h: "\<And>k. rk_record (h k) = Some i" "\<And>k. rk_uri (h k) = rk_uri k" "\<And>k. rk_id (h k) = rk_id k"
  shows "keys_ok (d\<lparr>record_keys := upd_where (\<lambda>k. rk_uri k = u) h (record_keys d)\<rparr>)"
proof -
  let ?K = "record_keys d" and ?K' = "upd_where (\<lambda>k. rk_uri k = u) h (record_keys d)"
  have m: "map rk_uri ?K' = map rk_uri ?K" "map rk_id ?K' = map rk_id ?K" using h by (simp_all add: map_upd_where)
  have inj: "y = y'" if "y \<in> set ?K" "y' \<in> set ?K" "rk_uri y = u" "rk_uri y' = u" for y y'
    using assms(1) that inj_onD[of rk_uri "set ?K" y y'] by (simp add: keys_ok_def distinct_map)
  have "k = k'" if "k \<in> set ?K'" "k' \<in> set ?K'" "rk_record k \<noteq> None" "rk_record k = rk_record k'" for k k'
  proof -
    have f: "rk_uri x = u" if "x \<in> set ?K" "rk_record x = Some i" for x using assms(3) that by (auto simp: free_for_def)
    have old: "x = x'" if "x \<in> set ?K" "x' \<in> set ?K" "rk_record x \<noteq> None" "rk_record x = rk_record x'" for x x'
      using assms(1) that unfolding keys_ok_def by blast
    have rows: "x \<in> set ?K \<and> rk_uri x \<noteq> u \<or> (\<exists>y\<in>set ?K. rk_uri y = u \<and> x = h y)" if "x \<in> set ?K'" for x
      using that unfolding set_upd_where .
    show ?thesis using rows[OF that(1)] rows[OF that(2)]
    proof (elim disjE bexE conjE)
      assume "k \<in> set ?K" "k' \<in> set ?K" then show ?thesis using old that by blast
    next
      fix y assume "k \<in> set ?K" "rk_uri k \<noteq> u" "k' = h y" then show ?thesis using f[of k] that h by auto
    next
      fix y assume "k' \<in> set ?K" "rk_uri k' \<noteq> u" "k = h y" then show ?thesis using f[of k'] that h by auto
    next
      fix y y' assume "y \<in> set ?K" "rk_uri y = u" "k = h y" "y' \<in> set ?K" "rk_uri y' = u" "k' = h y'"
      then show ?thesis using inj by blast
    qed
  qed
  then show ?thesis using assms(1,2) h m unfolding keys_ok_def by (auto simp: set_upd_where)
qed

lemma upsert_key_ok:
  assumes "db_ok d" "i \<in> r_id ` set (records d)" "upsert_key u pid i t c d = Inr (b, d')"
  shows "db_ok d'"
proof -
  have f: "free_for d u (Some i)" using assms(2,3) by (auto simp: upsert_key_def free_for_def split: if_splits)
  show ?thesis
  proof (cases "find_key d u")
    case None
    let ?k = "\<lparr>rk_id = 0, rk_parent = pid, rk_uri = u, rk_record = Some i, rk_createdAt = Some t, rk_clean = c\<rparr>"
    have "d' = snd (insert_key ?k d)" using assms(3) None by (auto simp: upsert_key_def split: if_splits)
    then show ?thesis using insert_key_ok[OF assms(1), of ?k] None f by simp
  next
    case (Some old)
    let ?h = "\<lambda>k. k\<lparr>rk_record := Some i, rk_parent := pid, rk_createdAt := Some t, rk_clean := c\<rparr>"
    have "d' = d \<or> d' = d\<lparr>record_keys := upd_where (\<lambda>k. rk_uri k = u) ?h (record_keys d)\<rparr>"
      using assms(3) Some by (auto simp: upsert_key_def split: if_splits)
    moreover have "keys_ok (d\<lparr>record_keys := upd_where (\<lambda>k. rk_uri k = u) ?h (record_keys d)\<rparr>)"
      using repoint_ok[of d i u ?h] assms(1,2) f by (simp add: db_ok_def)
    moreover have "assocs_ok (d\<lparr>record_keys := upd_where (\<lambda>k. rk_uri k = u) ?h (record_keys d)\<rparr>)"
      using assms(1) map_upd_where[of "\<lambda>k. rk_uri k = u" rk_id ?h "record_keys d"]
      unfolding db_ok_def assocs_ok_def by (simp flip: set_map)
    ultimately show ?thesis using assms(1) by (auto simp: db_ok_def logs_ok_def acks_ok_def)
  qed
qed

lemma insert_record_ok:
  assumes "db_ok d" "insert_record r d = Inr d'"
  shows "db_ok d' \<and> r_id r \<in> r_id ` set (records d')"
  using assms by (auto simp: insert_record_def ok_defs split: if_splits; blast)

lemma clean_old_ok: "db_ok d \<Longrightarrow> db_ok (clean_old old i d)"
  by (auto simp: clean_old_def DeleteRecordByDocumentID_def intro!: delete_records_ok MarkCommitLogGcCandidate_ok split: option.splits)

text \<open>What a \<open>CreateRecord\<close> that neither diverges nor fails has done.\<close>

lemma CreateRecord_cases:
  assumes "CreateRecord d row key onUpdate = Some (Inr (b, d'))"
  obtains (refused) "key_refuses (find_key d key) (r_createdAt row)" "\<not> b" "d' = d"
  | (written) d1 d2 d3 parentRK where "\<not> key_refuses (find_key d key) (r_createdAt row)"
      "insert_record row d = Inr d1" "getOrCreateParentRecordKey d1 key = Some (Inr (parentRK, d2))"
      "upsert_key key (map_option rk_id parentRK) (r_id row) (r_createdAt row) (onUpdate \<noteq> Some ''retain'') d2 = Inr (b, d3)"
      "d' = (if b then clean_old (find_key d key) (r_id row) d3 else d3)"
proof (cases "key_refuses (find_key d key) (r_createdAt row)")
  case True
  then have "Some (Inr (False, d)) = Some (Inr (b, d') :: (bool \<times> db) db_result)"
    using assms by (simp only: CreateRecord_def Let_def if_True)
  then show thesis using refused True by blast
next
  case False
  then obtain d1 where d1: "insert_record row d = Inr d1"
    using assms by (cases "insert_record row d") (simp_all add: CreateRecord_def)
  with False assms obtain r where r: "getOrCreateParentRecordKey d1 key = Some r"
    by (cases "getOrCreateParentRecordKey d1 key") (simp_all add: CreateRecord_def)
  with False d1 assms obtain p d2 where p: "r = Inr (p, d2)" by (cases r) (auto simp: CreateRecord_def)
  let ?u = "upsert_key key (map_option rk_id p) (r_id row) (r_createdAt row) (onUpdate \<noteq> Some ''retain'') d2"
  obtain b' d3 where u: "?u = Inr (b', d3)" using False d1 r p assms by (cases ?u) (auto simp: CreateRecord_def)
  have "b' = b \<and> d' = (if b' then clean_old (find_key d key) (r_id row) d3 else d3)"
    using assms False unfolding CreateRecord_def Let_def d1 sum.case r p bind.bind_lunit prod.case u
    by (cases b') simp_all
  then show thesis using written[OF False d1, of p d2 d3] r p u by simp
qed

lemma written_ok:
  assumes "db_ok d" "insert_record row d = Inr d1" "getOrCreateParentRecordKey d1 key = Some (Inr (p, d2))"
    "upsert_key key pid (r_id row) t c d2 = Inr (b, d3)"
  shows "db_ok d3"
proof -
  have d1: "db_ok d1" "r_id row \<in> r_id ` set (records d1)" using insert_record_ok[OF assms(1,2)] by auto
  then have d2: "db_ok d2" "records d2 = records d1" using parent_key_ok[OF assms(3)] by (auto simp: extends_keys_def)
  show ?thesis using upsert_key_ok[OF d2(1) _ assms(4)] d1(2) d2(2) by simp
qed

lemma CreateRecord_ok:
  assumes "db_ok d" "CreateRecord d row key onUpdate = Some (Inr (b, d'))"
  shows "db_ok d'"
  using assms(2)
proof (cases rule: CreateRecord_cases)
  case refused
  then show ?thesis using assms(1) by simp
next
  case (written d1 d2 d3 parentRK)
  have "db_ok d3" using written_ok[OF assms(1) written(2-4)] .
  then show ?thesis using written(5) clean_old_ok by simp
qed

text \<open>The states the repository's writes reach from an empty database, in any order.\<close>

inductive reachable :: "db \<Rightarrow> bool" where
  init: "reachable empty_db"
| create_log: "reachable d \<Longrightarrow> reachable (CreateCommitLog d now i ip doc prf owner)"
| create_entity: "reachable d \<Longrightarrow> CreateEntity d ccid alias dmn i t = Inr (b, d') \<Longrightarrow> reachable d'"
| create_record: "reachable d \<Longrightarrow> CreateRecord d row key onUpdate = Some (Inr (b, d')) \<Longrightarrow> reachable d'"
| create_association: "reachable d \<Longrightarrow> CreateAssociation d i u ow au sc v un t = Inr (b, d') \<Longrightarrow> reachable d'"
| ack: "reachable d \<Longrightarrow> processAck d i f t s c v = Inr (b, d') \<Longrightarrow> reachable d'"
| acked: "reachable d \<Longrightarrow> processAcked d i f t s c v = Inr (b, d') \<Longrightarrow> reachable d'"
| mark: "reachable d \<Longrightarrow> reachable (MarkCommitLogGcCandidate d i)"
| delete_key: "reachable d \<Longrightarrow> reachable (DeleteRecordByKey d u)"
| delete_id: "reachable d \<Longrightarrow> reachable (DeleteRecordByDocumentID d i)"
| delete_association: "reachable d \<Longrightarrow> reachable (DeleteAssociation d i)"

lemma DeleteRecordByKey_ok: "db_ok d \<Longrightarrow> db_ok (DeleteRecordByKey d u)"
  by (auto simp: DeleteRecordByKey_def intro: delete_records_ok split: option.splits)

lemma reachable_ok: "reachable d \<Longrightarrow> db_ok d"
proof (induction rule: reachable.induct)
  case (delete_id d i)
  then show ?case by (simp add: DeleteRecordByDocumentID_def delete_records_ok)
qed (blast intro: empty_db_ok CreateCommitLog_ok CreateEntity_ok CreateRecord_ok CreateAssociation_ok processAck_ok processAcked_ok
    MarkCommitLogGcCandidate_ok DeleteRecordByKey_ok DeleteAssociation_ok)+



section \<open>Newest wins\<close>

text \<open>The acknowledgement tables as ranked stores, from (from, to, schema) to (valid, document,
  createdAt).\<close>

definition ack_get :: "ack_row list \<Rightarrow> string \<times> string \<times> string \<Rightarrow> (bool \<times> string \<times> gotime) option" where
  "ack_get rows k = map_option (\<lambda>x. (a_valid x, a_id x, a_createdAt x)) (find (\<lambda>x. ack_key x = k) rows)"

fun mk_ack :: "string \<times> string \<times> string \<Rightarrow> bool \<times> string \<times> gotime \<Rightarrow> ack_row" where
  "mk_ack (f, t, s) (v, i, c) = \<lparr>a_from = f, a_to = t, a_schema = s, a_id = i, a_valid = v, a_createdAt = c\<rparr>"

definition set_ack :: "bool \<times> string \<times> gotime \<Rightarrow> ack_row \<Rightarrow> ack_row" where
  "set_ack v x = x\<lparr>a_valid := fst v, a_id := fst (snd v), a_createdAt := snd (snd v)\<rparr>"

definition ack_put :: "string \<times> string \<times> string \<Rightarrow> bool \<times> string \<times> gotime \<Rightarrow> ack_row list \<Rightarrow> ack_row list" where
  "ack_put k v rows = (if find (\<lambda>x. ack_key x = k) rows = None then rows @ [mk_ack k v]
     else upd_where (\<lambda>x. ack_key x = k) (set_ack v) rows)"

definition ack_rank :: "bool \<times> string \<times> gotime \<Rightarrow> gotime" where
  "ack_rank v = snd (snd v)"

definition ack_write :: "string \<times> string \<times> string \<Rightarrow> bool \<times> string \<times> gotime \<Rightarrow> ack_row list \<Rightarrow> ack_row list" where
  "ack_write k v rows = snd (upsert_ack (mk_ack k v) rows)"

lemma ack_sel [simp]: "ack_key (mk_ack k v) = k" "ack_key (set_ack v x) = ack_key x"
  "(a_valid (mk_ack k v), a_id (mk_ack k v), ack_rank v) = v" "a_createdAt (mk_ack k v) = ack_rank v"
  by (cases k; cases v; simp add: ack_key_def set_ack_def ack_rank_def)+

lemma ack_put_get: "ack_get (ack_put k v rows) k' = (if k' = k then Some v else ack_get rows k')"
proof (cases "find (\<lambda>x. ack_key x = k) rows")
  case None
  then show ?thesis by (auto simp: ack_get_def ack_put_def find_append split: option.splits)
next
  case (Some y)
  have "find (\<lambda>x. ack_key x = k') (upd_where (\<lambda>x. ack_key x = k) (set_ack v) rows) =
    map_option (\<lambda>x. if ack_key x = k then set_ack v x else x) (find (\<lambda>x. ack_key x = k') rows)"
    by (rule find_upd_where) simp
  then show ?thesis using Some find_SomeD
    by (cases "find (\<lambda>x. ack_key x = k') rows") (fastforce simp: ack_get_def ack_put_def set_ack_def)+
qed

lemma ack_write_cases:
  "ack_write k v rows = (case ack_get rows k of Some w \<Rightarrow> if ack_rank w < ack_rank v then ack_put k v rows else rows
     | None \<Rightarrow> ack_put k v rows)"
proof -
  have "(\<lambda>x. x\<lparr>a_valid := a_valid (mk_ack k v), a_id := a_id (mk_ack k v), a_createdAt := a_createdAt (mk_ack k v)\<rparr>) = set_ack v"
    by (cases k; cases v) (simp add: set_ack_def fun_eq_iff)
  then show ?thesis
    by (auto simp: ack_write_def upsert_ack_def ack_put_def ack_get_def ack_rank_def split: option.splits)
qed

interpretation ack_store: ranked_store ack_get ack_put ack_rank ack_write
proof unfold_locales
  fix k v rows k'
  show "ack_get (ack_put k v rows) k' = (if k' = k then Some v else ack_get rows k')" by (rule ack_put_get)
next
  fix rows k v
  assume "\<And>w. ack_get rows k = Some w \<Longrightarrow> ack_rank w < ack_rank v"
  then show "ack_get (ack_write k v rows) = ack_get (ack_put k v rows)"
    by (auto simp: ack_write_cases split: option.splits)
next
  fix rows k w v
  assume "ack_get rows k = Some w" "ack_rank v \<le> ack_rank w"
  then show "ack_get (ack_write k v rows) = ack_get rows" by (simp add: ack_write_cases)
qed

text \<open>A run of acknowledgement writes, and what two servers holding different documents for the same
  acknowledgements share of each.\<close>

definition ack_run :: "ack_row list \<Rightarrow> ack_row list" where
  "ack_run as = fold (\<lambda>a rows. snd (upsert_ack a rows)) as []"

definition ack_state :: "ack_row \<Rightarrow> (string \<times> string \<times> string) \<times> gotime \<times> bool" where
  "ack_state a = (ack_key a, a_createdAt a, a_valid a)"

definition ack_row_pair :: "ack_row \<Rightarrow> (string \<times> string \<times> string) \<times> bool \<times> string \<times> gotime" where
  "ack_row_pair a = (ack_key a, a_valid a, a_id a, a_createdAt a)"

lemma mk_ack_row: "mk_ack (ack_key a) (a_valid a, a_id a, a_createdAt a) = a"
  by (simp add: ack_key_def)

lemma ack_run_fold: "ack_run as = fold (\<lambda>(k, v). ack_write k v) (map ack_row_pair as) []"
  unfolding ack_run_def ack_write_def by (simp add: fold_map comp_def ack_row_pair_def mk_ack_row)

lemma ack_run_newest:
  assumes "find (\<lambda>x. ack_key x = k) (ack_run as) = Some x"
  shows "(\<exists>a\<in>set as. ack_state a = (k, a_createdAt x, a_valid x)) \<and> (\<forall>a\<in>set as. ack_key a = k \<longrightarrow> a_createdAt a \<le> a_createdAt x)"
proof -
  have "ack_get (fold (\<lambda>(k, v). ack_write k v) (map ack_row_pair as) []) k = Some (a_valid x, a_id x, a_createdAt x)"
    using assms by (simp add: ack_get_def ack_run_fold)
  note r = ack_store.fold_upsert_rank[OF this]
  from r have "(k, a_valid x, a_id x, a_createdAt x) \<in> ack_row_pair ` set as" by (simp add: ack_get_def)
  then have "\<exists>a\<in>set as. ack_state a = (k, a_createdAt x, a_valid x)" by (auto simp: ack_row_pair_def ack_state_def)
  moreover have "a_createdAt a \<le> a_createdAt x" if "a \<in> set as" "ack_key a = k" for a
  proof -
    have "(k, a_valid a, a_id a, a_createdAt a) \<in> ack_row_pair ` set as"
      using that by (intro image_eqI[of _ _ a]) (simp_all add: ack_row_pair_def)
    with r show ?thesis by (simp add: ack_rank_def)
  qed
  ultimately show ?thesis by blast
qed

lemma ack_run_None: "find (\<lambda>x. ack_key x = k) (ack_run as) = None \<longleftrightarrow> k \<notin> ack_key ` set as"
proof -
  have "ack_get (ack_run as) k = None \<longleftrightarrow> k \<notin> ack_key ` set as"
    unfolding ack_run_fold ack_store.fold_upsert_None by (auto simp: ack_get_def ack_row_pair_def image_iff)
  then show ?thesis by (simp add: ack_get_def)
qed



end
