(* ===== verification/Keyed_Store.thy ===== *)
theory Keyed_Store
  imports Record_Store
begin

text \<open>
  What the tables of the record repository stand for: a map from keys to documents in which
  the newest document wins. Shown here: the repository's writes refine the operations of that
  map, and creating a record ends, on every composed key.
\<close>

section \<open>The keyed store\<close>

text \<open>What the tables stand for: a map from keys to the document stored there and its creation
  time. The abstract write keeps the newer of two documents.\<close>

definition kv :: "db \<Rightarrow> string \<Rightarrow> (string \<times> gotime option) option" where
  "kv d u = Option.bind (find_key d u) (\<lambda>k. map_option (\<lambda>i. (i, rk_createdAt k)) (rk_record k))"

definition accepts :: "(string \<Rightarrow> (string \<times> gotime option) option) \<Rightarrow> string \<Rightarrow> gotime \<Rightarrow> bool" where
  "accepts m u t = (case m u of Some (_, Some t') \<Rightarrow> t' < t | _ \<Rightarrow> True)"

definition put_newer :: "string \<Rightarrow> string \<Rightarrow> gotime \<Rightarrow> (string \<Rightarrow> (string \<times> gotime option) option) \<Rightarrow> string \<Rightarrow> (string \<times> gotime option) option" where
  "put_newer u i t m = (if accepts m u t then m(u \<mapsto> (i, Some t)) else m)"

lemma key_refuses_kv: "key_refuses (find_key d u) t \<longleftrightarrow> \<not> accepts (kv d) u t"
  by (auto simp: key_refuses_def accepts_def kv_def split: option.splits)

lemma kv_cong: "record_keys d = record_keys d' \<Longrightarrow> kv d = kv d'"
  by (simp add: kv_def find_key_def fun_eq_iff)

text \<open>Added placeholders stand for nothing.\<close>

lemma find_key_extends:
  assumes "extends_keys d d'"
  shows "find_key d' u = (case find_key d u of Some k \<Rightarrow> Some k | None \<Rightarrow> find_key d' u)"
    "find_key d u = None \<Longrightarrow> find_key d' u = Some k \<Longrightarrow> rk_record k = None"
proof -
  obtain ks where ks: "record_keys d' = record_keys d @ ks" "\<forall>k\<in>set ks. rk_record k = None"
    using assms by (auto simp: extends_keys_def)
  show "find_key d' u = (case find_key d u of Some k \<Rightarrow> Some k | None \<Rightarrow> find_key d' u)"
    using ks(1) by (simp add: find_key_def find_append split: option.splits)
  assume "find_key d u = None" "find_key d' u = Some k"
  then have "find (\<lambda>k. rk_uri k = u) ks = Some k" using ks(1) by (simp add: find_key_def find_append)
  from find_SomeD[OF this] show "rk_record k = None" using ks(2) by blast
qed

lemma kv_extends: "extends_keys d d' \<Longrightarrow> kv d' = kv d"
proof
  fix u assume e: "extends_keys d d'"
  show "kv d' u = kv d u"
  proof (cases "find_key d u")
    case None
    then show ?thesis using find_key_extends(2)[OF e None] by (cases "find_key d' u") (simp_all add: kv_def)
  next
    case (Some k)
    then show ?thesis using find_key_extends(1)[OF e, of u] by (simp add: kv_def)
  qed
qed

lemma kv_insert:
  assumes "find_key d (rk_uri k) = None"
  shows "kv (snd (insert_key k d)) = (kv d)(rk_uri k := map_option (\<lambda>i. (i, rk_createdAt k)) (rk_record k))"
  using assms by (auto simp: kv_def find_key_def find_append fun_eq_iff split: option.splits)

lemma kv_repoint:
  assumes "find_key d u = Some old" "\<And>k. rk_uri (h k) = rk_uri k" "\<And>k. rk_record (h k) = Some i" "\<And>k. rk_createdAt (h k) = Some t"
  shows "kv (d\<lparr>record_keys := upd_where (\<lambda>k. rk_uri k = u) h (record_keys d)\<rparr>) = (kv d)(u \<mapsto> (i, Some t))"
proof
  fix v
  have "find_key (d\<lparr>record_keys := upd_where (\<lambda>k. rk_uri k = u) h (record_keys d)\<rparr>) v =
      map_option (\<lambda>x. if rk_uri x = u then h x else x) (find_key d v)"
    using find_upd_where[of "\<lambda>k. rk_uri k = u" "\<lambda>k. rk_uri k = v" h "record_keys d"] assms(2) by (simp add: find_key_def)
  then show "kv (d\<lparr>record_keys := upd_where (\<lambda>k. rk_uri k = u) h (record_keys d)\<rparr>) v = ((kv d)(u \<mapsto> (i, Some t))) v"
    using assms find_SomeD[of "\<lambda>k. rk_uri k = v" "record_keys d"]
    by (cases "find_key d v") (auto simp: kv_def find_key_def)
qed

lemma kv_upsert_key:
  assumes "upsert_key u pid i t c d = Inr (b, d')"
  shows "b = accepts (kv d) u t \<and> kv d' = put_newer u i t (kv d)"
proof (cases "find_key d u")
  case None
  then have "b" "kv d' = (kv d)(u \<mapsto> (i, Some t))"
    using assms kv_insert[of d "\<lparr>rk_id = 0, rk_parent = pid, rk_uri = u, rk_record = Some i, rk_createdAt = Some t, rk_clean = c\<rparr>"]
    by (auto simp: upsert_key_def split: if_splits)
  moreover have "kv d u = None" using None by (simp add: kv_def)
  ultimately show ?thesis by (simp add: put_newer_def accepts_def)
next
  case (Some old)
  have a: "accepts (kv d) u t \<longleftrightarrow> rk_record old = None \<or> rk_createdAt old = None \<or> the (rk_createdAt old) < t"
    using Some by (auto simp: accepts_def kv_def split: option.splits)
  show ?thesis using assms Some a unfolding put_newer_def
    by (auto simp: upsert_key_def kv_repoint split: if_splits)
qed

text \<open>Deleting a record empties exactly the keys that pointed to it.\<close>

lemma kv_delete_records:
  assumes "db_ok d"
  shows "kv (delete_records P d) u = (case kv d u of Some (i, t) \<Rightarrow> if P i then None else Some (i, t) | None \<Rightarrow> None)"
proof -
  have dist: "distinct (map rk_uri (record_keys d))" using assms by (simp add: db_ok_def keys_ok_def)
  show ?thesis unfolding kv_def find_key_def delete_records_rows find_filter_distinct[OF dist]
    by (auto split: option.splits)
qed

lemma kv_inj:
  assumes "db_ok d" "kv d u = Some (i, s)" "kv d v = Some (i, t)"
  shows "u = v"
proof -
  obtain k l where "k \<in> set (record_keys d)" "rk_uri k = u" "rk_record k = Some i"
      "l \<in> set (record_keys d)" "rk_uri l = v" "rk_record l = Some i"
    using assms(2,3) by (auto simp: kv_def find_key_def bind_eq_Some_conv dest!: find_SomeD)
  then show ?thesis using assms(1) unfolding db_ok_def keys_ok_def by (metis option.distinct(1))
qed

lemma kv_mark [simp]: "kv (MarkCommitLogGcCandidate d i) = kv d"
  by (rule kv_cong) simp

lemma kv_clean_old:
  assumes "db_ok d" "db_ok d3" "kv d3 = (kv d)(u \<mapsto> (i, t))"
  shows "kv (clean_old (find_key d u) i d3) = kv d3"
proof -
  have "kv (DeleteRecordByDocumentID (MarkCommitLogGcCandidate d3 j) j) = kv d3" if "kv d u = Some (j, s)" "j \<noteq> i" for j s
  proof
    fix v
    have "kv d3 v \<noteq> Some (j, r)" for r using kv_inj[OF assms(1) that(1), of v] that(2) assms(3) by auto
    then show "kv (DeleteRecordByDocumentID (MarkCommitLogGcCandidate d3 j) j) v = kv d3 v"
      using kv_delete_records[OF MarkCommitLogGcCandidate_ok[OF assms(2)]]
      by (auto simp: DeleteRecordByDocumentID_def split: option.splits)
  qed
  then show ?thesis by (cases "find_key d u") (auto simp: clean_old_def kv_def split: option.splits)
qed

lemma CreateRecord_kv:
  assumes "db_ok d" "CreateRecord d row key onUpdate = Some (Inr (b, d'))"
  shows "b = accepts (kv d) key (r_createdAt row) \<and> kv d' = put_newer key (r_id row) (r_createdAt row) (kv d)"
  using assms(2)
proof (cases rule: CreateRecord_cases)
  case refused
  then show ?thesis by (simp add: key_refuses_kv put_newer_def)
next
  case (written d1 d2 d3 parentRK)
  have ok1: "db_ok d1" using insert_record_ok[OF assms(1) written(2)] by simp
  have kv1: "kv d1 = kv d" using written(2) by (intro kv_cong) (auto simp: insert_record_def split: if_splits)
  have kv2: "kv d2 = kv d" using parent_key_ok[OF written(3)] ok1 kv1 kv_extends by auto
  have acc: "accepts (kv d) key (r_createdAt row)" using written(1) by (simp add: key_refuses_kv)
  have k3: "b" "kv d3 = (kv d)(key \<mapsto> (r_id row, Some (r_createdAt row)))"
    using kv_upsert_key[OF written(4)] kv2 acc by (auto simp: put_newer_def)
  moreover have "db_ok d3" using written_ok[OF assms(1) written(2-4)] .
  ultimately show ?thesis using kv_clean_old[OF assms(1) _ k3(2)] written(5) acc by (simp add: put_newer_def)
qed

lemma DeleteRecordByKey_kv:
  assumes "db_ok d"
  shows "kv (DeleteRecordByKey d u) = (kv d)(u := None)"
proof (cases "Option.bind (find_key d u) rk_record")
  case None
  then have "kv d u = None" by (cases "find_key d u") (auto simp: kv_def)
  then show ?thesis using None by (auto simp: DeleteRecordByKey_def)
next
  case (Some i)
  then obtain s where "kv d u = Some (i, s)" by (cases "find_key d u") (auto simp: kv_def)
  then show ?thesis using Some kv_inj[OF assms] kv_delete_records[OF assms, of "\<lambda>j. j = i"]
    by (auto simp: DeleteRecordByKey_def fun_eq_iff split: option.splits)
qed

section \<open>Creating a record ends\<close>

text \<open>The keys the protocol composes: an owner and path segments of unreserved characters.\<close>

definition key_ok :: "string \<Rightarrow> string list \<Rightarrow> bool" where
  "key_ok own ss \<longleftrightarrow> safe own \<and> own \<noteq> [] \<and> list_all seg_ok ss"

abbreviation cckv_uri :: "string \<Rightarrow> string list \<Rightarrow> string" where
  "cckv_uri \<equiv> mk_uri ''cckv''"

lemma key_ok_butlast: "key_ok own ss \<Longrightarrow> key_ok own (butlast ss)"
  by (auto simp: key_ok_def list_all_iff dest: in_set_butlastD)

lemma JoinPath_key: "key_ok own ss \<Longrightarrow> JoinPath (cckv_uri own ss) ''..'' = Some (cckv_uri own (butlast ss))"
  by (rule JoinPath_parent) (simp_all add: key_ok_def)

lemma url_parse_key: "key_ok own ss \<Longrightarrow> \<exists>u. url_parse (cckv_uri own ss) = Some u \<and> u_path u = ''/'' @ join_with ''/'' ss"
  using url_parse_plain[of "''cckv''" "''/'' @ join_with ''/'' ss" own]
  by (simp add: key_ok_def mk_uri_def path_ok_def safe_path_join)

lemma join_with_Nil_iff: "list_all seg_ok ss \<Longrightarrow> join_with ''/'' ss = [] \<longleftrightarrow> ss = []"
  by (induction "''/''" ss rule: join_with.induct) (auto simp: seg_ok_def)

lemma parent_key_total:
  "key_ok own ss \<Longrightarrow> \<exists>p d'. getOrCreateParentRecordKey d (cckv_uri own ss) = Some (Inr (p, d'))"
proof (induction "length ss" arbitrary: ss rule: less_induct)
  case less
  note ok = less.prems key_ok_butlast[OF less.prems]
  obtain u where u: "url_parse (cckv_uri own (butlast ss)) = Some u" "u_path u = ''/'' @ join_with ''/'' (butlast ss)"
    using url_parse_key[OF ok(2)] by blast
  show ?case
  proof (cases "butlast ss = []")
    case True
    then show ?thesis using u JoinPath_key[OF ok(1)] by (subst getOrCreateParentRecordKey.simps) simp
  next
    case False
    then have "length (butlast ss) < length ss" by (cases ss) auto
    from less.hyps[OF this ok(2)] obtain p d1
      where IH: "getOrCreateParentRecordKey d (cckv_uri own (butlast ss)) = Some (Inr (p, d1))" by blast
    have "join_with ''/'' (butlast ss) \<noteq> []" using False ok(2) by (simp add: join_with_Nil_iff key_ok_def)
    then show ?thesis using u JoinPath_key[OF ok(1)] IH
      by (subst getOrCreateParentRecordKey.simps)
        (cases "find_key d (cckv_uri own (butlast ss))"; cases "find_key d1 (cckv_uri own (butlast ss))"; simp add: insert_key_def Let_def)
  qed
qed

lemma upsert_key_total:
  assumes "\<And>k. k \<in> set (record_keys d) \<Longrightarrow> rk_record k = Some i \<Longrightarrow> rk_uri k = u"
  shows "\<exists>b d'. upsert_key u pid i t c d = Inr (b, d')"
proof -
  have "\<not> (\<exists>k\<in>set (record_keys d). rk_record k = Some i \<and> rk_uri k \<noteq> u)" using assms by blast
  then show ?thesis unfolding upsert_key_def by (auto split: option.splits)
qed

lemma CreateRecord_total:
  assumes "db_ok d" "key_ok own ss" "has_log d (r_id row)"
    and free: "\<And>u t. kv d u = Some (r_id row, t) \<Longrightarrow> u = cckv_uri own ss"
  shows "\<exists>b d'. CreateRecord d row (cckv_uri own ss) onUpdate = Some (Inr (b, d'))"
proof (cases "key_refuses (find_key d (cckv_uri own ss)) (r_createdAt row)")
  case True
  then show ?thesis by (auto simp: CreateRecord_def)
next
  case False
  obtain d1 where d1: "insert_record row d = Inr d1" "record_keys d1 = record_keys d"
    using assms(3) by (cases "r_id row \<in> r_id ` set (records d)") (simp_all add: insert_record_def)
  obtain p d2 where d2: "getOrCreateParentRecordKey d1 (cckv_uri own ss) = Some (Inr (p, d2))"
    using parent_key_total[OF assms(2)] by blast
  have ok1: "db_ok d1" using insert_record_ok[OF assms(1) d1(1)] by simp
  have ok2: "db_ok d2" "extends_keys d1 d2" using parent_key_ok[OF d2] ok1 by auto
  have kv2: "kv d2 = kv d" using kv_extends[OF ok2(2)] kv_cong[OF d1(2)] by simp
  have "rk_uri k = cckv_uri own ss" if "k \<in> set (record_keys d2)" "rk_record k = Some (r_id row)" for k
  proof -
    have "distinct (map rk_uri (record_keys d2))" using ok2(1) by (simp add: db_ok_def keys_ok_def)
    from find_distinct_iff[OF this, of "rk_uri k" k] have "kv d2 (rk_uri k) = Some (r_id row, rk_createdAt k)"
      using that by (simp add: kv_def find_key_def)
    then show ?thesis using free kv2 by simp
  qed
  then obtain b d3 where "upsert_key (cckv_uri own ss) (map_option rk_id p) (r_id row) (r_createdAt row) (onUpdate \<noteq> Some ''retain'') d2 = Inr (b, d3)"
    using upsert_key_total by blast
  then show ?thesis using False d1 d2 by (cases b) (auto simp: CreateRecord_def)
qed

text \<open>A database with one record, for the examples.\<close>

definition demo_db :: db where
  "demo_db = empty_db\<lparr>commit_logs := [\<lparr>cl_id = ''c1'', cl_ip = [], cl_document = ''{}'', cl_proof = Proof ''t'' None None None None None,
        cl_owner = ''con1'', cl_gc = False, cl_cdate = 5\<rparr>],
      records := [\<lparr>r_id = ''c1'', r_owner = ''con1'', r_author = ''con1'', r_redirect = None, r_schema = [], r_policies = None,
        r_distributions = [], r_createdAt = 5\<rparr>],
      record_keys := [\<lparr>rk_id = 0, rk_parent = None, rk_uri = ''cckv://con1/a'', rk_record = Some ''c1'', rk_createdAt = Some 5, rk_clean = True\<rparr>]\<rparr>"

lemma demo_db_ok: "db_ok demo_db"
  by (simp add: ok_defs demo_db_def empty_db_def has_log_def)





end
