(* ===== verification/Record_Read.thy ===== *)
theory Record_Read
  imports Keyed_Store
begin

text \<open>
  The reading side of \<^verbatim>\<open>src/internal/infra/repository/postgres/record.go\<close>: signed documents by URI, the
  policies along a key's hierarchy, listings by prefix, parent, subtree and key order, the
  acknowledgement and association queries and the commit log. SQL's \<^verbatim>\<open>LIKE\<close> is written out on
  bytes; \<^verbatim>\<open>ORDER BY\<close> and \<^verbatim>\<open>LIMIT\<close> are a sort by the listed columns and a prefix.

  Shown here: a subtree query returns exactly the records at or under a key, whatever
  characters the key has; the hierarchy of a composed key is its chain of ancestors, root
  first, and the climb ends; what was stored under a key is what is read back.
\<close>

section \<open>Patterns and ordering\<close>

fun like :: "string \<Rightarrow> string \<Rightarrow> bool" where
  "like [] s = (s = [])"
| "like (p # ps) s =
     (if p = CHR ''%'' then like ps s \<or> (case s of [] \<Rightarrow> False | c # cs \<Rightarrow> like (p # ps) cs)
      else if p = CHR ''_'' then (case s of [] \<Rightarrow> False | c # cs \<Rightarrow> like ps cs)
      else if p = CHR 0x5C then (case ps of [] \<Rightarrow> False
        | q # qs \<Rightarrow> (case s of [] \<Rightarrow> False | c # cs \<Rightarrow> c = q \<and> like qs cs))
      else (case s of [] \<Rightarrow> False | c # cs \<Rightarrow> c = p \<and> like ps cs))"

definition likeEscaper :: "string \<Rightarrow> string" where
  "likeEscaper s = concat (map (\<lambda>c. if c = CHR 0x5C \<or> c = CHR ''%'' \<or> c = CHR ''_'' then [CHR 0x5C, c] else [c]) s)"

definition order_limit :: "('a \<Rightarrow> 'k::linorder) \<Rightarrow> string \<Rightarrow> int \<Rightarrow> 'a list \<Rightarrow> 'a list" where
  "order_limit k order limit rows = (let s = sort_key k rows; s' = (if order = ''desc'' then rev s else s)
     in if limit > 0 then take (nat limit) s' else s')"

text \<open>An optional filter: the empty string selects everything.\<close>

definition matches_filter :: "string \<Rightarrow> string \<Rightarrow> bool" where
  "matches_filter wanted x \<longleftrightarrow> wanted = [] \<or> x = wanted"

definition in_window :: "'t::linorder option \<Rightarrow> 't option \<Rightarrow> 't \<Rightarrow> bool" where
  "in_window since until t \<longleftrightarrow> (case since of None \<Rightarrow> True | Some s \<Rightarrow> s \<le> t) \<and> (case until of None \<Rightarrow> True | Some u \<Rightarrow> t \<le> u)"

record query_row =
  q_row :: signed_document
  q_createdAt :: gotime

text \<open>The signed document of a stored commit, with the identifiers it is returned under.\<close>

definition log_document :: "db \<Rightarrow> string option \<Rightarrow> string option \<Rightarrow> string \<Rightarrow> signed_document db_result" where
  "log_document d cckv ccfs i = (case find_log d i of None \<Rightarrow> Inl (EOther ''proof'')
     | Some c \<Rightarrow> Inr (SignedDocument cckv ccfs (cl_document c) (cl_proof c) [] None))"

section \<open>Documents by URI\<close>

definition GetSignedDocument :: "db \<Rightarrow> string \<Rightarrow> signed_document db_result" where
  "GetSignedDocument d uri = (case ParseCCURI uri of Inl e \<Rightarrow> Inl (EOther ''uri'')
   | Inr parsed \<Rightarrow>
     if cu_scheme parsed = ''cckv'' then
       (case find_key d uri of None \<Rightarrow> Inl (ENotFound uri [] [])
        | Some rk \<Rightarrow> (case rk_record rk of None \<Rightarrow> Inl (ENotFound uri [] [])
           | Some i \<Rightarrow> log_document d (Some uri) (Some (ComposeCCFSURI (cu_owner parsed) CCFSTypeConcrnt i)) i))
     else if cu_scheme parsed = ''ccfs'' then
       (if cu_type parsed \<noteq> CCFSTypeConcrnt then Inl (ENotFound uri [] [])
        else case find_log d (cu_cdid parsed) of None \<Rightarrow> Inl (ENotFound uri [] [])
        | Some c \<Rightarrow> log_document d
            (map_option rk_uri (find (\<lambda>k. rk_record k = Some (cl_id c)) (record_keys d))) (Some uri) (cl_id c))
     else Inl (EOther ''unsupported uri scheme''))"

definition GetDistributions :: "db \<Rightarrow> string \<Rightarrow> string list db_result" where
  "GetDistributions d uri = (case ParseCCURI uri of Inl e \<Rightarrow> Inl (EOther ''uri'')
   | Inr parsed \<Rightarrow>
     if cu_scheme parsed = ''cckv'' then
       (case find_key d uri of None \<Rightarrow> Inl (ENotFound uri [] [])
        | Some rk \<Rightarrow> Inr (case Option.bind (rk_record rk) (find_record d) of None \<Rightarrow> [] | Some r \<Rightarrow> r_distributions r))
     else if cu_scheme parsed = ''ccfs'' then
       (if cu_type parsed \<noteq> CCFSTypeConcrnt then Inl (ENotFound uri [] [])
        else case find_record d (cu_cdid parsed) of None \<Rightarrow> Inl (ENotFound uri [] []) | Some r \<Rightarrow> Inr (r_distributions r))
     else Inl (EOther ''unsupported uri scheme''))"

definition GetTimelineRemoval :: "db \<Rightarrow> string \<Rightarrow> (string \<times> string) db_result" where
  "GetTimelineRemoval d keyURI = (case find_key d keyURI of None \<Rightarrow> Inl (ENotFound keyURI [] [])
   | Some rk \<Rightarrow> (case (rk_parent rk, rk_createdAt rk) of
       (Some p, Some _) \<Rightarrow> (case find (\<lambda>k. rk_id k = p) (record_keys d) of None \<Rightarrow> Inl (EOther ''parent'')
         | Some parent \<Rightarrow> Inr (rk_uri parent,
             (case Option.bind (Option.bind (rk_record rk) (find_record d)) r_redirect of None \<Rightarrow> rk_uri rk | Some x \<Rightarrow> x)))
     | _ \<Rightarrow> Inr ([], [])))"

section \<open>Hierarchical policies\<close>

partial_function (option) climb :: "string \<Rightarrow> string list \<Rightarrow> (domain_error, string list) result option" where
  "climb currentURI hierarchy = (case JoinPath currentURI ''..'' of None \<Rightarrow> Some (Inl (EOther ''join path''))
     | Some parentURI \<Rightarrow> if parentURI = currentURI then Some (Inr (currentURI # hierarchy))
         else climb parentURI (currentURI # hierarchy))"

text \<open>The layer of one level: present when its record declares a policy or distributes.\<close>

definition level_policy :: "db \<Rightarrow> string \<Rightarrow> policy_ref list" where
  "level_policy d uri = (case Option.bind (Option.bind (find_key d uri) rk_record) (find_record d) of None \<Rightarrow> []
     | Some r \<Rightarrow> if r_policies r = None \<and> r_distributions r = [] then []
         else [(case r_policies r of Some p \<Rightarrow> p | None \<Rightarrow> \<lparr>pr_entries = [], pr_virtualParents = None, pr_source = []\<rparr>)
                \<lparr>pr_source := uri, pr_virtualParents := Some (r_distributions r)\<rparr>])"

definition hierarchy_root :: "db \<Rightarrow> string \<Rightarrow> string db_result" where
  "hierarchy_root d uri = (case ParseCCURI uri of Inl e \<Rightarrow> Inl (EOther ''uri'')
   | Inr parsed \<Rightarrow> if cu_scheme parsed = ''ccfs'' then
       (if cu_type parsed \<noteq> CCFSTypeConcrnt then Inl (ENotFound uri [] [])
        else case find (\<lambda>k. rk_record k = Some (cu_cdid parsed)) (record_keys d) of
          Some k \<Rightarrow> if find_record d (cu_cdid parsed) = None then Inl (ENotFound uri [] []) else Inr (rk_uri k)
        | None \<Rightarrow> Inl (ENotFound uri [] []))
     else Inr uri)"

definition GetHierarchicalRecordPolicies :: "db \<Rightarrow> string \<Rightarrow> policy_ref list db_result option" where
  "GetHierarchicalRecordPolicies d uri = (case hierarchy_root d uri of Inl e \<Rightarrow> Some (Inl e)
   | Inr cckv \<Rightarrow> map_option (map_sum id (\<lambda>hierarchy. concat (map (level_policy d) hierarchy))) (climb cckv []))"

section \<open>Listings\<close>

definition key_rows :: "db \<Rightarrow> (record_key \<times> record_row) list" where
  "key_rows d = List.map_filter (\<lambda>k. map_option (Pair k) (Option.bind (rk_record k) (find_record d))) (record_keys d)"

definition recordKeysToQueryRows :: "db \<Rightarrow> record_key list \<Rightarrow> query_row list db_result" where
  "recordKeysToQueryRows d rks = rmap_list (\<lambda>rk. (case rk_record rk of
     None \<Rightarrow> Inr \<lparr>q_row = SignedDocument (Some (rk_uri rk)) None [] (Proof [] None None None None None) [] None, q_createdAt = zero_time\<rparr>
   | Some i \<Rightarrow> (case find_record d i of None \<Rightarrow> Inl (EOther ''proof'') | Some r \<Rightarrow> map_sum id (\<lambda>sd. \<lparr>q_row = sd, q_createdAt = r_createdAt r\<rparr>)
       (log_document d (Some (rk_uri rk)) (Some (ComposeCCFSURI (r_owner r) CCFSTypeConcrnt (r_id r))) (r_id r))))) rks"

definition record_filters :: "string \<Rightarrow> string \<Rightarrow> gotime option \<Rightarrow> gotime option \<Rightarrow> record_row \<Rightarrow> bool" where
  "record_filters schema author since until r \<longleftrightarrow> matches_filter schema (r_schema r) \<and> matches_filter author (r_author r)
     \<and> in_window since until (r_createdAt r)"

definition by_time :: "record_key \<times> record_row \<Rightarrow> gotime \<times> string" where
  "by_time kr = (r_createdAt (snd kr), r_id (snd kr))"

definition QueryByPrefix :: "db \<Rightarrow> string \<Rightarrow> string \<Rightarrow> string \<Rightarrow> gotime option \<Rightarrow> gotime option \<Rightarrow> int \<Rightarrow> string \<Rightarrow> query_row list db_result" where
  "QueryByPrefix d prfx schema author since until limit order =
     recordKeysToQueryRows d (map fst (order_limit by_time order limit
       (filter (\<lambda>(k, r). like (prfx @ ''%'') (rk_uri k) \<and> record_filters schema author since until r) (key_rows d))))"

text \<open>The children of a key; the owner's root has no row, its children are the keys without a
  parent under the owner's prefix.\<close>

definition is_child :: "db \<Rightarrow> string \<Rightarrow> ccuri \<Rightarrow> record_key \<Rightarrow> bool" where
  "is_child d parent parsed k = (if cu_key parsed = [] then
       rk_parent k = None \<and> like (likeEscaper (''cckv://'' @ cu_owner parsed) @ ''/%'') (rk_uri k)
     else rk_parent k \<noteq> None \<and> rk_parent k = map_option rk_id (find_key d parent))"

definition QueryByParent :: "db \<Rightarrow> string \<Rightarrow> string \<Rightarrow> string \<Rightarrow> gotime option \<Rightarrow> gotime option \<Rightarrow> int \<Rightarrow> string \<Rightarrow> query_row list db_result" where
  "QueryByParent d parent schema author since until limit order = (case ParseCCURI parent of Inl e \<Rightarrow> Inl (EOther ''uri'')
   | Inr parsed \<Rightarrow> recordKeysToQueryRows d (map fst (order_limit by_time order limit
       (filter (\<lambda>(k, r). is_child d parent parsed k \<and> record_filters schema author since until r) (key_rows d)))))"

definition QueryByParentOrderByKey :: "db \<Rightarrow> string \<Rightarrow> string \<Rightarrow> string \<Rightarrow> string option \<Rightarrow> string option \<Rightarrow> int \<Rightarrow> string \<Rightarrow> query_row list db_result" where
  "QueryByParentOrderByKey d parent schema author since until limit order = (case ParseCCURI parent of Inl e \<Rightarrow> Inl (EOther ''uri'')
   | Inr parsed \<Rightarrow> recordKeysToQueryRows d (order_limit rk_uri order limit
       (filter (\<lambda>k. is_child d parent parsed k \<and> in_window since until (rk_uri k)
          \<and> (case Option.bind (rk_record k) (find_record d) of None \<Rightarrow> schema = [] \<and> author = []
             | Some r \<Rightarrow> matches_filter schema (r_schema r) \<and> matches_filter author (r_author r))) (record_keys d))))"

definition QueryRecordSubtree :: "db \<Rightarrow> string \<Rightarrow> bool \<Rightarrow> signed_document list db_result" where
  "QueryRecordSubtree d base includeSelf = (let subtreePattern = likeEscaper base @ ''/%'' in
     rmap_list (\<lambda>(k, r). log_document d (Some (rk_uri k)) (Some (ComposeCCFSURI (r_owner r) CCFSTypeConcrnt (r_id r))) (r_id r))
       (order_limit (\<lambda>(k, r). rk_uri k) ''asc'' 0
         (filter (\<lambda>(k, r). includeSelf \<and> rk_uri k = base \<or> like subtreePattern (rk_uri k)) (key_rows d))))"

section \<open>Associations, acknowledgements and the commit log\<close>

definition targets :: "db \<Rightarrow> string \<Rightarrow> association \<Rightarrow> bool" where
  "targets d targetURI a \<longleftrightarrow> (\<exists>k\<in>set (record_keys d). rk_id k = as_target a \<and> rk_uri k = targetURI)"

definition GetAssociatedRecords :: "db \<Rightarrow> string \<Rightarrow> string \<Rightarrow> string \<Rightarrow> string \<Rightarrow> gotime option \<Rightarrow> gotime option \<Rightarrow> int \<Rightarrow> string
    \<Rightarrow> query_row list db_result" where
  "GetAssociatedRecords d targetURI schema variant author since until limit order =
     rmap_list (\<lambda>a. map_sum id (\<lambda>sd. \<lparr>q_row = sd, q_createdAt = as_createdAt a\<rparr>)
         (log_document d None (Some (ComposeCCFSURI (as_owner a) CCFSTypeConcrnt (as_id a))) (as_id a)))
       (order_limit (\<lambda>a. (as_createdAt a, as_id a)) order limit
         (filter (\<lambda>a. targets d targetURI a \<and> matches_filter schema (as_schema a)
            \<and> (variant = [] \<or> as_variant a = Some variant) \<and> matches_filter author (as_author a)
            \<and> in_window since until (as_createdAt a)) (associations d)))"

definition count_by :: "('a \<Rightarrow> 'k) \<Rightarrow> 'a list \<Rightarrow> ('k, int) gmap" where
  "count_by f xs = map (\<lambda>k. (k, int (length (filter (\<lambda>x. f x = k) xs)))) (remdups (map f xs))"

definition GetAssociatedRecordCountsBySchema :: "db \<Rightarrow> string \<Rightarrow> (string, int) gmap" where
  "GetAssociatedRecordCountsBySchema d targetURI = count_by as_schema (filter (targets d targetURI) (associations d))"

text \<open>The row of a group is scanned into a struct whose time field has another column name than the
  selected one, so the order stays that of the zero time (\<^verbatim>\<open>time.Time{}.UnixNano()\<close>, wrapped).\<close>

definition zero_unix_nano :: int where
  "zero_unix_nano = -6795364578871345152"

definition GetAssociatedRecordCountsByVariant :: "db \<Rightarrow> string \<Rightarrow> string \<Rightarrow> (string, int \<times> int) gmap" where
  "GetAssociatedRecordCountsByVariant d targetURI schema =
     (let rows = filter (\<lambda>a. targets d targetURI a \<and> as_schema a = schema) (associations d);
          groups = sort_key (\<lambda>(v, n). Min (as_createdAt ` set (filter (\<lambda>a. as_variant a = v) rows))) (count_by as_variant rows)
      in fold (\<lambda>(v, n). gmap_set (case v of None \<Rightarrow> [] | Some s \<Rightarrow> s) (n, zero_unix_nano)) groups [])"

definition ack_rows :: "db \<Rightarrow> (ack_row \<Rightarrow> string) \<Rightarrow> gotime option \<Rightarrow> gotime option \<Rightarrow> int \<Rightarrow> string \<Rightarrow> ack_row list \<Rightarrow> query_row list db_result" where
  "ack_rows d own since until limit order rows =
     rmap_list (\<lambda>a. map_sum id (\<lambda>sd. \<lparr>q_row = sd, q_createdAt = a_createdAt a\<rparr>)
         (log_document d None (Some (ComposeCCFSURI (own a) CCFSTypeConcrnt (a_id a))) (a_id a)))
       (order_limit (\<lambda>a. (a_createdAt a, a_id a)) order limit (filter (\<lambda>a. in_window since until (a_createdAt a)) rows))"

definition getAckRecords :: "db \<Rightarrow> string \<Rightarrow> string \<Rightarrow> gotime option \<Rightarrow> gotime option \<Rightarrow> int \<Rightarrow> string \<Rightarrow> query_row list db_result" where
  "getAckRecords d frm schema since until limit order = ack_rows d a_from since until limit order
     (filter (\<lambda>a. a_from a = frm \<and> a_valid a \<and> matches_filter schema (a_schema a)) (acks d))"

definition getAckedRecords :: "db \<Rightarrow> string \<Rightarrow> string \<Rightarrow> gotime option \<Rightarrow> gotime option \<Rightarrow> int \<Rightarrow> string \<Rightarrow> query_row list db_result" where
  "getAckedRecords d to schema since until limit order = ack_rows d a_to since until limit order
     (filter (\<lambda>a. a_to a = to \<and> a_valid a \<and> matches_filter schema (a_schema a)) (ackeds d))"

definition GetAcknowledgeRecords :: "db \<Rightarrow> string \<Rightarrow> string \<Rightarrow> string \<Rightarrow> gotime option \<Rightarrow> gotime option \<Rightarrow> int \<Rightarrow> string \<Rightarrow> query_row list db_result" where
  "GetAcknowledgeRecords d frm to schema since until limit order =
     (if frm \<noteq> [] then getAckRecords d frm schema since until limit order
      else if to \<noteq> [] then getAckedRecords d to schema since until limit order
      else Inl (EOther ''either from or to must be specified''))"

definition getAckRecordCounts :: "db \<Rightarrow> string \<Rightarrow> string \<Rightarrow> (string, int) gmap" where
  "getAckRecordCounts d frm schema = count_by a_schema
     (filter (\<lambda>a. a_valid a \<and> a_from a = frm \<and> matches_filter schema (a_schema a)) (acks d))"

definition getAckedRecordCounts :: "db \<Rightarrow> string \<Rightarrow> string \<Rightarrow> (string, int) gmap" where
  "getAckedRecordCounts d to schema = count_by a_schema
     (filter (\<lambda>a. a_valid a \<and> a_to a = to \<and> matches_filter schema (a_schema a)) (ackeds d))"

definition GetAcknowledgeRecordCounts :: "db \<Rightarrow> string \<Rightarrow> string \<Rightarrow> string \<Rightarrow> (string, int) gmap db_result" where
  "GetAcknowledgeRecordCounts d frm to schema = (if frm \<noteq> [] then Inr (getAckRecordCounts d frm schema)
     else if to \<noteq> [] then Inr (getAckedRecordCounts d to schema)
     else Inl (EOther ''either from or to must be specified''))"

definition GetAllCommitLogs :: "db \<Rightarrow> string \<Rightarrow> signed_document list" where
  "GetAllCommitLogs d owner = map (\<lambda>c. bare_sd (cl_document c) (cl_proof c))
     (sort_key cl_cdate (filter (\<lambda>c. cl_owner c = owner) (commit_logs d)))"

definition QueryCommitLogs :: "db \<Rightarrow> string \<Rightarrow> gotime option \<Rightarrow> gotime option \<Rightarrow> int \<Rightarrow> string \<Rightarrow> query_row list" where
  "QueryCommitLogs d owner since until limit order =
     map (\<lambda>c. \<lparr>q_row = SignedDocument None (if cl_owner c \<noteq> [] then Some (ComposeCCFSURI (cl_owner c) CCFSTypeConcrnt (cl_id c)) else None)
              (cl_document c) (cl_proof c) [] None, q_createdAt = cl_cdate c\<rparr>)
       (order_limit (\<lambda>c. (cl_cdate c, cl_id c)) order limit
         (filter (\<lambda>c. matches_filter owner (cl_owner c) \<and> in_window since until (cl_cdate c)) (commit_logs d)))"

section \<open>Subtrees\<close>

lemma like_percent: "like ''%'' s"
  by (induction s) auto

lemma like_escaped: "like (likeEscaper b @ p) s \<longleftrightarrow> (\<exists>r. s = b @ r \<and> like p r)"
proof (induction b arbitrary: s)
  case (Cons c b)
  show ?case using Cons by (cases s) (auto simp: likeEscaper_def)
qed (simp add: likeEscaper_def)

lemma like_subtree: "like (likeEscaper base @ ''/%'') s \<longleftrightarrow> (\<exists>r. s = base @ ''/'' @ r)"
proof -
  have "like ''/%'' r \<longleftrightarrow> (\<exists>r'. r = ''/'' @ r')" for r using like_percent by (cases r) auto
  then show ?thesis by (auto simp: like_escaped)
qed

lemma set_map_filter: "y \<in> set (List.map_filter f xs) \<longleftrightarrow> (\<exists>x\<in>set xs. f x = Some y)"
  by (induction xs) (auto simp: map_filter_simps split: option.splits)

lemma key_rows_iff:
  assumes "db_ok d"
  shows "(k, r) \<in> set (key_rows d) \<longleftrightarrow> k \<in> set (record_keys d) \<and> r \<in> set (records d) \<and> rk_record k = Some (r_id r)"
proof -
  have "distinct (map r_id (records d))" using assms by (simp add: db_ok_def keys_ok_def)
  from find_distinct_iff[OF this] show ?thesis
    by (auto simp: key_rows_def find_record_def set_map_filter bind_eq_Some_conv)
qed

lemma kv_key_rows:
  assumes "db_ok d"
  shows "kv d u \<noteq> None \<longleftrightarrow> (\<exists>k r. (k, r) \<in> set (key_rows d) \<and> rk_uri k = u)"
proof -
  have k: "distinct (map rk_uri (record_keys d))" and p: "\<And>k i. k \<in> set (record_keys d) \<Longrightarrow> rk_record k = Some i \<Longrightarrow> i \<in> r_id ` set (records d)"
    using assms by (auto simp: db_ok_def keys_ok_def)
  have pk: "rk_record k \<noteq> None \<longleftrightarrow> (\<exists>r\<in>set (records d). rk_record k = Some (r_id r))" if "k \<in> set (record_keys d)" for k
    using p[OF that] by (cases "rk_record k") auto
  have f: "find_key d u = Some k \<longleftrightarrow> k \<in> set (record_keys d) \<and> rk_uri k = u" for k
    unfolding find_key_def by (rule find_distinct_iff[OF k])
  have "kv d u \<noteq> None \<longleftrightarrow> (\<exists>k. find_key d u = Some k \<and> rk_record k \<noteq> None)"
    by (cases "find_key d u") (auto simp: kv_def)
  also have "\<dots> \<longleftrightarrow> (\<exists>k\<in>set (record_keys d). rk_uri k = u \<and> rk_record k \<noteq> None)" unfolding f by blast
  also have "\<dots> \<longleftrightarrow> (\<exists>k\<in>set (record_keys d). rk_uri k = u \<and> (\<exists>r\<in>set (records d). rk_record k = Some (r_id r)))"
    using pk by blast
  also have "\<dots> \<longleftrightarrow> (\<exists>k r. (k, r) \<in> set (key_rows d) \<and> rk_uri k = u)"
    unfolding key_rows_iff[OF assms] by blast
  finally show ?thesis .
qed

lemma distinct_key_rows:
  assumes "db_ok d"
  shows "distinct (map (\<lambda>(k, r). rk_uri k) (key_rows d))"
proof -
  have "map (\<lambda>(k, r). rk_uri k) (key_rows d) = map rk_uri (filter (\<lambda>k. Option.bind (rk_record k) (find_record d) \<noteq> None) (record_keys d))"
    unfolding key_rows_def by (induction "record_keys d" arbitrary: d) (auto simp: map_filter_def split: option.splits)
  then show ?thesis using assms distinct_map_filter by (auto simp: db_ok_def keys_ok_def)
qed

lemma has_log_find: "has_log d i \<longleftrightarrow> (\<exists>c. find_log d i = Some c)"
proof -
  have "has_log d i \<longleftrightarrow> find_log d i \<noteq> None" by (auto simp: has_log_def find_log_def find_None_iff image_iff)
  then show ?thesis by simp
qed

definition row_document :: "db \<Rightarrow> record_key \<times> record_row \<Rightarrow> signed_document" where
  "row_document d kr = (let c = the (find_log d (r_id (snd kr))) in SignedDocument (Some (rk_uri (fst kr)))
     (Some (ComposeCCFSURI (r_owner (snd kr)) CCFSTypeConcrnt (r_id (snd kr)))) (cl_document c) (cl_proof c) [] None)"

lemma log_document_row:
  assumes "db_ok d" "(k, r) \<in> set (key_rows d)"
  shows "log_document d (Some (rk_uri k)) (Some (ComposeCCFSURI (r_owner r) CCFSTypeConcrnt (r_id r))) (r_id r) = Inr (row_document d (k, r))"
proof -
  have "has_log d (r_id r)" using assms key_rows_iff[OF assms(1)] by (auto simp: db_ok_def keys_ok_def)
  then show ?thesis by (auto simp: has_log_find log_document_def row_document_def)
qed

lemma set_order_limit: "limit \<le> 0 \<Longrightarrow> set (order_limit k ord limit xs) = set xs"
  by (simp add: order_limit_def Let_def)

lemma QueryRecordSubtree_rows:
  assumes "db_ok d"
  shows "QueryRecordSubtree d base inc = Inr (map (row_document d) (sort_key (\<lambda>(k, r). rk_uri k)
    (filter (\<lambda>(k, r). inc \<and> rk_uri k = base \<or> (\<exists>q. rk_uri k = base @ ''/'' @ q)) (key_rows d))))"
  unfolding QueryRecordSubtree_def Let_def like_subtree
  by (subst rmap_list_InrI[where g = "row_document d"])
    (simp_all add: order_limit_def Let_def log_document_row[OF assms] split: prod.splits)

text \<open>C31. A subtree query returns exactly the stored records at (when asked for) or under a key, each
  once and in key order, whatever characters the key has, and it cannot fail.\<close>

theorem QueryRecordSubtree_exact:
  assumes "db_ok d"
  shows "\<exists>us. map_sum id (map sd_cckv) (QueryRecordSubtree d base inc) = Inr (map Some us) \<and> sorted us \<and> distinct us
    \<and> set us = {u. kv d u \<noteq> None \<and> (inc \<and> u = base \<or> (\<exists>q. u = base @ ''/'' @ q))}"
proof (intro exI conjI)
  let ?P = "\<lambda>u. inc \<and> u = base \<or> (\<exists>q. u = base @ ''/'' @ q)"
  let ?rows = "filter (\<lambda>(k, r). ?P (rk_uri k)) (key_rows d)"
  let ?us = "map (\<lambda>(k, r). rk_uri k) (sort_key (\<lambda>(k, r). rk_uri k) ?rows)"
  show "map_sum id (map sd_cckv) (QueryRecordSubtree d base inc) = Inr (map Some ?us)"
    by (simp add: QueryRecordSubtree_rows[OF assms] row_document_def Let_def case_prod_unfold comp_def)
  have "distinct (map (\<lambda>(k, r). rk_uri k) ?rows)" using distinct_map_filter[OF distinct_key_rows[OF assms]] .
  then show "distinct ?us" by (simp add: distinct_map)
  show "sorted ?us" by (rule sorted_sort_key)
  show "set ?us = {u. kv d u \<noteq> None \<and> ?P u}"
    using kv_key_rows[OF assms] by (auto simp: image_iff; force)
qed

section \<open>Hierarchies\<close>

lemma climb_key:
  "key_ok own ss \<Longrightarrow> climb (cckv_uri own ss) hs = Some (Inr (map (\<lambda>n. cckv_uri own (take n ss)) [0..<Suc (length ss)] @ hs))"
proof (induction "length ss" arbitrary: ss hs)
  case 0
  then show ?case using JoinPath_key[of own "[]"] by (subst climb.simps) simp
next
  case (Suc n)
  obtain ts t where ss: "ss = ts @ [t]" using Suc(2) by (cases ss rule: rev_cases) auto
  then have ts: "key_ok own ts" "seg_ok t" using Suc.prems by (auto simp: key_ok_def)
  have neq: "cckv_uri own ts \<noteq> cckv_uri own ss" unfolding ss
    using ts by (cases "ts = []") (auto simp: mk_uri_def join_with_snoc seg_ok_def)
  have "climb (cckv_uri own ss) hs = climb (cckv_uri own ts) (cckv_uri own ss # hs)"
    using JoinPath_key[OF Suc.prems] neq ss by (subst climb.simps) simp
  then show ?case using Suc(1)[of ts "cckv_uri own ss # hs"] Suc(2) ts(1) ss by simp
qed

lemma ParseCCURI_key:
  assumes "key_ok own ss"
  shows "ParseCCURI (cckv_uri own ss) = Inr (zero_ccuri\<lparr>cu_scheme := ''cckv'', cu_owner := own, cu_key := join_with ''/'' ss,
     cu_hint := None, cu_raw := cckv_uri own ss\<rparr>)"
  using ParseCCURI_composed[of "''cckv''" own None "''/'' @ join_with ''/'' ss"] assms
  by (simp add: key_ok_def mk_uri_def authority_def hint_ok_def path_ok_def safe_path_join trim_prefix_def has_prefix_def)

theorem QueryRecordSubtree_exact_witness:
  "db_ok demo_db \<and> (\<exists>sds. QueryRecordSubtree demo_db ''cckv://con1'' False = Inr sds \<and> map sd_cckv sds = [Some ''cckv://con1/a''])"
proof -
  have ok: "db_ok demo_db" by (rule demo_db_ok)
  obtain us where us: "map_sum id (map sd_cckv) (QueryRecordSubtree demo_db ''cckv://con1'' False) = Inr (map Some us)"
      "distinct us" "set us = {u. kv demo_db u \<noteq> None \<and> (False \<and> u = ''cckv://con1'' \<or> (\<exists>q. u = ''cckv://con1'' @ ''/'' @ q))}"
    using QueryRecordSubtree_exact[OF ok, of "''cckv://con1''" False] by blast
  have "kv demo_db u \<noteq> None \<longleftrightarrow> u = ''cckv://con1/a''" for u by (simp add: demo_db_def kv_def find_key_def)
  with us(3) have "set us = {''cckv://con1/a''}" by auto
  with distinct_card[OF us(2)] have "length us = 1" by simp
  then obtain x where "us = [x]" by (auto simp: length_Suc_conv)
  with \<open>set us = {''cckv://con1/a''}\<close> have "us = [''cckv://con1/a'']" by simp
  with us(1) ok show ?thesis by (cases "QueryRecordSubtree demo_db ''cckv://con1'' False") auto
qed



section \<open>Storing and reading\<close>

lemma find_log_mark: "find_log (MarkCommitLogGcCandidate d j) i = map_option (\<lambda>c. if cl_id c = j then c\<lparr>cl_gc := True\<rparr> else c) (find_log d i)"
  unfolding find_log_def MarkCommitLogGcCandidate_def using find_upd_where[of "\<lambda>c. cl_id c = j" "\<lambda>c. cl_id c = i" "\<lambda>c. c\<lparr>cl_gc := True\<rparr>"]
  by simp

lemma log_document_mark [simp]: "log_document (MarkCommitLogGcCandidate d j) kv' fs i = log_document d kv' fs i"
  by (auto simp: log_document_def find_log_mark split: option.splits)

lemma log_document_cong: "commit_logs d = commit_logs d' \<Longrightarrow> log_document d = log_document d'"
  by (simp add: log_document_def find_log_def fun_eq_iff)

lemma CreateRecord_commit_logs:
  assumes "db_ok d" "CreateRecord d row key onUpdate = Some (Inr (b, d'))"
  shows "commit_logs d' = commit_logs d \<or> (\<exists>j. commit_logs d' = commit_logs (MarkCommitLogGcCandidate d j))"
  using assms(2)
proof (cases rule: CreateRecord_cases)
  case (written d1 d2 d3 parentRK)
  have ok1: "db_ok d1" using insert_record_ok[OF assms(1) written(2)] by simp
  have "commit_logs d1 = commit_logs d" using written(2) by (auto simp: insert_record_def split: if_splits)
  moreover have "commit_logs d2 = commit_logs d1" using parent_key_ok[OF written(3)] ok1 by (auto simp: extends_keys_def)
  moreover have "commit_logs d3 = commit_logs d2" using written(4) by (auto simp: upsert_key_def split: option.splits if_splits)
  ultimately have "commit_logs d3 = commit_logs d" by simp
  then show ?thesis using written(5)
    by (auto simp: clean_old_def DeleteRecordByDocumentID_def MarkCommitLogGcCandidate_def split: option.splits)
qed simp

lemma CreateRecord_log_document:
  assumes "db_ok d" "CreateRecord d row key onUpdate = Some (Inr (b, d'))"
  shows "log_document d' = log_document d" "has_log d' = has_log d"
proof -
  note c = CreateRecord_commit_logs[OF assms]
  show "log_document d' = log_document d"
    using c log_document_cong[of d' d] log_document_cong[of d' "MarkCommitLogGcCandidate d j" for j] by (auto simp: fun_eq_iff)
  show "has_log d' = has_log d" using c mark_ids unfolding has_log_def by metis
qed

lemma GetSignedDocument_key:
  assumes "key_ok own ss" "kv d (cckv_uri own ss) = Some (i, t)"
  shows "GetSignedDocument d (cckv_uri own ss) =
    log_document d (Some (cckv_uri own ss)) (Some (ComposeCCFSURI own CCFSTypeConcrnt i)) i"
  using assms(2) ParseCCURI_key[OF assms(1)]
  by (auto simp: GetSignedDocument_def zero_ccuri_def kv_def bind_eq_Some_conv)

lemma ComposeCCFSURI_text:
  assumes "safe own" "own \<noteq> []" "safe i"
  shows "ComposeCCFSURI own CCFSTypeConcrnt i = ''ccfs://'' @ own @ ''/concrnt/'' @ i"
proof -
  have "safe_path (''concrnt/'' @ i)" using unreserved_lower assms(3) safe_imp_path by simp
  from escape_path_safe[OF this] show ?thesis using assms
    by (simp add: ComposeCCFSURI_def ComposeCCURI_def url_string_def EscapedPath_def empty_url_def escape_safe has_prefix_def)
qed

lemma GetSignedDocument_hash:
  assumes "db_ok d" "safe own" "own \<noteq> []" "safe i" "i \<noteq> []" "kv d u = Some (i, t)" "has_log d i"
  shows "GetSignedDocument d (ComposeCCFSURI own CCFSTypeConcrnt i) =
    log_document d (Some u) (Some (ComposeCCFSURI own CCFSTypeConcrnt i)) i"
proof -
  let ?c = "zero_ccuri\<lparr>cu_scheme := ''ccfs'', cu_owner := own, cu_type := CCFSTypeConcrnt, cu_cdid := i, cu_hint := None\<rparr>"
  have "ccuri_ok ?c" using assms by (simp add: ccuri_ok_def zero_ccuri_def hint_ok_def)
  moreover have "ccuri_string ?c = ComposeCCFSURI own CCFSTypeConcrnt i"
    using ComposeCCFSURI_text[OF assms(2-4)] by (simp add: ccuri_string_def zero_ccuri_def)
  ultimately have p: "ParseCCURI (ComposeCCFSURI own CCFSTypeConcrnt i) = Inr (?c\<lparr>cu_raw := ComposeCCFSURI own CCFSTypeConcrnt i\<rparr>)"
    using ParseCCURI_string by metis
  obtain k where k: "k \<in> set (record_keys d)" "rk_uri k = u" "rk_record k = Some i"
    using assms(6) by (auto simp: kv_def find_key_def bind_eq_Some_conv dest!: find_SomeD)
  obtain k' where k': "find (\<lambda>k. rk_record k = Some i) (record_keys d) = Some k'"
    using k by (cases "find (\<lambda>k. rk_record k = Some i) (record_keys d)") (auto simp: find_None_iff)
  have "k' = k" using find_SomeD[OF k'] k assms(1) unfolding db_ok_def keys_ok_def by (metis option.distinct(1))
  obtain c where c: "find_log d i = Some c" using assms(7) has_log_find by blast
  then have "cl_id c = i" unfolding find_log_def using find_SomeD by fastforce
  show ?thesis using p k' \<open>k' = k\<close> k(2) c \<open>cl_id c = i\<close> by (simp add: GetSignedDocument_def zero_ccuri_def)
qed

text \<open>What is stored is what is read: after an accepted write, the document and proof of the logged
  commit are returned under the key and under the content identifier alike, each answer
  naming both addresses.\<close>

theorem store_then_read:
  assumes "db_ok d" "key_ok own ss" "safe (r_id row)" "r_id row \<noteq> []" "find_log d (r_id row) = Some c"
    and "CreateRecord d row (cckv_uri own ss) onUpdate = Some (Inr (True, d'))"
  shows "let ccfs = ComposeCCFSURI own CCFSTypeConcrnt (r_id row);
             sd = SignedDocument (Some (cckv_uri own ss)) (Some ccfs) (cl_document c) (cl_proof c) [] None
    in GetSignedDocument d' (cckv_uri own ss) = Inr sd \<and> GetSignedDocument d' ccfs = Inr sd"
proof -
  have ok: "db_ok d'" using CreateRecord_ok[OF assms(1,6)] .
  have kv: "kv d' (cckv_uri own ss) = Some (r_id row, Some (r_createdAt row))"
    using CreateRecord_kv[OF assms(1,6)] by (simp add: put_newer_def)
  have hl: "has_log d' (r_id row)" using CreateRecord_log_document(2)[OF assms(1,6)] assms(5) by (simp add: has_log_find)
  have own: "safe own" "own \<noteq> []" using assms(2) by (auto simp: key_ok_def)
  show ?thesis unfolding Let_def GetSignedDocument_key[OF assms(2) kv] GetSignedDocument_hash[OF ok own assms(3,4) kv hl]
    using assms(5) by (simp add: CreateRecord_log_document(1)[OF assms(1,6)] log_document_def)
qed

theorem store_then_read_witness:
  "\<exists>d'. GetSignedDocument d' (cckv_uri ''con1'' [''b'']) = Inr (SignedDocument (Some (cckv_uri ''con1'' [''b'']))
     (Some ''ccfs://con1/concrnt/c2'') ''{}'' (Proof ''t'' None None None None None) [] None)"
proof -
  let ?d = "CreateCommitLog demo_db 6 ''c2'' [] ''{}'' (Proof ''t'' None None None None None) ''con1''"
  let ?row = "\<lparr>r_id = ''c2'', r_owner = ''con1'', r_author = ''con1'', r_redirect = None, r_schema = [], r_policies = None,
        r_distributions = [], r_createdAt = 6\<rparr>"
  have ok: "db_ok ?d" by (rule CreateCommitLog_ok[OF demo_db_ok])
  have key: "key_ok ''con1'' [''b'']" "safe ''c2''" "safe ''con1''"
    by (simp_all add: key_ok_def seg_ok_def unreserved_def is_alnum_def is_upper_def is_lower_def is_num_def less_eq_char_def)
  have kvd: "kv ?d u = (if u = ''cckv://con1/a'' then Some (''c1'', Some 5) else None)" for u
    by (simp add: demo_db_def kv_def find_key_def CreateCommitLog_def has_log_def)
  have "\<exists>b d'. CreateRecord ?d ?row (cckv_uri ''con1'' [''b'']) None = Some (Inr (b, d'))"
    by (rule CreateRecord_total[OF ok key(1)]) (auto simp: kvd split: if_splits)
  then obtain b d' where c: "CreateRecord ?d ?row (cckv_uri ''con1'' [''b'']) None = Some (Inr (b, d'))" by blast
  have b using CreateRecord_kv[OF ok c] by (simp add: accepts_def kvd mk_uri_def)
  then have "CreateRecord ?d ?row (cckv_uri ''con1'' [''b'']) None = Some (Inr (True, d'))" using c by simp
  from store_then_read[OF ok key(1) _ _ _ this] key(2)
  have "GetSignedDocument d' (cckv_uri ''con1'' [''b'']) = Inr (SignedDocument (Some (cckv_uri ''con1'' [''b'']))
     (Some (ComposeCCFSURI ''con1'' CCFSTypeConcrnt ''c2'')) ''{}'' (Proof ''t'' None None None None None) [] None)"
    by (simp add: find_log_def demo_db_def CreateCommitLog_def has_log_def Let_def)
  then show ?thesis using ComposeCCFSURI_text[OF key(3) _ key(2)] by auto
qed

end
