(* ===== verification/Usecase_Base.thy ===== *)
theory Usecase_Base
  imports Verify Act Default_Policy Record_Read
begin

text \<open>
  What the use cases run in: the environment (the codec, the curve library, the client, the DNS,
  the server directory), the call's context (who asks, and as which service account), and the
  state they change (the database, registered accounts, caches, queued jobs, published events).
  The model is of the server process, where the client, the job queue and the key-value store
  are present. One reading of the clock, \<open>now\<close>, stands for all readings of a call.
\<close>

section \<open>Jobs and actions after a commit\<close>

datatype delivery_local = DeliveryLocalNone | DeliveryLocalPublish | DeliveryLocalCommit

datatype delivery_remote = DeliveryRemoteNone | DeliveryRemoteCommit

record delivery_job =
  dj_resolveURI :: string
  dj_host :: string
  dj_payload :: signed_document
  dj_local :: delivery_local
  dj_remote :: delivery_remote
  dj_event :: "event option"
  dj_ip :: string

text \<open>The closures a handler leaves to be run once the transaction is committed: to mark an event for
  anonymous readers and publish it, to queue a job as it is or with its event marked, or to
  advertise a removed timeline item.\<close>

datatype post_action = PostPublish string event | PostEnqueue delivery_job | PostEnqueueMarked delivery_job event
  | PostSetAdd string string

record apply_result =
  ar_result :: signed_document
  ar_posts :: "post_action list"
  ar_noop :: bool

section \<open>Environment and state\<close>

record call_ctx =
  cx_requester :: "entity option"
  cx_serviceAccountType :: string

text \<open>\<open>ue_lookup_txt\<close> is the resolver's TXT lookup: \<open>Inl True\<close> when the name does not exist, \<open>Inl False\<close> for
  another failure. \<open>ue_xxh3\<close> is the hash printed in hexadecimal.\<close>

record uc_env =
  ue_codec :: codec
  ue_crypto :: crypto_lib
  ue_policy :: policy_env
  ue_config :: server_config
  ue_endpoints :: "(string, string) gmap"
  ue_resolver :: resolver
  ue_resolve_host :: "string \<Rightarrow> string db_result"
  ue_resolve_uri :: "string \<Rightarrow> string db_result"
  ue_get_resource :: "string \<Rightarrow> string \<Rightarrow> signed_document db_result"
  ue_remote_commit :: "string \<Rightarrow> signed_document \<Rightarrow> unit db_result"
  ue_lookup_txt :: "string \<Rightarrow> (bool, string list) result"
  ue_server_repo :: "string \<Rightarrow> server db_result"
  ue_xxh3 :: "string \<Rightarrow> string"
  ue_enc_value :: "jval \<Rightarrow> string option"

record world =
  w_db :: db
  w_metas :: "entity_meta list"
  w_policy :: policy_service
  w_cache :: "(string, string list) gmap"
  w_jobs :: "delivery_job list"
  w_published :: "(string \<times> event) list"
  w_removed :: "(string \<times> string) list"
  w_invalidated :: "string list"
  w_flags :: "string list"
  w_spawned :: "(string \<times> string) list"

type_synonym 'a uc_act = "(world, 'a) act"

abbreviation FQDN :: "uc_env \<Rightarrow> string" where
  "FQDN E \<equiv> cf_FQDN (ue_config E)"

definition repo_read :: "(db \<Rightarrow> 'a db_result) \<Rightarrow> 'a uc_act" where
  "repo_read f w = Some (f (w_db w), w)"

definition repo_read_loop :: "(db \<Rightarrow> 'a db_result option) \<Rightarrow> 'a uc_act" where
  "repo_read_loop f w = map_option (\<lambda>r. (r, w)) (f (w_db w))"

section \<open>The server directory\<close>

definition GetThisServer :: "uc_env \<Rightarrow> server" where
  "GetThisServer E = \<lparr>sv_tagString = [], sv_wellKnown = \<lparr>wk_version = ''2.0'', wk_domain = FQDN E, wk_csid = cf_CSID (ue_config E),
     wk_layer = cf_Layer (ue_config E), wk_endpoints = ue_endpoints E\<rparr>\<rparr>"

definition server_Resolve :: "uc_env \<Rightarrow> string \<Rightarrow> server db_result" where
  "server_Resolve E identifier = (if identifier = FQDN E \<or> identifier = cf_CSID (ue_config E) then Inr (GetThisServer E)
     else ue_server_repo E identifier)"

section \<open>Residents and entities\<close>

definition GetMeta :: "entity_meta list \<Rightarrow> string \<Rightarrow> entity_meta db_result" where
  "GetMeta ms ccid = (case find (\<lambda>m. em_id m = ccid) ms of None \<Rightarrow> Inl (ENotFound ccid [] []) | Some m \<Rightarrow> Inr m)"

definition row_entity :: "db \<Rightarrow> entity_row \<Rightarrow> entity db_result" where
  "row_entity d e = (case find_log d (ent_document e) of None \<Rightarrow> Inl (ENotFound ''entity'' [] [])
     | Some c \<Rightarrow> Inr \<lparr>en_id = ent_id e, en_alias = ent_alias e, en_domain = ent_domain e, en_tag = ent_tag e,
         en_signedDocument = Some (bare_sd (cl_document c) (cl_proof c))\<rparr>)"

definition GetEntityByCCID :: "db \<Rightarrow> string \<Rightarrow> entity db_result" where
  "GetEntityByCCID d ccid = (case find (\<lambda>e. ent_id e = ccid) (entities d) of None \<Rightarrow> Inl (ENotFound ''entity'' [] [])
     | Some e \<Rightarrow> row_entity d e)"

definition GetEntityByAlias :: "db \<Rightarrow> string \<Rightarrow> entity db_result" where
  "GetEntityByAlias d alias = (case find (\<lambda>e. ent_alias e = Some alias) (entities d) of None \<Rightarrow> Inl (ENotFound ''entity'' [] [])
     | Some e \<Rightarrow> row_entity d e)"

section \<open>Policies\<close>

definition policyCreateAction :: "document \<Rightarrow> string" where
  "policyCreateAction doc = (if d_kind doc = ''association'' then ''association:create'' else ''record:create'')"

definition policyReadAction :: "document \<Rightarrow> string" where
  "policyReadAction doc = (if d_kind doc = ''association'' then ''association:read'' else ''record:read'')"

definition policyDeleteAction :: "document \<Rightarrow> string" where
  "policyDeleteAction doc = (if d_kind doc = ''association'' then ''association:delete'' else ''record:delete'')"

fun policy_domain_error :: "policy_error \<Rightarrow> domain_error" where
  "policy_domain_error (PermissionError r) = EPermission r"
| "policy_domain_error _ = EOther ''policy evaluation failed''"

definition eval_policy :: "uc_env \<Rightarrow> entity \<Rightarrow> document \<Rightarrow> policy_ref list \<Rightarrow> string \<Rightarrow> string \<Rightarrow> unit uc_act" where
  "eval_policy E requester self stack action key w =
     (let (r, s) = policy_Eval (ue_policy E) (w_policy w) (request (Some requester) self) stack action key
      in Some (rmap_err policy_domain_error r, w\<lparr>w_policy := s\<rparr>))"

definition decode_doc :: "uc_env \<Rightarrow> string \<Rightarrow> document uc_act" where
  "decode_doc E t = lift_option (EOther ''unmarshal'') (dec_doc (ue_codec E) t)"

definition document_CDID :: "uc_env \<Rightarrow> signed_document \<Rightarrow> string uc_act" where
  "document_CDID E sd = lift_option (EOther ''unmarshal'') (CDID (ue_codec E) sd)"

definition parse_uri :: "string \<Rightarrow> ccuri uc_act" where
  "parse_uri u = lift (rmap_err (\<lambda>_. EOther ''invalid uri'') (ParseCCURI u))"

definition zero_document :: document where
  "zero_document = \<lparr>d_kind = [], d_key = [], d_value = JNull, d_author = [], d_schema = [], d_createdAt = zero_time, d_onUpdate = None,
     d_distributes = None, d_associate = None, d_associationVariant = None, d_policy = None\<rparr>"

text \<open>\<^verbatim>\<open>CCURI{Scheme: "cckv", Owner: o}.String()\<close> and \<^verbatim>\<open>CCURI{Scheme: "ccfs", ...}.String()\<close>.\<close>

definition owner_uri :: "string \<Rightarrow> string option \<Rightarrow> string" where
  "owner_uri own hint = ccuri_string (zero_ccuri\<lparr>cu_scheme := ''cckv'', cu_owner := own, cu_hint := hint\<rparr>)"

definition ccfs_uri :: "string \<Rightarrow> string \<Rightarrow> string" where
  "ccfs_uri own cid = ccuri_string (zero_ccuri\<lparr>cu_scheme := ''ccfs'', cu_owner := own, cu_type := CCFSTypeConcrnt, cu_cdid := cid\<rparr>)"

end
