(* ===== verification/Record_Access.thy ===== *)
theory Record_Access
  imports Usecase_Base
begin

text \<open>
  Entity resolution, \<^verbatim>\<open>src/internal/usecase/record/entity.go\<close>, and access-checked reads,
  \<^verbatim>\<open>src/internal/usecase/record/read.go\<close>. Resolving an entity may commit a document fetched from
  another server, so the operations take \<open>rec\<close>, the commit operation they re-enter.
\<close>

type_synonym commit_op = "string \<Rightarrow> signed_document \<Rightarrow> commit_mode \<Rightarrow> signed_document uc_act"

section \<open>Entities\<close>

definition spawn_recheck :: "uc_env \<Rightarrow> string \<Rightarrow> string option \<Rightarrow> entity \<Rightarrow> unit uc_act" where
  "spawn_recheck E ccid hint ent = (case hint of None \<Rightarrow> ret ()
     | Some h \<Rightarrow> if h \<noteq> en_domain ent \<and> h \<noteq> FQDN E then modify (\<lambda>w. w\<lparr>w_spawned := w_spawned w @ [(ccid, h)]\<rparr>) else ret ())"

definition get_entity_ccid :: "uc_env \<Rightarrow> commit_op \<Rightarrow> string \<Rightarrow> ccuri \<Rightarrow> entity uc_act" where
  "get_entity_ccid E rec uri parsed = sbind (attempt (repo_read (\<lambda>d. GetEntityByCCID d (cu_owner parsed)))) (\<lambda>r.
     (case r of
        Inr ent \<Rightarrow> seq (spawn_recheck E (cu_owner parsed) (cu_hint parsed) ent) (ret ent)
      | Inl e \<Rightarrow> if \<not> is_not_found e then fail e
          else (case cu_hint parsed of None \<Rightarrow> fail (ENotFound uri [] [])
            | Some hint \<Rightarrow> if hint = FQDN E then fail (ENotFound uri [] [])
                else sbind (lift (ue_get_resource E uri hint)) (\<lambda>sd.
                     sbind (rec hint sd CommitModeExecute) (\<lambda>_.
                     repo_read (\<lambda>d. GetEntityByCCID d (cu_owner parsed)))))))"

text \<open>The TXT record an unknown alias redirects to names an entity by its identifier.\<close>

definition redirects :: "string \<Rightarrow> bool" where
  "redirects txtrecord = (case ParseCCURI txtrecord of Inl e \<Rightarrow> False | Inr p \<Rightarrow> IsCCID (cu_owner p) \<and> cu_hint p \<noteq> None)"

definition GetEntity :: "uc_env \<Rightarrow> commit_op \<Rightarrow> string \<Rightarrow> entity uc_act" where
  "GetEntity E rec uri = sbind (parse_uri uri) (\<lambda>parsed.
     if cu_owner parsed = [] then fail (EOther ''owner is required'')
     else if hd (cu_owner parsed) = CHR ''@'' then
       (let alias = tl (cu_owner parsed) in
        sbind (attempt (repo_read (\<lambda>d. GetEntityByAlias d alias))) (\<lambda>r. (case r of
          Inr ent \<Rightarrow> ret ent
        | Inl e \<Rightarrow> if \<not> is_not_found e then fail e
            else (case ue_lookup_txt E (''_concrnt.'' @ alias) of
                Inl missing \<Rightarrow> if missing then fail (ENotFound uri [] []) else fail (EOther ''dns'')
              | Inr txtrecords \<Rightarrow> (case find redirects txtrecords of None \<Rightarrow> fail (ENotFound uri [] [])
                  | Some redirect \<Rightarrow> sbind (parse_uri redirect) (get_entity_ccid E rec redirect))))))
     else get_entity_ccid E rec uri parsed)"

definition recheck_key :: "string \<Rightarrow> string \<Rightarrow> string" where
  "recheck_key ccid hint = ''entity-recheck:'' @ ccid @ ''@'' @ hint"

definition recheckEntityByHint :: "uc_env \<Rightarrow> commit_op \<Rightarrow> string \<Rightarrow> string \<Rightarrow> unit uc_act" where
  "recheckEntityByHint E rec ccid hint =
     sbind (gets (\<lambda>w. recheck_key ccid hint \<in> set (w_flags w))) (\<lambda>held.
     if held then ret ()
     else seq (modify (\<lambda>w. w\<lparr>w_flags := recheck_key ccid hint # w_flags w\<rparr>))
       (sbind (lift (ue_get_resource E (owner_uri ccid (Some hint)) hint)) (\<lambda>sd.
        sbind (lift_option (EOther ''unmarshal'') (dec_entity (ue_codec E) (sd_document sd))) (\<lambda>(fetched, _).
        if d_kind fetched \<noteq> ''entity'' \<or> d_author fetched \<noteq> ccid then fail (EOther ''hint served another document'')
        else sbind (rec hint sd CommitModeExecute) (\<lambda>_. ret ())))))"

text \<open>Whether the entity document inlined in a commit is newer than the one stored.\<close>

definition inlined_newer :: "uc_env \<Rightarrow> document \<Rightarrow> entity \<Rightarrow> bool" where
  "inlined_newer E referenced stored = (case en_signedDocument stored of None \<Rightarrow> True
     | Some s \<Rightarrow> (case dec_entity (ue_codec E) (sd_document s) of None \<Rightarrow> True
         | Some (storedDoc, _) \<Rightarrow> d_createdAt storedDoc < d_createdAt referenced))"

definition reference_newer :: "uc_env \<Rightarrow> string \<Rightarrow> document \<Rightarrow> bool uc_act" where
  "reference_newer E ccid referenced = sbind (attempt (repo_read (\<lambda>d. GetEntityByCCID d ccid))) (\<lambda>r.
     (case r of Inl e \<Rightarrow> if is_not_found e then ret True else fail e
      | Inr stored \<Rightarrow> ret (inlined_newer E referenced stored)))"

definition getEntityWithReference :: "uc_env \<Rightarrow> commit_op \<Rightarrow> string \<Rightarrow> string \<Rightarrow> signed_document \<Rightarrow> entity uc_act" where
  "getEntityWithReference E rec ip ccid sd =
     (case map_of (sd_references sd) (owner_uri ccid None) of None \<Rightarrow> GetEntity E rec (owner_uri ccid None)
      | Some ref \<Rightarrow> (case dec_entity (ue_codec E) (sd_document ref) of None \<Rightarrow> GetEntity E rec (owner_uri ccid None)
        | Some (referenced, val) \<Rightarrow>
          if d_kind referenced \<noteq> ''entity'' \<or> d_author referenced \<noteq> ccid then GetEntity E rec (owner_uri ccid None)
          else sbind (reference_newer E ccid referenced) (\<lambda>newer.
               seq (if newer then sbind (attempt (rec ip ref CommitModeExecute)) (\<lambda>_. ret ()) else ret ())
                 (GetEntity E rec (owner_uri ccid (Some (ev_domain val)))))))"

definition IsLocalEntity :: "uc_env \<Rightarrow> entity \<Rightarrow> bool" where
  "IsLocalEntity E ent \<longleftrightarrow> FQDN E = en_domain ent"

definition IsLocalEntityByCCID :: "uc_env \<Rightarrow> commit_op \<Rightarrow> string \<Rightarrow> bool uc_act" where
  "IsLocalEntityByCCID E rec entityID =
     sbind (GetEntity E rec (if IsCCID entityID then owner_uri entityID None else entityID)) (\<lambda>ent. ret (IsLocalEntity E ent))"

section \<open>Reads\<close>

definition CanonicalizeURI :: "uc_env \<Rightarrow> commit_op \<Rightarrow> string \<Rightarrow> string uc_act" where
  "CanonicalizeURI E rec uri = sbind (parse_uri uri) (\<lambda>parsed.
     if \<not> has_prefix (cu_owner parsed) ''@'' then ret uri
     else sbind (GetEntity E rec (owner_uri (cu_owner parsed) None)) (\<lambda>ent.
          ret (ccuri_string (parsed\<lparr>cu_owner := en_id ent\<rparr>))))"

definition read_document :: "uc_env \<Rightarrow> string \<Rightarrow> signed_document \<Rightarrow> document uc_act" where
  "read_document E uri sd = (if sd_document sd = [] then ret (zero_document\<lparr>d_kind := ''record'', d_key := uri\<rparr>)
     else decode_doc E (sd_document sd))"

definition checkReadAccessAs :: "uc_env \<Rightarrow> string \<Rightarrow> signed_document \<Rightarrow> entity \<Rightarrow> unit uc_act" where
  "checkReadAccessAs E uri sd requester = (if uri = [] then fail (EOther ''uri is required for read access evaluation'')
     else sbind (read_document E uri sd) (\<lambda>doc.
       let policyRoot = (case d_associate doc of Some a \<Rightarrow> a | None \<Rightarrow> uri) in
       sbind (attempt (repo_read_loop (\<lambda>d. GetHierarchicalRecordPolicies d policyRoot))) (\<lambda>r.
       let stack = (case r of Inl e \<Rightarrow> [] | Inr s \<Rightarrow> s) in
       eval_policy E requester doc stack (policyReadAction doc) uri)))"

definition ctx_requester :: "call_ctx \<Rightarrow> entity" where
  "ctx_requester cx = (case cx_requester cx of None \<Rightarrow> zero_entity | Some e \<Rightarrow> e)"

definition checkReadAccess :: "uc_env \<Rightarrow> call_ctx \<Rightarrow> string \<Rightarrow> signed_document \<Rightarrow> unit uc_act" where
  "checkReadAccess E cx uri sd = checkReadAccessAs E uri sd (ctx_requester cx)"

definition anonymous_reads :: "uc_env \<Rightarrow> string \<Rightarrow> signed_document \<Rightarrow> bool uc_act" where
  "anonymous_reads E uri sd = sbind (attempt (checkReadAccessAs E uri sd zero_entity)) (\<lambda>r. ret (\<not> isl r))"

definition mark_nested :: "uc_env \<Rightarrow> string \<times> signed_document \<Rightarrow> (string \<times> signed_document) uc_act" where
  "mark_nested E = (\<lambda>(uri, sd). sbind (anonymous_reads E uri sd) (\<lambda>public.
     ret (uri, set_references [] (set_isPublic (Some public) sd))))"

definition mark_reference :: "uc_env \<Rightarrow> string \<times> signed_document \<Rightarrow> (string \<times> signed_document) uc_act" where
  "mark_reference E = (\<lambda>(uri, sd). sbind (anonymous_reads E uri sd) (\<lambda>public.
     sbind (smap (mark_nested E) (sd_references sd)) (\<lambda>nested.
     ret (uri, set_references nested (set_isPublic (Some public) sd)))))"

definition markEventForAnonymous :: "uc_env \<Rightarrow> event \<Rightarrow> event uc_act" where
  "markEventForAnonymous E ev = (if e_references ev = [] then ret ev
     else sbind (smap (mark_reference E) (e_references ev)) (\<lambda>marked. ret (ev\<lparr>e_references := marked\<rparr>)))"

definition GetSigned :: "uc_env \<Rightarrow> call_ctx \<Rightarrow> commit_op \<Rightarrow> string \<Rightarrow> signed_document uc_act" where
  "GetSigned E cx rec uri = sbind (parse_uri uri) (\<lambda>parsed.
     if cu_scheme parsed = ''cckv'' \<and> cu_key parsed = [] then
       sbind (GetEntity E rec uri) (\<lambda>ent. lift_option EPanic (en_signedDocument ent))
     else sbind (CanonicalizeURI E rec uri) (\<lambda>uri.
       sbind (repo_read (\<lambda>d. GetSignedDocument d uri)) (\<lambda>sd.
       (case dec_reference (ue_codec E) (sd_document sd) of
          Some (doc, ref) \<Rightarrow> if d_schema doc = ReferenceURL
             then sbind (lift (ue_resolve_uri E (rf_href ref))) (\<lambda>newLocation. fail (ERedirect newLocation))
             else seq (checkReadAccess E cx uri sd) (ret sd)
        | None \<Rightarrow> seq (checkReadAccess E cx uri sd) (ret sd)))))"

end
