(* ===== verification/Record_Handlers.thy ===== *)
theory Record_Handlers
  imports Record_Access
begin

text \<open>
  The handlers of the document kinds: \<^verbatim>\<open>record.go\<close>, \<^verbatim>\<open>entity.go\<close>, \<^verbatim>\<open>association.go\<close>, \<^verbatim>\<open>ack.go\<close> and the
  distribution of \<^verbatim>\<open>deliver.go\<close>, all of \<^verbatim>\<open>src/internal/usecase/record\<close>. A handler writes to a
  transaction and reads what is committed, as the code does: it returns its result, the actions
  to run after the commit, and the database as its transaction sees it. The entity of a
  requester is stored before the handler runs, so the reads of it after the first write never
  fetch it from elsewhere; \<open>no_rec\<close>, a commit that does not return, stands for that case.
\<close>

definition no_rec :: commit_op where
  "no_rec ip sd mode w = None"

definition noop_result :: "signed_document \<Rightarrow> apply_result" where
  "noop_result sd = \<lparr>ar_result = sd, ar_posts = [], ar_noop = True\<rparr>"

definition applied_result :: "signed_document \<Rightarrow> post_action list \<Rightarrow> apply_result" where
  "applied_result sd posts = \<lparr>ar_result = sd, ar_posts = posts, ar_noop = False\<rparr>"

definition distributionsFromPtr :: "string list option \<Rightarrow> string list" where
  "distributionsFromPtr ds = (case ds of None \<Rightarrow> [] | Some xs \<Rightarrow> xs)"

definition mk_event :: "string \<Rightarrow> string \<Rightarrow> string option \<Rightarrow> (string \<times> signed_document) list \<Rightarrow> gotime \<Rightarrow> event" where
  "mk_event ty uri assoc refs t = \<lparr>e_type = ty, e_source = [], e_uri = uri, e_association = assoc, e_references = refs, e_timestamp = t\<rparr>"

definition mk_job :: "string \<Rightarrow> signed_document \<Rightarrow> delivery_local \<Rightarrow> delivery_remote \<Rightarrow> event option \<Rightarrow> string \<Rightarrow> delivery_job" where
  "mk_job uri payload loc rem ev ip = \<lparr>dj_resolveURI = uri, dj_host = [], dj_payload = payload, dj_local = loc, dj_remote = rem,
     dj_event = ev, dj_ip = ip\<rparr>"

definition doc_sd :: "signed_document \<Rightarrow> (string \<times> signed_document) list \<Rightarrow> signed_document" where
  "doc_sd sd refs = SignedDocument None None (sd_document sd) (sd_proof sd) refs None"

section \<open>Reference distribution\<close>

definition ref_segment :: "uc_env \<Rightarrow> string \<Rightarrow> string" where
  "ref_segment E href = cdid_string (MakeHash (keccak (ue_codec E)) href)"

definition reference_document :: "string \<Rightarrow> string \<Rightarrow> string \<Rightarrow> gotime \<Rightarrow> document" where
  "reference_document key href author now = zero_document\<lparr>d_kind := ''record'', d_key := key, d_value := JObj [(''href'', JStr href)],
     d_author := author, d_schema := ReferenceURL, d_createdAt := now\<rparr>"

definition distribution_action :: "uc_env \<Rightarrow> gotime \<Rightarrow> string \<Rightarrow> string \<Rightarrow> string \<Rightarrow> entity \<Rightarrow> signed_document \<Rightarrow> signed_document \<Rightarrow> string
    \<Rightarrow> post_action list uc_act" where
  "distribution_action E now ip author href requester requesterSD sd destURI = (case JoinPath destURI (ref_segment E href) of None \<Rightarrow> ret []
     | Some key \<Rightarrow> sbind (lift_option (EOther ''marshal'') (enc_doc (ue_codec E) (reference_document key href author now))) (\<lambda>docBytes.
         ret [PostEnqueue (mk_job destURI
           (SignedDocument None None docBytes (Proof ProofTypeDocumentReference None (Some href) None None None)
              (gmap_set href sd [(entity_CCKV requester, requesterSD)]) None)
           DeliveryLocalCommit DeliveryRemoteCommit None ip)]))"

definition createReferenceDistributionActions :: "uc_env \<Rightarrow> call_ctx \<Rightarrow> gotime \<Rightarrow> string \<Rightarrow> string \<Rightarrow> string \<Rightarrow> entity \<Rightarrow> signed_document
    \<Rightarrow> string list \<Rightarrow> commit_mode \<Rightarrow> post_action list uc_act" where
  "createReferenceDistributionActions E cx now ip author href requester sd destinations mode =
     (if mode \<noteq> CommitModeExecute \<or> destinations = [] then ret []
      else sbind (GetSigned E cx no_rec (CCKVWithHint requester)) (\<lambda>requesterSD.
           sbind (smap (distribution_action E now ip author href requester requesterSD sd) destinations) (\<lambda>ass. ret (concat ass))))"

section \<open>Entities\<close>

definition check_entity_server :: "uc_env \<Rightarrow> string \<Rightarrow> unit uc_act" where
  "check_entity_server E dmn = (case server_Resolve E dmn of
     Inl e \<Rightarrow> fail (EValidation ''value.domain'' ''failed to resolve the entity's domain'')
   | Inr sv \<Rightarrow> seq (sguard (server_Layer sv = cf_Layer (ue_config E)) (EValidation ''value.domain'' ''the entity's domain is on a different layer''))
       (sguard (\<not> has_tag (server_Tag sv) ''_blocked'') (EValidation ''value.domain'' ''the entity's domain is blocked'')))"

definition owns_alias :: "string \<Rightarrow> string \<Rightarrow> bool" where
  "owns_alias author txtrecord = (case ParseCCURI txtrecord of Inl e \<Rightarrow> False | Inr p \<Rightarrow> cu_owner p = author)"

definition check_alias :: "uc_env \<Rightarrow> string \<Rightarrow> string option \<Rightarrow> unit uc_act" where
  "check_alias E author alias = (case alias of None \<Rightarrow> ret ()
     | Some a \<Rightarrow> (case ue_lookup_txt E (''_concrnt.'' @ a) of
         Inl _ \<Rightarrow> fail (EOther ''alias ownership verification failed: TXT record not found'')
       | Inr txtrecords \<Rightarrow> sguard (list_ex (owns_alias author) txtrecords)
           (EOther ''alias ownership verification failed: no valid TXT record found'')))"

definition saveEntity :: "uc_env \<Rightarrow> gotime \<Rightarrow> string \<Rightarrow> signed_document \<Rightarrow> (apply_result \<times> db) uc_act" where
  "saveEntity E now ip sd =
     sbind (lift_option (EOther ''unmarshal'') (dec_entity (ue_codec E) (sd_document sd))) (\<lambda>(ent, val).
     seq (if pf_type (sd_proof sd) \<noteq> ProofTypeNone then check_entity_server E (ev_domain val) else ret ())
     (seq (if ev_domain val = FQDN E then sbind (gets (\<lambda>w. GetMeta (w_metas w) (d_author ent))) (\<lambda>m.
             (case m of Inl e \<Rightarrow> fail (EOther ''user is not registered for this domain'') | Inr _ \<Rightarrow> ret ())) else ret ())
     (seq (check_alias E (d_author ent) (ev_alias val))
     (sbind (document_CDID E sd) (\<lambda>documentID.
      sbind (gets w_db) (\<lambda>d.
      let tx1 = CreateCommitLog d now documentID ip (sd_document sd) (sd_proof sd) (d_author ent) in
      sbind (lift (CreateEntity tx1 (d_author ent) (ev_alias val) (ev_domain val) documentID (d_createdAt ent))) (\<lambda>(applied, tx2).
      ret (if applied then applied_result sd [] else noop_result sd, tx2))))))))"

section \<open>Records\<close>

text \<open>The schema, time and redirection a record is stored with: those of the document it refers to, when
  it is a reference.\<close>

definition reference_target :: "uc_env \<Rightarrow> document \<Rightarrow> signed_document \<Rightarrow> (string \<times> gotime \<times> string option) uc_act" where
  "reference_target E parsed sd = (if d_schema parsed \<noteq> ReferenceURL then ret (d_schema parsed, d_createdAt parsed, None)
     else sbind (lift_option (EOther ''unmarshal'') (dec_reference (ue_codec E) (sd_document sd))) (\<lambda>(refDoc, ref).
       (case map_of (sd_references sd) (rf_href ref) of
          Some refSD \<Rightarrow> sbind (decode_doc E (sd_document refSD)) (\<lambda>targetDoc.
            ret (d_schema targetDoc, d_createdAt targetDoc, Some (rf_href ref)))
        | None \<Rightarrow> ret (case rf_schema ref of Some s \<Rightarrow> s | None \<Rightarrow> d_schema parsed,
            case rf_createdAt ref of Some t \<Rightarrow> t | None \<Rightarrow> d_createdAt parsed, Some (rf_href ref)))))"

definition update_action :: "uc_env \<Rightarrow> document \<Rightarrow> signed_document db_result \<Rightarrow> (string \<times> document) uc_act" where
  "update_action E parsed existing = (case existing of
     Inr existingSD \<Rightarrow> sbind (decode_doc E (sd_document existingSD)) (\<lambda>existingDoc. ret (''record:update'', existingDoc))
   | Inl e \<Rightarrow> if is_not_found e then ret (''record:create'', parsed) else fail e)"

definition check_record_key :: "ccuri \<Rightarrow> unit uc_act" where
  "check_record_key k = seq (sguard (cu_scheme k = ''cckv'') (EOther ''invalid key: document key scheme must be cckv''))
     (seq (sguard (CHR ''*'' \<notin> set (cu_key k)) (EValidation ''key'' ''record key must not contain *''))
     (seq (sguard (cu_key k \<noteq> []) (EValidation ''key'' ''record key must not be empty''))
     (sguard (length (cu_key k) \<le> MaxRecordKeySize) (EValidation ''key'' ''record key exceeds the maximum size''))))"

definition record_of :: "document \<Rightarrow> string \<Rightarrow> string \<Rightarrow> string \<Rightarrow> gotime \<Rightarrow> string option \<Rightarrow> record_row" where
  "record_of parsed documentID owner schema createdAt redirect = \<lparr>r_id = documentID, r_owner = owner, r_author = d_author parsed,
     r_redirect = redirect, r_schema = schema, r_policies = d_policy parsed,
     r_distributions = distributionsFromPtr (d_distributes parsed), r_createdAt = createdAt\<rparr>"

definition createRecord :: "uc_env \<Rightarrow> call_ctx \<Rightarrow> gotime \<Rightarrow> string \<Rightarrow> entity \<Rightarrow> document \<Rightarrow> signed_document \<Rightarrow> commit_mode
    \<Rightarrow> (apply_result \<times> db) uc_act" where
  "createRecord E cx now ip requester parsed sd mode = (let key = d_key parsed in
     sbind (repo_read_loop (\<lambda>d. GetHierarchicalRecordPolicies d key)) (\<lambda>stack.
     sbind (attempt (repo_read (\<lambda>d. GetSignedDocument d key))) (\<lambda>existing.
     sbind (update_action E parsed existing) (\<lambda>(action, policySelf).
     seq (eval_policy E requester policySelf stack action key)
     (sbind (parse_uri key) (\<lambda>parsedKey.
     seq (check_record_key parsedKey)
     (sbind (reference_target E parsed sd) (\<lambda>(schema, createdAt, redirect).
      sbind (document_CDID E sd) (\<lambda>documentID.
      sbind (gets w_db) (\<lambda>d.
      let tx1 = CreateCommitLog d now documentID ip (sd_document sd) (sd_proof sd) (cu_owner parsedKey) in
      sbind (diverges_or (CreateRecord tx1 (record_of parsed documentID (cu_owner parsedKey) schema createdAt redirect) key (d_onUpdate parsed)))
        (\<lambda>(applied, tx2).
      if \<not> applied then ret (noop_result sd, tx2)
      else let result = set_ccfs (Some (ccfs_uri (cu_owner parsedKey) documentID)) (set_cckv (Some key) sd) in
        sbind (if mode = CommitModeExecute \<and> d_distributes parsed \<noteq> None
               then createReferenceDistributionActions E cx now ip (d_author parsed) key requester sd (distributionsFromPtr (d_distributes parsed)) mode
               else ret []) (\<lambda>actions.
        ret (applied_result result ((if mode = CommitModeExecute
               then [PostPublish key (mk_event ''created'' key None [(key, result)] createdAt)] else []) @ actions), tx2)))))))))))))"

section \<open>Associations\<close>

definition association_unique :: "uc_env \<Rightarrow> document \<Rightarrow> string \<Rightarrow> string \<Rightarrow> string" where
  "association_unique E parsed associate body = ue_xxh3 E (associate @ d_author parsed @ d_schema parsed
     @ (case d_associationVariant parsed of None \<Rightarrow> [] | Some v \<Rightarrow> v) @ body)"

text \<open>The document an association targets, and where the news of it goes.\<close>

definition association_target :: "uc_env \<Rightarrow> signed_document \<Rightarrow> string \<Rightarrow> (signed_document \<times> string list) uc_act" where
  "association_target E sd target = sbind (attempt (repo_read (\<lambda>d. GetSignedDocument d target))) (\<lambda>r. (case r of
     Inr targetSD \<Rightarrow> sbind (repo_read (\<lambda>d. GetDistributions d target)) (\<lambda>dists. ret (targetSD, target # dists))
   | Inl _ \<Rightarrow> (case map_of (sd_references sd) target of None \<Rightarrow> fail (EOther ''target document not found in references'')
       | Some targetSD \<Rightarrow> seq (case Verify (ue_codec E) (ue_crypto E) (ue_resolver E) targetSD of
             Inl _ \<Rightarrow> fail (EOther ''target document failed signature verification'') | Inr _ \<Rightarrow> ret ())
           (sbind (decode_doc E (sd_document targetSD)) (\<lambda>targetDoc.
            ret (targetSD, target # distributionsFromPtr (d_distributes targetDoc)))))))"

definition association_posts :: "gotime \<Rightarrow> entity \<Rightarrow> signed_document \<Rightarrow> signed_document \<Rightarrow> string \<Rightarrow> string \<Rightarrow> bool \<Rightarrow> signed_document \<Rightarrow> string list
    \<Rightarrow> post_action list" where
  "association_posts now requester requesterSD sd ccfs target isLocal targetSD channels =
     map (\<lambda>channel. PostEnqueueMarked
        (mk_job channel (doc_sd sd (gmap_set target targetSD [(entity_CCKV requester, requesterSD)])) DeliveryLocalPublish
           (if isLocal then DeliveryRemoteCommit else DeliveryRemoteNone) None [])
        (mk_event ''associated'' target (Some ccfs) [(ccfs, set_ccfs (Some ccfs) sd)] now)) channels"

text \<open>The stored half of an association, on the server of its target. \<open>None\<close> is an association that is
  there already.\<close>

definition store_association :: "uc_env \<Rightarrow> call_ctx \<Rightarrow> gotime \<Rightarrow> string \<Rightarrow> entity \<Rightarrow> document \<Rightarrow> signed_document \<Rightarrow> commit_mode
    \<Rightarrow> string \<Rightarrow> string \<Rightarrow> string \<Rightarrow> (post_action list \<times> db) option uc_act" where
  "store_association E cx now ip requester parsed sd mode associate owner documentID =
     sbind (lift_option (EOther ''marshal'') (ue_enc_value E (d_value parsed))) (\<lambda>body.
     sbind (gets w_db) (\<lambda>d.
     let tx1 = CreateCommitLog d now documentID ip (sd_document sd) (sd_proof sd) owner in
     sbind (lift (CreateAssociation tx1 documentID associate owner (d_author parsed) (d_schema parsed) (d_associationVariant parsed)
              (association_unique E parsed associate body) (d_createdAt parsed))) (\<lambda>(applied, tx2).
     if \<not> applied then ret None
     else sbind (if mode = CommitModeExecute then createReferenceDistributionActions E cx now ip (d_author parsed) (ccfs_uri owner documentID)
                   requester sd (distributionsFromPtr (d_distributes parsed)) mode else ret []) (\<lambda>actions.
          ret (Some (actions, tx2))))))"

definition createAssociation :: "uc_env \<Rightarrow> call_ctx \<Rightarrow> gotime \<Rightarrow> commit_op \<Rightarrow> string \<Rightarrow> entity \<Rightarrow> document \<Rightarrow> signed_document \<Rightarrow> commit_mode
    \<Rightarrow> (apply_result \<times> db) uc_act" where
  "createAssociation E cx now rec ip requester parsed sd mode =
     seq (sguard (d_key parsed = []) (EValidation ''key'' ''association documents must not have a key''))
     (seq (sguard (case d_associationVariant parsed of None \<Rightarrow> True | Some v \<Rightarrow> length v \<le> MaxAssociationVariantSize)
            (EValidation ''associationVariant'' ''associationVariant exceeds the maximum size''))
     (sbind (lift_option EPanic (d_associate parsed)) (\<lambda>target.
      sbind (repo_read_loop (\<lambda>d. GetHierarchicalRecordPolicies d target)) (\<lambda>stack.
      seq (eval_policy E requester parsed stack (policyCreateAction parsed) target)
      (sbind (parse_uri target) (\<lambda>targetURI.
      seq (sguard (cu_scheme targetURI = ''cckv'') (EOther ''invalid associate: document associate scheme must be cckv''))
      (sbind (document_CDID E sd) (\<lambda>documentID.
       let ccfs = ccfs_uri (cu_owner targetURI) documentID in
       sbind (IsLocalEntityByCCID E rec (cu_owner targetURI)) (\<lambda>isLocal.
       sbind (GetSigned E cx rec (CCKVWithHint requester)) (\<lambda>requesterSD.
       sbind (if isLocal then store_association E cx now ip requester parsed sd mode target (cu_owner targetURI) documentID
              else sbind (gets w_db) (\<lambda>d. ret (Some ([], d)))) (\<lambda>stored.
       (case stored of None \<Rightarrow> sbind (gets w_db) (\<lambda>d. ret (noop_result sd, d))
        | Some (posts, tx) \<Rightarrow>
          sbind (if mode = CommitModeExecute then sbind (association_target E sd target) (\<lambda>(targetSD, channels).
                   ret (association_posts now requester requesterSD sd ccfs target isLocal targetSD channels)) else ret []) (\<lambda>signals.
          ret (applied_result (set_ccfs (Some ccfs) sd) (posts @ signals), tx))))))))))))))"

section \<open>Acknowledgements\<close>

definition ack_local :: "uc_env \<Rightarrow> call_ctx \<Rightarrow> gotime \<Rightarrow> string \<Rightarrow> entity \<Rightarrow> entity \<Rightarrow> document \<Rightarrow> signed_document \<Rightarrow> commit_mode \<Rightarrow> string \<Rightarrow> db
    \<Rightarrow> (apply_result \<times> db) uc_act" where
  "ack_local E cx now ip from to doc sd mode documentID tx1 =
     sbind (lift (if d_kind doc = ''ack'' then Acknowledge tx1 documentID (en_id from) (en_id to) (d_schema doc) (d_createdAt doc)
                  else UnAcknowledge tx1 documentID (en_id from) (en_id to) (d_schema doc) (d_createdAt doc))) (\<lambda>(created, tx2).
     let ccfs = ccfs_uri (en_id from) documentID; sd' = set_ccfs (Some ccfs) sd in
     sbind (createReferenceDistributionActions E cx now ip (d_author doc) ccfs from sd' (distributionsFromPtr (d_distributes doc)) mode) (\<lambda>actions.
     sbind (lift (rmap_err (\<lambda>_. EOther ''derive acked'') (DeriveAcked (ue_codec E) sd'))) (\<lambda>ackedSD.
     sbind (if mode = CommitModeExecute then sbind (GetSigned E cx no_rec (CCKVWithHint from)) (\<lambda>fromSD.
              ret [PostEnqueue (mk_job (CCKVWithHint to) (set_references [(entity_CCKV from, fromSD)] ackedSD)
                     DeliveryLocalCommit DeliveryRemoteCommit None ip)]) else ret []) (\<lambda>delivery.
     ret (\<lparr>ar_result = sd', ar_posts = actions @ delivery, ar_noop = \<not> created\<rparr>, tx2)))))"

definition acked_local :: "entity \<Rightarrow> entity \<Rightarrow> document \<Rightarrow> signed_document \<Rightarrow> string \<Rightarrow> db \<Rightarrow> (apply_result \<times> db) uc_act" where
  "acked_local from to doc sd documentID tx1 =
     sbind (lift (if d_kind doc = ''acked'' then Acknowledged tx1 documentID (en_id from) (en_id to) (d_schema doc) (d_createdAt doc)
                  else UnAcknowledged tx1 documentID (en_id from) (en_id to) (d_schema doc) (d_createdAt doc))) (\<lambda>(created, tx2).
     ret (\<lparr>ar_result = set_ccfs (Some (ccfs_uri (en_id to) documentID)) sd, ar_posts = [], ar_noop = \<not> created\<rparr>, tx2))"

definition process_ack :: "uc_env \<Rightarrow> call_ctx \<Rightarrow> gotime \<Rightarrow> string \<Rightarrow> entity \<Rightarrow> entity \<Rightarrow> document \<Rightarrow> signed_document \<Rightarrow> commit_mode
    \<Rightarrow> (apply_result \<times> db) uc_act" where
  "process_ack E cx now ip from to doc sd mode =
     (let isAck = d_kind doc = ''ack'' \<or> d_kind doc = ''unack''; isAcked = d_kind doc = ''acked'' \<or> d_kind doc = ''unacked'' in
      sbind (document_CDID E sd) (\<lambda>documentID.
      sbind (gets w_db) (\<lambda>d.
      let tx1 = CreateCommitLog d now documentID ip (sd_document sd) (sd_proof sd) (if isAck then en_id from else en_id to) in
      if isAck \<and> IsLocalEntity E from then ack_local E cx now ip from to doc sd mode documentID tx1
      else if isAcked \<and> IsLocalEntity E to then acked_local from to doc sd documentID tx1
      else ret (noop_result sd, tx1))))"

end
