(* ===== verification/Record_Delete.thy ===== *)
theory Record_Delete
  imports Record_Handlers
begin

text \<open>
  Deletion, \<^verbatim>\<open>src/internal/usecase/record/delete.go\<close>: of one record or association, or of a range of
  keys; on the server the target lives on, and on servers a delete is forwarded to. All
  policies are evaluated before anything is removed.
\<close>

section \<open>Targets\<close>

definition parseRangeDeleteTarget :: "string \<Rightarrow> (string \<times> bool \<times> bool) db_result" where
  "parseRangeDeleteTarget targetURI =
     (if \<not> has_suffix targetURI ''*'' then Inr (targetURI, False, False)
      else let subtree = has_suffix targetURI ''/*'';
               base = (if subtree then trim_suffix targetURI ''/*'' else trim_suffix targetURI ''*'') in
        if CHR ''*'' \<in> set base then Inl (EValidation ''value'' ''* is only allowed as a trailing range sentinel in a delete target'')
        else (case ParseCCURI base of Inl e \<Rightarrow> Inl (EValidation ''value'' ''invalid range delete target'')
          | Inr parsed \<Rightarrow>
            if cu_scheme parsed \<noteq> ''cckv'' then Inl (EValidation ''value'' ''range delete targets must use the cckv scheme'')
            else if cu_key parsed = [] then Inl (EValidation ''value'' ''range delete requires a non-empty key'')
            else Inr (base, \<not> subtree, True)))"

definition local_targets :: "string \<Rightarrow> string \<Rightarrow> bool \<Rightarrow> bool \<Rightarrow> (string \<times> signed_document) list uc_act" where
  "local_targets rawTarget base includeSelf isRange =
     (if isRange then sbind (repo_read (\<lambda>d. QueryRecordSubtree d base includeSelf)) (\<lambda>sds.
        if sds = [] then fail (ENotFound rawTarget [] [])
        else lift (rmap_list (\<lambda>sd. case sd_cckv sd of None \<Rightarrow> Inl EPanic | Some u \<Rightarrow> Inr (u, sd)) sds))
      else sbind (repo_read (\<lambda>d. GetSignedDocument d rawTarget)) (\<lambda>sd. ret [(rawTarget, sd)]))"

definition forwarded_targets :: "signed_document \<Rightarrow> string \<Rightarrow> string \<Rightarrow> bool \<Rightarrow> bool \<Rightarrow> (string \<times> signed_document) list" where
  "forwarded_targets sd rawTarget base includeSelf isRange =
     (let refs = sd_references sd;
          uris = (if isRange then sort (filter (\<lambda>u. includeSelf \<and> u = base \<or> has_prefix u (base @ ''/'')) (remdups (map fst refs)))
                  else if map_of refs rawTarget \<noteq> None then [rawTarget] else [])
      in map (\<lambda>u. (u, the (map_of refs u))) uris)"

definition decode_targets :: "uc_env \<Rightarrow> (string \<times> signed_document) list \<Rightarrow> (string \<times> signed_document \<times> document) list uc_act" where
  "decode_targets E = smap (\<lambda>(u, sd). sbind (decode_doc E (sd_document sd)) (\<lambda>doc. ret (u, sd, doc)))"

definition check_delete :: "uc_env \<Rightarrow> entity \<Rightarrow> string \<times> signed_document \<times> document \<Rightarrow> unit uc_act" where
  "check_delete E requester = (\<lambda>(u, sd, doc).
     sbind (repo_read_loop (\<lambda>d. GetHierarchicalRecordPolicies d (case d_associate doc of Some a \<Rightarrow> a | None \<Rightarrow> u))) (\<lambda>stack.
     eval_policy E requester doc stack (policyDeleteAction doc) u))"

section \<open>Removing\<close>

record del_acc =
  da_tx :: db
  da_any :: bool
  da_retained :: bool
  da_posts :: "post_action list"

definition add_posts :: "post_action list \<Rightarrow> del_acc \<Rightarrow> del_acc" where
  "add_posts ps acc = acc\<lparr>da_posts := da_posts acc @ ps\<rparr>"

definition flag_deleted :: "uc_env \<Rightarrow> signed_document \<Rightarrow> string option \<Rightarrow> del_acc \<Rightarrow> del_acc uc_act" where
  "flag_deleted E deleted onUpdate acc = (if onUpdate = Some ''retain'' then ret (acc\<lparr>da_any := True, da_retained := True\<rparr>)
     else sbind (document_CDID E deleted) (\<lambda>i. ret (acc\<lparr>da_any := True, da_tx := MarkCommitLogGcCandidate (da_tx acc) i\<rparr>)))"

definition RemovedItemsKey :: "string \<Rightarrow> string" where
  "RemovedItemsKey timeline = ''removed:'' @ timeline"

definition timeline_removal :: "string option \<Rightarrow> (string \<times> string) uc_act" where
  "timeline_removal key = (case key of None \<Rightarrow> ret ([], [])
     | Some k \<Rightarrow> sbind (attempt (repo_read (\<lambda>d. GetTimelineRemoval d k))) (\<lambda>r. ret (case r of Inl _ \<Rightarrow> ([], []) | Inr x \<Rightarrow> x)))"

definition removal_posts :: "string \<times> string \<Rightarrow> post_action list" where
  "removal_posts r = (if fst r = [] then [] else [PostSetAdd (RemovedItemsKey (fst r)) (snd r)])"

definition delete_authoritative :: "uc_env \<Rightarrow> commit_mode \<Rightarrow> string \<Rightarrow> signed_document \<Rightarrow> document \<Rightarrow> del_acc \<Rightarrow> (del_acc \<times> string \<times> string) uc_act" where
  "delete_authoritative E mode targetURI targetSD targetDoc acc =
     (if d_kind targetDoc = ''record'' then
        sbind (timeline_removal (if mode = CommitModeExecute then sd_cckv targetSD else None)) (\<lambda>removal.
        sbind (parse_uri targetURI) (\<lambda>parsedURI.
        sbind (if cu_scheme parsedURI = ''cckv'' then ret (DeleteRecordByKey (da_tx acc) targetURI)
               else if cu_scheme parsedURI = ''ccfs'' then
                 (if cu_type parsedURI \<noteq> CCFSTypeConcrnt then fail (EOther ''unsupported ccfs type for delete record'')
                  else ret (DeleteRecordByDocumentID (da_tx acc) (cu_cdid parsedURI)))
               else fail (EOther ''unsupported document scheme for delete record'')) (\<lambda>tx.
        sbind (flag_deleted E targetSD (d_onUpdate targetDoc) (acc\<lparr>da_tx := tx\<rparr>)) (\<lambda>acc'. ret (acc', removal)))))
      else if d_kind targetDoc = ''association'' then
        sbind (parse_uri targetURI) (\<lambda>parsedURI.
        if cu_scheme parsedURI \<noteq> ''ccfs'' \<or> cu_type parsedURI \<noteq> CCFSTypeConcrnt
        then fail (EOther ''unsupported document scheme for delete association'')
        else sbind (flag_deleted E targetSD None (acc\<lparr>da_tx := DeleteAssociation (da_tx acc) (cu_cdid parsedURI)\<rparr>)) (\<lambda>acc'.
             ret (acc', [], [])))
      else fail (EOther ''unsupported document kind for delete''))"

text \<open>The references to a target left at its destinations on this server.\<close>

definition sweep_href :: "uc_env \<Rightarrow> signed_document \<Rightarrow> document \<Rightarrow> string uc_act" where
  "sweep_href E targetSD targetDoc = (if d_kind targetDoc = ''record'' then ret (d_key targetDoc)
     else sbind (lift_option (EOther ''unsupported document kind for distribution sweep'') (d_associate targetDoc)) (\<lambda>a.
          sbind (parse_uri a) (\<lambda>parsedAssociate.
          sbind (document_CDID E targetSD) (\<lambda>documentID. ret (ccfs_uri (cu_owner parsedAssociate) documentID)))))"

definition sweep_destination :: "uc_env \<Rightarrow> commit_mode \<Rightarrow> entity \<Rightarrow> string \<Rightarrow> string \<Rightarrow> del_acc \<Rightarrow> del_acc uc_act" where
  "sweep_destination E mode requester refSegment dest acc = (case JoinPath dest refSegment of None \<Rightarrow> ret acc
     | Some refKey \<Rightarrow> sbind (attempt (repo_read (\<lambda>d. GetSignedDocument d refKey))) (\<lambda>r. (case r of
         Inl e \<Rightarrow> if is_not_found e then ret acc else fail e
       | Inr refSD \<Rightarrow> sbind (decode_doc E (sd_document refSD)) (\<lambda>refDoc.
           sbind (repo_read_loop (\<lambda>d. GetHierarchicalRecordPolicies d refKey)) (\<lambda>stack.
           sbind (attempt (eval_policy E requester refDoc stack (policyDeleteAction refDoc) refKey)) (\<lambda>verdict. (case verdict of
             Inl e \<Rightarrow> if is_permission e then ret acc else fail e
           | Inr _ \<Rightarrow> sbind (timeline_removal (if mode = CommitModeExecute then Some refKey else None)) (\<lambda>removal.
               flag_deleted E refSD (d_onUpdate refDoc)
                 (add_posts (removal_posts removal) (acc\<lparr>da_tx := DeleteRecordByKey (da_tx acc) refKey\<rparr>))))))))))"

text \<open>The jobs that tell the destinations of a target, and those of the document it was associated with.\<close>

definition delete_jobs :: "gotime \<Rightarrow> signed_document \<Rightarrow> bool \<Rightarrow> string \<Rightarrow> string \<Rightarrow> (string \<times> signed_document) list \<Rightarrow> string list \<Rightarrow> post_action list" where
  "delete_jobs now sd authoritative ty uri refs dests = map (\<lambda>dest. PostEnqueue (mk_job dest (doc_sd sd refs) DeliveryLocalPublish
     (if authoritative then DeliveryRemoteCommit else DeliveryRemoteNone) (Some (mk_event ty uri None [] now)) [])) dests"

definition associated_document :: "signed_document \<Rightarrow> bool \<Rightarrow> string \<Rightarrow> signed_document uc_act" where
  "associated_document sd authoritative uri = (if authoritative then repo_read (\<lambda>d. GetSignedDocument d uri)
     else lift_option (EOther ''associated document not found in references for remote delete'') (map_of (sd_references sd) uri))"

definition delete_signals :: "uc_env \<Rightarrow> gotime \<Rightarrow> signed_document \<Rightarrow> bool \<Rightarrow> string \<Rightarrow> signed_document \<Rightarrow> document \<Rightarrow> post_action list uc_act" where
  "delete_signals E now sd authoritative targetURI targetSD targetDoc =
     (let own = delete_jobs now sd authoritative ''deleted'' targetURI [(targetURI, targetSD)]
            (targetURI # distributionsFromPtr (d_distributes targetDoc)) in
      (case d_associate targetDoc of None \<Rightarrow> ret own
       | Some associatedURI \<Rightarrow> sbind (associated_document sd authoritative associatedURI) (\<lambda>associatedSD.
           sbind (decode_doc E (sd_document associatedSD)) (\<lambda>associatedDoc.
           ret (own @ delete_jobs now sd authoritative ''unassociated'' associatedURI
             (gmap_set associatedURI associatedSD [(targetURI, targetSD)]) (associatedURI # distributionsFromPtr (d_distributes associatedDoc)))))))"

definition delete_target :: "uc_env \<Rightarrow> gotime \<Rightarrow> commit_mode \<Rightarrow> entity \<Rightarrow> signed_document \<Rightarrow> bool \<Rightarrow> string \<times> signed_document \<times> document
    \<Rightarrow> del_acc \<Rightarrow> del_acc uc_act" where
  "delete_target E now mode requester sd authoritative = (\<lambda>(targetURI, targetSD, targetDoc) acc.
     sbind (if authoritative then delete_authoritative E mode targetURI targetSD targetDoc acc else ret (acc, [], [])) (\<lambda>(acc1, removal).
     sbind (sweep_href E targetSD targetDoc) (\<lambda>href.
     sbind (sfold (sweep_destination E mode requester (ref_segment E href)) (distributionsFromPtr (d_distributes targetDoc)) acc1) (\<lambda>acc2.
     if mode \<noteq> CommitModeExecute then ret acc2
     else sbind (delete_signals E now sd authoritative targetURI targetSD targetDoc) (\<lambda>signals.
          ret (add_posts (removal_posts removal @ signals) acc2))))))"

definition deleteRecord :: "uc_env \<Rightarrow> gotime \<Rightarrow> string \<Rightarrow> entity \<Rightarrow> signed_document \<Rightarrow> commit_mode \<Rightarrow> (apply_result \<times> db) uc_act" where
  "deleteRecord E now ip requester sd mode =
     sbind (lift_option (EOther ''unmarshal'') (dec_delete (ue_codec E) (sd_document sd))) (\<lambda>(_, rawTarget).
     sbind (lift (parseRangeDeleteTarget rawTarget)) (\<lambda>(rangeBase, includeSelf, isRange).
     sbind (lift (ue_resolve_host E rawTarget)) (\<lambda>targetHost.
     let authoritative = targetHost = FQDN E in
     sbind (if authoritative then local_targets rawTarget rangeBase includeSelf isRange
            else ret (forwarded_targets sd rawTarget rangeBase includeSelf isRange)) (\<lambda>targets.
     if targets = [] then sbind (gets w_db) (\<lambda>d. ret (noop_result sd, d))
     else sbind (decode_targets E targets) (\<lambda>decoded.
       seq (if authoritative then sbind (smap (check_delete E requester) decoded) (\<lambda>_. ret ()) else ret ())
       (sbind (document_CDID E sd) (\<lambda>documentID.
        sbind (parse_uri rangeBase) (\<lambda>parsedBase.
        sbind (gets w_db) (\<lambda>d.
        let tx1 = CreateCommitLog d now documentID ip (sd_document sd) (sd_proof sd) (cu_owner parsedBase) in
        sbind (sfold (delete_target E now mode requester sd authoritative) decoded
                 \<lparr>da_tx = tx1, da_any = False, da_retained = False, da_posts = []\<rparr>) (\<lambda>acc.
        if \<not> da_any acc then ret (noop_result sd, da_tx acc)
        else ret (applied_result (snd (hd targets)) (da_posts acc),
               if da_retained acc then da_tx acc else MarkCommitLogGcCandidate (da_tx acc) documentID)))))))))))"

end
