(* ===== verification/Record_Commit.thy ===== *)
theory Record_Commit
  imports Record_Delete
begin

text \<open>
  The commit operation, \<^verbatim>\<open>src/internal/usecase/record/commit.go\<close>, delivery, \<^verbatim>\<open>deliver.go\<close>, and the import
  and dump of a commit log, \<^verbatim>\<open>commitlog.go\<close>. A commit may commit further documents on its way (the
  entity documents it inlines, or that another server hands out), and nothing in the code bounds
  how deep that goes; \<open>Commit\<close> therefore takes fuel, and \<open>None\<close> is a commit nested deeper.
\<close>

section \<open>Checks\<close>

definition reject_alias :: "string \<Rightarrow> string \<Rightarrow> unit db_result" where
  "reject_alias fld uri = (case ParseCCURI uri of Inl e \<Rightarrow> Inr ()
     | Inr parsed \<Rightarrow> if has_prefix (cu_owner parsed) ''@'' then Inl (EValidation fld ''alias-form owners are not allowed in commits'') else Inr ())"

definition delete_base :: "document \<Rightarrow> string option" where
  "delete_base doc = (case d_value doc of JStr target \<Rightarrow> Some (trim_suffix (trim_suffix target ''*'') ''/'') | _ \<Rightarrow> None)"

definition rejectAliasOwners :: "document \<Rightarrow> unit db_result" where
  "rejectAliasOwners doc =
     rbind (if d_key doc \<noteq> [] then reject_alias ''key'' (d_key doc) else Inr ()) (\<lambda>_.
     rbind (case d_associate doc of None \<Rightarrow> Inr () | Some a \<Rightarrow> reject_alias ''associate'' a) (\<lambda>_.
     rbind (if d_kind doc = ''delete'' then (case delete_base doc of None \<Rightarrow> Inr () | Some b \<Rightarrow> reject_alias ''value'' b) else Inr ()) (\<lambda>_.
     rbind (rmap_list (reject_alias ''distributes'') (distributionsFromPtr (d_distributes doc))) (\<lambda>_. Inr ()))))"

definition is_acked_kind :: "document \<Rightarrow> bool" where
  "is_acked_kind doc \<longleftrightarrow> d_kind doc = ''acked'' \<or> d_kind doc = ''unacked''"

definition allowed_proofs :: "document \<Rightarrow> string list option" where
  "allowed_proofs doc = (if is_acked_kind doc then Some [ProofTypeDocumentDirect]
     else if d_kind doc = ''entity'' then Some [ProofTypeEcrecover] else None)"

fun verify_root :: "verify_error \<Rightarrow> verify_error" where
  "verify_root (Nested m e) = verify_root e"
| "verify_root e = e"

definition verify_domain_error :: "document \<Rightarrow> verify_error \<Rightarrow> domain_error" where
  "verify_domain_error doc e = (case verify_root e of
     VerifyPanic \<Rightarrow> EPanic
   | NoneProofNotAllowed \<Rightarrow> EValidation ''proof.type'' ''none proof type is only allowed for system service accounts''
   | ProofTypeNotAllowed _ \<Rightarrow> if d_kind doc = ''entity'' then EValidation ''proof.type'' ''entity documents must be signed with the master key''
        else if is_acked_kind doc then EValidation ''proof.type'' ''acked/unacked documents must carry a document-direct proof''
        else EValidation ''proof'' ''signature verification failed''
   | UnsupportedProofType t \<Rightarrow> EValidation ''proof.type'' (''unsupported proof type: '' @ t)
   | _ \<Rightarrow> EValidation ''proof'' ''signature verification failed'')"

definition verify_commit :: "uc_env \<Rightarrow> signed_document \<Rightarrow> document \<Rightarrow> unit uc_act" where
  "verify_commit E sd doc = lift (rmap_err (verify_domain_error doc)
     (VerifyWithProofTypes (ue_codec E) (ue_crypto E) (ue_resolver E) (allowed_proofs doc) sd))"

definition owned_by :: "string \<Rightarrow> string \<Rightarrow> bool" where
  "owned_by uri ccid = (case ParseCCURI uri of Inl e \<Rightarrow> False | Inr parsed \<Rightarrow> cu_owner parsed = ccid)"

definition backdate_exempt :: "call_ctx \<Rightarrow> commit_mode \<Rightarrow> document \<Rightarrow> bool" where
  "backdate_exempt cx mode doc \<longleftrightarrow> d_kind doc = ''entity'' \<or> is_acked_kind doc
     \<or> (mode = CommitModeLocalOnlyExecute \<and> (case cx_requester cx of None \<Rightarrow> False
          | Some me \<Rightarrow> d_author doc = en_id me \<or> (d_key doc \<noteq> [] \<and> owned_by (d_key doc) (en_id me))
              \<or> (case d_associate doc of None \<Rightarrow> False | Some a \<Rightarrow> owned_by a (en_id me))))"

definition check_backdate :: "call_ctx \<Rightarrow> gotime \<Rightarrow> commit_mode \<Rightarrow> document \<Rightarrow> unit uc_act" where
  "check_backdate cx now mode doc = sguard (backdate_exempt cx mode doc \<or> \<not> d_createdAt doc < now - MaxBackdate)
     (EValidation ''createdAt'' ''createdAt is older than the allowed backdate window'')"

definition resolve_requester :: "uc_env \<Rightarrow> commit_op \<Rightarrow> string \<Rightarrow> document \<Rightarrow> signed_document \<Rightarrow> entity uc_act" where
  "resolve_requester E rec ip doc sd =
     sbind (attempt (if d_kind doc = ''entity'' then GetEntity E rec (owner_uri (d_author doc) None)
                     else getEntityWithReference E rec ip (d_author doc) sd)) (\<lambda>r. (case r of
       Inr ent \<Rightarrow> ret ent
     | Inl e \<Rightarrow> if is_acked_kind doc then ret (zero_entity\<lparr>en_id := d_author doc\<rparr>)
         else if d_kind doc = ''entity'' then ret zero_entity
         else fail (EValidation ''document.author'' ''requester entity not found'')))"

definition target_user :: "document \<Rightarrow> string uc_act" where
  "target_user doc = sbind (if d_key doc \<noteq> [] then sbind (parse_uri (d_key doc)) (\<lambda>p. ret (cu_owner p)) else ret []) (\<lambda>byKey.
     (case d_associate doc of None \<Rightarrow> ret byKey | Some a \<Rightarrow> sbind (parse_uri a) (\<lambda>p. ret (cu_owner p))))"

definition blocking_key :: "string \<Rightarrow> string" where
  "blocking_key userID = ComposeCCURI ''cckv'' userID ''.concrnt/blocking''"

definition getBlockingUsers :: "string \<Rightarrow> string list uc_act" where
  "getBlockingUsers userID = sbind (gets (\<lambda>w. map_of (w_cache w) (''blockingUsers:'' @ userID))) (\<lambda>cached. (case cached of
     Some ids \<Rightarrow> ret ids
   | None \<Rightarrow> sbind (repo_read (\<lambda>d. QueryByParent d (blocking_key userID) [] [] None None 0 [])) (\<lambda>rows.
       sbind (lift (rmap_list (\<lambda>row. case sd_cckv (q_row row) of None \<Rightarrow> Inl EPanic
                | Some u \<Rightarrow> Inr (trim_prefix u (blocking_key userID @ ''/''))) rows)) (\<lambda>ids.
       seq (modify (\<lambda>w. w\<lparr>w_cache := gmap_set (''blockingUsers:'' @ userID) ids (w_cache w)\<rparr>)) (ret ids)))))"

definition check_block :: "document \<Rightarrow> string \<Rightarrow> unit uc_act" where
  "check_block doc target = (if target \<noteq> [] \<and> target \<noteq> d_author doc \<and> \<not> is_acked_kind doc
     then sbind (getBlockingUsers (d_author doc)) (\<lambda>blocked.
          sguard (target \<notin> set blocked) (EOther ''operation blocked due to user block relationship''))
     else ret ())"

section \<open>Applying\<close>

definition applyCommit :: "uc_env \<Rightarrow> call_ctx \<Rightarrow> gotime \<Rightarrow> commit_op \<Rightarrow> string \<Rightarrow> entity \<Rightarrow> string \<Rightarrow> document \<Rightarrow> signed_document \<Rightarrow> commit_mode
    \<Rightarrow> (apply_result \<times> db) uc_act" where
  "applyCommit E cx now rec ip requester target doc sd mode =
     (if d_kind doc = ''entity'' then saveEntity E now ip sd
      else if d_kind doc = ''record'' then createRecord E cx now ip requester doc sd mode
      else if d_kind doc = ''association'' then createAssociation E cx now rec ip requester doc sd mode
      else if d_kind doc \<in> {''ack'', ''acked'', ''unack'', ''unacked''} then
        sbind (getEntityWithReference E rec ip target sd) (\<lambda>targetUser. process_ack E cx now ip requester targetUser doc sd mode)
      else if d_kind doc = ''delete'' then deleteRecord E now ip requester sd mode
      else fail (EOther ''unsupported document kind''))"

text \<open>The resources the client has to fetch again after a commit.\<close>

definition invalidated_by :: "document \<Rightarrow> string list" where
  "invalidated_by doc = (if d_key doc \<noteq> [] then [d_key doc] else [])
     @ (if d_kind doc = ''entity'' then [owner_uri (d_author doc) None] else [])
     @ (if d_kind doc = ''delete'' then (case d_value doc of JStr t \<Rightarrow> if t \<noteq> [] then [t] else [] | _ \<Rightarrow> []) else [])"

definition run_post :: "uc_env \<Rightarrow> post_action \<Rightarrow> unit uc_act" where
  "run_post E p = (case p of
     PostPublish channel ev \<Rightarrow> sbind (markEventForAnonymous E ev) (\<lambda>ev'. modify (\<lambda>w. w\<lparr>w_published := w_published w @ [(channel, ev')]\<rparr>))
   | PostEnqueue job \<Rightarrow> modify (\<lambda>w. w\<lparr>w_jobs := w_jobs w @ [job]\<rparr>)
   | PostEnqueueMarked job ev \<Rightarrow> sbind (markEventForAnonymous E ev) (\<lambda>ev'.
       modify (\<lambda>w. w\<lparr>w_jobs := w_jobs w @ [job\<lparr>dj_event := Some ev'\<rparr>]\<rparr>))
   | PostSetAdd key item \<Rightarrow> modify (\<lambda>w. w\<lparr>w_removed := w_removed w @ [(key, item)]\<rparr>))"

definition finish_commit :: "uc_env \<Rightarrow> document \<Rightarrow> apply_result \<times> db \<Rightarrow> signed_document uc_act" where
  "finish_commit E doc = (\<lambda>(ar, tx). if ar_noop ar then ret (ar_result ar)
     else seq (modify (\<lambda>w. w\<lparr>w_db := tx, w_invalidated := w_invalidated w @ invalidated_by doc\<rparr>))
       (sbind (smap (\<lambda>p. attempt (run_post E p)) (ar_posts ar)) (\<lambda>_. ret (ar_result ar))))"

definition is_service_account :: "call_ctx \<Rightarrow> bool" where
  "is_service_account cx \<longleftrightarrow> cx_serviceAccountType cx = ''system''"

definition commit_body :: "uc_env \<Rightarrow> call_ctx \<Rightarrow> gotime \<Rightarrow> commit_op \<Rightarrow> commit_op" where
  "commit_body E cx now rec ip sd mode =
     (if length (sd_document sd) > MaxDocumentSize then fail (EValidation ''document'' ''document exceeds the maximum size'')
      else sbind (decode_doc E (sd_document sd)) (\<lambda>doc.
      seq (lift (rejectAliasOwners doc))
      (sbind (document_CDID E sd) (\<lambda>documentID.
       sbind (gets (\<lambda>w. HasCommitLog (w_db w) documentID)) (\<lambda>alreadyCommitted.
       if alreadyCommitted then ret sd
       else if now + MaxFutureSkew < d_createdAt doc then fail (EValidation ''createdAt'' ''createdAt is too far in the future'')
       else seq (if is_service_account cx then ret () else seq (verify_commit E sd doc) (check_backdate cx now mode doc))
        (sbind (resolve_requester E rec ip doc sd) (\<lambda>requester.
         sbind (target_user doc) (\<lambda>target.
         seq (check_block doc target)
         (sbind (applyCommit E cx now rec ip requester target doc sd mode) (finish_commit E doc))))))))))"

fun Commit :: "uc_env \<Rightarrow> call_ctx \<Rightarrow> gotime \<Rightarrow> nat \<Rightarrow> commit_op" where
  "Commit E cx now 0 = no_rec"
| "Commit E cx now (Suc n) = commit_body E cx now (Commit E cx now n)"

section \<open>Delivery\<close>

definition Deliver :: "uc_env \<Rightarrow> call_ctx \<Rightarrow> gotime \<Rightarrow> nat \<Rightarrow> delivery_job \<Rightarrow> unit uc_act" where
  "Deliver E cx now n job =
     sbind (if dj_resolveURI job \<noteq> [] then lift (ue_resolve_host E (dj_resolveURI job)) else ret (dj_host job)) (\<lambda>host.
     if host = FQDN E then (case dj_local job of
         DeliveryLocalPublish \<Rightarrow> (case dj_event job of None \<Rightarrow> fail (EOther ''local publish job missing event'')
           | Some ev \<Rightarrow> modify (\<lambda>w. w\<lparr>w_published := w_published w @ [(dj_resolveURI job, ev)]\<rparr>))
       | DeliveryLocalCommit \<Rightarrow> sbind (Commit E cx now n (dj_ip job) (dj_payload job) CommitModeExecute) (\<lambda>_. ret ())
       | DeliveryLocalNone \<Rightarrow> ret ())
     else if dj_remote job = DeliveryRemoteCommit then lift (ue_remote_commit E host (dj_payload job)) else ret ())"

section \<open>Commit logs\<close>

definition MaxImportLineBytes :: nat where
  "MaxImportLineBytes = 1048576"

definition maxImportEchoBytes :: nat where
  "maxImportEchoBytes = 1024"

definition truncate_line :: "string \<Rightarrow> nat \<Rightarrow> string" where
  "truncate_line s n = (if length s \<le> n then s else take n s)"

record import_result =
  ir_document :: string
  ir_error :: string

text \<open>The text \<^verbatim>\<open>strings.TrimSpace\<close> empties (of ASCII text).\<close>

definition blank_line :: "string \<Rightarrow> bool" where
  "blank_line s \<longleftrightarrow> list_all (\<lambda>c. c \<in> {CHR '' '', CHR 0x09, CHR 0x0A, CHR 0x0B, CHR 0x0C, CHR 0x0D}) s"

definition import_line :: "uc_env \<Rightarrow> call_ctx \<Rightarrow> gotime \<Rightarrow> nat \<Rightarrow> (string \<Rightarrow> signed_document option) \<Rightarrow> string \<Rightarrow> string
    \<Rightarrow> import_result list \<Rightarrow> import_result list uc_act" where
  "import_line E cx now n dec ip line results = (if blank_line line then ret results
     else (case dec line of
         None \<Rightarrow> ret (results @ [\<lparr>ir_document = truncate_line line maxImportEchoBytes, ir_error = ''failed to parse line as SignedDocument''\<rparr>])
       | Some sd \<Rightarrow> sbind (attempt (Commit E cx now n ip sd CommitModeLocalOnlyExecute)) (\<lambda>r. ret (case r of Inr _ \<Rightarrow> results
           | Inl e \<Rightarrow> results @ [\<lparr>ir_document = truncate_line line maxImportEchoBytes, ir_error = ''failed to commit document: '' @ error_text e\<rparr>]))))"

text \<open>A line that does not fit the scanner's buffer ends the import with an error, after the results so
  far.\<close>

definition ImportCommitLogs :: "uc_env \<Rightarrow> call_ctx \<Rightarrow> gotime \<Rightarrow> nat \<Rightarrow> (string \<Rightarrow> signed_document option) \<Rightarrow> string \<Rightarrow> string list
    \<Rightarrow> (import_result list \<times> bool) uc_act" where
  "ImportCommitLogs E cx now n dec ip lines =
     (let scanned = takeWhile (\<lambda>l. length l < MaxImportLineBytes) lines in
      sbind (sfold (import_line E cx now n dec ip) scanned []) (\<lambda>results. ret (results, length scanned < length lines)))"

definition DumpCommitLogs :: "call_ctx \<Rightarrow> (signed_document \<Rightarrow> string option) \<Rightarrow> string uc_act" where
  "DumpCommitLogs cx enc = sbind (lift_option (EOther ''requester not found in context'') (cx_requester cx)) (\<lambda>requester.
     sbind (gets (\<lambda>w. GetAllCommitLogs (w_db w) (en_id requester))) (\<lambda>commitLogs.
     sbind (smap (\<lambda>log. lift_option (EOther ''marshal'') (enc log)) commitLogs) (\<lambda>ls.
     ret (concat (map (\<lambda>l. l @ [CHR 0x0A]) ls)))))"

end
