(* ===== verification/Commit_Invariants.thy ===== *)
theory Commit_Invariants
  imports Record_Commit
begin

text \<open>
  What every commit keeps, proved once for all invariants of the database: a locale states what
  an invariant owes (the repository's writes keep it, given that what is logged passed the
  commit's checks) and derives that \<open>Commit\<close>, with everything it nests, keeps it. Interpreted on
  the states the repository reaches, and on the provenance of the logged documents.
\<close>

section \<open>Actions that leave the database alone\<close>

lemma keeps_reads [keeps_rules]:
  "keeps I (repo_read f)" "keeps I (repo_read_loop g)" "keeps I (decode_doc E t)" "keeps I (document_CDID E sd)" "keeps I (parse_uri u)"
  by (auto intro!: keepsI simp: repo_read_def repo_read_loop_def decode_doc_def document_CDID_def parse_uri_def act_simps)

lemma seq_lift_Inl: "seq (lift (Inl e)) k = fail e" "seq (fail e) k = fail e"
  by (auto simp: fun_eq_iff seq_def sbind_def act_simps)

lemma sbind_decode: "sbind (decode_doc E' t) f = (case dec_doc (ue_codec E') t of None \<Rightarrow> fail (EOther ''unmarshal'') | Some doc \<Rightarrow> f doc)"
  by (auto simp: fun_eq_iff sbind_def decode_doc_def act_simps split: option.splits)

text \<open>What a commit requires of a document before it is applied.\<close>

definition admitted :: "uc_env \<Rightarrow> call_ctx \<Rightarrow> gotime \<Rightarrow> string \<Rightarrow> proof_t \<Rightarrow> bool" where
  "admitted E cx now body prf \<longleftrightarrow> length body \<le> MaxDocumentSize \<and> (\<exists>doc. dec_doc (ue_codec E) body = Some doc
     \<and> d_createdAt doc \<le> now + MaxFutureSkew
     \<and> (is_service_account cx \<or> (\<exists>sd. sd_document sd = body \<and> sd_proof sd = prf
          \<and> VerifyWithProofTypes (ue_codec E) (ue_crypto E) (ue_resolver E) (allowed_proofs doc) sd = Inr ())))"

locale db_ops =
  fixes J :: "db \<Rightarrow> bool" and E :: uc_env and cx :: call_ctx and now :: gotime
  assumes keep_log: "J d \<Longrightarrow> admitted E cx now body prf \<Longrightarrow> J (CreateCommitLog d now i ip body prf owner)"
    and keep_entity: "J d \<Longrightarrow> CreateEntity d ccid alias dmn i t = Inr (b, d') \<Longrightarrow> J d'"
    and keep_record: "J d \<Longrightarrow> CreateRecord d row key onUpdate = Some (Inr (b, d')) \<Longrightarrow> J d'"
    and keep_assoc: "J d \<Longrightarrow> CreateAssociation d i u ow au sc va un t = Inr (b, d') \<Longrightarrow> J d'"
    and keep_ack: "J d \<Longrightarrow> processAck d i f g s c v = Inr (b, d') \<Longrightarrow> J d'"
    and keep_acked: "J d \<Longrightarrow> processAcked d i f g s c v = Inr (b, d') \<Longrightarrow> J d'"
    and keep_mark: "J d \<Longrightarrow> J (MarkCommitLogGcCandidate d i)"
    and keep_delete_key: "J d \<Longrightarrow> J (DeleteRecordByKey d u)"
    and keep_delete_id: "J d \<Longrightarrow> J (DeleteRecordByDocumentID d i)"
    and keep_delete_association: "J d \<Longrightarrow> J (DeleteAssociation d i)"

text \<open>A property of the whole state that the handlers keep: it gives \<open>J\<close> of the database, and the caches
  do not matter to it.\<close>

locale handler_invariant = db_ops +
  fixes I :: "world \<Rightarrow> bool"
  assumes I_J: "I w \<Longrightarrow> J (w_db w)"
    and I_policy: "I w \<Longrightarrow> I (w\<lparr>w_policy := ps\<rparr>)"
    and I_cache: "I w \<Longrightarrow> I (w\<lparr>w_cache := ca\<rparr>)"
    and I_spawned: "I w \<Longrightarrow> I (w\<lparr>w_spawned := sp\<rparr>)"
begin

text \<open>The state of a handler's transaction.\<close>

definition tx_post :: "'a \<times> db \<Rightarrow> world \<Rightarrow> bool" where
  "tx_post r w \<longleftrightarrow> J (snd r) \<and> I w"

lemma keeps_eval [keeps_rules]: "keeps I (eval_policy E' r s st a k)"
  by (auto intro!: keepsI simp: eval_policy_def intro: I_policy split: prod.splits)

lemma keeps_readers [keeps_rules]:
  "keeps I (checkReadAccessAs E' u sd r)" "keeps I (checkReadAccess E' cx' u sd)"
  by (auto simp: checkReadAccessAs_def checkReadAccess_def read_document_def intro!: keeps_rules)

lemma keeps_marks [keeps_rules]: "keeps I (markEventForAnonymous E' ev)"
  by (auto simp: markEventForAnonymous_def mark_reference_def mark_nested_def anonymous_reads_def intro!: keeps_rules)

lemma keeps_get_entity_ccid:
  assumes rec: "\<And>ip sd mode. keeps I (rec ip sd mode)"
  shows "keeps I (get_entity_ccid E' rec u p)"
  by (auto simp: get_entity_ccid_def spawn_recheck_def intro!: keeps_rules rec intro: I_spawned)

lemma keeps_GetEntity:
  assumes rec: "\<And>ip sd mode. keeps I (rec ip sd mode)"
  shows "keeps I (GetEntity E' rec u)"
  by (auto simp: GetEntity_def intro!: keeps_rules keeps_get_entity_ccid rec)

lemma keeps_access:
  assumes rec: "\<And>ip sd mode. keeps I (rec ip sd mode)"
  shows "keeps I (getEntityWithReference E' rec ip c sd)" "keeps I (IsLocalEntityByCCID E' rec c)"
    "keeps I (GetSigned E' cx' rec u)"
  by (auto simp: getEntityWithReference_def reference_newer_def IsLocalEntityByCCID_def GetSigned_def CanonicalizeURI_def
      intro!: keeps_rules keeps_GetEntity rec)

lemma keeps_no_rec [simp]: "keeps I (no_rec ip sd mode)"
  by (auto intro!: keepsI simp: no_rec_def)

lemma keeps_distribution [keeps_rules]: "keeps I (createReferenceDistributionActions E' cx' t ip au href r sd ds mode)"
  by (auto simp: createReferenceDistributionActions_def distribution_action_def intro!: keeps_rules keeps_access(3))

lemma keeps_parts [keeps_rules]:
  "keeps I (check_entity_server E' dmn)" "keeps I (check_alias E' au al)" "keeps I (reference_target E' doc sd)"
  "keeps I (update_action E' doc ex)" "keeps I (check_record_key k)" "keeps I (association_target E' sd tg)"
  by (auto simp: check_entity_server_def check_alias_def reference_target_def update_action_def check_record_key_def association_target_def
      intro!: keeps_rules)

lemma triple_db:
  assumes "\<And>d. J d \<Longrightarrow> triple I (f d) Q (\<lambda>_. I)"
  shows "triple I (sbind (gets w_db) f) Q (\<lambda>_. I)"
  using assms by (fastforce simp: triple_def act_simps dest: I_J)

lemma triple_lift:
  assumes "\<And>x. r = Inr x \<Longrightarrow> triple I (f x) Q (\<lambda>_. I)"
  shows "triple I (sbind (lift r) f) Q (\<lambda>_. I)"
  using assms by (fastforce simp: triple_def act_simps split: sum.splits)

lemma triple_diverges:
  assumes "\<And>x. r = Some (Inr x) \<Longrightarrow> triple I (f x) Q (\<lambda>_. I)"
  shows "triple I (sbind (diverges_or r) f) Q (\<lambda>_. I)"
  using assms by (fastforce simp: triple_def act_simps split: sum.splits)

lemma triple_return: "J tx \<Longrightarrow> triple I (ret (x, tx)) tx_post (\<lambda>_. I)"
  by (auto intro!: triple_ret simp: tx_post_def)

lemma triple_error: "triple I (fail e) Q (\<lambda>_. I)"
  by (rule triple_fail)

lemma triple_seq_keeps:
  assumes "keeps I m" "triple I k Q (\<lambda>_. I)"
  shows "triple I (seq m k) Q (\<lambda>_. I)"
  unfolding seq_def by (rule triple_sbind_keeps) (rule assms)+

lemmas handler_rules = triple_db triple_lift triple_diverges triple_return triple_error triple_seq_keeps
  triple_if triple_option triple_sum triple_prod triple_Let triple_sbind_keeps keeps_rules

lemma saveEntity_inv:
  assumes "admitted E cx now (sd_document sd) (sd_proof sd)"
  shows "triple I (saveEntity E now ip sd) tx_post (\<lambda>_. I)"
  unfolding saveEntity_def lift_option_def
  by (intro handler_rules) (auto intro: keep_entity[OF keep_log[OF _ assms]])

lemma createRecord_inv:
  assumes "admitted E cx now (sd_document sd) (sd_proof sd)"
  shows "triple I (createRecord E cx now ip r doc sd mode) tx_post (\<lambda>_. I)"
  unfolding createRecord_def
  by (intro handler_rules) (auto intro: keep_record[OF keep_log[OF _ assms]])

text \<open>An association is stored, or was there already.\<close>

definition stored_post :: "('a \<times> db) option \<Rightarrow> world \<Rightarrow> bool" where
  "stored_post r w \<longleftrightarrow> (\<forall>x. r = Some x \<longrightarrow> tx_post x w) \<and> I w"

lemma store_association_inv:
  assumes "admitted E cx now (sd_document sd) (sd_proof sd)"
  shows "triple I (store_association E cx now ip r doc sd mode a ow i) stored_post (\<lambda>_. I)"
proof -
  have n: "triple I (ret None) stored_post (\<lambda>_. I)" by (rule triple_ret) (simp add: stored_post_def)
  have s: "triple I (ret (Some (x, tx))) stored_post (\<lambda>_. I)" if "J tx" for x :: "post_action list" and tx
    using that by (intro triple_ret) (simp add: stored_post_def tx_post_def)
  show ?thesis unfolding store_association_def
    by (intro handler_rules n s) (auto intro: keep_assoc[OF keep_log[OF _ assms]])
qed

lemma createAssociation_inv:
  assumes "admitted E cx now (sd_document sd) (sd_proof sd)" and rec: "\<And>ip sd mode. keeps I (rec ip sd mode)"
  shows "triple I (createAssociation E cx now rec ip r doc sd mode) tx_post (\<lambda>_. I)"
proof -
  have remote: "triple I (sbind (gets w_db) (\<lambda>d. ret (Some ([], d)))) stored_post (\<lambda>_. I)"
    by (intro triple_db triple_ret) (simp add: stored_post_def tx_post_def)
  have rest: "triple (stored_post stored) (case stored of None \<Rightarrow> sbind (gets w_db) (\<lambda>d. ret (noop_result sd, d))
      | Some (posts, tx) \<Rightarrow> sbind (if mode = CommitModeExecute then sbind (association_target E sd target) (\<lambda>(targetSD, channels).
            ret (association_posts now r requesterSD sd ccfs target isLocal targetSD channels)) else ret []) (\<lambda>signals.
          ret (applied_result (set_ccfs (Some ccfs) sd) (posts @ signals), tx))) tx_post (\<lambda>_. I)"
    for stored target requesterSD ccfs isLocal
  proof (cases stored)
    case None
    then show ?thesis by (auto simp: triple_def act_simps stored_post_def tx_post_def intro: I_J)
  next
    case (Some st)
    obtain posts tx where st: "st = (posts, tx)" by (cases st)
    have "triple I (sbind (if mode = CommitModeExecute then sbind (association_target E sd target) (\<lambda>(targetSD, channels).
            ret (association_posts now r requesterSD sd ccfs target isLocal targetSD channels)) else ret []) (\<lambda>signals.
          ret (applied_result (set_ccfs (Some ccfs) sd) (posts @ signals), tx))) tx_post (\<lambda>_. I)" if "J tx"
      by (intro handler_rules that)
    then show ?thesis using Some st
      by (auto simp: triple_def stored_post_def tx_post_def)
  qed
  show ?thesis unfolding createAssociation_def
    by (intro triple_seq_keeps triple_sbind_keeps triple_Let keeps_rules keeps_access rec
        triple_sbind[OF triple_if[OF store_association_inv[OF assms(1)] remote]] rest)
qed

lemma process_ack_inv:
  assumes "admitted E cx now (sd_document sd) (sd_proof sd)"
  shows "triple I (process_ack E cx now ip fr to doc sd mode) tx_post (\<lambda>_. I)"
  unfolding process_ack_def ack_local_def acked_local_def Acknowledge_def UnAcknowledge_def Acknowledged_def UnAcknowledged_def
  by (intro handler_rules keeps_access(3))
    (auto intro: keep_log[OF _ assms] keep_ack[OF keep_log[OF _ assms]] keep_acked[OF keep_log[OF _ assms]] split: if_splits)

text \<open>Deletion threads its transaction through an accumulator.\<close>

definition acc_post :: "del_acc \<Rightarrow> world \<Rightarrow> bool" where
  "acc_post acc w \<longleftrightarrow> J (da_tx acc) \<and> I w"

lemma triple_acc:
  assumes "triple I m (\<lambda>r. acc_post (g r)) (\<lambda>_. I)" "\<And>r. J (da_tx (g r)) \<Longrightarrow> triple I (f r) Q (\<lambda>_. I)"
  shows "triple I (sbind m f) Q (\<lambda>_. I)"
proof (rule triple_sbind[OF assms(1)])
  fix r show "triple (acc_post (g r)) (f r) Q (\<lambda>_. I)" using assms(2)[of r] by (auto simp: triple_def acc_post_def)
qed

lemma triple_acc_ret: "J (da_tx (g r)) \<Longrightarrow> triple I (ret r) (\<lambda>r. acc_post (g r)) (\<lambda>_. I)"
  by (rule triple_ret) (simp add: acc_post_def)

lemmas triple_acc1 = triple_acc[where g = "\<lambda>r. r"] triple_acc_ret[where g = "\<lambda>r. r"]

lemma triple_acc_sfold:
  assumes "J (da_tx acc)" "\<And>x acc. J (da_tx acc) \<Longrightarrow> triple I (f x acc) acc_post (\<lambda>_. I)"
  shows "triple I (sfold f xs acc) acc_post (\<lambda>_. I)"
  using assms(1)
proof (induction xs arbitrary: acc)
  case Nil
  then show ?case using triple_acc1(2) by simp
next
  case (Cons x xs)
  then show ?case using triple_acc1(1)[OF _ Cons.IH] assms(2)[OF Cons.prems] by simp
qed

lemma flag_deleted_inv: "J (da_tx acc) \<Longrightarrow> triple I (flag_deleted E' sd ou acc) acc_post (\<lambda>_. I)"
  unfolding flag_deleted_def by (intro handler_rules triple_acc1(2)) (auto intro: keep_mark)

lemma keeps_timeline [keeps_rules]: "keeps I (timeline_removal k)" "keeps I (sweep_href E' sd doc)" "keeps I (delete_signals E' t sd au u tsd tdoc)"
  "keeps I (check_delete E' r x)" "keeps I (decode_targets E' xs)" "keeps I (local_targets rt ba inc ra)"
  by (auto simp: timeline_removal_def sweep_href_def delete_signals_def associated_document_def check_delete_def decode_targets_def local_targets_def
      intro!: keeps_rules)

lemma delete_authoritative_inv:
  assumes "J (da_tx acc)"
  shows "triple I (delete_authoritative E' mode u sd doc acc) (\<lambda>r. acc_post (fst r)) (\<lambda>_. I)"
proof -
  have tail: "triple I (sbind (flag_deleted E' sd ou acc') (\<lambda>acc''. ret (acc'', x))) (\<lambda>r. acc_post (fst r)) (\<lambda>_. I)"
    if "J (da_tx acc')" for ou acc' and x :: "string \<times> string"
    using that by (intro triple_acc1(1) triple_acc_ret) (auto intro: flag_deleted_inv)
  have tx: "triple I (if cu_scheme p = ''cckv'' then ret (DeleteRecordByKey (da_tx acc) u)
       else if cu_scheme p = ''ccfs'' then
         (if cu_type p \<noteq> CCFSTypeConcrnt then fail (EOther ''unsupported ccfs type for delete record'')
          else ret (DeleteRecordByDocumentID (da_tx acc) (cu_cdid p)))
       else fail (EOther ''unsupported document scheme for delete record'')) (\<lambda>t w. J t \<and> I w) (\<lambda>_. I)" for p
    using assms by (intro triple_if triple_fail triple_ret) (auto intro: keep_delete_key keep_delete_id)
  have "triple (\<lambda>w. J t \<and> I w) (sbind (flag_deleted E' sd ou (acc\<lparr>da_tx := t\<rparr>)) (\<lambda>acc'. ret (acc', x))) (\<lambda>r. acc_post (fst r)) (\<lambda>_. I)"
    for t ou and x :: "string \<times> string"
    using tail[of "acc\<lparr>da_tx := t\<rparr>" ou x] by (auto simp: triple_def)
  then show ?thesis unfolding delete_authoritative_def
    using assms by (intro triple_if triple_sbind_keeps keeps_rules triple_sbind[OF tx] triple_error tail)
      (auto intro: keep_delete_association)
qed

lemma sweep_destination_inv:
  assumes "J (da_tx acc)"
  shows "triple I (sweep_destination E' mode r seg dest acc) acc_post (\<lambda>_. I)"
  unfolding sweep_destination_def
  by (intro triple_option triple_sum triple_if triple_sbind_keeps keeps_rules triple_error flag_deleted_inv triple_acc1(2) assms)
    (auto simp: add_posts_def intro: keep_delete_key assms)

lemma delete_target_inv:
  assumes "J (da_tx acc)"
  shows "triple I (delete_target E' t mode r sd au x acc) acc_post (\<lambda>_. I)"
proof -
  obtain u tsd tdoc where x: "x = (u, tsd, tdoc)" by (cases x)
  have rest: "triple I (case y of (acc1, removal) \<Rightarrow> sbind (sweep_href E' tsd tdoc) (\<lambda>href.
     sbind (sfold (sweep_destination E' mode r (ref_segment E' href)) (distributionsFromPtr (d_distributes tdoc)) acc1) (\<lambda>acc2.
     if mode \<noteq> CommitModeExecute then ret acc2
     else sbind (delete_signals E' t sd au u tsd tdoc) (\<lambda>signals.
          ret (add_posts (removal_posts removal @ signals) acc2))))) acc_post (\<lambda>_. I)" if "J (da_tx (fst y))" for y
    using that by (cases y) (auto intro!: triple_sbind_keeps keeps_rules triple_acc1(1) triple_acc_sfold sweep_destination_inv
      triple_acc1(2) simp: add_posts_def)
  show ?thesis unfolding delete_target_def x prod.case
    by (rule triple_acc[where g = fst, OF _ rest])
      (intro triple_if delete_authoritative_inv triple_acc_ret[where g = fst, simplified] assms; simp add: assms)
qed

lemma deleteRecord_inv:
  assumes "admitted E cx now (sd_document sd) (sd_proof sd)"
  shows "triple I (deleteRecord E now ip r sd mode) tx_post (\<lambda>_. I)"
  unfolding deleteRecord_def
  by (intro triple_sbind_keeps triple_prod triple_Let triple_if triple_seq_keeps keeps_rules triple_db triple_return
      triple_acc1(1)[OF triple_acc_sfold])
    (auto intro: keep_log[OF _ assms] keep_mark delete_target_inv)

lemma applyCommit_inv:
  assumes adm: "admitted E cx now (sd_document sd) (sd_proof sd)" and rec: "\<And>ip sd mode. keeps I (rec ip sd mode)"
  shows "triple I (applyCommit E cx now rec ip r tg doc sd mode) tx_post (\<lambda>_. I)"
  unfolding applyCommit_def
  by (intro triple_if saveEntity_inv[OF adm] createRecord_inv[OF adm] createAssociation_inv[OF adm] deleteRecord_inv[OF adm] triple_error
      triple_sbind_keeps keeps_access(1) process_ack_inv[OF adm] rec)

lemma keeps_checks [keeps_rules]: "keeps I (verify_commit E' sd doc)" "keeps I (check_backdate cx' t mode doc)" "keeps I (target_user doc)"
  "keeps I (check_block doc tg)"
  by (auto simp: verify_commit_def check_backdate_def target_user_def check_block_def getBlockingUsers_def intro!: keeps_rules intro: I_cache)

lemma keeps_requester:
  assumes rec: "\<And>ip sd mode. keeps I (rec ip sd mode)"
  shows "keeps I (resolve_requester E' rec ip doc sd)"
  by (auto simp: resolve_requester_def intro!: keeps_rules keeps_GetEntity keeps_access(1) rec)

lemma commit_checks:
  assumes known: "\<And>x w. I w \<Longrightarrow> Q x w"
    and len: "length (sd_document sd) \<le> MaxDocumentSize" and doc: "dec_doc (ue_codec E) (sd_document sd) = Some doc"
    and k: "admitted E cx now (sd_document sd) (sd_proof sd) \<Longrightarrow> triple I k Q (\<lambda>_. I)"
  shows "triple I (if already then ret sd
       else if now + MaxFutureSkew < d_createdAt doc then fail (EValidation ''createdAt'' ''createdAt is too far in the future'')
       else seq (if is_service_account cx then ret () else seq (verify_commit E sd doc) (check_backdate cx now mode doc)) k) Q (\<lambda>_. I)"
proof (cases "admitted E cx now (sd_document sd) (sd_proof sd) \<or> now + MaxFutureSkew < d_createdAt doc")
  case True
  then show ?thesis by (auto intro!: triple_ret triple_fail triple_seq_keeps keeps_rules known k)
next
  case False
  with len doc obtain e where "\<not> is_service_account cx"
      "VerifyWithProofTypes (ue_codec E) (ue_crypto E) (ue_resolver E) (allowed_proofs doc) sd = Inl e"
    unfolding admitted_def
    by (cases "VerifyWithProofTypes (ue_codec E) (ue_crypto E) (ue_resolver E) (allowed_proofs doc) sd") (auto simp: not_less)
  then show ?thesis by (auto simp: verify_commit_def rmap_err_def seq_lift_Inl intro!: triple_ret triple_fail known)
qed

text \<open>The commit around its last step, which writes and runs the actions left for later.\<close>

lemma commit_body_triple:
  assumes rec: "\<And>ip sd mode. keeps I (rec ip sd mode)"
    and fin: "\<And>doc r. triple (tx_post r) (finish_commit E doc r) Q (\<lambda>_. I)"
    and known: "\<And>x w. I w \<Longrightarrow> Q x w"
  shows "triple I (commit_body E cx now rec ip sd mode) Q (\<lambda>_. I)"
proof -
  have tail: "triple I (sbind (resolve_requester E rec ip doc sd) (\<lambda>requester. sbind (target_user doc) (\<lambda>target.
      seq (check_block doc target) (sbind (applyCommit E cx now rec ip requester target doc sd mode) (finish_commit E doc))))) Q (\<lambda>_. I)"
    if "admitted E cx now (sd_document sd) (sd_proof sd)" for doc
    by (rule triple_sbind_keeps[OF keeps_requester[OF rec]], rule triple_sbind_keeps[OF keeps_checks(3)],
        rule triple_seq_keeps[OF keeps_checks(4)], rule triple_sbind[OF applyCommit_inv[OF that rec] fin])
  have body: "triple I (seq (lift (rejectAliasOwners doc)) (sbind (document_CDID E sd) (\<lambda>i. sbind (gets (\<lambda>w. HasCommitLog (w_db w) i)) (\<lambda>already.
      if already then ret sd
      else if now + MaxFutureSkew < d_createdAt doc then fail (EValidation ''createdAt'' ''createdAt is too far in the future'')
      else seq (if is_service_account cx then ret () else seq (verify_commit E sd doc) (check_backdate cx now mode doc))
        (sbind (resolve_requester E rec ip doc sd) (\<lambda>requester. sbind (target_user doc) (\<lambda>target.
         seq (check_block doc target) (sbind (applyCommit E cx now rec ip requester target doc sd mode) (finish_commit E doc)))))))))
      Q (\<lambda>_. I)"
    if "length (sd_document sd) \<le> MaxDocumentSize" "dec_doc (ue_codec E) (sd_document sd) = Some doc" for doc
    by (rule triple_seq_keeps[OF keeps_basic(3)], rule triple_sbind_keeps[OF keeps_reads(4)], rule triple_sbind_keeps[OF keeps_basic(4)],
        rule commit_checks[OF known that tail])
  show ?thesis unfolding commit_body_def sbind_decode
    by (intro triple_if triple_option triple_error body) simp_all
qed

end

text \<open>A property of the database alone is kept by the commit as a whole.\<close>

sublocale db_ops \<subseteq> handler: handler_invariant J E cx now "\<lambda>w. J (w_db w)"
  by unfold_locales simp_all

context db_ops
begin

abbreviation I :: "world \<Rightarrow> bool" where
  "I w \<equiv> J (w_db w)"

lemma keeps_run_post [keeps_rules]: "keeps I (run_post E' p)"
  by (cases p) (auto simp: run_post_def intro!: keeps_rules handler.keeps_marks)

lemma finish_commit_inv: "triple (handler.tx_post r) (finish_commit E' doc r) (\<lambda>_. I) (\<lambda>_. I)"
proof (cases r)
  case (Pair ar tx)
  have run: "keeps I (sbind (smap (\<lambda>p. attempt (run_post E' p)) (ar_posts ar)) (\<lambda>_. ret (ar_result ar)))" by (intro keeps_rules)
  have stored: "triple (handler.tx_post r) (modify (\<lambda>w. w\<lparr>w_db := tx, w_invalidated := w_invalidated w @ invalidated_by doc\<rparr>)) (\<lambda>_. I) (\<lambda>_. I)"
    using Pair by (auto simp: triple_def act_simps handler.tx_post_def)
  have noop: "triple (handler.tx_post r) (ret (ar_result ar)) (\<lambda>_. I) (\<lambda>_. I)" by (auto simp: triple_def act_simps handler.tx_post_def)
  show ?thesis unfolding Pair finish_commit_def prod.case
    using triple_if[OF noop triple_seq[OF stored triple_keeps[OF run]]] Pair by simp
qed

lemma Commit_keeps: "keeps I (Commit E cx now n ip sd mode)"
proof (induction n arbitrary: ip sd mode)
  case (Suc n)
  then show ?case using handler.commit_body_triple[OF _ finish_commit_inv] by (simp add: keeps_def)
qed simp

lemma Commit_inv: "Commit E cx now n ip sd mode w = Some (r, w') \<Longrightarrow> J (w_db w) \<Longrightarrow> J (w_db w')"
  using keepsD[OF Commit_keeps] by blast

lemma keeps_local:
  "keeps P m1 \<Longrightarrow> keeps P m2 \<Longrightarrow> keeps P m3 \<Longrightarrow>
     keeps P (case l of DeliveryLocalNone \<Rightarrow> m1 | DeliveryLocalPublish \<Rightarrow> m2 | DeliveryLocalCommit \<Rightarrow> m3)"
  by (cases l) simp_all

lemma Deliver_keeps: "keeps I (Deliver E cx now n job)"
  unfolding Deliver_def
  by (intro keeps_sbind keeps_if keeps_basic keeps_local keeps_option keeps_modify Commit_keeps) simp

lemma Import_keeps: "keeps I (ImportCommitLogs E cx now n dec ip ls)"
  unfolding ImportCommitLogs_def import_line_def by (intro keeps_rules Commit_keeps)

end

section \<open>What commits keep\<close>

text \<open>The documents a database holds, and where they came from.\<close>

definition logged :: "db \<Rightarrow> (string \<times> proof_t) set" where
  "logged d = (\<lambda>c. (cl_document c, cl_proof c)) ` set (commit_logs d)"

definition from_commits :: "(string \<times> proof_t) set \<Rightarrow> uc_env \<Rightarrow> call_ctx \<Rightarrow> gotime \<Rightarrow> db \<Rightarrow> bool" where
  "from_commits old E cx now d \<longleftrightarrow> reachable d \<and> (\<forall>(body, prf)\<in>logged d. (body, prf) \<in> old \<or> admitted E cx now body prf)"

lemma logged_mark: "logged (MarkCommitLogGcCandidate d i) = logged d"
  using map_upd_where[of "\<lambda>c. cl_id c = i" "\<lambda>c. (cl_document c, cl_proof c)" "\<lambda>c. c\<lparr>cl_gc := True\<rparr>" "commit_logs d"]
  by (simp add: logged_def MarkCommitLogGcCandidate_def flip: set_map)

lemma logged_cong: "commit_logs d' = commit_logs d \<Longrightarrow> logged d' = logged d"
  by (simp add: logged_def)

lemma logged_create: "logged (CreateCommitLog d now i ip body prf owner) \<subseteq> insert (body, prf) (logged d)"
  by (auto simp: logged_def CreateCommitLog_def)

lemma logged_CreateRecord:
  assumes "reachable d" "CreateRecord d row key onUpdate = Some (Inr (b, d'))"
  shows "logged d' = logged d"
  using CreateRecord_commit_logs[OF reachable_ok[OF assms(1)] assms(2)] logged_mark logged_cong by metis

interpretation reach: db_ops reachable E cx now for E cx now
  by unfold_locales (blast intro: reachable.intros)+

lemma logged_writes:
  "CreateEntity d ccid alias dmn i t = Inr (b, d') \<Longrightarrow> logged d' = logged d"
  "CreateAssociation d i u ow au sc va un t = Inr (b, d') \<Longrightarrow> logged d' = logged d"
  "processAck d i f g s c v = Inr (b, d') \<Longrightarrow> logged d' = logged d"
  "processAcked d i f g s c v = Inr (b, d') \<Longrightarrow> logged d' = logged d"
  by (rule logged_cong; auto simp: CreateEntity_def CreateAssociation_def processAck_def processAcked_def rbind_eq_Inr
      split: if_splits prod.splits)+

lemma logged_deletes: "logged (DeleteRecordByKey d u) = logged d" "logged (DeleteRecordByDocumentID d i) = logged d"
  "logged (DeleteAssociation d i) = logged d"
  by (rule logged_cong; simp add: DeleteRecordByKey_def DeleteRecordByDocumentID_def DeleteAssociation_def split: option.splits)+

lemma from_commits_same: "from_commits old E cx now d \<Longrightarrow> reachable d' \<Longrightarrow> logged d' = logged d \<Longrightarrow> from_commits old E cx now d'"
  by (simp add: from_commits_def)

lemma from_commits_reachable: "from_commits old E cx now d \<Longrightarrow> reachable d"
  by (simp add: from_commits_def)

interpretation prov: db_ops "from_commits old E cx now" E cx now for old E cx now
proof unfold_locales
  fix d t p i ip owner
  assume "from_commits old E cx now d" "admitted E cx now t p"
  then show "from_commits old E cx now (CreateCommitLog d now i ip t p owner)"
    using logged_create[of d now i ip t p owner] reachable.create_log by (fastforce simp: from_commits_def)
qed (frule from_commits_reachable, erule from_commits_same,
      (erule (1) reachable.create_entity reachable.create_record reachable.create_association reachable.ack reachable.acked
       | erule reachable.mark reachable.delete_key reachable.delete_id reachable.delete_association),
      (erule logged_writes | erule (1) logged_CreateRecord | rule logged_mark logged_deletes))+


text \<open>C5. Nothing enters the commit log unchecked: every document logged after a commit was logged before it,
  or is at most 32 KiB long, dated at most twelve hours ahead, and, unless the caller is the
  system's service account, was verified with the proofs allowed for its kind.\<close>

theorem Commit_provenance:
  assumes "reachable (w_db w)" "Commit E cx now n ip sd mode w = Some (r, w')" "c \<in> set (commit_logs (w_db w'))"
  shows "(\<exists>c0\<in>set (commit_logs (w_db w)). cl_document c0 = cl_document c \<and> cl_proof c0 = cl_proof c)
    \<or> admitted E cx now (cl_document c) (cl_proof c)"
proof -
  have "from_commits (logged (w_db w)) E cx now (w_db w)" using assms(1) by (auto simp: from_commits_def)
  from keepsD[OF prov.Commit_keeps this assms(2)] have "from_commits (logged (w_db w)) E cx now (w_db w')" .
  then have "(cl_document c, cl_proof c) \<in> logged (w_db w) \<or> admitted E cx now (cl_document c) (cl_proof c)"
    using assms(3) by (auto simp: from_commits_def logged_def)
  then show ?thesis by (auto simp: logged_def)
qed

section \<open>Failed, repeated and blocked commits\<close>

text \<open>Two states that differ in caches only.\<close>

definition untouched :: "world \<Rightarrow> world \<Rightarrow> bool" where
  "untouched w w' \<longleftrightarrow> w_db w' = w_db w \<and> w_metas w' = w_metas w \<and> w_jobs w' = w_jobs w \<and> w_published w' = w_published w
     \<and> w_removed w' = w_removed w \<and> w_invalidated w' = w_invalidated w"

interpretation idle: handler_invariant "\<lambda>_. True" E cx now "untouched w" for E cx now w
  by unfold_locales (simp_all add: untouched_def)

lemma triple_True: "triple P m (\<lambda>_ _. True) (\<lambda>_ _. True)"
  by (simp add: triple_def split: sum.splits)

lemma smap_attempt_ok: "smap (\<lambda>p. attempt (f p)) xs s = Some (r, s') \<Longrightarrow> \<exists>ys. r = Inr ys"
  by (induction xs arbitrary: s r) (auto simp: act_simps)

lemma finish_commit_no_error: "triple P (finish_commit E doc r) (\<lambda>_ _. True) (\<lambda>_ _. False)"
  by (cases r) (auto simp: triple_def finish_commit_def act_simps split: sum.splits dest: smap_attempt_ok)

text \<open>C8. A commit that is refused leaves no trace: unless it had to commit another document on its way, an
  error means that the database, the queue, the published events and the advertised removals
  are as they were.\<close>

theorem Commit_error_atomic:
  assumes "Commit E cx now (Suc 0) ip sd mode w = Some (Inl e, w')"
  shows "untouched w w'"
proof -
  have fin: "triple (idle.tx_post w r) (finish_commit E doc r) (\<lambda>_ _. True) (\<lambda>_. untouched w)" for doc r
    by (rule triple_conseq[OF finish_commit_no_error]) auto
  have "triple (untouched w) (commit_body E cx now no_rec ip sd mode) (\<lambda>_ _. True) (\<lambda>_. untouched w)"
    by (rule idle.commit_body_triple[OF idle.keeps_no_rec fin]) simp
  from tripleD[OF this _ assms[unfolded Commit.simps]] show ?thesis by (simp add: untouched_def)
qed

lemma commit_body_logged:
  assumes "length (sd_document sd) \<le> MaxDocumentSize" "dec_doc (ue_codec E) (sd_document sd) = Some doc" "rejectAliasOwners doc = Inr ()"
    and "CDID (ue_codec E) sd = Some i" "HasCommitLog (w_db w) i"
  shows "commit_body E cx now rec ip sd mode w = Some (Inr sd, w)"
  using assms by (simp add: commit_body_def sbind_decode seq_def sbind_def document_CDID_def act_simps)

lemma commit_body_Inr:
  assumes "commit_body E cx now rec ip sd mode w = Some (Inr r, w')"
  obtains doc i where "length (sd_document sd) \<le> MaxDocumentSize" "dec_doc (ue_codec E) (sd_document sd) = Some doc"
    "rejectAliasOwners doc = Inr ()" "CDID (ue_codec E) sd = Some i"
  using assms
  by (auto simp: commit_body_def sbind_decode act_simps document_CDID_def not_less split: if_splits option.splits)

text \<open>C9. Committing is idempotent: a document that was accepted and is in the log is acknowledged again
  without any effect, from whatever address, mode, caller and at whatever time it is replayed.\<close>

theorem Commit_replay:
  assumes "Commit E cx now n ip sd mode w = Some (Inr r, w')" "CDID (ue_codec E) sd = Some i" "HasCommitLog (w_db w') i"
  shows "Commit E cx' now' (Suc m) ip' sd mode' w' = Some (Inr sd, w')"
proof (cases n)
  case 0
  then show ?thesis using assms(1) by (simp add: no_rec_def)
next
  case (Suc k)
  with assms(1) obtain doc j where "length (sd_document sd) \<le> MaxDocumentSize" "dec_doc (ue_codec E) (sd_document sd) = Some doc"
      "rejectAliasOwners doc = Inr ()" by (auto elim: commit_body_Inr)
  then show ?thesis using assms(2,3) by (simp add: commit_body_logged)
qed

section \<open>Instances\<close>

text \<open>A resident's first entity document, committed by the system's service account.\<close>

definition entity_doc :: document where
  "entity_doc = zero_document\<lparr>d_kind := ''entity'', d_author := ''con1a'', d_createdAt := 5\<rparr>"

definition entity_sd :: signed_document where
  "entity_sd = bare_sd ''{}'' (Proof ProofTypeNone None None None None None)"

definition demo_uc :: uc_env where
  "demo_uc = \<lparr>ue_codec = demo_codec\<lparr>dec_doc := \<lambda>t. if t = ''{}'' then Some entity_doc else None,
       dec_entity := \<lambda>_. Some (entity_doc, \<lparr>ev_domain = ''h'', ev_alias = None, ev_aliasProofType = None\<rparr>)\<rparr>,
     ue_crypto = demo_crypto, ue_policy = demo_env, ue_config = \<lparr>cf_FQDN = ''h'', cf_CSID = ''s'', cf_Layer = ''l'', cf_Registration = ''open''\<rparr>,
     ue_endpoints = [], ue_resolver = None, ue_resolve_host = (\<lambda>_. Inl (EOther [])), ue_resolve_uri = (\<lambda>_. Inl (EOther [])),
     ue_get_resource = (\<lambda>_ _. Inl (EOther [])), ue_remote_commit = (\<lambda>_ _. Inl (EOther [])), ue_lookup_txt = (\<lambda>_. Inl True),
     ue_server_repo = (\<lambda>_. Inl (EOther [])), ue_xxh3 = id, ue_enc_value = (\<lambda>_. None)\<rparr>"

definition system_ctx :: call_ctx where
  "system_ctx = \<lparr>cx_requester = None, cx_serviceAccountType = ''system''\<rparr>"

definition demo_world :: world where
  "demo_world = \<lparr>w_db = empty_db, w_metas = [\<lparr>em_id = ''con1a'', em_inviter = None, em_info = []\<rparr>], w_policy = demo_service, w_cache = [],
     w_jobs = [], w_published = [], w_removed = [], w_invalidated = [], w_flags = [], w_spawned = []\<rparr>"

lemma demo_owner: "ParseCCURI (owner_uri ''con1a'' None) = Inr (zero_ccuri\<lparr>cu_scheme := ''cckv'', cu_owner := ''con1a'', cu_raw := ''cckv://con1a''\<rparr>)"
  by code_simp

lemma demo_commit:
  "\<exists>w' i. Commit demo_uc system_ctx 5 (Suc 0) [] entity_sd CommitModeExecute demo_world = Some (Inr entity_sd, w')
     \<and> CDID (ue_codec demo_uc) entity_sd = Some i \<and> HasCommitLog (w_db w') i \<and> entities (w_db w') \<noteq> []
     \<and> map cl_document (commit_logs (w_db w')) = [''{}'']"
proof -
  define i where "i = document_id (ue_codec demo_uc) ''{}'' 5"
  have doc: "dec_doc (ue_codec demo_uc) ''{}'' = Some entity_doc"
    "dec_entity (ue_codec demo_uc) ''{}'' = Some (entity_doc, \<lparr>ev_domain = ''h'', ev_alias = None, ev_aliasProofType = None\<rparr>)"
    "cf_FQDN (ue_config demo_uc) = ''h''" by (simp_all add: demo_uc_def)
  have cd: "CDID (ue_codec demo_uc) entity_sd = Some i" by (simp add: CDID_def ParsedDocument_def entity_sd_def doc i_def entity_doc_def)
  have sd: "sd_document entity_sd = ''{}''" "pf_type (sd_proof entity_sd) = ProofTypeNone" by (simp_all add: entity_sd_def)
  have rej: "rejectAliasOwners entity_doc = Inr ()"
    by (simp add: rejectAliasOwners_def entity_doc_def zero_document_def distributionsFromPtr_def)
  have ed: "d_kind entity_doc = ''entity''" "d_author entity_doc = ''con1a''" "d_createdAt entity_doc = 5" "d_key entity_doc = []" "d_associate entity_doc = None"
    by (simp_all add: entity_doc_def zero_document_def)
  have req: "resolve_requester demo_uc no_rec [] entity_doc entity_sd demo_world = Some (Inr zero_entity, demo_world)"
    unfolding resolve_requester_def GetEntity_def ed
    by (simp add: sbind_def attempt_def parse_uri_def demo_owner act_simps rmap_err_def zero_ccuri_def get_entity_ccid_def repo_read_def
        GetEntityByCCID_def demo_world_def empty_db_def is_acked_kind_def ed)
  obtain tx where tx: "saveEntity demo_uc 5 [] entity_sd demo_world = Some (Inr (applied_result entity_sd [], tx), demo_world)"
      "HasCommitLog tx i" "entities tx \<noteq> []" "map cl_document (commit_logs tx) = [''{}'']"
    by (simp add: saveEntity_def sbind_def seq_def act_simps sd doc ed demo_world_def GetMeta_def check_alias_def document_CDID_def cd
        CreateEntity_def upsert_entity_def CreateCommitLog_def empty_db_def has_log_def HasCommitLog_def find_log_def)
  have "Commit demo_uc system_ctx 5 (Suc 0) [] entity_sd CommitModeExecute demo_world =
      finish_commit demo_uc entity_doc (applied_result entity_sd [], tx) demo_world"
    using tx(1) req
    by (simp add: commit_body_def sbind_decode seq_def sbind_def act_simps sd doc rej document_CDID_def cd demo_world_def[symmetric] ed
        MaxDocumentSize_def MaxFutureSkew_def seconds_def is_service_account_def system_ctx_def target_user_def check_block_def applyCommit_def
        HasCommitLog_def find_log_def) (simp add: demo_world_def empty_db_def)
  then show ?thesis using tx cd
    by (auto simp: finish_commit_def applied_result_def sbind_def seq_def act_simps)
qed


theorem Commit_provenance_witness:
  "\<exists>w' c. Commit demo_uc system_ctx 5 (Suc 0) [] entity_sd CommitModeExecute demo_world = Some (Inr entity_sd, w')
     \<and> c \<in> set (commit_logs (w_db w')) \<and> cl_document c = ''{}'' \<and> admitted demo_uc system_ctx 5 (cl_document c) (cl_proof c)"
proof -
  obtain w' where c: "Commit demo_uc system_ctx 5 (Suc 0) [] entity_sd CommitModeExecute demo_world = Some (Inr entity_sd, w')"
    and l: "map cl_document (commit_logs (w_db w')) = [''{}'']" using demo_commit by (elim exE conjE) (rule that)
  from l obtain x where x: "x \<in> set (commit_logs (w_db w'))" "cl_document x = ''{}''" by (cases "commit_logs (w_db w')") auto
  have "reachable (w_db demo_world)" by (simp add: demo_world_def reachable.init)
  note adm = Commit_provenance[OF this c x(1)]
  have "commit_logs (w_db demo_world) = []" by (simp add: demo_world_def empty_db_def)
  with adm have "admitted demo_uc system_ctx 5 (cl_document x) (cl_proof x)" by simp
  with c x show ?thesis by blast
qed

theorem Commit_error_atomic_witness:
  "\<exists>e w'. Commit demo_uc (system_ctx\<lparr>cx_serviceAccountType := []\<rparr>) 5 (Suc 0) [] (bare_sd ''x'' (sd_proof entity_sd)) CommitModeExecute demo_world = Some (Inl e, w')
     \<and> untouched demo_world w'"
proof -
  have "Commit demo_uc (system_ctx\<lparr>cx_serviceAccountType := []\<rparr>) 5 (Suc 0) [] (bare_sd ''x'' (sd_proof entity_sd)) CommitModeExecute demo_world
      = Some (Inl (EOther ''unmarshal''), demo_world)"
    by (simp add: commit_body_def sbind_decode act_simps demo_uc_def MaxDocumentSize_def)
  from this Commit_error_atomic[OF this] show ?thesis by blast
qed

theorem Commit_replay_witness:
  "\<exists>w'. entities (w_db w') \<noteq> [] \<and> Commit demo_uc system_ctx 900 (Suc 0) ''ip'' entity_sd CommitModeLocalOnlyExecute w' = Some (Inr entity_sd, w')"
proof -
  obtain w' i where c: "Commit demo_uc system_ctx 5 (Suc 0) [] entity_sd CommitModeExecute demo_world = Some (Inr entity_sd, w')"
    and i: "CDID (ue_codec demo_uc) entity_sd = Some i" "HasCommitLog (w_db w') i" and e: "entities (w_db w') \<noteq> []" using demo_commit by blast
  from Commit_replay[OF c i] e show ?thesis by blast
qed

end
