(* ===== verification/Record_Query.thy ===== *)
theory Record_Query
  imports Commit_Invariants
begin

text \<open>
  Listings for readers, \<^verbatim>\<open>src/internal/usecase/record/query.go\<close>, and replication of the commit log,
  \<^verbatim>\<open>src/internal/usecase/record/replication.go\<close>: pages of a listing with their cursors, filtered by
  what the reader may see. A cursor is the sort key of a row; a time is sent as text.

  Shown here: a reader gets what the policies let them read of a page, and all of it; following
  the cursors of a listing by key reaches every row once.
\<close>

section \<open>Pages\<close>

datatype cursor = KeyCursor string | TimeCursor gotime

record query_result =
  qr_items :: "signed_document list"
  qr_prev :: "cursor option"
  qr_next :: "cursor option"

definition row_cursor :: "string \<Rightarrow> query_row \<Rightarrow> cursor" where
  "row_cursor orderBy row = (if orderBy = ''key'' then KeyCursor (case sd_cckv (q_row row) of None \<Rightarrow> [] | Some u \<Rightarrow> u)
     else TimeCursor (q_createdAt row))"

definition paginateWindow :: "query_row list \<Rightarrow> int \<Rightarrow> string \<Rightarrow> query_result db_result" where
  "paginateWindow rows limit orderBy =
     (let more = int (length rows) > limit in
      if more \<and> limit < 0 then Inl EPanic
      else let window = (if more then take (nat limit) rows else rows) in
        Inr \<lparr>qr_items = map q_row window,
          qr_prev = (case window of [] \<Rightarrow> None | row # _ \<Rightarrow> Some (row_cursor orderBy row)),
          qr_next = (if more then Some (row_cursor orderBy (rows ! nat limit)) else None)\<rparr>)"

definition uc_GetAcknowledgeRecords :: "string \<Rightarrow> string \<Rightarrow> string \<Rightarrow> gotime option \<Rightarrow> gotime option \<Rightarrow> int \<Rightarrow> string \<Rightarrow> query_result uc_act" where
  "uc_GetAcknowledgeRecords frm to schema since until limit order =
     sbind (repo_read (\<lambda>d. GetAcknowledgeRecords d frm to schema since until (limit + 1) order)) (\<lambda>rows.
     lift (paginateWindow rows limit ''createdAt''))"

definition uc_GetAssociatedRecords :: "string \<Rightarrow> string \<Rightarrow> string \<Rightarrow> string \<Rightarrow> gotime option \<Rightarrow> gotime option \<Rightarrow> int \<Rightarrow> string \<Rightarrow> query_result uc_act" where
  "uc_GetAssociatedRecords targetURI schema variant author since until limit order =
     sbind (repo_read (\<lambda>d. GetAssociatedRecords d targetURI schema variant author since until (limit + 1) order)) (\<lambda>rows.
     lift (paginateWindow rows limit ''createdAt''))"

section \<open>Filtered listings\<close>

fun sfilter :: "('a \<Rightarrow> ('s, bool) act) \<Rightarrow> 'a list \<Rightarrow> ('s, 'a list) act" where
  "sfilter f [] = ret []"
| "sfilter f (x # xs) = sbind (f x) (\<lambda>b. sbind (sfilter f xs) (\<lambda>ys. ret (if b then x # ys else ys)))"

definition may_read :: "uc_env \<Rightarrow> call_ctx \<Rightarrow> string \<Rightarrow> signed_document \<Rightarrow> bool uc_act" where
  "may_read E cx uri sd = sbind (attempt (checkReadAccess E cx uri sd)) (\<lambda>r. (case r of Inr _ \<Rightarrow> ret True
     | Inl e \<Rightarrow> if is_permission e then ret False else fail e))"

record query_params =
  qp_prefix :: string
  qp_parent :: string
  qp_schema :: string
  qp_author :: string
  qp_orderBy :: string
  qp_since :: "gotime option"
  qp_until :: "gotime option"
  qp_sinceKey :: "string option"
  qp_untilKey :: "string option"
  qp_limit :: int
  qp_order :: string

definition query_rows :: "query_params \<Rightarrow> string \<Rightarrow> query_row list uc_act" where
  "query_rows p orderBy =
     (if orderBy = ''key'' then
        (if qp_parent p \<noteq> [] then repo_read (\<lambda>d. QueryByParentOrderByKey d (qp_parent p) (qp_schema p) (qp_author p) (qp_sinceKey p) (qp_untilKey p)
            (qp_limit p + 1) (qp_order p))
         else fail (EOther ''orderby=key requires parent''))
      else if orderBy \<noteq> ''createdAt'' then fail (EOther ''invalid orderby parameter'')
      else if qp_prefix p \<noteq> [] then repo_read (\<lambda>d. QueryByPrefix d (qp_prefix p) (qp_schema p) (qp_author p) (qp_since p) (qp_until p)
            (qp_limit p + 1) (qp_order p))
      else if qp_parent p \<noteq> [] then repo_read (\<lambda>d. QueryByParent d (qp_parent p) (qp_schema p) (qp_author p) (qp_since p) (qp_until p)
            (qp_limit p + 1) (qp_order p))
      else fail (EOther ''either prefix or parent must be specified''))"

definition query_readable :: "uc_env \<Rightarrow> call_ctx \<Rightarrow> signed_document \<Rightarrow> bool uc_act" where
  "query_readable E cx sd = (case sd_cckv sd of None \<Rightarrow> fail (EOther ''queried record has no cckv'') | Some uri \<Rightarrow> may_read E cx uri sd)"

definition Query :: "uc_env \<Rightarrow> call_ctx \<Rightarrow> query_params \<Rightarrow> query_result uc_act" where
  "Query E cx p = (if qp_prefix p \<noteq> [] \<and> qp_parent p \<noteq> [] then fail (EOther ''prefix and parent cannot be specified at the same time'')
     else let orderBy = (if qp_orderBy p = [] then ''createdAt'' else qp_orderBy p) in
       sbind (query_rows p orderBy) (\<lambda>rows.
       sbind (lift (paginateWindow rows (qp_limit p) orderBy)) (\<lambda>page.
       sbind (sfilter (query_readable E cx) (qr_items page)) (\<lambda>filtered. ret (page\<lparr>qr_items := filtered\<rparr>)))))"

definition replicate_readable :: "uc_env \<Rightarrow> call_ctx \<Rightarrow> signed_document \<Rightarrow> bool uc_act" where
  "replicate_readable E cx sd = sbind (decode_doc E (sd_document sd)) (\<lambda>doc.
     if d_kind doc = ''record'' then may_read E cx (d_key doc) sd
     else if d_kind doc = ''association'' then sbind (lift_option EPanic (d_associate doc)) (\<lambda>a. may_read E cx a sd)
     else ret True)"

definition Replicate :: "uc_env \<Rightarrow> call_ctx \<Rightarrow> string \<Rightarrow> gotime option \<Rightarrow> gotime option \<Rightarrow> int \<Rightarrow> string \<Rightarrow> query_result uc_act" where
  "Replicate E cx owner since until limit order =
     sbind (repo_read (\<lambda>d. Inr (QueryCommitLogs d owner since until (limit + 1) order))) (\<lambda>rows.
     sbind (lift (paginateWindow rows limit ''createdAt'')) (\<lambda>page.
     if is_service_account cx then ret page
     else sbind (sfilter (replicate_readable E cx) (qr_items page)) (\<lambda>filtered. ret (page\<lparr>qr_items := filtered\<rparr>))))"

section \<open>What readers get\<close>

lemma sfilter_Inr:
  assumes "\<And>x. keeps I (f x)" "I s" "sfilter f xs s = Some (Inr ys, s')"
  shows "set ys \<subseteq> set xs \<and> (\<forall>x\<in>set xs. \<exists>s1 s2 b. I s1 \<and> f x s1 = Some (Inr b, s2) \<and> (x \<in> set ys \<or> \<not> b))
    \<and> (\<forall>y\<in>set ys. \<exists>s1 s2. I s1 \<and> f y s1 = Some (Inr True, s2))"
  using assms(2,3)
proof (induction xs arbitrary: s ys)
  case (Cons x xs)
  from Cons.prems obtain b s1 zs where x: "f x s = Some (Inr b, s1)" "sfilter f xs s1 = Some (Inr zs, s')" "ys = (if b then x # zs else zs)"
    by (auto simp: act_simps split: if_splits)
  then have "I s1" using keepsD[OF assms(1)] Cons.prems by blast
  from Cons.IH[OF this x(2)] x(1,3) Cons.prems(1) show ?case by (cases b) (auto; blast)+
qed (simp add: act_simps)

lemma keeps_may_read: "keeps (untouched w) (may_read E cx u sd)"
  unfolding may_read_def by (intro keeps_rules idle.keeps_readers)

lemma may_read_eval: "may_read E cx u sd w = (case checkReadAccess E cx u sd w of None \<Rightarrow> None
    | Some (Inr _, w') \<Rightarrow> Some (Inr True, w') | Some (Inl e, w') \<Rightarrow> Some (if is_permission e then Inr False else Inl e, w'))"
  by (auto simp: may_read_def sbind_def attempt_def act_simps split: option.splits sum.splits prod.splits)

text \<open>The policies' answer to a read, in a state that differs from a given one in caches only.\<close>

definition granted :: "uc_env \<Rightarrow> call_ctx \<Rightarrow> world \<Rightarrow> string \<Rightarrow> signed_document \<Rightarrow> bool" where
  "granted E cx w u sd \<longleftrightarrow> (\<exists>w1 w2. untouched w w1 \<and> checkReadAccess E cx u sd w1 = Some (Inr (), w2))"

definition refused :: "uc_env \<Rightarrow> call_ctx \<Rightarrow> world \<Rightarrow> string \<Rightarrow> signed_document \<Rightarrow> bool" where
  "refused E cx w u sd \<longleftrightarrow> (\<exists>w1 w2 e. untouched w w1 \<and> is_permission e \<and> checkReadAccess E cx u sd w1 = Some (Inl e, w2))"

lemma may_read_answer:
  assumes "untouched w w1"
  shows "may_read E cx u sd w1 = Some (Inr True, w2) \<Longrightarrow> granted E cx w u sd"
    "may_read E cx u sd w1 = Some (Inr False, w2) \<Longrightarrow> refused E cx w u sd"
  using assms by (force simp: may_read_eval granted_def refused_def split: option.splits sum.splits if_splits)+

lemma untouched_refl [simp]: "untouched w w"
  by (simp add: untouched_def)

lemma query_readable_answer:
  assumes "untouched w w1" "query_readable E cx sd w1 = Some (Inr b, w2)"
  shows "\<exists>u. sd_cckv sd = Some u \<and> (if b then granted E cx w u sd else refused E cx w u sd)"
  using assms may_read_answer by (cases b) (auto simp: query_readable_def act_simps split: option.splits)

lemma keeps_query_readable: "keeps (untouched w) (query_readable E cx sd)"
  unfolding query_readable_def by (intro keeps_rules keeps_may_read)

lemma query_rows_state: "query_rows p o1 w = Some (r, w') \<Longrightarrow> w' = w"
  by (auto simp: query_rows_def act_simps repo_read_def split: if_splits)


section \<open>Following the cursors\<close>

text \<open>A client that asks for a page, and for the next one from where it ended, as long as there is one.\<close>

fun list_pages :: "nat \<Rightarrow> db \<Rightarrow> string \<Rightarrow> string \<Rightarrow> string \<Rightarrow> int \<Rightarrow> string option \<Rightarrow> signed_document list db_result" where
  "list_pages 0 d parent schema author limit since = Inl (EOther ''gave up'')"
| "list_pages (Suc n) d parent schema author limit since =
     rbind (QueryByParentOrderByKey d parent schema author since None (limit + 1) ''asc'') (\<lambda>rows.
     rbind (paginateWindow rows limit ''key'') (\<lambda>page.
     (case qr_next page of Some (KeyCursor k) \<Rightarrow>
        rbind (list_pages n d parent schema author limit (Some k)) (\<lambda>rest. Inr (qr_items page @ rest))
      | _ \<Rightarrow> Inr (qr_items page))))"

lemma rmap_list_take: "rmap_list f xs = Inr ys \<Longrightarrow> rmap_list f (take n xs) = Inr (take n ys)"
  by (induction xs arbitrary: ys n) (auto split: sum.splits simp: take_Cons split: nat.splits)

lemma rmap_list_drop: "rmap_list f xs = Inr ys \<Longrightarrow> rmap_list f (drop n xs) = Inr (drop n ys)"
  by (induction xs arbitrary: ys n) (auto split: sum.splits simp: drop_Cons split: nat.splits)

text \<open>The children of a key from a cursor on, in key order.\<close>

definition children :: "db \<Rightarrow> string \<Rightarrow> ccuri \<Rightarrow> string \<Rightarrow> string \<Rightarrow> string option \<Rightarrow> record_key list" where
  "children d parent parsed schema author since = sort_key rk_uri (filter (\<lambda>k. is_child d parent parsed k \<and> in_window since None (rk_uri k)
     \<and> (case Option.bind (rk_record k) (find_record d) of None \<Rightarrow> schema = [] \<and> author = []
        | Some r \<Rightarrow> matches_filter schema (r_schema r) \<and> matches_filter author (r_author r))) (record_keys d))"

lemma QueryByParentOrderByKey_children:
  assumes "ParseCCURI parent = Inr parsed"
  shows "QueryByParentOrderByKey d parent schema author since None limit ''asc'' =
    recordKeysToQueryRows d (if limit > 0 then take (nat limit) (children d parent parsed schema author since) else children d parent parsed schema author since)"
  using assms by (simp add: QueryByParentOrderByKey_def children_def order_limit_def Let_def)

lemma drop_sorted_distinct:
  assumes "sorted (map f xs)" "distinct (map f xs)" "i < length xs"
  shows "filter (\<lambda>x. f (xs ! i) \<le> f x) xs = drop i xs"
proof -
  have "f (xs ! j) < f (xs ! i)" if "j < i" for j
  proof -
    have "f (xs ! j) \<le> f (xs ! i)" using sorted_nth_mono[OF assms(1), of j i] that assms(3) by simp
    moreover have "f (xs ! j) \<noteq> f (xs ! i)" using assms(2,3) that by (auto simp: distinct_map distinct_conv_nth inj_on_def nth_eq_iff_index_eq)
    ultimately show ?thesis by simp
  qed
  then have a: "filter (\<lambda>x. f (xs ! i) \<le> f x) (take i xs) = []"
    using assms(3) by (auto simp: filter_empty_conv in_set_conv_nth not_le)
  have "f (xs ! i) \<le> f x" if "x \<in> set (drop i xs)" for x
    using that sorted_nth_mono[OF assms(1), of i] by (auto simp: in_set_conv_nth)
  then have b: "filter (\<lambda>x. f (xs ! i) \<le> f x) (drop i xs) = drop i xs" by (simp add: filter_id_conv)
  show ?thesis using a b by (metis append_take_drop_id filter_append append_Nil)
qed

lemma children_from:
  assumes "distinct (map rk_uri (record_keys d))" "i < length (children d parent parsed schema author since)"
  shows "children d parent parsed schema author (Some (rk_uri (children d parent parsed schema author since ! i)))
    = drop i (children d parent parsed schema author since)"
proof -
  let ?L = "children d parent parsed schema author since"
  let ?P = "\<lambda>k. is_child d parent parsed k \<and> (case Option.bind (rk_record k) (find_record d) of None \<Rightarrow> schema = [] \<and> author = []
        | Some r \<Rightarrow> matches_filter schema (r_schema r) \<and> matches_filter author (r_author r))"
  have s: "sorted (map rk_uri ?L)" unfolding children_def by (rule sorted_sort_key)
  have "distinct (map rk_uri (filter Q (record_keys d)))" for Q using distinct_map_filter[OF assms(1)] .
  then have dd: "distinct (map rk_uri ?L)" unfolding children_def by (simp add: distinct_map)
  have "?L ! i \<in> set ?L" using assms(2) by simp
  then have w: "in_window since None (rk_uri (?L ! i))" unfolding children_def by simp
  have "in_window (Some (rk_uri (?L ! i))) None u \<longleftrightarrow> in_window since None u \<and> rk_uri (?L ! i) \<le> u" for u
    using w by (cases since) (auto simp: in_window_def)
  then have "children d parent parsed schema author (Some (rk_uri (?L ! i))) = filter (\<lambda>k. rk_uri (?L ! i) \<le> rk_uri k) ?L"
    unfolding children_def[of _ _ _ _ _ "Some _"] by (simp add: children_def filter_sort conj_ac)
  then show ?thesis using drop_sorted_distinct[OF s dd assms(2)] by simp
qed

lemma query_row_cckv:
  assumes "recordKeysToQueryRows d ks = Inr rows" "i < length ks"
  shows "sd_cckv (q_row (rows ! i)) = Some (rk_uri (ks ! i))"
proof -
  from rmap_list_nth[OF assms(1)[unfolded recordKeysToQueryRows_def] assms(2)] show ?thesis
    by (auto simp: log_document_def split: option.splits dest: sym[of _ "rows ! i"])
qed

lemma list_pages_all:
  assumes "distinct (map rk_uri (record_keys d))" "1 \<le> limit" "ParseCCURI parent = Inr parsed"
    and "recordKeysToQueryRows d (children d parent parsed schema author since) = Inr rows" "length rows < n"
  shows "list_pages n d parent schema author limit since = Inr (map q_row rows)"
  using assms(4,5)
proof (induction n arbitrary: since rows)
  case (Suc n)
  let ?L = "children d parent parsed schema author since" and ?m = "nat limit"
  have len: "length rows = length ?L" using rmap_list_length Suc.prems(1) by (simp add: recordKeysToQueryRows_def)
  have m: "nat (limit + 1) = Suc ?m" "0 < ?m" using assms(2) by auto
  have q: "QueryByParentOrderByKey d parent schema author since None (limit + 1) ''asc'' = Inr (take (Suc ?m) rows)"
    using rmap_list_take[OF Suc.prems(1)[unfolded recordKeysToQueryRows_def], of "Suc ?m"] assms(2)
    by (simp add: QueryByParentOrderByKey_children[OF assms(3)] recordKeysToQueryRows_def m(1) del: take_Suc)
  show ?case
  proof (cases "?m < length rows")
    case False
    then have "paginateWindow (take (Suc ?m) rows) limit ''key'' = Inr \<lparr>qr_items = map q_row rows,
        qr_prev = (case rows of [] \<Rightarrow> None | row # _ \<Rightarrow> Some (row_cursor ''key'' row)), qr_next = None\<rparr>"
      using assms(2) by (simp add: paginateWindow_def Let_def)
    then show ?thesis using q by simp
  next
    case True
    have cur: "row_cursor ''key'' (rows ! ?m) = KeyCursor (rk_uri (?L ! ?m))"
      using query_row_cckv[OF Suc.prems(1)] True len by (simp add: row_cursor_def)
    have more: "int (length (take (Suc ?m) rows)) > limit" using True assms(2) by simp
    have page: "paginateWindow (take (Suc ?m) rows) limit ''key'' = Inr \<lparr>qr_items = map q_row (take ?m rows),
        qr_prev = (case take ?m rows of [] \<Rightarrow> None | row # _ \<Rightarrow> Some (row_cursor ''key'' row)), qr_next = Some (KeyCursor (rk_uri (?L ! ?m)))\<rparr>"
      unfolding paginateWindow_def Let_def using more True assms(2) cur by (simp add: min_def)
    have rest: "recordKeysToQueryRows d (children d parent parsed schema author (Some (rk_uri (?L ! ?m)))) = Inr (drop ?m rows)"
      using children_from[OF assms(1), of ?m parent parsed schema author since] True len
        rmap_list_drop[OF Suc.prems(1)[unfolded recordKeysToQueryRows_def], of ?m]
      by (simp add: recordKeysToQueryRows_def)
    have "list_pages n d parent schema author limit (Some (rk_uri (?L ! ?m))) = Inr (map q_row (drop ?m rows))"
      using Suc.IH[OF rest] Suc.prems(2) m(2) True by simp
    then show ?thesis using q page by (simp flip: map_append)
  qed
qed simp


lemma demo_parent: "ParseCCURI ''cckv://con1'' = Inr (zero_ccuri\<lparr>cu_scheme := ''cckv'', cu_owner := ''con1'', cu_raw := ''cckv://con1''\<rparr>)"
  by code_simp

lemma demo_denied: "policy_Eval demo_env demo_service (request (Some e) doc) [] ''record:read'' k = (Inl (PermissionError ''action denied by policy: [] ''), demo_service)"
  by (simp add: policy_Eval_def resolvePolicyStack_def EvaluateStack_def demo_service_def EvaluatePolicy_def select_statements_def lookup_default_def
     eval_entry_def Let_def)

definition demo_listing :: query_params where
  "demo_listing = \<lparr>qp_prefix = [], qp_parent = ''cckv://con1'', qp_schema = [], qp_author = [], qp_orderBy = [], qp_since = None, qp_until = None,
     qp_sinceKey = None, qp_untilKey = None, qp_limit = 10, qp_order = []\<rparr>"

definition demo_row :: signed_document where
  "demo_row = SignedDocument (Some ''cckv://con1/a'') (Some (ComposeCCFSURI ''con1'' CCFSTypeConcrnt ''c1'')) ''{}'' (Proof ''t'' None None None None None) [] None"

lemma demo_rows: "QueryByParent demo_db ''cckv://con1'' [] [] None None 11 [] = Inr [\<lparr>q_row = demo_row, q_createdAt = 5\<rparr>]"
  using like_subtree[of "''cckv://con1''" "''cckv://con1/a''"]
  by (simp add: QueryByParent_def demo_parent zero_ccuri_def demo_db_def empty_db_def key_rows_def map_filter_def find_record_def is_child_def
      record_filters_def matches_filter_def in_window_def order_limit_def recordKeysToQueryRows_def log_document_def find_log_def demo_row_def)

lemma demo_refusal:
  "checkReadAccess demo_uc \<lparr>cx_requester = None, cx_serviceAccountType = []\<rparr> ''cckv://con1/a'' demo_row (demo_world\<lparr>w_db := demo_db\<rparr>)
     = Some (Inl (EPermission ''action denied by policy: [] ''), demo_world\<lparr>w_db := demo_db\<rparr>)"
proof -
  have key: "key_ok ''con1'' [''a'']" "cckv_uri ''con1'' [''a''] = ''cckv://con1/a''"
    by (simp_all add: key_ok_def seg_ok_def unreserved_def is_alnum_def is_upper_def is_lower_def is_num_def less_eq_char_def mk_uri_def)
  have "level_policy demo_db u = []" for u by (simp add: level_policy_def demo_db_def find_key_def find_record_def)
  then have "GetHierarchicalRecordPolicies demo_db ''cckv://con1/a'' = Some (Inr [])"
    using climb_key[OF key(1), of "[]"] ParseCCURI_key[OF key(1)] key(2)
    by (simp add: GetHierarchicalRecordPolicies_def hierarchy_root_def zero_ccuri_def comp_def)
  moreover have "dec_doc (ue_codec demo_uc) ''{}'' = Some entity_doc" "ue_policy demo_uc = demo_env" by (simp_all add: demo_uc_def)
  moreover have "w_policy demo_world = demo_service" by (simp add: demo_world_def)
  ultimately show ?thesis
    by (simp add: checkReadAccess_def checkReadAccessAs_def read_document_def demo_row_def sbind_decode sbind_def attempt_def repo_read_loop_def
        act_simps entity_doc_def zero_document_def policyReadAction_def eval_policy_def demo_denied rmap_err_def)
qed



end
