(* ===== verification/Job_Queue.thy ===== *)
theory Job_Queue
  imports Record_Commit "HOL-Library.Word"
begin

text \<open>
  The background job queue, \<^verbatim>\<open>src/internal/infra/jobqueue/redis.go\<close>: consumers, a mover of due retries and
  a reclaimer share a Redis stream of jobs, a sorted set of retries and a stream of dead letters.
  Redis is a parameter: what its commands answer and do, with the documented laws collected in
  \<open>redis_ok\<close>. An operation of the queue is a program of commands whose continuation depends on
  whether a command succeeded; the goroutines of all servers that share the queue interleave command
  by command, and each may stop anywhere. The effect of a handler on its owner's state takes place
  when the round that runs it starts.

  Shown here: no job is lost, whatever the interleaving and wherever consumers crash; the delay
  before a retry is the capped power it is meant to be, without overflow.
\<close>

section \<open>Jobs and programs\<close>

record job =
  j_id :: string
  j_type :: string
  j_payload :: string
  j_attempt :: int
  j_createdAt :: gotime
  j_lastError :: string

record job_codec =
  enc_job :: "job \<Rightarrow> string option"
  dec_job :: "string \<Rightarrow> job option"
  json_valid :: "string \<Rightarrow> bool"

text \<open>\<^verbatim>\<open>XADD key MAXLEN ~ n * payload p\<close> and so on; the stream of an acknowledgement is the group's.\<close>

datatype rcmd = XAdd string int string | XAck string string string | XDel string string | ZAdd string int string | ZRem string string
  | XTrimMinID string int

datatype 'a prog = Ret 'a | Do rcmd "bool \<Rightarrow> 'a prog"

primrec pbind :: "'a prog \<Rightarrow> ('a \<Rightarrow> 'b prog) \<Rightarrow> 'b prog" where
  "pbind (Ret x) g = g x"
| "pbind (Do c k) g = Do c (\<lambda>ok. pbind (k ok) g)"

definition cmd :: "rcmd \<Rightarrow> bool prog" where
  "cmd c = Do c Ret"

definition streamKey :: string where "streamKey = ''jobqueue:stream''"
definition retryZSetKey :: string where "retryZSetKey = ''jobqueue:retry''"
definition dlqStreamKey :: string where "dlqStreamKey = ''jobqueue:dlq''"
definition groupName :: string where "groupName = ''jobqueue''"

text \<open>A handler runs on the state of its owner and returns its error's text.\<close>

type_synonym 'w handler = "string \<Rightarrow> 'w \<Rightarrow> (string, unit) result \<times> 'w"

record 'w job_queue =
  q_handlers :: "(string, 'w handler) gmap"
  q_consumerName :: string
  q_concurrency :: int
  q_maxAttempts :: int
  q_baseBackoff :: "64 word"
  q_backoffCap :: "64 word"
  q_claimMinIdle :: "64 word"
  q_moverInterval :: "64 word"
  q_reclaimInterval :: "64 word"
  q_streamMaxLen :: int

section \<open>Operations\<close>

definition WithConcurrency :: "int \<Rightarrow> 'w job_queue \<Rightarrow> 'w job_queue" where
  "WithConcurrency n q = q\<lparr>q_concurrency := n\<rparr>"

definition WithMaxAttempts :: "int \<Rightarrow> 'w job_queue \<Rightarrow> 'w job_queue" where
  "WithMaxAttempts n q = q\<lparr>q_maxAttempts := n\<rparr>"

definition WithBaseBackoff :: "64 word \<Rightarrow> 'w job_queue \<Rightarrow> 'w job_queue" where
  "WithBaseBackoff d q = q\<lparr>q_baseBackoff := d\<rparr>"

definition WithBackoffCap :: "64 word \<Rightarrow> 'w job_queue \<Rightarrow> 'w job_queue" where
  "WithBackoffCap d q = q\<lparr>q_backoffCap := d\<rparr>"

definition WithClaimMinIdle :: "64 word \<Rightarrow> 'w job_queue \<Rightarrow> 'w job_queue" where
  "WithClaimMinIdle d q = q\<lparr>q_claimMinIdle := d\<rparr>"

definition WithMoverInterval :: "64 word \<Rightarrow> 'w job_queue \<Rightarrow> 'w job_queue" where
  "WithMoverInterval d q = q\<lparr>q_moverInterval := d\<rparr>"

definition WithReclaimInterval :: "64 word \<Rightarrow> 'w job_queue \<Rightarrow> 'w job_queue" where
  "WithReclaimInterval d q = q\<lparr>q_reclaimInterval := d\<rparr>"

definition WithConsumerName :: "string \<Rightarrow> 'w job_queue \<Rightarrow> 'w job_queue" where
  "WithConsumerName name q = q\<lparr>q_consumerName := name\<rparr>"

definition NewRedisJobQueue :: "string option \<Rightarrow> ('w job_queue \<Rightarrow> 'w job_queue) list \<Rightarrow> 'w job_queue" where
  "NewRedisJobQueue hostname opts = fold (\<lambda>opt q. opt q) opts
     \<lparr>q_handlers = [], q_consumerName = (case hostname of None \<Rightarrow> ''worker'' | Some h \<Rightarrow> if h = [] then ''worker'' else h),
      q_concurrency = 4, q_maxAttempts = 8, q_baseBackoff = 10000000000, q_backoffCap = 3600000000000,
      q_claimMinIdle = 300000000000, q_moverInterval = 1000000000, q_reclaimInterval = 60000000000, q_streamMaxLen = 100000\<rparr>"

definition RegisterHandler :: "string \<Rightarrow> 'w handler \<Rightarrow> 'w job_queue \<Rightarrow> 'w job_queue" where
  "RegisterHandler jobType h q = q\<lparr>q_handlers := gmap_set jobType h (q_handlers q)\<rparr>"

definition handlerFor :: "'w job_queue \<Rightarrow> string \<Rightarrow> 'w handler option" where
  "handlerFor q jobType = map_of (q_handlers q) jobType"

definition enqueueRaw :: "job_codec \<Rightarrow> 'w job_queue \<Rightarrow> job \<Rightarrow> (domain_error, unit) result prog" where
  "enqueueRaw C q job = (case enc_job C job of None \<Rightarrow> Ret (Inl (EOther ''marshal''))
     | Some payload \<Rightarrow> pbind (cmd (XAdd streamKey (q_streamMaxLen q) payload)) (\<lambda>ok. Ret (if ok then Inr () else Inl (EOther ''redis''))))"

text \<open>The caller's payload is marshalled before; \<open>uuid\<close> is the new identifier.\<close>

definition Enqueue :: "job_codec \<Rightarrow> 'w job_queue \<Rightarrow> string \<Rightarrow> gotime \<Rightarrow> string \<Rightarrow> string option \<Rightarrow> (domain_error, unit) result prog" where
  "Enqueue C q uuid now jobType raw = (case raw of None \<Rightarrow> Ret (Inl (EOther ''marshal''))
     | Some payload \<Rightarrow> enqueueRaw C q \<lparr>j_id = uuid, j_type = jobType, j_payload = payload, j_attempt = 0, j_createdAt = now, j_lastError = []\<rparr>)"

fun backoff_loop :: "nat \<Rightarrow> 64 word \<Rightarrow> 64 word \<Rightarrow> 64 word" where
  "backoff_loop 0 d capD = (if word_sless capD d then capD else d)"
| "backoff_loop (Suc n) d capD = (if word_sle capD d then capD else backoff_loop n (d * 3) capD)"

definition backoffDuration :: "int \<Rightarrow> 64 word \<Rightarrow> 64 word \<Rightarrow> 64 word" where
  "backoffDuration tries base capD = backoff_loop (nat ((if tries < 1 then 1 else tries) - 1)) base capD"

definition ackAndDel :: "string \<Rightarrow> unit prog" where
  "ackAndDel streamID = pbind (cmd (XAck streamKey groupName streamID)) (\<lambda>_. pbind (cmd (XDel streamKey streamID)) (\<lambda>_. Ret ()))"

definition scheduleRetry :: "job_codec \<Rightarrow> 'w job_queue \<Rightarrow> gotime \<Rightarrow> job \<Rightarrow> unit prog" where
  "scheduleRetry C q now job = (case enc_job C job of None \<Rightarrow> Ret ()
     | Some payload \<Rightarrow> pbind (cmd (ZAdd retryZSetKey
         (unix_milli (now + sint (backoffDuration (j_attempt job) (q_baseBackoff q) (q_backoffCap q)))) payload)) (\<lambda>_. Ret ()))"

definition deadLetterRaw :: "'w job_queue \<Rightarrow> string \<Rightarrow> unit prog" where
  "deadLetterRaw q payload = pbind (cmd (XAdd dlqStreamKey (q_streamMaxLen q) payload)) (\<lambda>_. Ret ())"

definition deadLetterJob :: "job_codec \<Rightarrow> 'w job_queue \<Rightarrow> job \<Rightarrow> unit prog" where
  "deadLetterJob C q job = (case enc_job C job of None \<Rightarrow> Ret () | Some payload \<Rightarrow> deadLetterRaw q payload)"

definition run_handler :: "'w job_queue \<Rightarrow> job \<Rightarrow> 'w \<Rightarrow> (string, unit) result \<times> 'w" where
  "run_handler q job w = (case handlerFor q (j_type job) of Some h \<Rightarrow> h (j_payload job) w
     | None \<Rightarrow> (Inl (''job queue: no handler registered for job type '' @ j_type job), w))"

definition failed_job :: "'w job_queue \<Rightarrow> job_codec \<Rightarrow> gotime \<Rightarrow> string \<Rightarrow> job \<Rightarrow> string \<Rightarrow> unit prog" where
  "failed_job q C now msgID job err = (let job' = job\<lparr>j_attempt := j_attempt job + 1, j_lastError := err\<rparr> in
     pbind (if q_maxAttempts q \<le> j_attempt job' then deadLetterJob C q job' else scheduleRetry C q now job') (\<lambda>_. ackAndDel msgID))"

text \<open>\<open>stopping\<close> is whether the loop's context is done when the handler has returned.\<close>

definition process :: "job_codec \<Rightarrow> 'w job_queue \<Rightarrow> gotime \<Rightarrow> bool \<Rightarrow> string \<times> string \<Rightarrow> 'w \<Rightarrow> unit prog \<times> 'w" where
  "process C q now stopping = (\<lambda>(msgID, raw) w. (case dec_job C raw of
     None \<Rightarrow> (pbind (deadLetterRaw q raw) (\<lambda>_. ackAndDel msgID), w)
   | Some job \<Rightarrow> let (r, w') = run_handler q job w in
       ((case r of Inr _ \<Rightarrow> ackAndDel msgID
         | Inl err \<Rightarrow> if stopping then Ret () else failed_job q C now msgID job err), w')))"

text \<open>The messages of one read, one after the other.\<close>

fun process_all :: "job_codec \<Rightarrow> 'w job_queue \<Rightarrow> gotime \<Rightarrow> bool \<Rightarrow> (string \<times> string) list \<Rightarrow> 'w \<Rightarrow> unit prog \<times> 'w" where
  "process_all C q now stopping [] w = (Ret (), w)"
| "process_all C q now stopping (m # ms) w = (let (p, w1) = process C q now stopping m w; (ps, w2) = process_all C q now stopping ms w1
     in (pbind p (\<lambda>_. ps), w2))"

fun move_members :: "'w job_queue \<Rightarrow> string list \<Rightarrow> unit prog" where
  "move_members q [] = Ret ()"
| "move_members q (m # ms) = pbind (cmd (XAdd streamKey (q_streamMaxLen q) m)) (\<lambda>ok.
     if ok then pbind (cmd (ZRem retryZSetKey m)) (\<lambda>_. move_members q ms) else move_members q ms)"

section \<open>Redis\<close>

text \<open>The state of Redis is abstract. Seen of it: the entries of the stream that the group has not
  acknowledged, the dead letters, the members of the retry set with their scores, the lengths of
  the streams and the entry identifiers handed out so far.\<close>

record 'r redis =
  rd_exec :: "rcmd \<Rightarrow> 'r \<Rightarrow> bool \<times> 'r"
  rd_open :: "'r \<Rightarrow> (string \<times> string) list"
  rd_dlq :: "'r \<Rightarrow> (string \<times> string) list"
  rd_retry :: "'r \<Rightarrow> (string \<times> int) list"
  rd_len :: "'r \<Rightarrow> string \<Rightarrow> int"
  rd_used :: "'r \<Rightarrow> string set"
  rd_xreadgroup :: "string \<Rightarrow> 'r \<Rightarrow> (string \<times> string) list option \<times> 'r"
  rd_xautoclaim :: "string \<Rightarrow> 64 word \<Rightarrow> 'r \<Rightarrow> (string \<times> string) list option \<times> 'r"
  rd_zrangebyscore :: "string \<Rightarrow> int \<Rightarrow> nat \<Rightarrow> 'r \<Rightarrow> string list option"

definition moveDueRetries :: "'r redis \<Rightarrow> 'w job_queue \<Rightarrow> gotime \<Rightarrow> 'r \<Rightarrow> unit prog" where
  "moveDueRetries R q now r = (case rd_zrangebyscore R retryZSetKey (unix_milli now) 100 r of None \<Rightarrow> Ret ()
     | Some members \<Rightarrow> move_members q members)"

text \<open>One round of \<^verbatim>\<open>consumeLoop\<close> and one of \<^verbatim>\<open>reclaimLoop\<close>: what was read, and the program that
  treats it.\<close>

definition consume_round :: "'r redis \<Rightarrow> job_codec \<Rightarrow> 'w job_queue \<Rightarrow> gotime \<Rightarrow> bool \<Rightarrow> string \<Rightarrow> 'r \<Rightarrow> 'w
    \<Rightarrow> (string \<times> string) list \<times> unit prog \<times> 'r \<times> 'w" where
  "consume_round R C q now stopping consumer r w = (case rd_xreadgroup R consumer r of
     (None, r') \<Rightarrow> ([], Ret (), r', w)
   | (Some msgs, r') \<Rightarrow> let (p, w') = process_all C q now stopping msgs w in (msgs, p, r', w'))"

definition reclaim_round :: "'r redis \<Rightarrow> job_codec \<Rightarrow> 'w job_queue \<Rightarrow> gotime \<Rightarrow> bool \<Rightarrow> 'r \<Rightarrow> 'w
    \<Rightarrow> (string \<times> string) list \<times> unit prog \<times> 'r \<times> 'w" where
  "reclaim_round R C q now stopping r w = (case rd_xautoclaim R (q_consumerName q @ ''-reclaimer'') (q_claimMinIdle q) r of
     (None, r') \<Rightarrow> ([], Ret (), r', w)
   | (Some msgs, r') \<Rightarrow> let (p, w') = process_all C q now stopping msgs w in (msgs, p, r', w'))"

section \<open>Dead letters\<close>

record dead_letter =
  dl_streamID :: string
  dl_job :: "string option"
  dl_raw :: string

definition dead_letter_of :: "job_codec \<Rightarrow> string \<times> string \<Rightarrow> dead_letter" where
  "dead_letter_of C = (\<lambda>(i, raw). if json_valid C raw then \<lparr>dl_streamID = i, dl_job = Some raw, dl_raw = []\<rparr>
     else \<lparr>dl_streamID = i, dl_job = None, dl_raw = raw\<rparr>)"

definition dlqScanBatch :: nat where
  "dlqScanBatch = 1000"

text \<open>\<open>xrange\<close> is \<^verbatim>\<open>XRANGE key start + COUNT n\<close>, from the beginning or after an entry. The scan is a loop that
  ends when a batch is empty; \<open>fuel\<close> bounds the number of batches.\<close>

fun scan_from :: "job_codec \<Rightarrow> (string option \<Rightarrow> nat \<Rightarrow> (string \<times> string) list db_result) \<Rightarrow> (dead_letter \<Rightarrow> ('s, unit) act) \<Rightarrow> nat \<Rightarrow> string option
    \<Rightarrow> ('s, unit) act" where
  "scan_from C xrange fn 0 start = (\<lambda>s. None)"
| "scan_from C xrange fn (Suc fuel) start = sbind (lift (xrange start dlqScanBatch)) (\<lambda>entries.
     if entries = [] then ret ()
     else seq (sfold (\<lambda>e _. fn (dead_letter_of C e)) entries ()) (scan_from C xrange fn fuel (Some (fst (last entries)))))"

definition ScanDLQ :: "job_codec \<Rightarrow> (string option \<Rightarrow> nat \<Rightarrow> (string \<times> string) list db_result) \<Rightarrow> (dead_letter \<Rightarrow> ('s, unit) act) \<Rightarrow> nat
    \<Rightarrow> ('s, unit) act" where
  "ScanDLQ C xrange fn fuel = scan_from C xrange fn fuel None"

definition PurgeDLQ :: "gotime \<Rightarrow> bool prog" where
  "PurgeDLQ before = cmd (XTrimMinID dlqStreamKey (unix_milli before))"

fun reinject_entries :: "job_codec \<Rightarrow> 'w job_queue \<Rightarrow> (string \<times> string) list \<Rightarrow> int \<Rightarrow> (int \<times> domain_error option) prog" where
  "reinject_entries C q [] count = Ret (count, None)"
| "reinject_entries C q ((i, raw) # es) count = (case dec_job C raw of None \<Rightarrow> reinject_entries C q es count
     | Some job \<Rightarrow> pbind (enqueueRaw C q (job\<lparr>j_attempt := 0, j_lastError := []\<rparr>)) (\<lambda>r. (case r of
         Inl e \<Rightarrow> Ret (count, Some e)
       | Inr _ \<Rightarrow> pbind (cmd (XDel dlqStreamKey i)) (\<lambda>_. reinject_entries C q es (count + 1)))))"

definition ReinjectDLQ :: "job_codec \<Rightarrow> 'w job_queue \<Rightarrow> (string \<times> string) list db_result \<Rightarrow> (int \<times> domain_error option) prog" where
  "ReinjectDLQ C q entries = (case entries of Inl e \<Rightarrow> Ret (0, Some e) | Inr es \<Rightarrow> reinject_entries C q es 0)"

section \<open>The jobs of the record use case\<close>

definition JobTypeRecordDelivery :: string where
  "JobTypeRecordDelivery = ''RecordDelivery''"

text \<open>The handler that \<^verbatim>\<open>record.New\<close> registers: parse the payload, deliver. A delivery that does not
  return runs into the timeout of its context.\<close>

definition delivery_handler :: "uc_env \<Rightarrow> call_ctx \<Rightarrow> gotime \<Rightarrow> nat \<Rightarrow> (string \<Rightarrow> delivery_job option) \<Rightarrow> world handler" where
  "delivery_handler E cx now n dec payload w = (case dec payload of None \<Rightarrow> (Inl ''unmarshal'', w)
     | Some job \<Rightarrow> (case Deliver E cx now n job w of None \<Rightarrow> (Inl ''context deadline exceeded'', w)
         | Some (Inl e, w') \<Rightarrow> (Inl (error_text e), w') | Some (Inr _, w') \<Rightarrow> (Inr (), w')))"

definition record_queue :: "uc_env \<Rightarrow> call_ctx \<Rightarrow> gotime \<Rightarrow> nat \<Rightarrow> (string \<Rightarrow> delivery_job option) \<Rightarrow> world job_queue \<Rightarrow> world job_queue" where
  "record_queue E cx now n dec = RegisterHandler JobTypeRecordDelivery (delivery_handler E cx now n dec)"

section \<open>Concurrent use\<close>

text \<open>What Redis documents of the commands, as long as a stream is not trimmed: entries get new
  identifiers, an acknowledged or deleted entry is not delivered again, other data is left alone, and a
  command that reports a failure may or may not have taken effect.\<close>

definition same_lists :: "'r redis \<Rightarrow> 'r \<Rightarrow> 'r \<Rightarrow> bool" where
  "same_lists R r r' \<longleftrightarrow> rd_dlq R r' = rd_dlq R r \<and> rd_retry R r' = rd_retry R r"

definition same_stream :: "'r redis \<Rightarrow> 'r \<Rightarrow> 'r \<Rightarrow> bool" where
  "same_stream R r r' \<longleftrightarrow> rd_open R r' = rd_open R r \<and> rd_used R r' = rd_used R r"

definition ids_law :: "'r redis \<Rightarrow> bool" where
  "ids_law R \<longleftrightarrow> (\<forall>r. distinct (map fst (rd_open R r)) \<and> fst ` set (rd_open R r) \<subseteq> rd_used R r)"

definition add_law :: "'r redis \<Rightarrow> bool" where
  "add_law R \<longleftrightarrow> (\<forall>n p r ok r'. rd_exec R (XAdd streamKey n p) r = (ok, r') \<longrightarrow> rd_len R r streamKey < n \<longrightarrow> same_lists R r r'
        \<and> (\<not> ok \<and> same_stream R r r' \<or>
           (\<exists>i. i \<notin> rd_used R r \<and> rd_open R r' = rd_open R r @ [(i, p)] \<and> rd_used R r' = insert i (rd_used R r))))"

definition entry_removed :: "'r redis \<Rightarrow> string \<Rightarrow> 'r \<Rightarrow> 'r \<Rightarrow> bool" where
  "entry_removed R i r r' \<longleftrightarrow> same_lists R r r' \<and> rd_used R r' = rd_used R r \<and> set (rd_open R r') \<subseteq> set (rd_open R r)
     \<and> (\<forall>e\<in>set (rd_open R r). fst e \<noteq> i \<longrightarrow> e \<in> set (rd_open R r'))"

definition remove_law :: "'r redis \<Rightarrow> bool" where
  "remove_law R \<longleftrightarrow> (\<forall>i r ok r'. rd_exec R (XAck streamKey groupName i) r = (ok, r') \<or> rd_exec R (XDel streamKey i) r = (ok, r')
     \<longrightarrow> entry_removed R i r r')"

definition lists_law :: "'r redis \<Rightarrow> bool" where
  "lists_law R \<longleftrightarrow>
     (\<forall>n p r ok r'. rd_exec R (XAdd dlqStreamKey n p) r = (ok, r') \<longrightarrow> rd_len R r dlqStreamKey < n \<longrightarrow> same_stream R r r'
        \<and> rd_retry R r' = rd_retry R r \<and> (\<not> ok \<and> rd_dlq R r' = rd_dlq R r \<or> (\<exists>i. rd_dlq R r' = rd_dlq R r @ [(i, p)])))
   \<and> (\<forall>t m r ok r'. rd_exec R (ZAdd retryZSetKey t m) r = (ok, r') \<longrightarrow> same_stream R r r' \<and> rd_dlq R r' = rd_dlq R r
        \<and> (\<not> ok \<and> rd_retry R r' = rd_retry R r \<or> fst ` set (rd_retry R r') = insert m (fst ` set (rd_retry R r))))
   \<and> (\<forall>m r ok r'. rd_exec R (ZRem retryZSetKey m) r = (ok, r') \<longrightarrow> same_stream R r r' \<and> rd_dlq R r' = rd_dlq R r
        \<and> fst ` set (rd_retry R r) - {m} \<subseteq> fst ` set (rd_retry R r'))"

definition read_ok :: "'r redis \<Rightarrow> 'r \<Rightarrow> (string \<times> string) list option \<times> 'r \<Rightarrow> bool" where
  "read_ok R r res \<longleftrightarrow> same_stream R r (snd res) \<and> same_lists R r (snd res)
     \<and> (case fst res of None \<Rightarrow> True | Some msgs \<Rightarrow> distinct (map fst msgs) \<and> set msgs \<subseteq> set (rd_open R r))"

definition read_law :: "'r redis \<Rightarrow> bool" where
  "read_law R \<longleftrightarrow> (\<forall>consumer t r. read_ok R r (rd_xreadgroup R consumer r) \<and> read_ok R r (rd_xautoclaim R consumer t r))"

definition redis_ok :: "'r redis \<Rightarrow> bool" where
  "redis_ok R \<longleftrightarrow> ids_law R \<and> add_law R \<and> remove_law R \<and> lists_law R \<and> read_law R"

text \<open>What JSON keeps of an envelope that was decoded.\<close>

definition job_codec_ok :: "job_codec \<Rightarrow> bool" where
  "job_codec_ok C \<longleftrightarrow> (\<forall>raw j a e. dec_job C raw = Some j \<longrightarrow> (\<exists>raw' j'. enc_job C (j\<lparr>j_attempt := a, j_lastError := e\<rparr>) = Some raw'
     \<and> dec_job C raw' = Some j' \<and> j_id j' = j_id j \<and> j_attempt j' = a))"

text \<open>A state of the servers that share a queue: Redis, what the handlers work on, the jobs whose
  handler has succeeded, and the running goroutines, each with the messages it was handed and the
  rest of its program.\<close>

record ('r, 'w) qstate =
  qs_redis :: 'r
  qs_world :: 'w
  qs_done :: "string set"
  qs_threads :: "((string \<times> string) list \<times> unit prog) list"

fun handled :: "job_codec \<Rightarrow> 'w job_queue \<Rightarrow> (string \<times> string) list \<Rightarrow> 'w \<Rightarrow> string set" where
  "handled C q [] w = {}"
| "handled C q ((i, raw) # ms) w = (case dec_job C raw of None \<Rightarrow> handled C q ms w
     | Some job \<Rightarrow> let (r, w') = run_handler q job w in (if is_ok r then {j_id job} else {}) \<union> handled C q ms w')"

text \<open>The writes whose failure the code only logs before it acknowledges the message are the ones the
  queue relies on.\<close>

fun must_succeed :: "rcmd \<Rightarrow> bool" where
  "must_succeed (ZAdd k t m) = True"
| "must_succeed (XAdd k n p) = (k = dlqStreamKey)"
| "must_succeed c = False"

fun roomy :: "'r redis \<Rightarrow> rcmd \<Rightarrow> 'r \<Rightarrow> bool" where
  "roomy R (XAdd k n p) r = (rd_len R r k < n)"
| "roomy R c r = True"

inductive qstep :: "'r redis \<Rightarrow> job_codec \<Rightarrow> 'w job_queue \<Rightarrow> ('r, 'w) qstate \<Rightarrow> ('r, 'w) qstate \<Rightarrow> bool" for R C q where
  enqueue: "qstep R C q s (s\<lparr>qs_threads := qs_threads s @ [([], pbind (enqueueRaw C q job) (\<lambda>_. Ret ()))]\<rparr>)"
| consume: "consume_round R C q now stopping consumer (qs_redis s) (qs_world s) = (msgs, p, r', w') \<Longrightarrow>
    qstep R C q s (s\<lparr>qs_redis := r', qs_world := w', qs_done := qs_done s \<union> handled C q msgs (qs_world s), qs_threads := qs_threads s @ [(msgs, p)]\<rparr>)"
| reclaim: "reclaim_round R C q now stopping (qs_redis s) (qs_world s) = (msgs, p, r', w') \<Longrightarrow>
    qstep R C q s (s\<lparr>qs_redis := r', qs_world := w', qs_done := qs_done s \<union> handled C q msgs (qs_world s), qs_threads := qs_threads s @ [(msgs, p)]\<rparr>)"
| move: "qstep R C q s (s\<lparr>qs_threads := qs_threads s @ [([], moveDueRetries R q now (qs_redis s))]\<rparr>)"
| command: "i < length (qs_threads s) \<Longrightarrow> qs_threads s ! i = (msgs, Do c k) \<Longrightarrow> rd_exec R c (qs_redis s) = (ok, r') \<Longrightarrow>
    (must_succeed c \<longrightarrow> ok) \<Longrightarrow> roomy R c (qs_redis s) \<Longrightarrow>
    qstep R C q s (s\<lparr>qs_redis := r', qs_threads := (qs_threads s)[i := (msgs, k ok)]\<rparr>)"
| crash: "qstep R C q s (s\<lparr>qs_threads := take i (qs_threads s) @ drop (Suc i) (qs_threads s)\<rparr>)"

section \<open>No job is lost\<close>

text \<open>Copies of jobs have a rank: a retry of an attempt comes before its message, which comes before the
  retry of the next attempt. Every goroutine writes a copy of higher rank before it removes one, so
  some copy of a job whose handler has not succeeded is always left, whoever removes others meanwhile.\<close>

definition ranked :: "job_codec \<Rightarrow> int \<Rightarrow> string set \<Rightarrow> (string \<times> int) set" where
  "ranked C n raws = {(j_id j, 2 * j_attempt j + n) |raw j. raw \<in> raws \<and> dec_job C raw = Some j}"

definition copies :: "job_codec \<Rightarrow> 'r redis \<Rightarrow> 'r \<Rightarrow> (string \<times> int) set" where
  "copies C R r = ranked C 1 (snd ` set (rd_open R r)) \<union> ranked C 0 (fst ` set (rd_retry R r)) \<union> ranked C 0 (snd ` set (rd_dlq R r))"

definition facts :: "job_codec \<Rightarrow> 'r redis \<Rightarrow> ('r, 'w) qstate \<Rightarrow> (string \<times> int) set" where
  "facts C R s = {(x, n). x \<in> qs_done s \<or> (\<exists>m\<ge>n. (x, m) \<in> copies C R (qs_redis s))}"

definition outranked :: "job_codec \<Rightarrow> int \<Rightarrow> string \<Rightarrow> (string \<times> int) set \<Rightarrow> bool" where
  "outranked C n raw A \<longleftrightarrow> (\<forall>j. dec_job C raw = Some j \<longrightarrow> (\<exists>m>2 * j_attempt j + n. (j_id j, m) \<in> A))"

text \<open>What a command needs of the copies known to exist, and the copy it adds.\<close>

fun may_do :: "job_codec \<Rightarrow> (string \<times> string) list \<Rightarrow> rcmd \<Rightarrow> (string \<times> int) set \<Rightarrow> bool" where
  "may_do C ms (XAdd k n p) A = (k = streamKey \<or> k = dlqStreamKey)"
| "may_do C ms (XAck k g i) A = (k = streamKey \<and> g = groupName \<and> i \<in> fst ` set ms \<and> (\<forall>raw. (i, raw) \<in> set ms \<longrightarrow> outranked C 1 raw A))"
| "may_do C ms (XDel k i) A = (k = streamKey \<and> i \<in> fst ` set ms \<and> (\<forall>raw. (i, raw) \<in> set ms \<longrightarrow> outranked C 1 raw A))"
| "may_do C ms (ZAdd k t m) A = (k = retryZSetKey)"
| "may_do C ms (ZRem k m) A = (k = retryZSetKey \<and> outranked C 0 m A)"
| "may_do C ms (XTrimMinID k t) A = False"

fun gained :: "job_codec \<Rightarrow> rcmd \<Rightarrow> (string \<times> int) set" where
  "gained C (XAdd k n p) = (if k = streamKey then ranked C 1 {p} else ranked C 0 {p})"
| "gained C (ZAdd k t m) = ranked C 0 {m}"
| "gained C c = {}"

primrec thread_ok :: "job_codec \<Rightarrow> (string \<times> string) list \<Rightarrow> unit prog \<Rightarrow> (string \<times> int) set \<Rightarrow> bool" where
  "thread_ok C ms (Ret x) = (\<lambda>A. True)"
| "thread_ok C ms (Do c k) = (\<lambda>A. may_do C ms c A \<and> (\<forall>ok. (must_succeed c \<longrightarrow> ok) \<longrightarrow>
     thread_ok C ms (k ok) (if ok then A \<union> gained C c else A)))"

lemma keys_distinct [simp]: "streamKey \<noteq> dlqStreamKey" "dlqStreamKey \<noteq> streamKey"
  by (simp_all add: streamKey_def dlqStreamKey_def)

lemma may_do_mono: "may_do C ms c A \<Longrightarrow> A \<subseteq> B \<Longrightarrow> may_do C ms c B"
  by (cases c) (auto simp: outranked_def; blast)+

lemma thread_ok_mono: "thread_ok C ms p A \<Longrightarrow> A \<subseteq> B \<Longrightarrow> thread_ok C ms p B"
proof (induction p arbitrary: A B)
  case (Do c k)
  have "thread_ok C ms (k ok) (if ok then B \<union> gained C c else B)" if "must_succeed c \<longrightarrow> ok" for ok
    by (rule Do.IH[of _ "if ok then A \<union> gained C c else A"]) (use Do.prems that in auto)
  then show ?case using Do.prems may_do_mono[of C ms c A B] by auto
qed simp

lemma thread_ok_pbind:
  "thread_ok C ms p A \<Longrightarrow> (\<And>x B. A \<subseteq> B \<Longrightarrow> thread_ok C ms (f x) B) \<Longrightarrow> thread_ok C ms (pbind p f) A"
proof (induction p arbitrary: A)
  case (Do c k)
  have "thread_ok C ms (pbind (k ok) f) (if ok then A \<union> gained C c else A)" if "must_succeed c \<longrightarrow> ok" for ok
    by (rule Do.IH) (use Do.prems that in \<open>auto split: if_splits\<close>)
  then show ?case using Do.prems by simp
qed simp

lemma thread_ok_ack:
  assumes "(i, raw) \<in> set ms" "distinct (map fst ms)" "outranked C 1 raw A"
  shows "thread_ok C ms (ackAndDel i) A"
proof -
  have *: "(i, raw') \<in> set ms \<Longrightarrow> raw' = raw" for raw' using assms(1,2) by (meson eq_key_imp_eq_value)
  have "i \<in> fst ` set ms" using assms(1) by force
  then show ?thesis using assms(3) by (auto simp: ackAndDel_def cmd_def dest!: *)
qed

lemma outranked_gain: "job_codec_ok C \<Longrightarrow> dec_job C raw = Some j \<Longrightarrow> enc_job C (j\<lparr>j_attempt := j_attempt j + 1, j_lastError := e\<rparr>) = Some raw' \<Longrightarrow>
    outranked C 1 raw (A \<union> ranked C 0 {raw'})"
proof -
  assume a: "job_codec_ok C" "dec_job C raw = Some j" "enc_job C (j\<lparr>j_attempt := j_attempt j + 1, j_lastError := e\<rparr>) = Some raw'"
  then have "\<exists>raw1 j'. enc_job C (j\<lparr>j_attempt := j_attempt j + 1, j_lastError := e\<rparr>) = Some raw1
     \<and> dec_job C raw1 = Some j' \<and> j_id j' = j_id j \<and> j_attempt j' = j_attempt j + 1" unfolding job_codec_ok_def by blast
  with a(3) obtain j' where "dec_job C raw' = Some j'" "j_id j' = j_id j" "j_attempt j' = j_attempt j + 1" by auto
  then have "(j_id j, 2 * j_attempt j + 2) \<in> ranked C 0 {raw'}" unfolding ranked_def by force
  then show ?thesis using a(2) by (auto simp: outranked_def intro!: exI[of _ "2 * j_attempt j + 2"])
qed

lemma failed_job_ok:
  assumes "job_codec_ok C" "dec_job C raw = Some j" "(i, raw) \<in> set ms" "distinct (map fst ms)"
  shows "thread_ok C ms (failed_job q C now i j e) A"
proof -
  obtain raw' where raw': "enc_job C (j\<lparr>j_attempt := j_attempt j + 1, j_lastError := e\<rparr>) = Some raw'"
    using assms(1,2) unfolding job_codec_ok_def by blast
  have ack: "thread_ok C ms (ackAndDel i) (A \<union> ranked C 0 {raw'})"
    by (rule thread_ok_ack[OF assms(3,4) outranked_gain[OF assms(1,2) raw']])
  then show ?thesis using raw'
    by (auto simp: failed_job_def Let_def deadLetterJob_def scheduleRetry_def deadLetterRaw_def cmd_def)
qed

lemma process_ok:
  assumes "job_codec_ok C" "(i, raw) \<in> set ms" "distinct (map fst ms)" "\<And>x n. x \<in> handled C q [(i, raw)] w \<Longrightarrow> (x, n) \<in> A"
  shows "thread_ok C ms (fst (process C q now stopping (i, raw) w)) A"
proof (cases "dec_job C raw")
  case None
  then show ?thesis
    using thread_ok_ack[OF assms(2,3), of C "A \<union> ranked C 0 {raw}"] by (simp add: process_def deadLetterRaw_def cmd_def outranked_def)
next
  case (Some j)
  obtain r w' where run: "run_handler q j w = (r, w')" by fastforce
  show ?thesis
  proof (cases r)
    case (Inl e)
    then show ?thesis using Some run by (simp add: process_def failed_job_ok[OF assms(1) Some assms(2,3)])
  next
    case (Inr u)
    have "outranked C 1 raw A" using assms(4) Some run Inr by (auto simp: outranked_def intro!: exI[of _ "2 * j_attempt j + 2"])
    then show ?thesis using Some run Inr thread_ok_ack[OF assms(2,3)] by (simp add: process_def)
  qed
qed

lemma process_all_ok:
  assumes "job_codec_ok C" "distinct (map fst ms')"
  shows "set ms \<subseteq> set ms' \<Longrightarrow> (\<And>x n. x \<in> handled C q ms w \<Longrightarrow> (x, n) \<in> A) \<Longrightarrow> thread_ok C ms' (fst (process_all C q now stopping ms w)) A"
proof (induction ms arbitrary: w)
  case (Cons m ms)
  obtain i raw where m: "m = (i, raw)" by fastforce
  obtain p w1 where p: "process C q now stopping m w = (p, w1)" by fastforce
  have h: "handled C q (m # ms) w = handled C q [m] w \<union> handled C q ms w1"
    using p by (auto simp: m process_def split: option.splits prod.splits)
  have "thread_ok C ms' p A" using process_ok[OF assms(1) _ assms(2), of i raw q w A now stopping] Cons.prems p m h by simp
  moreover have "thread_ok C ms' (fst (process_all C q now stopping ms w1)) B" if "A \<subseteq> B" for B
    using Cons.IH[of w1] Cons.prems h that thread_ok_mono by (metis UnCI set_subset_Cons subset_trans)
  ultimately show ?case using p by (auto simp: Let_def split: prod.splits intro!: thread_ok_pbind)
qed simp

lemma move_members_ok: "thread_ok C ms (move_members q ks) A"
proof (induction ks arbitrary: A)
  case (Cons m ks)
  have "outranked C 0 m (A \<union> ranked C 1 {m})" by (auto simp: outranked_def ranked_def intro!: exI[of _ "2 * j_attempt _ + 1"])
  then show ?case using Cons by (auto simp: cmd_def)
qed simp

lemma enqueue_ok: "thread_ok C ms (pbind (enqueueRaw C q job) (\<lambda>_. Ret ())) A"
  by (auto simp: enqueueRaw_def cmd_def split: option.splits)

lemma ranked_Un: "ranked C n (X \<union> Y) = ranked C n X \<union> ranked C n Y"
  by (auto simp: ranked_def)

lemma ranked_mono: "X \<subseteq> Y \<Longrightarrow> ranked C n X \<subseteq> ranked C n Y"
  by (auto simp: ranked_def)

lemma facts_mono: "copies C R (qs_redis s) \<subseteq> copies C R (qs_redis s') \<Longrightarrow> qs_done s \<subseteq> qs_done s' \<Longrightarrow> facts C R s \<subseteq> facts C R s'"
  by (auto simp: facts_def)

text \<open>Removing one copy that is outranked loses no fact.\<close>

lemma facts_removed:
  assumes "copies C R (qs_redis s) \<subseteq> copies C R r' \<union> ranked C n {raw}" "outranked C n raw (facts C R s)"
  shows "facts C R s \<subseteq> facts C R (s\<lparr>qs_redis := r'\<rparr>)"
proof clarify
  fix x k assume "(x, k) \<in> facts C R s"
  then consider "x \<in> qs_done s" | m where "m \<ge> k" "(x, m) \<in> copies C R (qs_redis s)" by (auto simp: facts_def)
  then show "(x, k) \<in> facts C R (s\<lparr>qs_redis := r'\<rparr>)"
  proof cases
    case 2
    show ?thesis
    proof (cases "(x, m) \<in> copies C R r'")
      case False
      then obtain j where j: "dec_job C raw = Some j" "x = j_id j" "m = 2 * j_attempt j + n"
        using 2 assms(1) by (auto simp: ranked_def)
      then obtain m' where "m' > m" "(x, m') \<in> facts C R s" using assms(2) by (auto simp: outranked_def)
      then consider "x \<in> qs_done s" | m'' where "m'' > m" "(x, m'') \<in> copies C R (qs_redis s)"
        unfolding facts_def by (auto dest: less_le_trans)
      then show ?thesis
      proof cases
        case (2 m'')
        then have "(x, m'') \<in> copies C R r'" using assms(1) j by (auto simp: ranked_def)
        then show ?thesis using 2 \<open>k \<le> m\<close> by (auto simp: facts_def intro!: exI[of _ m''])
      qed (simp add: facts_def)
    qed (use 2 in \<open>auto simp: facts_def\<close>)
  qed (simp add: facts_def)
qed

lemma stream_add:
  "redis_ok R \<Longrightarrow> rd_exec R (XAdd streamKey n p) r = (ok, r') \<Longrightarrow> rd_len R r streamKey < n \<Longrightarrow> same_lists R r r'
     \<and> (\<not> ok \<and> same_stream R r r' \<or>
        (\<exists>i. i \<notin> rd_used R r \<and> rd_open R r' = rd_open R r @ [(i, p)] \<and> rd_used R r' = insert i (rd_used R r)))"
  unfolding redis_ok_def add_law_def by blast

lemma dlq_add:
  "redis_ok R \<Longrightarrow> rd_exec R (XAdd dlqStreamKey n p) r = (ok, r') \<Longrightarrow> rd_len R r dlqStreamKey < n \<Longrightarrow> same_stream R r r'
     \<and> rd_retry R r' = rd_retry R r \<and> (\<not> ok \<and> rd_dlq R r' = rd_dlq R r \<or> (\<exists>i. rd_dlq R r' = rd_dlq R r @ [(i, p)]))"
  unfolding redis_ok_def lists_law_def by meson

lemma retry_add:
  "redis_ok R \<Longrightarrow> rd_exec R (ZAdd retryZSetKey t m) r = (ok, r') \<Longrightarrow> same_stream R r r' \<and> rd_dlq R r' = rd_dlq R r
     \<and> (\<not> ok \<and> rd_retry R r' = rd_retry R r \<or> fst ` set (rd_retry R r') = insert m (fst ` set (rd_retry R r)))"
  unfolding redis_ok_def lists_law_def by meson

lemma retry_remove:
  "redis_ok R \<Longrightarrow> rd_exec R (ZRem retryZSetKey m) r = (ok, r') \<Longrightarrow> same_stream R r r' \<and> rd_dlq R r' = rd_dlq R r
     \<and> fst ` set (rd_retry R r) - {m} \<subseteq> fst ` set (rd_retry R r')"
  unfolding redis_ok_def lists_law_def by meson

lemma stream_remove:
  "redis_ok R \<Longrightarrow> rd_exec R c r = (ok, r') \<Longrightarrow> c = XAck streamKey groupName i \<or> c = XDel streamKey i \<Longrightarrow> entry_removed R i r r'"
  unfolding redis_ok_def remove_law_def by blast

lemma copies_add_stream:
  assumes "redis_ok R" "rd_exec R (XAdd streamKey n p) r = (ok, r')" "rd_len R r streamKey < n"
  shows "copies C R r \<subseteq> copies C R r'" "ok \<Longrightarrow> ranked C 1 {p} \<subseteq> copies C R r'"
proof -
  consider "\<not> ok" "same_lists R r r'" "same_stream R r r'" | i where "same_lists R r r'" "rd_open R r' = rd_open R r @ [(i, p)]"
    using stream_add[OF assms] by blast
  then have "copies C R r \<subseteq> copies C R r' \<and> (ok \<longrightarrow> ranked C 1 {p} \<subseteq> copies C R r')"
  proof cases
    case 2
    then have "copies C R r' = copies C R r \<union> ranked C 1 {p}"
      using ranked_Un[of C 1 "snd ` set (rd_open R r)" "{p}"] by (simp add: copies_def same_lists_def Un_ac)
    then show ?thesis by simp
  qed (simp add: copies_def same_lists_def same_stream_def)
  then show "copies C R r \<subseteq> copies C R r'" "ok \<Longrightarrow> ranked C 1 {p} \<subseteq> copies C R r'" by auto
qed

lemma copies_add_dlq:
  assumes "redis_ok R" "rd_exec R (XAdd dlqStreamKey n p) r = (True, r')" "rd_len R r dlqStreamKey < n"
  shows "copies C R r \<union> ranked C 0 {p} \<subseteq> copies C R r'"
proof -
  from dlq_add[OF assms] obtain i where "same_stream R r r'" "rd_retry R r' = rd_retry R r" "rd_dlq R r' = rd_dlq R r @ [(i, p)]" by blast
  then have "copies C R r' = copies C R r \<union> ranked C 0 {p}"
    using ranked_Un[of C 0 "snd ` set (rd_dlq R r)" "{p}"] by (simp add: copies_def same_stream_def Un_ac)
  then show ?thesis by simp
qed

lemma copies_add_retry:
  assumes "redis_ok R" "rd_exec R (ZAdd retryZSetKey t p) r = (True, r')"
  shows "copies C R r \<union> ranked C 0 {p} \<subseteq> copies C R r'"
proof -
  from retry_add[OF assms] have "same_stream R r r'" "rd_dlq R r' = rd_dlq R r" "fst ` set (rd_retry R r') = fst ` set (rd_retry R r) \<union> {p}" by auto
  then have "copies C R r' = copies C R r \<union> ranked C 0 {p}"
    using ranked_Un[of C 0 "fst ` set (rd_retry R r)" "{p}"] by (simp add: copies_def same_stream_def Un_ac)
  then show ?thesis by simp
qed

lemma copies_remove_retry:
  assumes "redis_ok R" "rd_exec R (ZRem retryZSetKey p) r = (ok, r')"
  shows "copies C R r \<subseteq> copies C R r' \<union> ranked C 0 {p}"
proof -
  from retry_remove[OF assms] have e: "same_stream R r r'" "rd_dlq R r' = rd_dlq R r"
    and z: "fst ` set (rd_retry R r) - {p} \<subseteq> fst ` set (rd_retry R r')" by auto
  have "ranked C 0 (fst ` set (rd_retry R r)) \<subseteq> ranked C 0 (fst ` set (rd_retry R r')) \<union> ranked C 0 {p}"
    unfolding ranked_Un[symmetric] by (rule ranked_mono) (use z in blast)
  then show ?thesis using e by (auto simp: copies_def same_stream_def)
qed

lemma ack_copies:
  assumes "redis_ok R" "rd_exec R c r = (ok, r')" "c = XAck streamKey groupName i \<or> c = XDel streamKey i"
    and "\<And>raw'. (i, raw') \<in> set (rd_open R r) \<Longrightarrow> raw' = raw"
  shows "copies C R r \<subseteq> copies C R r' \<union> ranked C 1 {raw}"
proof -
  from stream_remove[OF assms(1-3)] have l: "rd_dlq R r' = rd_dlq R r" "rd_retry R r' = rd_retry R r"
      and o: "\<forall>e\<in>set (rd_open R r). fst e \<noteq> i \<longrightarrow> e \<in> set (rd_open R r')"
    by (simp_all add: same_lists_def entry_removed_def)
  have "snd ` set (rd_open R r) \<subseteq> snd ` set (rd_open R r') \<union> {raw}"
    using o assms(4) by (force simp: image_iff)
  then have "ranked C 1 (snd ` set (rd_open R r)) \<subseteq> ranked C 1 (snd ` set (rd_open R r')) \<union> ranked C 1 {raw}"
    using ranked_mono ranked_Un by metis
  then show ?thesis using l by (auto simp: copies_def)
qed

text \<open>A goroutine's messages are known to Redis under their identifiers, and are what Redis holds under
  them.\<close>

definition msgs_ok :: "'r redis \<Rightarrow> 'r \<Rightarrow> (string \<times> string) list \<Rightarrow> bool" where
  "msgs_ok R r ms \<longleftrightarrow> fst ` set ms \<subseteq> rd_used R r \<and> (\<forall>i raw raw'. (i, raw) \<in> set ms \<longrightarrow> (i, raw') \<in> set (rd_open R r) \<longrightarrow> raw' = raw)"

lemma exec_facts:
  assumes "redis_ok R" "rd_exec R c (qs_redis s) = (ok, r')" "must_succeed c \<longrightarrow> ok" "roomy R c (qs_redis s)"
    and "may_do C ms c (facts C R s)" "msgs_ok R (qs_redis s) ms"
  shows "(if ok then facts C R s \<union> gained C c else facts C R s) \<subseteq> facts C R (s\<lparr>qs_redis := r'\<rparr>)"
proof -
  let ?s' = "s\<lparr>qs_redis := r'\<rparr>"
  have up: "X \<subseteq> copies C R r' \<Longrightarrow> X \<subseteq> facts C R ?s'" for X by (auto simp: facts_def)
  have mono: "copies C R (qs_redis s) \<subseteq> copies C R r' \<Longrightarrow> facts C R s \<subseteq> facts C R ?s'" by (rule facts_mono) simp_all
  show ?thesis
  proof (cases c)
    case (XAdd k n p)
    then consider "c = XAdd streamKey n p" | "c = XAdd dlqStreamKey n p" using assms(5) by auto
    then show ?thesis
    proof cases
      case 1
      then show ?thesis using copies_add_stream[OF assms(1), of n p "qs_redis s" ok r' C] assms(2,4) mono up[of "ranked C 1 {p}"] by auto
    next
      case 2
      then show ?thesis using copies_add_dlq[OF assms(1), of n p "qs_redis s" r' C] assms(2-4) mono up[of "ranked C 0 {p}"] by auto
    qed
  next
    case (ZAdd k t m)
    then show ?thesis using copies_add_retry[OF assms(1), of t m "qs_redis s" r' C] assms(2,3,5) mono up[of "ranked C 0 {m}"] by auto
  next
    case (ZRem k m)
    then show ?thesis using facts_removed[OF copies_remove_retry[OF assms(1)], of m s ok r' C] assms(2,5) by simp
  next
    case (XAck k g i)
    then obtain raw where raw: "(i, raw) \<in> set ms" "outranked C 1 raw (facts C R s)" "c = XAck streamKey groupName i" using assms(5) by auto
    then show ?thesis using facts_removed[OF ack_copies[OF assms(1,2), of i raw]] assms(6) by (auto simp: msgs_ok_def)
  next
    case (XDel k i)
    then obtain raw where raw: "(i, raw) \<in> set ms" "outranked C 1 raw (facts C R s)" "c = XDel streamKey i" using assms(5) by auto
    then show ?thesis using facts_removed[OF ack_copies[OF assms(1,2), of i raw]] assms(6) by (auto simp: msgs_ok_def)
  qed (use assms(5) in simp)
qed

lemma msgs_ok_stable:
  assumes "redis_ok R" "rd_exec R c r = (ok, r')" "roomy R c r" "may_do C ms c A" "msgs_ok R r ms'"
  shows "msgs_ok R r' ms'"
proof (cases c)
  case (XAdd k n p)
  then consider "c = XAdd streamKey n p" "rd_len R r streamKey < n" | "c = XAdd dlqStreamKey n p" "rd_len R r dlqStreamKey < n"
    using assms(3,4) by auto
  then show ?thesis
  proof cases
    case 1
    with stream_add[OF assms(1), of n p r ok r'] assms(2)
    consider "same_stream R r r'" | i where "i \<notin> rd_used R r" "rd_open R r' = rd_open R r @ [(i, p)]" "rd_used R r' = insert i (rd_used R r)" by blast
    then show ?thesis
    proof cases
      case 2
      then have "i \<notin> fst ` set ms'" using assms(5) by (auto simp: msgs_ok_def)
      then show ?thesis using 2 assms(5) unfolding msgs_ok_def by (auto simp: image_iff)
    qed (use assms(5) in \<open>simp add: msgs_ok_def same_stream_def\<close>)
  next
    case 2
    with dlq_add[OF assms(1), of n p r ok r'] assms(2,5) show ?thesis by (simp add: msgs_ok_def same_stream_def)
  qed
next
  case (XAck k g i)
  with stream_remove[OF assms(1,2), of i] assms(4,5) show ?thesis by (auto simp: msgs_ok_def entry_removed_def)
next
  case (XDel k i)
  with stream_remove[OF assms(1,2), of i] assms(4,5) show ?thesis by (auto simp: msgs_ok_def entry_removed_def)
next
  case (ZAdd k t m)
  with retry_add[OF assms(1), of t m r ok r'] assms(2,4,5) show ?thesis by (simp add: msgs_ok_def same_stream_def)
next
  case (ZRem k m)
  with retry_remove[OF assms(1), of m r ok r'] assms(2,4,5) show ?thesis by (simp add: msgs_ok_def same_stream_def)
qed (use assms(4) in simp)

definition qinv :: "job_codec \<Rightarrow> 'r redis \<Rightarrow> ('r, 'w) qstate \<Rightarrow> bool" where
  "qinv C R s \<longleftrightarrow> (\<forall>(ms, p)\<in>set (qs_threads s). thread_ok C ms p (facts C R s) \<and> msgs_ok R (qs_redis s) ms)"

lemma qinvD: "qinv C R s \<Longrightarrow> (ms, p) \<in> set (qs_threads s) \<Longrightarrow> thread_ok C ms p (facts C R s) \<and> msgs_ok R (qs_redis s) ms"
  by (auto simp: qinv_def)

lemma qinv_spawn:
  assumes "qinv C R s" "facts C R s \<subseteq> facts C R s'" "\<And>ms. msgs_ok R (qs_redis s) ms \<Longrightarrow> msgs_ok R (qs_redis s') ms"
    and "qs_threads s' = qs_threads s @ [(ms, p)]" "thread_ok C ms p (facts C R s')" "msgs_ok R (qs_redis s') ms"
  shows "qinv C R s' \<and> facts C R s \<subseteq> facts C R s'"
  using assms thread_ok_mono unfolding qinv_def by fastforce

lemma same_facts:
  "same_stream R r r' \<Longrightarrow> same_lists R r r' \<Longrightarrow> copies C R r' = copies C R r \<and> (\<forall>ms. msgs_ok R r' ms \<longleftrightarrow> msgs_ok R r ms)"
  by (simp add: copies_def same_stream_def same_lists_def msgs_ok_def)

lemma qinv_read:
  assumes "redis_ok R" "job_codec_ok C" "qinv C R s" "read_ok R (qs_redis s) (Some msgs, r')" "process_all C q now stopping msgs (qs_world s) = (p, w')"
  defines "s' \<equiv> s\<lparr>qs_redis := r', qs_world := w', qs_done := qs_done s \<union> handled C q msgs (qs_world s), qs_threads := qs_threads s @ [(msgs, p)]\<rparr>"
  shows "qinv C R s' \<and> facts C R s \<subseteq> facts C R s'"
proof (rule qinv_spawn[OF assms(3)])
  from assms(4) have rd: "same_stream R (qs_redis s) r'" "same_lists R (qs_redis s) r'" "distinct (map fst msgs)" "set msgs \<subseteq> set (rd_open R (qs_redis s))"
    by (simp_all add: read_ok_def)
  note same = same_facts[OF rd(1,2)]
  have ids: "distinct (map fst (rd_open R (qs_redis s)))" "fst ` set (rd_open R (qs_redis s)) \<subseteq> rd_used R (qs_redis s)"
    using assms(1) by (simp_all add: redis_ok_def ids_law_def)
  show "facts C R s \<subseteq> facts C R s'" by (rule facts_mono) (simp_all add: s'_def same)
  show "msgs_ok R (qs_redis s') ms" if "msgs_ok R (qs_redis s) ms" for ms using that same by (simp add: s'_def)
  show "qs_threads s' = qs_threads s @ [(msgs, p)]" by (simp add: s'_def)
  have "(x, n) \<in> facts C R s'" if "x \<in> handled C q msgs (qs_world s)" for x n using that by (simp add: s'_def facts_def)
  from process_all_ok[OF assms(2) rd(3) order_refl, of q "qs_world s" "facts C R s'" now stopping, OF this] assms(5) show "thread_ok C msgs p (facts C R s')" by simp
  have "msgs_ok R (qs_redis s) msgs"
    unfolding msgs_ok_def using rd(4) ids eq_key_imp_eq_value[OF ids(1)] by blast
  then show "msgs_ok R (qs_redis s') msgs" using same by (simp add: s'_def)
qed

lemma qinv_step:
  assumes "redis_ok R" "job_codec_ok C" "qstep R C q s s'" "qinv C R s"
  shows "qinv C R s' \<and> facts C R s \<subseteq> facts C R s'"
  using assms(3,4)
proof (cases rule: qstep.cases)
  case (enqueue job)
  then show ?thesis
    by (intro qinv_spawn[OF assms(4), where ms = "[]" and p = "pbind (enqueueRaw C q job) (\<lambda>_. Ret ())"])
      (simp_all add: enqueue_ok facts_def msgs_ok_def)
next
  case (consume now stopping consumer msgs p r' w')
  have rd: "read_ok R (qs_redis s) (rd_xreadgroup R consumer (qs_redis s))" using assms(1) by (simp add: redis_ok_def read_law_def)
  show ?thesis
  proof (cases "fst (rd_xreadgroup R consumer (qs_redis s))")
    case None
    with consume(2) have "msgs = []" "p = Ret ()" "w' = qs_world s" "r' = snd (rd_xreadgroup R consumer (qs_redis s))"
      by (auto simp: consume_round_def split: prod.splits)
    with rd None have "read_ok R (qs_redis s) (Some msgs, r')" "process_all C q now stopping msgs (qs_world s) = (p, w')" by (simp_all add: read_ok_def)
    from qinv_read[OF assms(1,2,4) this] show ?thesis using consume(1) by simp
  next
    case (Some ms)
    with consume(2) have "ms = msgs" "process_all C q now stopping msgs (qs_world s) = (p, w')" "rd_xreadgroup R consumer (qs_redis s) = (Some msgs, r')"
      by (auto simp: consume_round_def split: prod.splits)
    with rd qinv_read[OF assms(1,2,4)] show ?thesis using consume(1) by simp
  qed
next
  case (reclaim now stopping msgs p r' w')
  let ?c = "q_consumerName q @ ''-reclaimer''"
  have rd: "read_ok R (qs_redis s) (rd_xautoclaim R ?c (q_claimMinIdle q) (qs_redis s))" using assms(1) by (simp add: redis_ok_def read_law_def)
  show ?thesis
  proof (cases "fst (rd_xautoclaim R ?c (q_claimMinIdle q) (qs_redis s))")
    case None
    with reclaim(2) have "msgs = []" "p = Ret ()" "w' = qs_world s" "r' = snd (rd_xautoclaim R ?c (q_claimMinIdle q) (qs_redis s))"
      by (auto simp: reclaim_round_def split: prod.splits)
    with rd None have "read_ok R (qs_redis s) (Some msgs, r')" "process_all C q now stopping msgs (qs_world s) = (p, w')" by (simp_all add: read_ok_def)
    from qinv_read[OF assms(1,2,4) this] show ?thesis using reclaim(1) by simp
  next
    case (Some ms)
    with reclaim(2) have "ms = msgs" "process_all C q now stopping msgs (qs_world s) = (p, w')"
        "rd_xautoclaim R ?c (q_claimMinIdle q) (qs_redis s) = (Some msgs, r')"
      by (auto simp: reclaim_round_def split: prod.splits)
    with rd qinv_read[OF assms(1,2,4)] show ?thesis using reclaim(1) by simp
  qed
next
  case (move now)
  then show ?thesis
    by (intro qinv_spawn[OF assms(4), where ms = "[]" and p = "moveDueRetries R q now (qs_redis s)"]) (simp_all add: moveDueRetries_def move_members_ok facts_def msgs_ok_def split: option.split)
next
  case (command i msgs c k ok r')
  let ?s = "s\<lparr>qs_redis := r'\<rparr>"
  have th: "(msgs, Do c k) \<in> set (qs_threads s)" using command(2,3) by (metis nth_mem)
  then have "thread_ok C msgs (Do c k) (facts C R s)" and m: "msgs_ok R (qs_redis s) msgs" using qinvD[OF assms(4)] by blast+
  then have ok: "may_do C msgs c (facts C R s)" "thread_ok C msgs (k ok) (if ok then facts C R s \<union> gained C c else facts C R s)"
    using command(5) by auto
  note fs = exec_facts[OF assms(1) command(4-6) ok(1) m]
  have f: "facts C R s \<subseteq> facts C R ?s" using fs by (auto split: if_splits)
  have eq: "facts C R s' = facts C R ?s" "qs_redis s' = r'" using command(1) by (simp_all add: facts_def)
  have "thread_ok C ms p (facts C R s') \<and> msgs_ok R r' ms" if "(ms, p) \<in> set (qs_threads s')" for ms p
  proof (cases "(ms, p) = (msgs, k ok)")
    case True
    then show ?thesis using thread_ok_mono[OF ok(2) fs] msgs_ok_stable[OF assms(1) command(4,6) ok(1) m] eq by simp
  next
    case False
    then have "(ms, p) \<in> set (qs_threads s)" using that command(1) set_update_subset_insert by fastforce
    then show ?thesis using assms(4) thread_ok_mono[OF _ f] msgs_ok_stable[OF assms(1) command(4,6) ok(1)] eq by (auto simp: qinv_def)
  qed
  then show ?thesis using eq f by (auto simp: qinv_def)
next
  case (crash i)
  then have "set (qs_threads s') \<subseteq> set (qs_threads s)" by (auto dest: in_set_takeD in_set_dropD)
  then show ?thesis using assms(4) crash by (auto simp: qinv_def facts_def)
qed


section \<open>Delays and dead letters\<close>

lemma sint_times3:
  fixes d :: "64 word"
  assumes "0 \<le> sint d" "3 * sint d < 2 ^ 63"
  shows "sint (d * 3) = 3 * sint d"
proof -
  have "sint (d * 3) = signed_take_bit 63 (sint d * 3)" by (simp add: sint_word_ariths)
  also have "\<dots> = sint d * 3" by (rule signed_take_bit_int_eq_self) (use assms in auto)
  finally show ?thesis by simp
qed

lemma backoff_loop_eq:
  assumes "0 \<le> sint d" "0 \<le> sint capD" "3 * sint capD < 2 ^ 63"
  shows "sint (backoff_loop n d capD) = min (sint capD) (sint d * 3 ^ n)"
  using assms(1)
proof (induction n arbitrary: d)
  case 0
  then show ?case by (simp add: word_sless_alt)
next
  case (Suc n)
  show ?case
  proof (cases "sint capD \<le> sint d")
    case True
    have "sint d * 1 \<le> sint d * 3 ^ Suc n" by (rule mult_left_mono) (use Suc.prems one_le_power[of "3::int" "Suc n"] in auto)
    then show ?thesis using True by (simp add: word_sle_eq)
  next
    case False
    then have "sint (d * 3) = 3 * sint d" using Suc.prems assms(3) by (intro sint_times3) auto
    then show ?thesis using Suc.IH[of "d * 3"] Suc.prems False by (simp add: word_sle_eq mult.assoc mult.left_commute)
  qed
qed

text \<open>C35. The delay before the retry of an attempt is the base times three to the number of attempts before
  it, and never more than the cap: the 64-bit multiplication does not wrap around for any number of
  attempts, for every cap below 97 years.\<close>

theorem backoffDuration_capped:
  assumes "0 \<le> sint base" "0 \<le> sint capD" "3 * sint capD < 2 ^ 63" "1 \<le> n"
  shows "sint (backoffDuration n base capD) = min (sint capD) (sint base * 3 ^ nat (n - 1))"
  using backoff_loop_eq[OF assms(1-3)] assms(4) by (simp add: backoffDuration_def)

theorem backoffDuration_capped_witness:
  "sint (backoffDuration 3 10000000000 3600000000000) = 90000000000"
  using backoffDuration_capped[of 10000000000 3600000000000 3] by simp

text \<open>A scan of the dead letters ends after as many batches as it needs and hands every entry to the
  callback once, oldest first.\<close>

lemma sfold_append: "sfold f (xs @ ys) acc = sbind (sfold f xs acc) (sfold f ys)"
proof (induction xs arbitrary: acc)
  case (Cons x xs)
  have "sbind (f x acc) (\<lambda>a. sbind (sfold f xs a) (sfold f ys)) s = sbind (sbind (f x acc) (sfold f xs)) (sfold f ys) s" for s
    by (simp add: sbind_def split: option.splits sum.splits)
  moreover have "sfold f (xs @ ys) = (\<lambda>a. sbind (sfold f xs a) (sfold f ys))" using Cons by (simp add: fun_eq_iff)
  ultimately show ?case by (intro ext) (simp only: append_Cons sfold.simps)
qed (simp add: sbind_def ret_def fun_eq_iff)

text \<open>What \<^verbatim>\<open>XRANGE\<close> documents, of a stream that does not change meanwhile.\<close>

definition xrange_ok :: "(string option \<Rightarrow> nat \<Rightarrow> (string \<times> string) list db_result) \<Rightarrow> (string \<times> string) list \<Rightarrow> bool" where
  "xrange_ok xrange es \<longleftrightarrow> distinct (map fst es) \<and> (\<forall>start n. xrange start n = Inr (take n
      (case start of None \<Rightarrow> es | Some i \<Rightarrow> tl (dropWhile (\<lambda>e. fst e \<noteq> i) es))))"

lemma scan_from_all:
  assumes "xrange_ok xrange es"
  shows "es = pre @ rest \<Longrightarrow> start = (if pre = [] then None else Some (fst (last pre))) \<Longrightarrow> length rest < fuel \<Longrightarrow>
    scan_from C xrange fn fuel start = sfold (\<lambda>e _. fn (dead_letter_of C e)) rest ()"
proof (induction fuel arbitrary: pre rest start)
  case (Suc fuel)
  have tail: "(case start of None \<Rightarrow> es | Some i \<Rightarrow> tl (dropWhile (\<lambda>e. fst e \<noteq> i) es)) = rest"
  proof (cases pre rule: rev_cases)
    case (snoc xs x)
    then have es: "es = xs @ x # rest" using Suc.prems(1) by simp
    then have "y \<in> set xs \<Longrightarrow> fst y \<noteq> fst x" for y using assms by (auto simp: xrange_ok_def image_iff)
    then have "dropWhile (\<lambda>e. fst e \<noteq> fst x) (xs @ x # rest) = x # rest" by (simp add: dropWhile_append2)
    then have "dropWhile (\<lambda>e. fst e \<noteq> fst x) es = x # rest" using es by simp
    then show ?thesis using Suc.prems(2) snoc by simp
  qed (use Suc.prems in simp)
  show ?case
  proof (cases "rest = []")
    case True
    then show ?thesis using assms tail by (simp add: xrange_ok_def fun_eq_iff sbind_def lift_def ret_def)
  next
    case False
    let ?b = "take dlqScanBatch rest" and ?r = "drop dlqScanBatch rest"
    have b: "?b \<noteq> []" using False by (simp add: dlqScanBatch_def)
    have "scan_from C xrange fn fuel (Some (fst (last ?b))) = sfold (\<lambda>e _. fn (dead_letter_of C e)) ?r ()"
      using Suc.IH[of "pre @ ?b" ?r] Suc.prems b False by (cases rest) (simp_all add: dlqScanBatch_def)
    then have "scan_from C xrange fn (Suc fuel) start = seq (sfold (\<lambda>e _. fn (dead_letter_of C e)) ?b ()) (sfold (\<lambda>e _. fn (dead_letter_of C e)) ?r ())"
      using assms tail b by (intro ext) (simp add: xrange_ok_def sbind_def lift_def)
    also have "\<dots> = sfold (\<lambda>e _. fn (dead_letter_of C e)) (?b @ ?r) ()"
      unfolding sfold_append seq_def by (rule arg_cong[where f = "sbind _"]) (simp add: fun_eq_iff)
    finally show ?thesis by simp
  qed
qed simp

theorem ScanDLQ_all:
  assumes "xrange_ok xrange es"
  shows "ScanDLQ C xrange fn (Suc (length es)) = sfold (\<lambda>e _. fn (dead_letter_of C e)) es ()"
  unfolding ScanDLQ_def by (rule scan_from_all[OF assms, where pre = "[]"]) simp_all

section \<open>Instances\<close>

text \<open>A Redis that keeps its stream as a log in which removed entries leave a hole.\<close>

record log_redis =
  lr_log :: "string option list"
  lr_dlq :: "string list"
  lr_retry :: "(string \<times> int) list"

definition entry_id :: "nat \<Rightarrow> string" where
  "entry_id n = replicate n CHR ''x''"

definition lr_open :: "log_redis \<Rightarrow> (string \<times> string) list" where
  "lr_open r = map (\<lambda>i. (entry_id i, the (lr_log r ! i))) (filter (\<lambda>i. lr_log r ! i \<noteq> None) [0..<length (lr_log r)])"

definition lr_remove :: "string \<Rightarrow> log_redis \<Rightarrow> log_redis" where
  "lr_remove i r = (if i = entry_id (length i) then r\<lparr>lr_log := (lr_log r)[length i := None]\<rparr> else r)"

fun lr_exec :: "rcmd \<Rightarrow> log_redis \<Rightarrow> bool \<times> log_redis" where
  "lr_exec (XAdd k n p) r = (if k = streamKey then (True, r\<lparr>lr_log := lr_log r @ [Some p]\<rparr>) else (True, r\<lparr>lr_dlq := lr_dlq r @ [p]\<rparr>))"
| "lr_exec (XAck k g i) r = (True, lr_remove i r)"
| "lr_exec (XDel k i) r = (True, lr_remove i r)"
| "lr_exec (ZAdd k t m) r = (True, r\<lparr>lr_retry := (m, t) # lr_retry r\<rparr>)"
| "lr_exec (ZRem k m) r = (True, r\<lparr>lr_retry := filter (\<lambda>e. fst e \<noteq> m) (lr_retry r)\<rparr>)"
| "lr_exec c r = (True, r)"

definition log_ops :: "log_redis redis" where
  "log_ops = \<lparr>rd_exec = lr_exec, rd_open = lr_open, rd_dlq = (\<lambda>r. map (\<lambda>p. ([], p)) (lr_dlq r)), rd_retry = lr_retry,
     rd_len = (\<lambda>r k. if k = streamKey then int (length (lr_log r)) else int (length (lr_dlq r))),
     rd_used = (\<lambda>r. entry_id ` {..<length (lr_log r)}),
     rd_xreadgroup = (\<lambda>c r. (Some (take 1 (lr_open r)), r)), rd_xautoclaim = (\<lambda>c t r. (Some (lr_open r), r)),
     rd_zrangebyscore = (\<lambda>k t n r. Some (take n (map fst (filter (\<lambda>e. snd e \<le> t) (lr_retry r)))))\<rparr>"

lemma entry_id_eq [simp]: "entry_id i = entry_id j \<longleftrightarrow> i = j" "length (entry_id i) = i"
  by (auto simp: entry_id_def replicate_eq_replicate)

lemma set_lr_open: "(x, p) \<in> set (lr_open r) \<longleftrightarrow> (\<exists>i<length (lr_log r). x = entry_id i \<and> lr_log r ! i = Some p)"
  by (auto simp: lr_open_def)

lemma distinct_lr_open: "distinct (map fst (lr_open r))"
  by (simp add: lr_open_def comp_def distinct_map inj_on_def)

lemma lr_open_add: "lr_open (r\<lparr>lr_log := lr_log r @ [Some p]\<rparr>) = lr_open r @ [(entry_id (length (lr_log r)), p)]"
proof -
  have "filter (\<lambda>i. (lr_log r @ [Some p]) ! i \<noteq> None) [0..<length (lr_log r)] = filter (\<lambda>i. lr_log r ! i \<noteq> None) [0..<length (lr_log r)]"
    by (rule filter_cong) (auto simp: nth_append)
  then show ?thesis by (auto simp: lr_open_def nth_append)
qed

lemma lr_removed: "entry_removed log_ops i r (lr_remove i r)"
proof -
  have "e \<in> set (lr_open (lr_remove i r)) \<longleftrightarrow> e \<in> set (lr_open r) \<and> fst e \<noteq> i" for e
  proof (cases e)
    case (Pair x p)
    show ?thesis
    proof (cases "i = entry_id (length i)")
      case True
      then obtain n where "i = entry_id n" by blast
      then show ?thesis by (cases "n < length (lr_log r)") (auto simp: Pair set_lr_open lr_remove_def nth_list_update)
    next
      case False
      then show ?thesis by (auto simp: Pair set_lr_open lr_remove_def)
    qed
  qed
  then show ?thesis by (auto simp: entry_removed_def same_lists_def log_ops_def lr_remove_def)
qed

lemma log_ops_ok: "redis_ok log_ops"
proof -
  have "ids_law log_ops" by (auto simp: ids_law_def log_ops_def distinct_lr_open set_lr_open)
  moreover have "add_law log_ops" by (auto simp: add_law_def log_ops_def same_lists_def lr_open_add lessThan_Suc)
  moreover have "remove_law log_ops" using lr_removed by (auto simp: remove_law_def log_ops_def)
  moreover have "lists_law log_ops" by (auto simp: lists_law_def log_ops_def same_stream_def lr_open_def)
  moreover have "read_law log_ops"
    using distinct_lr_open by (auto simp: read_law_def read_ok_def log_ops_def same_stream_def same_lists_def simp flip: take_map dest: in_set_takeD)
  ultimately show ?thesis by (simp add: redis_ok_def)
qed

text \<open>An encoding of what matters of an envelope.\<close>

definition tiny_codec :: job_codec where
  "tiny_codec = \<lparr>enc_job = (\<lambda>j. Some ((if j_attempt j < 0 then CHR ''-'' else CHR ''+'') # replicate (nat \<bar>j_attempt j\<bar>) CHR ''1'' @ CHR '';'' # j_id j)),
     dec_job = (\<lambda>raw. case raw of [] \<Rightarrow> None | c # rest \<Rightarrow> (case dropWhile (\<lambda>x. x = CHR ''1'') rest of [] \<Rightarrow> None
       | d # i \<Rightarrow> Some \<lparr>j_id = i, j_type = [], j_payload = [], j_attempt = (let n = int (length (takeWhile (\<lambda>x. x = CHR ''1'') rest))
            in if c = CHR ''-'' then - n else n), j_createdAt = 0, j_lastError = []\<rparr>)),
     json_valid = (\<lambda>_. True)\<rparr>"

lemma tiny_codec_ok: "job_codec_ok tiny_codec"
  by (auto simp: job_codec_ok_def tiny_codec_def Let_def takeWhile_append dropWhile_append)

definition demo_q :: "unit job_queue" where
  "demo_q = NewRedisJobQueue None []"

definition demo_start :: "(log_redis, unit) qstate" where
  "demo_start = \<lparr>qs_redis = \<lparr>lr_log = [Some ''+;a''], lr_dlq = [], lr_retry = []\<rparr>, qs_world = (), qs_done = {}, qs_threads = []\<rparr>"

text \<open>A consumer with no handler for the job schedules a retry, and crashes before it can acknowledge.\<close>

definition demo_crashed :: "(log_redis, unit) qstate" where
  "demo_crashed = \<lparr>qs_redis = \<lparr>lr_log = [Some ''+;a''], lr_dlq = [], lr_retry = [(''+1;a'', 10000)]\<rparr>, qs_world = (), qs_done = {}, qs_threads = []\<rparr>"

lemma demo_steps: "(qstep log_ops tiny_codec demo_q)\<^sup>*\<^sup>* demo_start demo_crashed"
proof -
  let ?q = demo_q and ?raw = "''+;a''"
  define job where "job = \<lparr>j_id = ''a'', j_type = [], j_payload = [], j_attempt = 0, j_createdAt = 0, j_lastError = []\<rparr>"
  define err where "err = ''job queue: no handler registered for job type ''"
  let ?p = "failed_job ?q tiny_codec 0 [] job err"
  let ?s1 = "demo_start\<lparr>qs_threads := [([([], ?raw)], ?p)]\<rparr>"
  have dec: "dec_job tiny_codec ?raw = Some job" by (simp add: tiny_codec_def job_def)
  have enc: "enc_job tiny_codec (job\<lparr>j_attempt := 1, j_lastError := err\<rparr>) = Some ''+1;a''" by (simp add: tiny_codec_def job_def)
  have run: "run_handler ?q job () = (Inl err, ())"
    by (simp add: run_handler_def handlerFor_def demo_q_def NewRedisJobQueue_def job_def err_def)
  have rd: "rd_xreadgroup log_ops [] (qs_redis demo_start) = (Some [([], ?raw)], qs_redis demo_start)"
    by (simp add: log_ops_def demo_start_def lr_open_def entry_id_def)
  have "consume_round log_ops tiny_codec ?q 0 False [] (qs_redis demo_start) (qs_world demo_start) = ([([], ?raw)], pbind ?p (\<lambda>_. Ret ()), qs_redis demo_start, ())"
    by (simp add: consume_round_def rd process_def dec run)
  from qstep.consume[OF this] have 1: "qstep log_ops tiny_codec ?q demo_start (demo_start\<lparr>qs_threads := [([([], ?raw)], pbind ?p (\<lambda>_. Ret ()))]\<rparr>)"
    by (simp add: dec run demo_start_def)
  have delay: "backoffDuration 1 (q_baseBackoff ?q) (q_backoffCap ?q) = 10000000000"
    by (simp add: backoffDuration_def demo_q_def NewRedisJobQueue_def)
  have p: "pbind ?p (\<lambda>_. Ret ()) = Do (ZAdd retryZSetKey 10000 ''+1;a'') (\<lambda>ok. pbind (ackAndDel []) (\<lambda>_. Ret ()))"
    using enc delay by (simp add: failed_job_def Let_def scheduleRetry_def cmd_def demo_q_def NewRedisJobQueue_def job_def unix_milli_def)
  from qstep.command[where R = log_ops and C = tiny_codec and q = ?q and i = 0 and ok = True
      and s = "demo_start\<lparr>qs_threads := [([([], ?raw)], Do (ZAdd retryZSetKey 10000 ''+1;a'') (\<lambda>ok. pbind (ackAndDel []) (\<lambda>_. Ret ())))]\<rparr>"]
  have 2: "qstep log_ops tiny_codec ?q (demo_start\<lparr>qs_threads := [([([], ?raw)], pbind ?p (\<lambda>_. Ret ()))]\<rparr>)
      (demo_crashed\<lparr>qs_threads := [([([], ?raw)], pbind (ackAndDel []) (\<lambda>_. Ret ()))]\<rparr>)"
    unfolding p by (simp add: log_ops_def demo_start_def demo_crashed_def)
  from qstep.crash[of log_ops tiny_codec ?q "demo_crashed\<lparr>qs_threads := [([([], ?raw)], pbind (ackAndDel []) (\<lambda>_. Ret ()))]\<rparr>" 0]
  have 3: "qstep log_ops tiny_codec ?q (demo_crashed\<lparr>qs_threads := [([([], ?raw)], pbind (ackAndDel []) (\<lambda>_. Ret ()))]\<rparr>) demo_crashed"
    by (simp add: demo_crashed_def)
  from 1 2 3 show ?thesis by (meson converse_rtranclp_into_rtranclp rtranclp.rtrancl_refl)
qed


text \<open>What the condition on ignored failures excludes: when Redis does not take the retry, the message is
  acknowledged all the same, and the job is gone although its handler failed.\<close>

primrec run_prog :: "'r redis \<Rightarrow> 'a prog \<Rightarrow> 'r \<Rightarrow> 'a \<times> 'r" where
  "run_prog R (Ret x) = (\<lambda>r. (x, r))"
| "run_prog R (Do c k) = (\<lambda>r. case rd_exec R c r of (ok, r') \<Rightarrow> run_prog R (k ok) r')"

theorem retry_lost:
  "snd (run_prog (log_ops\<lparr>rd_exec := (\<lambda>c r. case c of ZAdd k t m \<Rightarrow> (False, r) | _ \<Rightarrow> lr_exec c r)\<rparr>)
      (fst (process tiny_codec demo_q 0 False ([], ''+;a'') ())) (qs_redis demo_start)) = \<lparr>lr_log = [None], lr_dlq = [], lr_retry = []\<rparr>"
  by (simp add: process_def tiny_codec_def run_handler_def handlerFor_def demo_q_def NewRedisJobQueue_def failed_job_def scheduleRetry_def
      ackAndDel_def cmd_def log_ops_def demo_start_def lr_remove_def entry_id_def)

end
