(* ===== verification/Jwt.thy ===== *)
theory Jwt
  imports Verify Tags
begin

text \<open>
  Tokens, \<^verbatim>\<open>src/jwt\<close>: a token is \<open>header.payload.signature\<close>, each part in the unpadded URL form
  of base64, signed like any other text. The codec of \<^verbatim>\<open>encoding/base64\<close> is modelled on the bit
  lists of the base32 codec: the encoder regroups bits by six, the decoder skips line ends, regroups
  by eight and drops the bits left over in the last character; one left-over character is an error.
  The JSON texts of the header and the claims are parameters.

  Shown here: the base64 codec decodes what it encodes; a token made with a private key is valid for
  the address of that key until it expires; a valid token was signed by the expected key.
\<close>

section \<open>The base64 codec\<close>

definition url_alphabet :: string where
  "url_alphabet = ''ABCDEFGHIJKLMNOPQRSTUVWXYZabcdefghijklmnopqrstuvwxyz0123456789-_''"

definition str_bytes :: "string \<Rightarrow> 8 word list" where
  "str_bytes s = map (\<lambda>c. of_nat (of_char c)) s"

definition bytes_str :: "8 word list \<Rightarrow> string" where
  "bytes_str bs = map (\<lambda>b. char_of (unat b)) bs"

definition base64_encode :: "8 word list \<Rightarrow> string" where
  "base64_encode bs = map ((!) url_alphabet) (regroup 5 (concat (map (\<lambda>b. to_bits 8 (unat b)) bs)))"

fun base64_digits :: "string \<Rightarrow> nat list option" where
  "base64_digits [] = Some []"
| "base64_digits (c # cs) = (case index_of c url_alphabet of None \<Rightarrow> None
     | Some d \<Rightarrow> map_option (Cons d) (base64_digits cs))"

text \<open>The bytes a last quantum of two or three characters yields.\<close>

definition quad_bytes :: "nat \<Rightarrow> nat" where
  "quad_bytes r = (if r = 2 then 1 else if r = 3 then 2 else 0)"

definition base64_decode :: "string \<Rightarrow> 8 word list option" where
  "base64_decode s =
     (let t = filter (\<lambda>c. c \<noteq> CHR 0x0A \<and> c \<noteq> CHR 0x0D) s;
          n = 3 * (length t div 4) + quad_bytes (length t mod 4)
      in if length t mod 4 = 1 then None
         else map_option (\<lambda>ds. map of_nat (regroup 7 (take (8 * n) (concat (map (to_bits 6) ds)))))
           (base64_digits t))"

section \<open>Tokens\<close>

record jwt_header =
  jh_alg :: string
  jh_typ :: string
  jh_kid :: string

record jwt_claims =
  jc_iss :: string
  jc_sub :: string
  jc_aud :: string
  jc_exp :: string
  jc_iat :: string
  jc_jti :: string

record jwt_codec =
  enc_header :: "jwt_header \<Rightarrow> string option"
  dec_header :: "string \<Rightarrow> jwt_header option"
  enc_claims :: "jwt_claims \<Rightarrow> string option"
  dec_claims :: "string \<Rightarrow> jwt_claims option"

datatype jwt_error = JwtMarshal | JwtSign crypto_error | JwtFormat | JwtBase64 | JwtUnmarshal
  | JwtUnsupported | JwtExpiration | JwtExpired | JwtSignature crypto_error

definition jwt_new_header :: jwt_header where
  "jwt_new_header = \<lparr>jh_alg = ''CONCRNT'', jh_typ = ''JWT'', jh_kid = []\<rparr>"

definition jwt_Create :: "jwt_codec \<Rightarrow> codec \<Rightarrow> crypto_lib \<Rightarrow> jwt_claims \<Rightarrow> string \<Rightarrow> (jwt_error, string) result" where
  "jwt_Create J C L claims privatekey =
     (case enc_header J jwt_new_header of None \<Rightarrow> Inl JwtMarshal
      | Some headerStr \<Rightarrow> (case enc_claims J claims of None \<Rightarrow> Inl JwtMarshal
        | Some payloadStr \<Rightarrow>
          (let headerB64 = base64_encode (str_bytes headerStr); payloadB64 = base64_encode (str_bytes payloadStr);
               target = headerB64 @ ''.'' @ payloadB64
           in rbind (rmap_err JwtSign (SignBytes C L target privatekey)) (\<lambda>signatureBytes.
              Inr (target @ ''.'' @ base64_encode signatureBytes)))))"

text \<open>Decoding one part of a token: base64, then JSON.\<close>

definition jwt_part :: "(string \<Rightarrow> 'a option) \<Rightarrow> string \<Rightarrow> (jwt_error, 'a) result" where
  "jwt_part dec part = (case base64_decode part of None \<Rightarrow> Inl JwtBase64
     | Some b \<Rightarrow> (case dec (bytes_str b) of None \<Rightarrow> Inl JwtUnmarshal | Some x \<Rightarrow> Inr x))"

definition jwt_Parse :: "jwt_codec \<Rightarrow> string \<Rightarrow> (jwt_error, jwt_header \<times> jwt_claims) result" where
  "jwt_Parse J jwt = (case split_char CHR ''.'' jwt of
     [p0, p1, p2] \<Rightarrow> rbind (jwt_part (dec_header J) p0) (\<lambda>header.
                   rbind (jwt_part (dec_claims J) p1) (\<lambda>claims. Inr (header, claims)))
   | _ \<Rightarrow> Inl JwtFormat)"

text \<open>The expiry check at a clock reading: no expiry never expires, an unreadable one is an error.\<close>

definition jwt_expiry :: "gotime \<Rightarrow> jwt_claims \<Rightarrow> (jwt_error, unit) result" where
  "jwt_expiry now claims = (if jc_exp claims = [] then Inr ()
     else case atoi (jc_exp claims) of None \<Rightarrow> Inl JwtExpiration
       | Some e \<Rightarrow> if e < now div 1000000000 then Inl JwtExpired else Inr ())"

definition jwt_Validate :: "jwt_codec \<Rightarrow> codec \<Rightarrow> crypto_lib \<Rightarrow> gotime \<Rightarrow> string \<Rightarrow> string \<Rightarrow> (jwt_error, unit) result" where
  "jwt_Validate J C L now jwt expectedSigner = rbind (jwt_Parse J jwt) (\<lambda>(header, claims).
     if jh_typ header \<noteq> ''JWT'' \<or> jh_alg header \<noteq> ''CONCRNT'' then Inl JwtUnsupported
     else rbind (jwt_expiry now claims) (\<lambda>_.
     (case split_char CHR ''.'' jwt of
        [p0, p1, p2] \<Rightarrow> (case base64_decode p2 of None \<Rightarrow> Inl JwtBase64
          | Some signatureBytes \<Rightarrow> rmap_err JwtSignature (VerifySignature C L (p0 @ ''.'' @ p1) signatureBytes expectedSigner))
      | _ \<Rightarrow> Inl JwtFormat)))"

section \<open>The codec\<close>

lemma url_alphabet_facts: "length url_alphabet = 64" "distinct url_alphabet"
  by (simp_all add: url_alphabet_def)

lemma url_alphabet_chars: "c \<in> set url_alphabet \<Longrightarrow> c \<noteq> CHR ''.'' \<and> c \<noteq> CHR 0x0A \<and> c \<noteq> CHR 0x0D"
  by (auto simp: url_alphabet_def)

lemma base64_encode_alt: "base64_encode bs = map ((!) url_alphabet) (regroup 5 (byte_bits bs))"
  by (simp add: base64_encode_def byte_bits_def)

lemma base64_digit_less: "d \<in> set (regroup 5 (byte_bits bs)) \<Longrightarrow> d < 64"
  using regroup_less[of "byte_bits bs" d 5] byte_bits_bit by simp

lemma base64_encode_chars: "c \<in> set (base64_encode bs) \<Longrightarrow> c \<in> set url_alphabet"
  by (auto simp: base64_encode_alt url_alphabet_facts dest!: base64_digit_less)

lemma base64_no_dot [simp]: "CHR ''.'' \<notin> set (base64_encode bs)"
  using base64_encode_chars url_alphabet_chars by blast

lemma base64_encode_length: "length (base64_encode bs) = (8 * length bs + 5) div 6"
  by (simp add: base64_encode_alt regroup_length)

lemma base64_digits_encoded:
  "(\<And>d. d \<in> set ds \<Longrightarrow> d < 64) \<Longrightarrow> base64_digits (map ((!) url_alphabet) ds) = Some ds"
  by (induction ds) (auto simp: index_of_nth url_alphabet_facts)

lemma quad_bytes_encode:
  "3 * ((8 * n + 5) div 6 div 4) + quad_bytes ((8 * n + 5) div 6 mod 4) = n \<and> (8 * n + 5) div 6 mod 4 \<noteq> 1"
proof -
  obtain q r where n: "n = 3 * q + r" and r: "r < 3"
    using mult_div_mod_eq[of 3 n] by (metis mod_less_divisor zero_less_numeral)
  let ?c = "(8 * r + 5) div 6"
  have "(8 * n + 5) div 6 = 4 * q + ?c" by (simp add: n)
  moreover have "(4 * q + ?c) div 4 = q" "(4 * q + ?c) mod 4 = ?c" using r by auto
  moreover have "r \<in> {0, 1, 2}" using r by auto
  then have "quad_bytes ?c = r" "?c \<noteq> 1" by (auto simp: quad_bytes_def)
  ultimately show ?thesis by (simp only: n) simp
qed

lemma base64_roundtrip: "base64_decode (base64_encode bs) = Some bs"
proof -
  let ?ds = "regroup 5 (byte_bits bs)" and ?t = "base64_encode bs"
  have nl: "filter (\<lambda>c. c \<noteq> CHR 0x0A \<and> c \<noteq> CHR 0x0D) ?t = ?t"
    by (intro filter_True) (auto dest!: base64_encode_chars url_alphabet_chars)
  have n: "3 * (length ?t div 4) + quad_bytes (length ?t mod 4) = length bs" "length ?t mod 4 \<noteq> 1"
    unfolding base64_encode_length using quad_bytes_encode by blast+
  have "base64_digits ?t = Some ?ds"
    unfolding base64_encode_alt by (rule base64_digits_encoded) (rule base64_digit_less)
  moreover have "take (8 * length bs) (concat (map (to_bits 6) ?ds)) = byte_bits bs"
    using regroup_bits[of "byte_bits bs" 5] byte_bits_bit by simp
  ultimately show ?thesis
    unfolding base64_decode_def Let_def nl n(1) using n(2) by (simp add: regroup_byte_bits)
qed

lemma bytes_str_str_bytes [simp]: "bytes_str (str_bytes s) = s"
proof -
  have "unat (of_nat (of_char c) :: 8 word) = of_char c" for c :: char
    by (simp add: unat_of_nat)
  then show ?thesis by (simp add: bytes_str_def str_bytes_def comp_def)
qed

section \<open>Tokens round trip\<close>

text \<open>Documented behaviour of \<^verbatim>\<open>encoding/json\<close>: a struct of strings of ASCII characters decodes to
  itself.\<close>

definition ascii_claims :: "jwt_claims \<Rightarrow> bool" where
  "ascii_claims c \<longleftrightarrow> list_all (list_all (\<lambda>x. of_char x < (128 :: nat)))
     [jc_iss c, jc_sub c, jc_aud c, jc_exp c, jc_iat c, jc_jti c]"

definition jwt_codec_ok :: "jwt_codec \<Rightarrow> bool" where
  "jwt_codec_ok J \<longleftrightarrow> (\<forall>t. enc_header J jwt_new_header = Some t \<longrightarrow> dec_header J t = Some jwt_new_header)
     \<and> (\<forall>c t. ascii_claims c \<longrightarrow> enc_claims J c = Some t \<longrightarrow> dec_claims J t = Some c)"

lemma jwt_part_encode: "jwt_part dec (base64_encode (str_bytes t)) = (case dec t of None \<Rightarrow> Inl JwtUnmarshal | Some x \<Rightarrow> Inr x)"
  by (simp add: jwt_part_def base64_roundtrip)

lemma split3_iff: "split_char c t = [a, b, d] \<Longrightarrow> t = a @ [c] @ b @ [c] @ d"
  using join_split[of c t] by simp

lemma jwt_Create_split:
  assumes "jwt_Create J C L claims k = Inr tok"
  obtains h p s where "enc_header J jwt_new_header = Some h" "enc_claims J claims = Some p"
    "SignBytes C L (base64_encode (str_bytes h) @ ''.'' @ base64_encode (str_bytes p)) k = Inr s"
    "split_char CHR ''.'' tok = [base64_encode (str_bytes h), base64_encode (str_bytes p), base64_encode s]"
  using assms unfolding jwt_Create_def Let_def
  by (auto simp: rbind_eq_Inr split_char_append split_char_none split: option.splits)

lemma jwt_Validate_iff:
  "jwt_Validate J C L now tok a = Inr () \<longleftrightarrow> (\<exists>h c p0 p1 p2 s. jwt_Parse J tok = Inr (h, c) \<and> jh_typ h = ''JWT''
     \<and> jh_alg h = ''CONCRNT'' \<and> jwt_expiry now c = Inr () \<and> split_char CHR ''.'' tok = [p0, p1, p2]
     \<and> base64_decode p2 = Some s \<and> VerifySignature C L (p0 @ ''.'' @ p1) s a = Inr ())"
  unfolding jwt_Validate_def by (auto simp: rbind_eq_Inr split: option.splits list.splits)

text \<open>A token made with a private key from ASCII claims parses back to the claims, and is valid for
  the address of that key at every time at which the claims have not expired.\<close>

theorem jwt_Create_Validate:
  assumes "crypto_ok L" and "jwt_codec_ok J" and "ascii_claims claims" and "jwt_Create J C L claims k = Inr tok"
    and "PrivKeyToAddr L k hrp = Inr a" and "length hrp = 3"
  shows "jwt_Parse J tok = Inr (jwt_new_header, claims) \<and> jwt_Validate J C L now tok a = jwt_expiry now claims"
proof -
  from assms(4) obtain h p s where hp: "enc_header J jwt_new_header = Some h" "enc_claims J claims = Some p"
    and s: "SignBytes C L (base64_encode (str_bytes h) @ ''.'' @ base64_encode (str_bytes p)) k = Inr s"
    and split: "split_char CHR ''.'' tok = [base64_encode (str_bytes h), base64_encode (str_bytes p), base64_encode s]"
    by (rule jwt_Create_split)
  have dec: "dec_header J h = Some jwt_new_header" "dec_claims J p = Some claims"
    using assms(2,3) hp unfolding jwt_codec_ok_def by blast+
  have parse: "jwt_Parse J tok = Inr (jwt_new_header, claims)"
    by (simp add: jwt_Parse_def split jwt_part_encode dec)
  have "VerifySignature C L (base64_encode (str_bytes h) @ ''.'' @ base64_encode (str_bytes p)) s a = Inr ()"
    by (rule SignBytes_verifies[OF assms(1) s assms(5,6)])
  then have "jwt_Validate J C L now tok a = jwt_expiry now claims"
    by (cases "jwt_expiry now claims") (simp_all add: jwt_Validate_def parse split jwt_new_header_def base64_roundtrip)
  with parse show ?thesis by blast
qed

lemma jwt_Validate_signed:
  assumes "jwt_Validate J C L now tok a = Inr ()"
  shows "\<exists>h c p0 p1 p2. jwt_Parse J tok = Inr (h, c) \<and> tok = p0 @ ''.'' @ p1 @ ''.'' @ p2
     \<and> signed_by C L (p0 @ ''.'' @ p1) a \<and> jwt_expiry now c = Inr ()"
  using assms unfolding jwt_Validate_iff signed_by_def by (metis split3_iff)

section \<open>An instance\<close>

definition demo_claims :: jwt_claims where
  "demo_claims = \<lparr>jc_iss = ''cckv://a'', jc_sub = ''concrnt'', jc_aud = ''host'', jc_exp = ''90'', jc_iat = [], jc_jti = []\<rparr>"

definition demo_jwt :: jwt_codec where
  "demo_jwt = \<lparr>enc_header = (\<lambda>h. if h = jwt_new_header then Some ''h'' else None),
     dec_header = (\<lambda>t. if t = ''h'' then Some jwt_new_header else None),
     enc_claims = (\<lambda>c. if c = demo_claims then Some ''pay'' else None),
     dec_claims = (\<lambda>t. if t = ''pay'' then Some demo_claims else None)\<rparr>"

lemma demo_jwt_ok: "jwt_codec_ok demo_jwt" "ascii_claims demo_claims"
  by (auto simp: jwt_codec_ok_def demo_jwt_def ascii_claims_def demo_claims_def split: if_splits)

definition demo_privkey :: string where
  "demo_privkey = concat (replicate 32 ''61'')"

definition demo_address :: string where
  "demo_address = ''con'' @ replicate 32 CHR ''a'' @ replicate 7 CHR ''0''"

definition demo_token :: string where
  "demo_token = ''aA.cGF5.YWFhYWFhYWFhYWFhYWFhYWFhYWFhYWFhYWFhYWFhYWE''"

lemma demo_token_runs:
  "jwt_Create demo_jwt demo_codec demo_crypto demo_claims demo_privkey = Inr demo_token"
  "PrivKeyToAddr demo_crypto demo_privkey ''con'' = Inr demo_address"
  by code_simp+

theorem jwt_Create_Validate_witness:
  "jwt_Validate demo_jwt demo_codec demo_crypto (seconds 90) demo_token demo_address = Inr ()
   \<and> jwt_Validate demo_jwt demo_codec demo_crypto (seconds 91) demo_token demo_address = Inl JwtExpired"
proof -
  have "jwt_Validate demo_jwt demo_codec demo_crypto now demo_token demo_address = jwt_expiry now demo_claims" for now
    using jwt_Create_Validate[OF demo_laws(3) demo_jwt_ok demo_token_runs, of now] by simp
  moreover have "jwt_expiry (seconds 90) demo_claims = Inr ()" "jwt_expiry (seconds 91) demo_claims = Inl JwtExpired"
    by code_simp+
  ultimately show ?thesis by simp
qed

end
