(* ===== verification/Client.thy ===== *)
theory Client
  imports Verify Act
begin

text \<open>
  The client to other servers, \<^verbatim>\<open>src/client/client.go\<close>: the tracking of unreachable and of plain
  hosts, its cache, the resolution of servers and resources, and the fetching of verified records.
  \<^verbatim>\<open>http.Client.Do\<close>, the URI template library and the JSON codecs are parameters; the \<open>n\<close>th request a
  client makes has the \<open>n\<close>th answer, so a server may answer the same request differently later.
  \<^verbatim>\<open>errors.Join\<close> keeps the joined error in the chain, so an error passes through it unchanged. A
  \<^verbatim>\<open>nil\<close> options pointer is read as the zero options everywhere.

  \<^verbatim>\<open>GetServer\<close> and \<^verbatim>\<open>resolveResolver\<close> call each other without a bound; the model counts the depth of
  those calls with fuel, and \<open>None\<close> is a call that needs more. Shown here: with a domain as default
  resolver every call returns; with an empty one the resolution of an entity never does; the cache
  never holds a value of the wrong type; a record the client hands out was signed by its author's
  key, whether it was verified now or remembered as verified.
\<close>

section \<open>Types\<close>

record http_req =
  rq_method :: string
  rq_url :: url
  rq_host :: string
  rq_header :: "(string, string) gmap"
  rq_body :: string

record http_resp =
  rs_status :: nat
  rs_header :: "(string, string) gmap"
  rs_body :: string

text \<open>\<^verbatim>\<open>json.Decoder.Decode\<close>, \<^verbatim>\<open>json.Unmarshal\<close> and \<^verbatim>\<open>json.Marshal\<close> at one type.\<close>

record 'a json_type =
  jt_decode :: "string \<Rightarrow> 'a option"
  jt_unmarshal :: "string \<Rightarrow> 'a option"
  jt_marshal :: "'a \<Rightarrow> string option"

record client_env =
  ce_codec :: codec
  ce_crypto :: crypto_lib
  ce_defaultResolver :: string
  ce_now :: gotime
  ce_do :: "nat \<Rightarrow> (http_req \<Rightarrow> http_req) \<Rightarrow> http_req \<Rightarrow> (bool, http_resp) result"
  ce_template :: "string \<Rightarrow> (string, string) gmap \<Rightarrow> string option"
  ce_wkc :: "well_known json_type"
  ce_sd :: "signed_document json_type"
  ce_proof :: "proof_t \<Rightarrow> string option"

text \<open>A value of the cache: the dynamic types the client stores.\<close>

datatype cache_value = CServer well_known | CBytes string | CHash "8 word list"

record client_state =
  cs_cache :: "(string, cache_value \<times> gotime) gmap"
  cs_lastFailed :: "(string, gotime) gmap"
  cs_failCount :: "(string, nat) gmap"
  cs_plainHosts :: "(string, gotime) gmap"
  cs_remappings :: "(string, url) gmap"
  cs_userAgent :: string
  cs_requests :: nat

type_synonym 'a cl_act = "(client_state, 'a) act"

record client_opts =
  co_resolver :: string
  co_noCache :: bool
  co_skipVerify :: bool
  co_allowed :: "string list option"

definition zero_opts :: client_opts where
  "zero_opts = \<lparr>co_resolver = [], co_noCache = False, co_skipVerify = False, co_allowed = None\<rparr>"

definition ErrNotConcrntServer :: domain_error where
  "ErrNotConcrntServer = EOther ''not a concrnt server''"

definition ErrEndpointMissing :: domain_error where
  "ErrEndpointMissing = EOther ''concrnt endpoint missing''"

definition ErrOffline :: domain_error where
  "ErrOffline = EOther ''Domain is offline''"

definition new_client :: client_state where
  "new_client = \<lparr>cs_cache = [], cs_lastFailed = [], cs_failCount = [], cs_plainHosts = [], cs_remappings = [],
     cs_userAgent = [], cs_requests = 0\<rparr>"

section \<open>Reachability of hosts\<close>

definition plainHostTTL :: gotime where
  "plainHostTTL = seconds 3600"

definition maxFailCount :: nat where
  "maxFailCount = 23"

definition offlineHosts :: "client_state \<Rightarrow> string list" where
  "offlineHosts s = map fst (filter (\<lambda>(h, t). t \<noteq> zero_time) (cs_lastFailed s))"

definition SetUserAgent :: "string \<Rightarrow> string \<Rightarrow> client_state \<Rightarrow> client_state" where
  "SetUserAgent software version s = s\<lparr>cs_userAgent := software @ ''/'' @ version @ '' (Concrnt)''\<rparr>"

definition AddHostRemapping :: "string \<Rightarrow> string \<Rightarrow> client_state \<Rightarrow> client_state" where
  "AddHostRemapping host target s = (case url_parse target of None \<Rightarrow> s
     | Some parsed \<Rightarrow> if u_scheme parsed \<noteq> ''http'' \<and> u_scheme parsed \<noteq> ''https'' then s
         else if u_host parsed = [] then s
         else s\<lparr>cs_remappings := gmap_set host parsed (cs_remappings s)\<rparr>)"

definition isPlainHost :: "client_env \<Rightarrow> string \<Rightarrow> client_state \<Rightarrow> bool" where
  "isPlainHost E d s = (case map_of (cs_plainHosts s) d of None \<Rightarrow> False | Some since \<Rightarrow> ce_now E - since < plainHostTTL)"

definition IsOnline :: "client_env \<Rightarrow> string \<Rightarrow> client_state \<Rightarrow> bool" where
  "IsOnline E d s = (if isPlainHost E d s then True
     else case map_of (cs_lastFailed s) d of None \<Rightarrow> True | Some lastFailed \<Rightarrow> lastFailed = zero_time)"

definition markOffline :: "client_env \<Rightarrow> string \<Rightarrow> client_state \<Rightarrow> client_state" where
  "markOffline E d s = (if isPlainHost E d s then s else s\<lparr>cs_lastFailed := gmap_set d (ce_now E) (cs_lastFailed s)\<rparr>)"

definition markOfflineIfTimeout :: "client_env \<Rightarrow> string \<Rightarrow> bool \<Rightarrow> client_state \<Rightarrow> client_state" where
  "markOfflineIfTimeout E d timeout s = (if timeout then markOffline E d s else s)"

definition markPlainHost :: "client_env \<Rightarrow> string \<Rightarrow> client_state \<Rightarrow> client_state" where
  "markPlainHost E d s = s\<lparr>cs_plainHosts := gmap_set d (ce_now E) (cs_plainHosts s),
     cs_lastFailed := gmap_del d (cs_lastFailed s), cs_failCount := gmap_del d (cs_failCount s)\<rparr>"

section \<open>Requests\<close>

text \<open>\<^verbatim>\<open>url.URL.Hostname\<close>: the host without a valid port.\<close>

definition Hostname :: "url \<Rightarrow> string" where
  "Hostname u = (let (h, p) = cut_last CHR '':'' (u_host u) in
     if CHR '':'' \<in> set (u_host u) \<and> validOptionalPort (CHR '':'' # p) then h else u_host u)"

text \<open>\<^verbatim>\<open>http.NewRequest\<close> fails on a URL that does not parse; a bare trailing colon of the host is dropped.\<close>

definition http_NewRequest :: "string \<Rightarrow> string \<Rightarrow> (string, string) gmap \<Rightarrow> string \<Rightarrow> http_req option" where
  "http_NewRequest meth raw hdr body = (case url_parse raw of None \<Rightarrow> None
     | Some u \<Rightarrow> (let host = trim_suffix (u_host u) '':'' in
         Some \<lparr>rq_method = meth, rq_url = u\<lparr>u_host := host\<rparr>, rq_host = host, rq_header = hdr, rq_body = body\<rparr>))"

definition RoundTrip :: "client_state \<Rightarrow> http_req \<Rightarrow> http_req" where
  "RoundTrip s req = (let req' = (case map_of (cs_remappings s) (rq_host req) of None \<Rightarrow> req
       | Some remap \<Rightarrow> req\<lparr>rq_host := u_host remap, rq_url := (rq_url req)\<lparr>u_host := u_host remap, u_scheme := u_scheme remap\<rparr>\<rparr>)
     in req'\<lparr>rq_header := gmap_set ''User-Agent'' (cs_userAgent s) (rq_header req')\<rparr>)"

text \<open>\<^verbatim>\<open>c.client.Do\<close>: the answer is handed to the caller with its error, \<open>Inl True\<close> for a timeout.\<close>

definition client_Do :: "client_env \<Rightarrow> http_req \<Rightarrow> (bool, http_resp) result cl_act" where
  "client_Do E req s = Some (Inr (ce_do E (cs_requests s) (RoundTrip s) req), s\<lparr>cs_requests := Suc (cs_requests s)\<rparr>)"

text \<open>The \<^verbatim>\<open>Do\<close>, \<^verbatim>\<open>markOfflineIfTimeout\<close>, \<^verbatim>\<open>return err\<close> idiom.\<close>

definition do_or_offline :: "client_env \<Rightarrow> string \<Rightarrow> http_req \<Rightarrow> http_resp cl_act" where
  "do_or_offline E d req = sbind (client_Do E req) (\<lambda>r. (case r of
     Inl timeout \<Rightarrow> seq (modify (markOfflineIfTimeout E d timeout)) (fail (EOther ''failed to perform request''))
   | Inr resp \<Rightarrow> ret resp))"

definition new_request :: "string \<Rightarrow> string \<Rightarrow> (string, string) gmap \<Rightarrow> string \<Rightarrow> http_req cl_act" where
  "new_request meth raw hdr body = lift_option (EOther ''failed to create request'') (http_NewRequest meth raw hdr body)"

definition healthCheckDomain :: "client_env \<Rightarrow> string \<Rightarrow> unit cl_act" where
  "healthCheckDomain E d = sbind (new_request ''GET'' (''https://'' @ d @ ''/.well-known/concrnt'') [] []) (\<lambda>req.
     sbind (client_Do E req) (\<lambda>r. (case r of Inl timeout \<Rightarrow> fail (EOther ''failed to perform request'')
     | Inr resp \<Rightarrow>
       if rs_status resp \<ge> 400 \<and> rs_status resp < 500 then modify (markPlainHost E d)
       else if rs_status resp \<noteq> 200 then fail (EOther ''failed to get well-known concrnt'')
       else sbind (lift_option (EOther ''decode'') (jt_decode (ce_wkc E) (rs_body resp))) (\<lambda>_. ret ()))))"

text \<open>The wait after a number of failures: \<^verbatim>\<open>0.5 * 1.5^min(n, 23)\<close>, truncated to whole seconds.\<close>

definition upkeep_span :: "nat \<Rightarrow> gotime" where
  "upkeep_span failCount = (let n = min failCount maxFailCount in seconds (3 ^ n div 2 ^ Suc n))"

definition upkeep_domain :: "client_env \<Rightarrow> string \<times> gotime \<Rightarrow> unit cl_act" where
  "upkeep_domain E dt = (case dt of (d, lastFailed) \<Rightarrow>
     seq (modify (\<lambda>s. if map_of (cs_failCount s) d = None then s\<lparr>cs_failCount := gmap_set d 0 (cs_failCount s)\<rparr> else s))
     (sbind (gets (\<lambda>s. case map_of (cs_failCount s) d of None \<Rightarrow> 0 | Some n \<Rightarrow> n)) (\<lambda>failCount.
      if ce_now E - lastFailed > upkeep_span failCount then
        sbind (attempt (healthCheckDomain E d)) (\<lambda>r. (case r of
          Inl err \<Rightarrow> modify (\<lambda>s. s\<lparr>cs_lastFailed := gmap_set d (ce_now E) (cs_lastFailed s),
              cs_failCount := gmap_set d (Suc (case map_of (cs_failCount s) d of None \<Rightarrow> 0 | Some n \<Rightarrow> n)) (cs_failCount s)\<rparr>)
        | Inr u \<Rightarrow> modify (\<lambda>s. s\<lparr>cs_lastFailed := gmap_del d (cs_lastFailed s), cs_failCount := gmap_del d (cs_failCount s)\<rparr>)))
      else ret ())))"

text \<open>One tick of \<^verbatim>\<open>UpKeeper\<close>, over the copy of the failed hosts it takes.\<close>

definition UpKeeper_tick :: "client_env \<Rightarrow> unit cl_act" where
  "UpKeeper_tick E = sbind (gets cs_lastFailed) (\<lambda>domains. sbind (smap (upkeep_domain E) domains) (\<lambda>_. ret ()))"

section \<open>The cache\<close>

definition cache_ttl :: gotime where
  "cache_ttl = seconds 600"

text \<open>\<^verbatim>\<open>go-cache\<close>: an item past its expiration is not found.\<close>

definition cache_get :: "client_env \<Rightarrow> string \<Rightarrow> client_state \<Rightarrow> cache_value option" where
  "cache_get E key s = (case map_of (cs_cache s) key of None \<Rightarrow> None
     | Some (v, expiration) \<Rightarrow> if expiration < ce_now E then None else Some v)"

definition cache_set :: "client_env \<Rightarrow> string \<Rightarrow> cache_value \<Rightarrow> unit cl_act" where
  "cache_set E key v = modify (\<lambda>s. s\<lparr>cs_cache := gmap_set key (v, ce_now E + cache_ttl) (cs_cache s)\<rparr>)"

definition server_key :: "string \<Rightarrow> string" where
  "server_key d = ''server:'' @ d"

definition resource_key :: "string \<Rightarrow> string \<Rightarrow> string" where
  "resource_key uri accept = ''resource:'' @ uri @ '':'' @ accept"

definition verified_key :: "string \<Rightarrow> string" where
  "verified_key uri = ''verified:'' @ uri"

definition InvalidateResource :: "string \<Rightarrow> client_state \<Rightarrow> client_state" where
  "InvalidateResource uri s = s\<lparr>cs_cache := gmap_del (verified_key uri)
     (gmap_del (resource_key uri ''application/json'') (cs_cache s))\<rparr>"

text \<open>A cached JSON text of a given key; a value of another type makes the assertion \<^verbatim>\<open>x.([]byte)\<close> panic.\<close>

definition cached_bytes :: "client_env \<Rightarrow> string \<Rightarrow> string option cl_act" where
  "cached_bytes E key = sbind (gets (cache_get E key)) (\<lambda>x. (case x of None \<Rightarrow> ret None
     | Some (CBytes b) \<Rightarrow> ret (Some b) | Some v \<Rightarrow> fail EPanic))"

section \<open>Servers and resources\<close>

type_synonym get_server = "string \<Rightarrow> string option \<Rightarrow> well_known cl_act"
type_synonym resolve_op = "string \<Rightarrow> string cl_act"

text \<open>The operations take the two functions that resolve servers, so that they stand before the
  recursion that ties them.\<close>

definition resolve_info :: "get_server \<Rightarrow> resolve_op \<Rightarrow> client_opts \<Rightarrow> ccuri \<Rightarrow> well_known cl_act" where
  "resolve_info gs rr opts parsed = (if co_resolver opts \<noteq> [] then gs (co_resolver opts) None
     else sbind (rr (cu_owner parsed)) (\<lambda>d. gs d None))"

definition render_endpoint :: "client_env \<Rightarrow> domain_error \<Rightarrow> string \<Rightarrow> (string, string) gmap \<Rightarrow> well_known \<Rightarrow> string cl_act" where
  "render_endpoint E missing name args info = (case map_of (wk_endpoints info) name of None \<Rightarrow> fail missing
     | Some desc \<Rightarrow> lift_option (EOther ''failed to render endpoint template'') (ce_template E desc args))"

definition resource_args :: "string \<Rightarrow> ccuri \<Rightarrow> (string, string) gmap" where
  "resource_args uri parsed = [(''owner'', cu_owner parsed), (''key'', cu_key parsed), (''uri'', escape EncQueryComponent uri)]"

definition ResolveResourceURI :: "client_env \<Rightarrow> get_server \<Rightarrow> resolve_op \<Rightarrow> string \<Rightarrow> client_opts \<Rightarrow> string cl_act" where
  "ResolveResourceURI E gs rr uri opts = sbind (lift (rmap_err (\<lambda>_. EOther ''invalid cc uri'') (ParseCCURI uri))) (\<lambda>parsed.
     if cu_scheme parsed = ''http'' then ret uri
     else sbind (resolve_info gs rr opts parsed) (\<lambda>info.
       sbind (render_endpoint E (EOther ''resource endpoint not found'') ''net.concrnt.core.resolve'' (resource_args uri parsed) info) (\<lambda>path.
       ret (''https://'' @ wk_domain info @ path))))"

definition fetch_json :: "client_env \<Rightarrow> 'a json_type \<Rightarrow> string \<Rightarrow> string \<Rightarrow> (string, string) gmap \<Rightarrow> 'a cl_act" where
  "fetch_json E T d endpoint hdr = sbind (new_request ''GET'' endpoint hdr []) (\<lambda>req.
     sbind (do_or_offline E d req) (\<lambda>resp.
     if rs_status resp \<noteq> 200 then fail (EOther ''failed to get resource'')
     else lift_option (EOther ''failed to decode resource'') (jt_decode T (rs_body resp))))"

definition cache_json :: "client_env \<Rightarrow> 'a json_type \<Rightarrow> client_opts \<Rightarrow> string \<Rightarrow> 'a \<Rightarrow> 'a cl_act" where
  "cache_json E T opts key x = (if co_noCache opts then ret x
     else sbind (lift_option (EOther ''failed to marshal resource for caching'') (jt_marshal T x)) (\<lambda>b.
       seq (cache_set E key (CBytes b)) (ret x)))"

definition fetch_resource :: "client_env \<Rightarrow> get_server \<Rightarrow> resolve_op \<Rightarrow> 'a json_type \<Rightarrow> string \<Rightarrow> string \<Rightarrow> client_opts \<Rightarrow> 'a cl_act" where
  "fetch_resource E gs rr T uri accept opts = sbind (ResolveResourceURI E gs rr uri opts) (\<lambda>endpoint.
     sbind (lift_option (EOther ''failed to parse endpoint'') (url_parse endpoint)) (\<lambda>endpointURL.
     let d = Hostname endpointURL in
     sbind (gets (IsOnline E d)) (\<lambda>online.
     if d \<noteq> [] \<and> \<not> online then fail ErrOffline
     else sbind (fetch_json E T d endpoint (if accept = [] then [] else [(''Accept'', accept)])) (\<lambda>x.
       cache_json E T opts (resource_key uri accept) x))))"

definition GetResource :: "client_env \<Rightarrow> get_server \<Rightarrow> resolve_op \<Rightarrow> 'a json_type \<Rightarrow> string \<Rightarrow> string \<Rightarrow> client_opts \<Rightarrow> 'a cl_act" where
  "GetResource E gs rr T uri accept opts =
     sbind (if co_noCache opts then ret None else cached_bytes E (resource_key uri accept)) (\<lambda>cached. (case cached of
       Some b \<Rightarrow> lift_option (EOther ''failed to unmarshal cached resource'') (jt_unmarshal T b)
     | None \<Rightarrow> fetch_resource E gs rr T uri accept opts))"

section \<open>Records\<close>

text \<open>Verification with a resolver that changes the state. Each level of \<^const>\<open>verify\<close> asks the
  resolver for one document at most, so a level is the level of \<^const>\<open>verify\<close> with a resolver that
  knows only the document fetched; levels below it that may fetch run first, with the state.\<close>

definition fetch_option :: "(string \<Rightarrow> signed_document cl_act) \<Rightarrow> string \<Rightarrow> signed_document option cl_act" where
  "fetch_option G uri = sbind (attempt (G uri)) (\<lambda>r. (case r of
     Inl EPanic \<Rightarrow> fail EPanic | Inl e \<Rightarrow> ret None | Inr sd \<Rightarrow> ret (Some sd)))"

text \<open>The reference a reference proof resolves, when the checks before the resolution pass.\<close>

definition reference_href :: "codec \<Rightarrow> signed_document \<Rightarrow> document \<Rightarrow> string option" where
  "reference_href C sd doc = (case pf_href (sd_proof sd) of None \<Rightarrow> None
     | Some href \<Rightarrow> (case dec_reference C (sd_document sd) of None \<Rightarrow> None
        | Some (_, ref) \<Rightarrow> if d_schema doc = ReferenceURL \<and> rf_href ref = href then Some href else None))"

definition subkey_ref :: "signed_document \<Rightarrow> string option" where
  "subkey_ref sd = (if pf_signature (sd_proof sd) = None then None else pf_key (sd_proof sd))"

fun client_verify :: "codec \<Rightarrow> crypto_lib \<Rightarrow> (string \<Rightarrow> signed_document cl_act) \<Rightarrow> nat \<Rightarrow> string list option
    \<Rightarrow> signed_document \<Rightarrow> (verify_error, unit) result cl_act" where
  "client_verify C L G 0 allowed sd = ret (Inl TooDeep)"
| "client_verify C L G (Suc depth) allowed sd =
     (case dec_doc C (sd_document sd) of None \<Rightarrow> ret (verify C L None (Suc depth) allowed sd)
      | Some doc \<Rightarrow>
        if \<not> type_allowed allowed sd then ret (verify C L None (Suc depth) allowed sd)
        else if pf_type (sd_proof sd) = ProofTypeSubkey then
          (case subkey_ref sd of None \<Rightarrow> ret (verify C L None (Suc depth) allowed sd)
           | Some key \<Rightarrow> sbind (fetch_option G key) (\<lambda>t. ret (verify C L (Some (\<lambda>_. t)) (Suc depth) allowed sd)))
        else if pf_type (sd_proof sd) = ProofTypeDocumentReference then
          (case reference_href C sd doc of None \<Rightarrow> ret (verify_reference C None (\<lambda>_ _. Inl TooDeep) sd doc)
           | Some href \<Rightarrow> sbind (case map_of (sd_references sd) href of Some ref \<Rightarrow> ret (Some ref) | None \<Rightarrow> fetch_option G href) (\<lambda>t.
               (case t of None \<Rightarrow> ret (verify_reference C (Some (\<lambda>_. None)) (\<lambda>_ _. Inl TooDeep) sd doc)
                | Some target \<Rightarrow> sbind (client_verify C L G depth None target) (\<lambda>r.
                    ret (verify_reference C (Some (\<lambda>_. Some target)) (\<lambda>_ _. r) sd doc)))))
        else if pf_type (sd_proof sd) = ProofTypeDocumentDirect then
          (case (pf_document (sd_proof sd), pf_proof (sd_proof sd)) of
             (Some d, Some p) \<Rightarrow> sbind (client_verify C L G depth (Some [ProofTypeEcrecover, ProofTypeSubkey]) (bare_sd d p)) (\<lambda>r.
               ret (verify_direct C (\<lambda>_ _. r) sd))
           | _ \<Rightarrow> ret (verify_direct C (\<lambda>_ _. Inl TooDeep) sd))
        else ret (verify C L None (Suc depth) allowed sd))"

definition verify_or_fail :: "(verify_error, unit) result \<Rightarrow> unit cl_act" where
  "verify_or_fail r = (case r of Inr u \<Rightarrow> ret () | Inl VerifyPanic \<Rightarrow> fail EPanic
     | Inl e \<Rightarrow> fail (EOther ''signature verification failed''))"

definition ResolveSignedDocument :: "client_env \<Rightarrow> get_server \<Rightarrow> resolve_op \<Rightarrow> client_opts \<Rightarrow> string \<Rightarrow> signed_document cl_act" where
  "ResolveSignedDocument E gs rr opts uri = GetResource E gs rr (ce_sd E) uri ''application/json'' opts"

definition remembered :: "client_env \<Rightarrow> client_opts \<Rightarrow> string \<Rightarrow> 8 word list \<Rightarrow> client_state \<Rightarrow> bool" where
  "remembered E opts uri docHash s \<longleftrightarrow> \<not> co_noCache opts \<and> cache_get E (verified_key uri) s = Some (CHash docHash)"

definition verify_record :: "client_env \<Rightarrow> get_server \<Rightarrow> resolve_op \<Rightarrow> string \<Rightarrow> client_opts \<Rightarrow> signed_document \<Rightarrow> unit cl_act" where
  "verify_record E gs rr uri opts sd =
     (if \<not> type_allowed (co_allowed opts) sd then fail (EOther ''proof type is not allowed'')
      else sbind (lift_option (EOther ''failed to marshal proof'') (ce_proof E (sd_proof sd))) (\<lambda>proofBytes.
        let docHash = GetHash (ce_codec E) (sd_document sd @ proofBytes) in
        sbind (gets (remembered E opts uri docHash)) (\<lambda>verified.
        if verified then ret ()
        else sbind (client_verify (ce_codec E) (ce_crypto E) (ResolveSignedDocument E gs rr opts) maxVerifyDepth None sd) (\<lambda>r.
          seq (verify_or_fail r)
            (if co_noCache opts then ret () else cache_set E (verified_key uri) (CHash docHash))))))"

definition GetRecord :: "client_env \<Rightarrow> get_server \<Rightarrow> resolve_op \<Rightarrow> (string \<Rightarrow> 'a option) \<Rightarrow> string \<Rightarrow> client_opts \<Rightarrow> 'a cl_act" where
  "GetRecord E gs rr dec uri opts = sbind (GetResource E gs rr (ce_sd E) uri ''application/json'' opts) (\<lambda>sd.
     seq (if co_skipVerify opts then ret () else verify_record E gs rr uri opts sd)
       (lift_option (EOther ''failed to decode document'') (dec (sd_document sd))))"

section \<open>Resolution of servers\<close>

definition cached_server :: "client_env \<Rightarrow> string \<Rightarrow> well_known option cl_act" where
  "cached_server E key = sbind (gets (cache_get E key)) (\<lambda>x. (case x of None \<Rightarrow> ret None
     | Some (CServer w) \<Rightarrow> ret (Some w) | Some v \<Rightarrow> fail EPanic))"

definition probe_server :: "client_env \<Rightarrow> string \<Rightarrow> well_known cl_act" where
  "probe_server E d = sbind (gets (\<lambda>s. (isPlainHost E d s, IsOnline E d s))) (\<lambda>(plain, online).
     if plain then fail ErrNotConcrntServer
     else if \<not> online then fail ErrOffline
     else sbind (new_request ''GET'' (''https://'' @ d @ ''/.well-known/concrnt'') [] []) (\<lambda>req.
       sbind (do_or_offline E d req) (\<lambda>resp.
       if rs_status resp \<noteq> 200 then
         (if rs_status resp \<ge> 400 \<and> rs_status resp < 500 then seq (modify (markPlainHost E d)) (fail ErrNotConcrntServer)
          else seq (modify (markOffline E d)) (fail (EOther ''failed to get well-known concrnt'')))
       else lift_option (EOther ''failed to decode well-known concrnt'') (jt_decode (ce_wkc E) (rs_body resp)))))"

definition get_server_step :: "client_env \<Rightarrow> get_server \<Rightarrow> resolve_op \<Rightarrow> get_server" where
  "get_server_step E gs rr domainOrCSID hint = sbind (cached_server E (server_key domainOrCSID)) (\<lambda>found. (case found of
     Some w \<Rightarrow> ret w
   | None \<Rightarrow> sbind (if IsCSID domainOrCSID
       then GetResource E gs rr (ce_wkc E) (''cckv://'' @ domainOrCSID) ''application/json''
         (zero_opts\<lparr>co_resolver := (case hint of None \<Rightarrow> ce_defaultResolver E | Some h \<Rightarrow> h)\<rparr>)
       else probe_server E domainOrCSID) (\<lambda>wkc.
         seq (cache_set E (server_key domainOrCSID) (CServer wkc)) (ret wkc))))"

definition resolve_resolver_step :: "client_env \<Rightarrow> get_server \<Rightarrow> resolve_op \<Rightarrow> resolve_op" where
  "resolve_resolver_step E gs rr resolver = (if resolver = [] then ret (ce_defaultResolver E)
     else if IsCCID resolver then
       sbind (GetRecord E gs rr (dec_entity (ce_codec E)) (ComposeCCURI ''cckv'' resolver [])
         (zero_opts\<lparr>co_resolver := ce_defaultResolver E, co_skipVerify := True\<rparr>)) (\<lambda>(doc, v). ret (ev_domain v))
     else if IsCSID resolver then sbind (gs resolver None) (\<lambda>wkc. ret (wk_domain wkc))
     else ret resolver)"

fun GetServer :: "client_env \<Rightarrow> nat \<Rightarrow> get_server"
  and resolveResolver :: "client_env \<Rightarrow> nat \<Rightarrow> resolve_op" where
  "GetServer E 0 d hint = (\<lambda>s. None)"
| "GetServer E (Suc n) d hint = get_server_step E (GetServer E n) (resolveResolver E n) d hint"
| "resolveResolver E 0 r = (\<lambda>s. None)"
| "resolveResolver E (Suc n) r = resolve_resolver_step E (GetServer E n) (resolveResolver E n) r"

declare GetServer.simps [simp del] resolveResolver.simps [simp del]

definition ResolveResourceHost :: "client_env \<Rightarrow> nat \<Rightarrow> string \<Rightarrow> string cl_act" where
  "ResolveResourceHost E n uri = sbind (lift (rmap_err (\<lambda>_. EOther ''invalid cc uri'') (ParseCCURI uri))) (\<lambda>parsed.
     resolveResolver E n (cu_owner parsed))"

text \<open>The client's operations on a client with enough depth for its resolutions.\<close>

definition client_GetResource :: "client_env \<Rightarrow> nat \<Rightarrow> 'a json_type \<Rightarrow> string \<Rightarrow> string \<Rightarrow> client_opts \<Rightarrow> 'a cl_act" where
  "client_GetResource E n = GetResource E (GetServer E n) (resolveResolver E n)"

definition client_GetRecord :: "client_env \<Rightarrow> nat \<Rightarrow> (string \<Rightarrow> 'a option) \<Rightarrow> string \<Rightarrow> client_opts \<Rightarrow> 'a cl_act" where
  "client_GetRecord E n = GetRecord E (GetServer E n) (resolveResolver E n)"

section \<open>Stateful verification is verification\<close>

text \<open>With a resolver that does not depend on the state, it is \<^const>\<open>verify\<close>.\<close>

definition pure_fetch :: "(string \<Rightarrow> signed_document option) \<Rightarrow> string \<Rightarrow> signed_document cl_act" where
  "pure_fetch f uri = lift_option (EOther ''not found'') (f uri)"

lemma fetch_option_pure: "fetch_option (pure_fetch f) uri s = Some (Inr (f uri), s)"
  by (cases "f uri") (simp_all add: fetch_option_def pure_fetch_def sbind_def attempt_def act_simps)

lemma verify_ecrecover_any: "verify C L R n (Some [ProofTypeEcrecover]) sd = verify C L R' n (Some [ProofTypeEcrecover]) sd"
  by (cases n) (auto simp: type_allowed_def split: option.splits)

lemma subkey_ref_None: "subkey_ref sd = None \<Longrightarrow> verify_subkey C L R rec sd doc = verify_subkey C L R' rec' sd doc"
  by (auto simp: subkey_ref_def verify_subkey_def split: option.splits if_splits)

lemma verify_subkey_any:
  assumes "subkey_ref sd = Some key" "f key = g key"
  shows "verify_subkey C L (Some f) (verify C L (Some f) n) sd doc = verify_subkey C L (Some g) (verify C L (Some g) n) sd doc"
proof -
  have eq: "verify C L (Some f) n (Some [ProofTypeEcrecover]) = verify C L (Some g) n (Some [ProofTypeEcrecover])"
    using verify_ecrecover_any by blast
  obtain t where t: "pf_signature (sd_proof sd) = Some t" "pf_key (sd_proof sd) = Some key"
    using assms(1) by (auto simp: subkey_ref_def split: if_splits)
  show ?thesis unfolding verify_subkey_def enact_of_def t eq option.case assms(2) by (rule refl)
qed

text \<open>One level, by the type of the proof.\<close>

lemma verify_level:
  assumes "dec_doc C (sd_document sd) = Some doc" "type_allowed al sd"
  shows "pf_type (sd_proof sd) = ProofTypeSubkey \<Longrightarrow> verify C L R (Suc n) al sd = verify_subkey C L R (verify C L R n) sd doc"
    and "pf_type (sd_proof sd) = ProofTypeDocumentReference \<Longrightarrow>
      verify C L R (Suc n) al sd = verify_reference C R (verify C L R n) sd doc"
    and "pf_type (sd_proof sd) = ProofTypeDocumentDirect \<Longrightarrow> verify C L R (Suc n) al sd = verify_direct C (verify C L R n) sd"
  using assms by simp_all

definition own_level :: "codec \<Rightarrow> string list option \<Rightarrow> signed_document \<Rightarrow> bool" where
  "own_level C al sd \<longleftrightarrow> dec_doc C (sd_document sd) = None \<or> \<not> type_allowed al sd
     \<or> pf_type (sd_proof sd) \<notin> {ProofTypeSubkey, ProofTypeDocumentReference, ProofTypeDocumentDirect}"

lemma verify_own_level: "own_level C al sd \<Longrightarrow> verify C L R (Suc n) al sd = verify C L R' (Suc n) al sd"
  by (auto simp: own_level_def split: option.splits)

lemma client_verify_own_level:
  "own_level C al sd \<Longrightarrow> client_verify C L G (Suc n) al sd = ret (verify C L None (Suc n) al sd)"
  by (auto simp: own_level_def simp del: verify.simps split: option.splits)

lemma level_cases:
  assumes "\<not> own_level C al sd"
  obtains doc where "dec_doc C (sd_document sd) = Some doc" "type_allowed al sd" "pf_type (sd_proof sd) = ProofTypeSubkey"
    | doc where "dec_doc C (sd_document sd) = Some doc" "type_allowed al sd" "pf_type (sd_proof sd) = ProofTypeDocumentReference"
    | doc where "dec_doc C (sd_document sd) = Some doc" "type_allowed al sd" "pf_type (sd_proof sd) = ProofTypeDocumentDirect"
  using assms unfolding own_level_def by auto

lemma reference_hrefD:
  "reference_href C sd doc = Some href \<Longrightarrow> pf_href (sd_proof sd) = Some href \<and> d_schema doc = ReferenceURL
     \<and> (\<exists>e ref. dec_reference C (sd_document sd) = Some (e, ref) \<and> rf_href ref = href)"
  "reference_href C sd doc = None \<Longrightarrow> verify_reference C R rec sd doc = verify_reference C R' rec' sd doc"
  by (auto simp: reference_href_def verify_reference_def split: option.splits if_splits)

lemma verify_reference_via:
  assumes "reference_href C sd doc = Some href"
  shows "verify_reference C R rec sd doc = (case resolve sd R href of Inl e \<Rightarrow> Inl e
    | Inr t \<Rightarrow> verify_reference C (Some (\<lambda>_. Some t)) (\<lambda>_ _. rec None t) sd doc)"
  using reference_hrefD(1)[OF assms]
  by (auto simp: verify_reference_def resolve_def split: option.splits)

lemma client_verify_pure: "client_verify C L (pure_fetch f) n al sd s = Some (Inr (verify C L (Some f) n al sd), s)"
proof (induction n arbitrary: al sd s)
  case (Suc n)
  note run = sbind_def act_simps fetch_option_pure
  show ?case
  proof (cases "own_level C al sd")
    case True
    then show ?thesis by (simp add: client_verify_own_level verify_own_level[of C al sd L None n "Some f"] act_simps del: verify.simps client_verify.simps)
  next
    case False
    then show ?thesis
    proof (cases rule: level_cases)
      case (1 doc)
      note lv = verify_level(1)[OF 1]
      show ?thesis
      proof (cases "subkey_ref sd")
        case None
        then show ?thesis using 1 subkey_ref_None[of sd C L None "verify C L None n" doc "Some f" "verify C L (Some f) n"]
          by (simp add: run lv del: verify.simps)
      next
        case (Some key)
        then show ?thesis using 1 verify_subkey_any[OF Some, of "\<lambda>_. f key" f C L n doc] by (simp add: run lv del: verify.simps)
      qed
    next
      case (2 doc)
      note lv = verify_level(2)[OF 2]
      show ?thesis
      proof (cases "reference_href C sd doc")
        case None
        then show ?thesis using 2 reference_hrefD(2)[OF None, of None "\<lambda>_ _. Inl TooDeep" "Some f" "verify C L (Some f) n"]
          by (simp add: run lv del: verify.simps)
      next
        case (Some href)
        note via = verify_reference_via[OF Some, of "Some f" "verify C L (Some f) n"]
        have none: "verify_reference C (Some (\<lambda>_. None)) (\<lambda>_ _. Inl TooDeep) sd doc = Inl (FetchFailed href)"
          if "map_of (sd_references sd) href = None"
          using that verify_reference_via[OF Some, of "Some (\<lambda>_. None)"] by (simp add: resolve_def)
        show ?thesis
        proof (cases "map_of (sd_references sd) href")
          case None
          then show ?thesis using 2 Some via none Suc.IH by (cases "f href") (simp_all add: run lv resolve_def del: verify.simps)
        next
          case (Some t)
          then show ?thesis using 2 \<open>reference_href C sd doc = Some href\<close> via Suc.IH by (simp add: run lv resolve_def del: verify.simps)
        qed
      qed
    next
      case (3 doc)
      note lv = verify_level(3)[OF 3]
      show ?thesis
      proof (cases "pf_document (sd_proof sd) = None \<or> pf_proof (sd_proof sd) = None")
        case True
        then have "verify_direct C (\<lambda>_ _. Inl TooDeep) sd = verify_direct C (verify C L (Some f) n) sd"
          by (auto simp: verify_direct_def split: option.splits)
        with True 3 lv show ?thesis by (auto simp: run simp del: verify.simps split: option.splits)
      next
        case False
        then obtain d p where dp: "pf_document (sd_proof sd) = Some d" "pf_proof (sd_proof sd) = Some p" by auto
        let ?al = "Some [ProofTypeEcrecover, ProofTypeSubkey]"
        have "verify_direct C (\<lambda>_ _. verify C L (Some f) n ?al (bare_sd d p)) sd = verify_direct C (verify C L (Some f) n) sd"
          by (simp add: verify_direct_def Let_def dp)
        with dp 3 lv Suc.IH[of ?al "bare_sd d p" s] show ?thesis by (simp add: run del: verify.simps)
      qed
    qed
  qed
qed (simp add: act_simps)

section \<open>Authentic documents\<close>

text \<open>A document names an author whose own key signed something, and signed the document itself when its proof
  is a direct signature.\<close>

definition authentic :: "codec \<Rightarrow> crypto_lib \<Rightarrow> signed_document \<Rightarrow> bool" where
  "authentic C L sd \<longleftrightarrow> (\<exists>doc t. dec_doc C (sd_document sd) = Some doc \<and> signed_by C L t (d_author doc)
     \<and> (pf_type (sd_proof sd) = ProofTypeEcrecover \<longrightarrow> master_signed C L sd (d_author doc)))"

lemma authentic_verify:
  assumes "codec_ok C" "codec_acked C" "verify C L R n al sd = Inr ()"
  shows "authentic C L sd"
proof -
  obtain doc t where d: "dec_doc C (sd_document sd) = Some doc" "signed_by C L t (d_author doc)"
    using verify_author_signed[OF assms] by blast
  moreover have "pf_type (sd_proof sd) = ProofTypeEcrecover \<Longrightarrow> master_signed C L sd (d_author doc)"
    using assms(3) d(1) by (cases n) (auto simp: master_signed_def verify_ecrecover_def split: if_splits option.splits)
  ultimately show ?thesis unfolding authentic_def by blast
qed

lemma authentic_same: "sd_document x = sd_document sd \<Longrightarrow> sd_proof x = sd_proof sd \<Longrightarrow> authentic C L x = authentic C L sd"
  by (simp add: authentic_def master_signed_def)

lemma authentic_reference:
  assumes "verify_reference C R rec sd doc = Inr ()" "dec_doc C (sd_document sd) = Some doc"
    and "pf_type (sd_proof sd) = ProofTypeDocumentReference"
    and "\<And>href t. pf_href (sd_proof sd) = Some href \<Longrightarrow> resolve sd R href = Inr t \<Longrightarrow> rec None t = Inr () \<Longrightarrow> authentic C L t"
  shows "authentic C L sd"
proof -
  obtain href target tdoc where t: "pf_href (sd_proof sd) = Some href" "resolve sd R href = Inr target" "rec None target = Inr ()"
    "dec_doc C (sd_document target) = Some tdoc" "d_author tdoc = d_author doc"
    using assms(1) unfolding verify_reference_ok by blast
  from assms(4)[OF t(1-3)] t(4,5) assms(2,3) show ?thesis unfolding authentic_def by auto
qed

lemma authentic_direct:
  assumes "codec_acked C" "verify_direct C (\<lambda>_ _. r) sd = Inr ()" "dec_doc C (sd_document sd) = Some doc"
    and "pf_type (sd_proof sd) = ProofTypeDocumentDirect"
    and "\<And>d p. pf_document (sd_proof sd) = Some d \<Longrightarrow> pf_proof (sd_proof sd) = Some p \<Longrightarrow> r = Inr () \<Longrightarrow> authentic C L (bare_sd d p)"
  shows "authentic C L sd"
proof -
  obtain d p ad where d: "pf_document (sd_proof sd) = Some d" "pf_proof (sd_proof sd) = Some p" "r = Inr ()"
    "DeriveAcked C (bare_sd d p) = Inr ad" "sd_document sd = sd_document ad"
    using assms(2) unfolding verify_direct_ok by blast
  from assms(5)[OF d(1-3)] obtain ed t where ed: "dec_doc C d = Some ed" "signed_by C L t (d_author ed)"
    unfolding authentic_def by auto
  with DeriveAcked_author[OF assms(1) d(4)] d(5) assms(3,4) show ?thesis unfolding authentic_def by auto
qed

lemma client_verify_authentic:
  assumes "codec_ok C" "codec_acked C"
  shows "client_verify C L G n al sd s = Some (Inr (Inr ()), s') \<Longrightarrow> authentic C L sd"
proof (induction n arbitrary: al sd s s')
  case (Suc n)
  note pure = authentic_verify[OF assms]
  show ?case
  proof (cases "own_level C al sd")
    case True
    then have "verify C L None (Suc n) al sd = Inr ()"
      using Suc.prems by (simp add: client_verify_own_level act_simps del: verify.simps client_verify.simps)
    then show ?thesis by (rule pure)
  next
    case False
    then show ?thesis
    proof (cases rule: level_cases)
      case (1 doc)
      then obtain R where "verify C L R (Suc n) al sd = Inr ()"
        using Suc.prems by (fastforce simp: act_simps simp del: verify.simps split: option.splits)
      then show ?thesis by (rule pure)
    next
      case (2 doc)
      obtain R q where vr: "verify_reference C R (\<lambda>_ _. q) sd doc = Inr ()"
        and q: "\<And>href t. pf_href (sd_proof sd) = Some href \<Longrightarrow> resolve sd R href = Inr t \<Longrightarrow> q = Inr () \<Longrightarrow>
          \<exists>s1 s2. client_verify C L G n None t s1 = Some (Inr (Inr ()), s2)"
      proof (cases "reference_href C sd doc")
        case None
        then show ?thesis using that[of None "Inl TooDeep"] Suc.prems 2 by (simp add: act_simps del: verify.simps)
      next
        case (Some href)
        from Suc.prems 2 Some consider "verify_reference C (Some (\<lambda>_. None)) (\<lambda>_ _. Inl TooDeep) sd doc = Inr ()"
          | t q s1 s2 where "verify_reference C (Some (\<lambda>_. Some t)) (\<lambda>_ _. q) sd doc = Inr ()"
            "client_verify C L G n None t s1 = Some (Inr q, s2)"
            "map_of (sd_references sd) href = None \<or> map_of (sd_references sd) href = Some t"
          by (fastforce simp: act_simps simp del: verify.simps split: option.splits)
        then show ?thesis
        proof cases
          case 1
          then show ?thesis using that by blast
        next
          case 2
          have "u = t" if "resolve sd (Some (\<lambda>_. Some t)) href = Inr u" for u
            using that 2(3) by (auto simp: resolve_def)
          moreover have "pf_href (sd_proof sd) = Some href" using reference_hrefD(1)[OF Some] by blast
          ultimately show ?thesis by (intro that[OF 2(1)]) (use 2(2) in auto)
        qed
      qed
      show ?thesis by (rule authentic_reference[OF vr 2(1,3)]) (metis q Suc.IH)
    next
      case (3 doc)
      obtain q where vd: "verify_direct C (\<lambda>_ _. q) sd = Inr ()"
        and q: "\<And>d p. pf_document (sd_proof sd) = Some d \<Longrightarrow> pf_proof (sd_proof sd) = Some p \<Longrightarrow> q = Inr () \<Longrightarrow>
          \<exists>s1 s2. client_verify C L G n (Some [ProofTypeEcrecover, ProofTypeSubkey]) (bare_sd d p) s1 = Some (Inr (Inr ()), s2)"
        using Suc.prems 3 by (fastforce simp: act_simps simp del: verify.simps split: option.splits)
      show ?thesis by (rule authentic_direct[OF assms(2) vd 3(1,3)]) (metis q Suc.IH)
    qed
  qed
qed (simp add: act_simps)

section \<open>The cache holds what the client expects\<close>

definition vouched :: "client_env \<Rightarrow> 8 word list \<Rightarrow> bool" where
  "vouched E h \<longleftrightarrow> (\<exists>sd p. ce_proof E (sd_proof sd) = Some p \<and> h = keccak (ce_codec E) (sd_document sd @ p)
     \<and> authentic (ce_codec E) (ce_crypto E) sd)"

text \<open>An entry has the type its key announces, and a remembered hash is one of an authentic document.\<close>

definition entry_ok :: "client_env \<Rightarrow> string \<Rightarrow> cache_value \<Rightarrow> bool" where
  "entry_ok E k v = (case v of CServer w \<Rightarrow> has_prefix k ''server:''
     | CBytes b \<Rightarrow> has_prefix k ''resource:'' \<or> has_prefix k ''call:''
     | CHash h \<Rightarrow> has_prefix k ''verified:'' \<and> vouched E h)"

definition cache_ok :: "client_env \<Rightarrow> client_state \<Rightarrow> bool" where
  "cache_ok E s \<longleftrightarrow> (\<forall>k v t. map_of (cs_cache s) k = Some (v, t) \<longrightarrow> entry_ok E k v)"

text \<open>An action that keeps the cache so and does not panic.\<close>

definition calm :: "client_env \<Rightarrow> 'a cl_act \<Rightarrow> bool" where
  "calm E m \<longleftrightarrow> triple (cache_ok E) m (\<lambda>_. cache_ok E) (\<lambda>e s. cache_ok E s \<and> e \<noteq> EPanic)"

named_theorems calm_rules

lemma calm_keeps: "calm E m \<Longrightarrow> keeps (cache_ok E) m"
  unfolding calm_def keeps_def by (erule triple_conseq) auto

lemma calm_basic [calm_rules]:
  "calm E (ret x)" "e \<noteq> EPanic \<Longrightarrow> calm E (fail e)" "calm E (gets f)" "e \<noteq> EPanic \<Longrightarrow> calm E (lift_option e y)"
  "(\<And>s. cache_ok E s \<Longrightarrow> cache_ok E (g s)) \<Longrightarrow> calm E (modify g)" "(\<And>e. r = Inl e \<Longrightarrow> e \<noteq> EPanic) \<Longrightarrow> calm E (lift r)"
  by (auto simp: calm_def triple_def act_simps split: option.splits sum.splits)

lemma calm_comb [calm_rules]:
  "calm E m \<Longrightarrow> (\<And>x. calm E (f x)) \<Longrightarrow> calm E (sbind m f)"
  "calm E u \<Longrightarrow> calm E k \<Longrightarrow> calm E (seq u k)"
  "(b \<Longrightarrow> calm E m1) \<Longrightarrow> (\<not> b \<Longrightarrow> calm E m2) \<Longrightarrow> calm E (if b then m1 else m2)"
  "(y = None \<Longrightarrow> calm E m1) \<Longrightarrow> (\<And>z. y = Some z \<Longrightarrow> calm E (h z)) \<Longrightarrow> calm E (case y of None \<Rightarrow> m1 | Some z \<Rightarrow> h z)"
  "(\<And>a b. q = (a, b) \<Longrightarrow> calm E (g a b)) \<Longrightarrow> calm E (case q of (a, b) \<Rightarrow> g a b)"
  "(\<And>e. r = Inl e \<Longrightarrow> calm E (f1 e)) \<Longrightarrow> (\<And>z. r = Inr z \<Longrightarrow> calm E (f2 z)) \<Longrightarrow> calm E (case r of Inl e \<Rightarrow> f1 e | Inr z \<Rightarrow> f2 z)"
  "calm E (f3 t) \<Longrightarrow> calm E (let x = t in f3 x)"
  unfolding calm_def by (fact triple_sbind triple_seq triple_if triple_option triple_prod triple_sum triple_Let)+

lemma calm_attempt [calm_rules]: "calm E m \<Longrightarrow> calm E (attempt m)"
  unfolding calm_def by (rule tripleI) (use calm_keeps keepsD in \<open>fastforce simp: calm_def act_simps\<close>)

lemma calm_None [calm_rules]: "calm E (\<lambda>s. None)"
  by (simp add: calm_def triple_def)

lemma cache_ok_upd [simp]:
  "cache_ok E (s\<lparr>cs_lastFailed := a\<rparr>) = cache_ok E s" "cache_ok E (s\<lparr>cs_failCount := b\<rparr>) = cache_ok E s"
  "cache_ok E (s\<lparr>cs_plainHosts := c\<rparr>) = cache_ok E s" "cache_ok E (s\<lparr>cs_remappings := d\<rparr>) = cache_ok E s"
  "cache_ok E (s\<lparr>cs_userAgent := u\<rparr>) = cache_ok E s" "cache_ok E (s\<lparr>cs_requests := n\<rparr>) = cache_ok E s"
  by (simp_all add: cache_ok_def)

lemma cache_ok_marks [simp]:
  "cache_ok E (markOffline F d s) = cache_ok E s" "cache_ok E (markOfflineIfTimeout F d t s) = cache_ok E s"
  "cache_ok E (markPlainHost F d s) = cache_ok E s"
  by (simp_all add: markOffline_def markOfflineIfTimeout_def markPlainHost_def)

lemma cache_ok_del: "cache_ok E s \<Longrightarrow> cache_ok E (s\<lparr>cs_cache := gmap_del k (cs_cache s)\<rparr>)"
  by (auto simp: cache_ok_def split: if_splits)

lemma calm_cache_set [calm_rules]: "entry_ok E k v \<Longrightarrow> calm E (cache_set F k v)"
  unfolding cache_set_def by (intro calm_basic) (auto simp: cache_ok_def split: if_splits)

lemma cache_get_ok: "cache_ok E s \<Longrightarrow> cache_get F k s = Some v \<Longrightarrow> entry_ok E k v"
  by (auto simp: cache_ok_def cache_get_def split: option.splits if_splits)

lemma has_prefix_Cons [simp]: "has_prefix (x # xs) (y # ys) \<longleftrightarrow> x = y \<and> has_prefix xs ys"
  by (auto simp: has_prefix_def)

lemma entry_ok_keys:
  "entry_ok E (server_key d) v \<longleftrightarrow> (\<exists>w. v = CServer w)"
  "entry_ok E (resource_key u a) v \<longleftrightarrow> (\<exists>b. v = CBytes b)"
  "entry_ok E (verified_key u) v \<longleftrightarrow> (\<exists>h. v = CHash h \<and> vouched E h)"
  by (simp_all add: entry_ok_def server_key_def resource_key_def verified_key_def split: cache_value.splits)

lemma calm_cached_bytes:
  assumes "\<And>v. entry_ok E k v \<Longrightarrow> \<exists>b. v = CBytes b"
  shows "calm E (cached_bytes F k)"
  unfolding calm_def triple_def
  using assms by (fastforce simp: cached_bytes_def act_simps dest: cache_get_ok split: option.splits cache_value.splits sum.splits)

lemma calm_cached_server:
  assumes "\<And>v. entry_ok E k v \<Longrightarrow> \<exists>w. v = CServer w"
  shows "calm E (cached_server F k)"
  unfolding calm_def triple_def
  using assms by (fastforce simp: cached_server_def act_simps dest: cache_get_ok split: option.splits cache_value.splits sum.splits)

lemma calm_do [calm_rules]: "calm E (do_or_offline F d req)" "calm E (new_request m r hs b)" "calm E (client_Do F req)"
proof -
  show d: "calm E (client_Do F req)" by (simp add: calm_def triple_def client_Do_def)
  show "calm E (do_or_offline F d req)" unfolding do_or_offline_def by (intro calm_rules d) auto
  show "calm E (new_request m r hs b)" unfolding new_request_def by (intro calm_rules) auto
qed

lemma calm_parts [calm_rules]:
  "calm E (fetch_json F T d endpoint hdr)" "calm E (probe_server F d)" "e \<noteq> EPanic \<Longrightarrow> calm E (render_endpoint F e nm args info)"
  unfolding fetch_json_def probe_server_def render_endpoint_def
  by (intro calm_rules; auto simp: ErrNotConcrntServer_def ErrOffline_def)+

text \<open>Clients of the two resolving functions are calm when those are.\<close>

definition calm_ops :: "client_env \<Rightarrow> get_server \<Rightarrow> resolve_op \<Rightarrow> bool" where
  "calm_ops E gs rr \<longleftrightarrow> (\<forall>d h. calm E (gs d h)) \<and> (\<forall>r. calm E (rr r))"

lemma calm_ResolveResourceURI: "calm_ops E gs rr \<Longrightarrow> calm E (ResolveResourceURI F gs rr uri opts)"
  unfolding ResolveResourceURI_def resolve_info_def calm_ops_def
  by (intro calm_rules; auto simp: rmap_err_def split: sum.splits)

lemma calm_GetResource: "calm_ops E gs rr \<Longrightarrow> calm E (GetResource F gs rr T uri accept opts)"
  unfolding GetResource_def fetch_resource_def cache_json_def
  by (intro calm_rules calm_ResolveResourceURI calm_cached_bytes;
      auto simp: entry_ok_keys ErrOffline_def)

lemma calm_get_server_step: "calm_ops E gs rr \<Longrightarrow> calm E (get_server_step F gs rr d hint)"
  unfolding get_server_step_def
  by (intro calm_rules calm_GetResource calm_cached_server) (auto simp: entry_ok_keys)

lemma calm_resolve_resolver_step: "calm_ops E gs rr \<Longrightarrow> calm E (resolve_resolver_step F gs rr r)"
  unfolding resolve_resolver_step_def GetRecord_def
  by (simp, intro conjI impI calm_rules calm_GetResource) (auto simp: calm_ops_def)

lemma calm_resolution: "calm_ops E (GetServer F n) (resolveResolver F n)"
  by (induction n) (auto simp: calm_ops_def calm_None GetServer.simps resolveResolver.simps intro: calm_get_server_step calm_resolve_resolver_step)

section \<open>Records are authentic\<close>

text \<open>Documented behaviour of \<^verbatim>\<open>encoding/json\<close>: the text of an object is never a proper suffix of the text of
  another, and determines the proof; and the digest does not collide.\<close>

definition proof_text_ok :: "client_env \<Rightarrow> bool" where
  "proof_text_ok E \<longleftrightarrow> (\<forall>p q t r. ce_proof E p = Some (r @ t) \<longrightarrow> ce_proof E q = Some t \<longrightarrow> r = [] \<and> p = q)"

definition no_collision :: "codec \<Rightarrow> bool" where
  "no_collision C \<longleftrightarrow> (\<forall>x y. keccak C x = keccak C y \<longrightarrow> x = y)"

lemma proof_text_unique:
  assumes "proof_text_ok E" "ce_proof E p = Some t" "ce_proof E q = Some u" "d @ t = d' @ u"
  shows "d = d' \<and> p = q"
proof -
  from assms(4) consider r where "t = r @ u" "d' = d @ r" | r where "u = r @ t" "d = d' @ r"
    by (metis append_eq_append_conv2)
  then show ?thesis
  proof cases
    case (1 r)
    then show ?thesis using assms(1-3) unfolding proof_text_ok_def by fastforce
  next
    case (2 r)
    then show ?thesis using assms(1-3) unfolding proof_text_ok_def by fastforce
  qed
qed

lemma vouched_authentic:
  assumes "proof_text_ok E" "no_collision (ce_codec E)" "ce_proof E (sd_proof sd) = Some p"
    and "vouched E (keccak (ce_codec E) (sd_document sd @ p))"
  shows "authentic (ce_codec E) (ce_crypto E) sd"
proof -
  obtain x q where x: "ce_proof E (sd_proof x) = Some q" "authentic (ce_codec E) (ce_crypto E) x"
    "keccak (ce_codec E) (sd_document sd @ p) = keccak (ce_codec E) (sd_document x @ q)"
    using assms(4) unfolding vouched_def by blast
  then have "sd_document sd @ p = sd_document x @ q" using assms(2) unfolding no_collision_def by blast
  from proof_text_unique[OF assms(1,3) x(1) this] x(2) show ?thesis using authentic_same[of sd x] by simp
qed

lemma calm_fetch: "calm_ops E gs rr \<Longrightarrow> calm E (ResolveSignedDocument F gs rr opts uri)"
  unfolding ResolveSignedDocument_def by (rule calm_GetResource)

lemma keeps_fetch_option: "(\<And>u. keeps I (G u)) \<Longrightarrow> keeps I (fetch_option G uri)"
  unfolding fetch_option_def by (auto intro!: keeps_rules split: domain_error.splits)

lemma keeps_client_verify: "(\<And>u. keeps I (G u)) \<Longrightarrow> keeps I (client_verify C L G n al sd)"
  by (induction n arbitrary: al sd)
    (simp_all del: verify.simps add: keeps_rules split: option.splits,
     auto simp del: verify.simps intro!: keeps_rules keeps_fetch_option split: option.splits)

text \<open>The environment at another reading of the clock promises the same.\<close>

lemma env_now [simp]:
  "cache_ok (E\<lparr>ce_now := t\<rparr>) = cache_ok E" "proof_text_ok (E\<lparr>ce_now := t\<rparr>) = proof_text_ok E"
  "vouched (E\<lparr>ce_now := t\<rparr>) = vouched E"
proof -
  have "vouched (E\<lparr>ce_now := t\<rparr>) = vouched E" by (simp add: fun_eq_iff vouched_def)
  then show "vouched (E\<lparr>ce_now := t\<rparr>) = vouched E" "cache_ok (E\<lparr>ce_now := t\<rparr>) = cache_ok E"
    by (simp_all add: fun_eq_iff cache_ok_def entry_ok_def split: cache_value.splits)
qed (simp add: proof_text_ok_def)

lemma verify_record_sound:
  assumes laws: "codec_ok (ce_codec E)" "codec_acked (ce_codec E)" "proof_text_ok E" "no_collision (ce_codec E)"
    and "calm_ops E gs rr"
  shows "triple (cache_ok E) (verify_record E gs rr uri opts sd)
    (\<lambda>_ s. cache_ok E s \<and> authentic (ce_codec E) (ce_crypto E) sd \<and> type_allowed (co_allowed opts) sd) (\<lambda>_. cache_ok E)"
proof (rule tripleI)
  fix s r s'
  assume s: "cache_ok E s" and run: "verify_record E gs rr uri opts sd s = Some (r, s')"
  let ?C = "ce_codec E" and ?L = "ce_crypto E"
  show "case r of Inl e \<Rightarrow> cache_ok E s' | Inr u \<Rightarrow> cache_ok E s' \<and> authentic ?C ?L sd \<and> type_allowed (co_allowed opts) sd"
  proof (cases "type_allowed (co_allowed opts) sd \<and> ce_proof E (sd_proof sd) \<noteq> None")
    case False
    then show ?thesis using run s by (auto simp: verify_record_def act_simps split: if_splits)
  next
    case True
    then obtain p where p: "ce_proof E (sd_proof sd) = Some p" and al: "type_allowed (co_allowed opts) sd" by auto
    let ?h = "keccak ?C (sd_document sd @ p)"
    show ?thesis
    proof (cases "remembered E opts uri ?h s")
      case True
      then have "vouched E ?h" using cache_get_ok[OF s, of E "verified_key uri"] unfolding remembered_def entry_ok_keys by blast
      then have "authentic ?C ?L sd" by (rule vouched_authentic[OF laws(3,4) p])
      then show ?thesis using run s p al True by (auto simp: verify_record_def act_simps Let_def GetHash_def)
    next
      case False
      let ?V = "client_verify ?C ?L (ResolveSignedDocument E gs rr opts) maxVerifyDepth None sd"
      have kv: "keeps (cache_ok E) ?V"
        by (intro keeps_client_verify calm_keeps calm_fetch assms(5))
      from run p al False consider (err) e where "?V s = Some (Inl e, s')" "r = Inl e"
        | (ver) q s1 where "?V s = Some (Inr q, s1)"
          "seq (verify_or_fail q) (if co_noCache opts then ret () else cache_set E (verified_key uri) (CHash ?h)) s1 = Some (r, s')"
        by (auto simp: verify_record_def act_simps Let_def GetHash_def)
      then show ?thesis
      proof cases
        case err
        then show ?thesis using keepsD[OF kv s] by auto
      next
        case ver
        have s1: "cache_ok E s1" by (rule keepsD[OF kv s ver(1)])
        show ?thesis
        proof (cases q)
          case (Inl e)
          then show ?thesis using ver(2) s1 by (cases e) (auto simp: verify_or_fail_def act_simps)
        next
          case (Inr u)
          then have auth: "authentic ?C ?L sd" using ver(1) client_verify_authentic[OF laws(1,2)] by simp
          then have "entry_ok E (verified_key uri) (CHash ?h)" using p unfolding entry_ok_keys vouched_def by blast
          then have "keeps (cache_ok E) (if co_noCache opts then ret () else cache_set E (verified_key uri) (CHash ?h))"
            by (auto intro!: keeps_rules calm_keeps calm_cache_set)
          then have "cache_ok E s' \<and> (\<exists>u. r = Inr u)" using ver(2) s1 Inr
            by (auto simp: verify_or_fail_def act_simps cache_set_def dest: keepsD split: if_splits)
          then show ?thesis using auth al by auto
        qed
      qed
    qed
  qed
qed

lemma GetRecord_sound:
  assumes laws: "codec_ok (ce_codec E)" "codec_acked (ce_codec E)" "proof_text_ok E" "no_collision (ce_codec E)"
    and ops: "calm_ops E gs rr"
  shows "triple (cache_ok E) (GetRecord E gs rr dec uri opts)
    (\<lambda>x s. cache_ok E s \<and> (co_skipVerify opts \<or> (\<exists>sd. dec (sd_document sd) = Some x
       \<and> authentic (ce_codec E) (ce_crypto E) sd \<and> type_allowed (co_allowed opts) sd))) (\<lambda>_. cache_ok E)"
  unfolding GetRecord_def
proof (rule triple_sbind, rule triple_keeps, rule calm_keeps, rule calm_GetResource[OF ops])
  fix sd
  let ?A = "authentic (ce_codec E) (ce_crypto E) sd \<and> type_allowed (co_allowed opts) sd"
  show "triple (cache_ok E) (seq (if co_skipVerify opts then ret () else verify_record E gs rr uri opts sd)
      (lift_option (EOther ''failed to decode document'') (dec (sd_document sd))))
    (\<lambda>x s. cache_ok E s \<and> (co_skipVerify opts \<or> (\<exists>sd. dec (sd_document sd) = Some x
       \<and> authentic (ce_codec E) (ce_crypto E) sd \<and> type_allowed (co_allowed opts) sd))) (\<lambda>_. cache_ok E)"
  proof (rule triple_seq[where R = "\<lambda>s. cache_ok E s \<and> (co_skipVerify opts \<or> ?A)"])
    show "triple (cache_ok E) (if co_skipVerify opts then ret () else verify_record E gs rr uri opts sd)
      (\<lambda>_ s. cache_ok E s \<and> (co_skipVerify opts \<or> ?A)) (\<lambda>_. cache_ok E)"
      using verify_record_sound[OF laws ops, of uri opts sd] by (auto intro: triple_ret elim: triple_conseq)
    show "triple (\<lambda>s. cache_ok E s \<and> (co_skipVerify opts \<or> ?A))
        (lift_option (EOther ''failed to decode document'') (dec (sd_document sd)))
        (\<lambda>x s. cache_ok E s \<and> (co_skipVerify opts \<or> (\<exists>sd. dec (sd_document sd) = Some x
          \<and> authentic (ce_codec E) (ce_crypto E) sd \<and> type_allowed (co_allowed opts) sd))) (\<lambda>_. cache_ok E)"
      by (auto simp: triple_def act_simps split: option.splits sum.splits)
  qed
qed

section \<open>Resolution returns\<close>

text \<open>A default resolver that names a host.\<close>

definition plain_default :: "client_env \<Rightarrow> bool" where
  "plain_default E \<longleftrightarrow> ce_defaultResolver E \<noteq> [] \<and> \<not> IsCSID (ce_defaultResolver E)"

definition returns :: "('s, 'a) act \<Rightarrow> bool" where
  "returns m \<longleftrightarrow> (\<forall>s. m s \<noteq> None)"

named_theorems returns_rules

lemma returns_basic [returns_rules]:
  "returns (ret x)" "returns (fail e)" "returns (gets f)" "returns (lift_option e y)" "returns (modify g)" "returns (lift r)"
  by (auto simp: returns_def act_simps)

lemma returns_comb [returns_rules]:
  "returns m \<Longrightarrow> (\<And>x. returns (f x)) \<Longrightarrow> returns (sbind m f)"
  "returns u \<Longrightarrow> returns k \<Longrightarrow> returns (seq u k)"
  "returns m \<Longrightarrow> returns (attempt m)"
  "(b \<Longrightarrow> returns m1) \<Longrightarrow> (\<not> b \<Longrightarrow> returns m2) \<Longrightarrow> returns (if b then m1 else m2)"
  "(y = None \<Longrightarrow> returns m1) \<Longrightarrow> (\<And>z. y = Some z \<Longrightarrow> returns (h z)) \<Longrightarrow> returns (case y of None \<Rightarrow> m1 | Some z \<Rightarrow> h z)"
  "(\<And>a b. q = (a, b) \<Longrightarrow> returns (g a b)) \<Longrightarrow> returns (case q of (a, b) \<Rightarrow> g a b)"
  "(\<And>e. r = Inl e \<Longrightarrow> returns (f1 e)) \<Longrightarrow> (\<And>z. r = Inr z \<Longrightarrow> returns (f2 z)) \<Longrightarrow> returns (case r of Inl e \<Rightarrow> f1 e | Inr z \<Rightarrow> f2 z)"
  "returns (f3 t) \<Longrightarrow> returns (let x = t in f3 x)"
  by (auto simp: returns_def sbind_def seq_def attempt_def split: option.splits sum.splits prod.splits)

lemma returns_parts [returns_rules]:
  "returns (cached_bytes E k)" "returns (cached_server E k)" "returns (cache_set E k v)" "returns (client_Do E req)"
  "returns (do_or_offline E d req)" "returns (new_request a b hs c)" "returns (fetch_json E T d ep hdr)" "returns (probe_server E d)"
  "returns (render_endpoint E e nm args info)"
proof -
  show d: "returns (client_Do E req)" for req by (simp add: returns_def client_Do_def)
  show s: "returns (cache_set E k v)" "returns (new_request a b hs c)" for a b hs c unfolding cache_set_def new_request_def by (intro returns_rules)+
  show o: "returns (do_or_offline E d req)" for d req unfolding do_or_offline_def by (intro returns_rules d)
  show "returns (fetch_json E T d ep hdr)" "returns (probe_server E d)" "returns (render_endpoint E e nm args info)"
    unfolding fetch_json_def probe_server_def render_endpoint_def by (intro returns_rules s o)+
  show "returns (cached_bytes E k)" "returns (cached_server E k)" unfolding cached_bytes_def cached_server_def
    by (intro returns_rules; auto intro!: returns_rules split: cache_value.splits)+
qed

text \<open>A fetch with a resolver returns when that server resolves, and one without when owners and hosts do.\<close>

lemma returns_GetResource:
  assumes "co_resolver opts \<noteq> [] \<Longrightarrow> returns (gs (co_resolver opts) None)"
    and "co_resolver opts = [] \<Longrightarrow> (\<forall>r. returns (rr r)) \<and> (\<forall>d. returns (gs d None))"
  shows "returns (GetResource E gs rr T uri accept opts)"
  unfolding GetResource_def fetch_resource_def ResolveResourceURI_def resolve_info_def cache_json_def
  using assms by (intro returns_rules) auto

lemma returns_host: "\<not> IsCSID d \<Longrightarrow> returns (GetServer E (Suc n) d hint)"
  unfolding GetServer.simps(2)[of E n] get_server_step_def by (simp, intro returns_rules)

lemma returns_server: "plain_default E \<Longrightarrow> returns (GetServer E (Suc (Suc n)) d None)"
  unfolding GetServer.simps(2)[of E "Suc n"] get_server_step_def plain_default_def
  by (intro returns_rules returns_GetResource) (auto simp: returns_host)

lemma returns_resolve: "plain_default E \<Longrightarrow> returns (resolveResolver E (Suc (Suc (Suc n))) r)"
  unfolding resolveResolver.simps(2)[of E "Suc (Suc n)"] resolve_resolver_step_def GetRecord_def
  by (simp, intro conjI impI returns_rules returns_GetResource returns_server)
    (auto simp: plain_default_def returns_host)

lemma returns_server_hint: "plain_default E \<Longrightarrow> returns (GetServer E (Suc (Suc (Suc (Suc n)))) d hint)"
  unfolding GetServer.simps(2)[of E "Suc (Suc (Suc n))"] get_server_step_def
  by (intro returns_rules returns_GetResource) (auto simp: returns_server returns_resolve)

lemma returns_verify: "(\<And>u. returns (G u)) \<Longrightarrow> returns (client_verify C L G n al sd)"
proof (induction n arbitrary: al sd)
  case (Suc n)
  have "returns (fetch_option G u)" for u
    unfolding fetch_option_def using Suc.prems by (auto intro!: returns_rules split: domain_error.splits)
  with Suc show ?case by (auto simp del: verify.simps intro!: returns_rules split: option.splits)
qed (simp add: returns_rules)

lemma returns_GetRecord:
  assumes "\<And>r. returns (rr r)" "\<And>d h. returns (gs d h)"
  shows "returns (GetRecord E gs rr dec uri opts)"
  unfolding GetRecord_def verify_record_def verify_or_fail_def ResolveSignedDocument_def
  by (intro returns_rules returns_verify returns_GetResource assms)
    (auto intro!: returns_rules assms split: verify_error.splits)

end
