(* ===== verification/Go_Format.thy ===== *)
theory Go_Format
  imports Tags
begin

text \<open>
  The printing of numbers and times by Go's \<^verbatim>\<open>strconv\<close>, \<^verbatim>\<open>fmt\<close> and \<^verbatim>\<open>time\<close> packages, as far as the
  sources use it: decimal integers, and \<^verbatim>\<open>time.RFC3339Nano\<close> of a UTC instant.
\<close>

section \<open>Decimal numbers\<close>

fun dec_str :: "nat \<Rightarrow> string" where
  "dec_str n = (if n < 10 then [char_of (48 + n)] else dec_str (n div 10) @ [char_of (48 + n mod 10)])"

declare dec_str.simps [simp del]

definition int_str :: "int \<Rightarrow> string" where
  "int_str i = (if i < 0 then CHR ''-'' # dec_str (nat (- i)) else dec_str (nat i))"

definition pad_zero :: "nat \<Rightarrow> nat \<Rightarrow> string" where
  "pad_zero w n = (let s = dec_str n in replicate (w - length s) CHR ''0'' @ s)"

section \<open>Times\<close>

text \<open>The civil date of a number of days since 1 January 1970 in the proleptic Gregorian calendar,
  counted in years that start in March.\<close>

definition civil :: "int \<Rightarrow> int \<times> nat \<times> nat" where
  "civil days =
     (let z = days + 719468; era = z div 146097; doe = z mod 146097;
          yoe = (doe - doe div 1460 + doe div 36524 - doe div 146096) div 365;
          doy = doe - (365 * yoe + yoe div 4 - yoe div 100);
          mp = (5 * doy + 2) div 153; d = doy - (153 * mp + 2) div 5 + 1;
          m = (if mp < 10 then mp + 3 else mp - 9)
      in (yoe + era * 400 + (if m \<le> 2 then 1 else 0), nat m, nat d))"

fun trim_zeros :: "string \<Rightarrow> string" where
  "trim_zeros s = rev (dropWhile (\<lambda>c. c = CHR ''0'') (rev s))"

definition frac_nanos :: "nat \<Rightarrow> string" where
  "frac_nanos n = (if n = 0 then [] else ''.'' @ trim_zeros (pad_zero 9 n))"

definition year_str :: "int \<Rightarrow> string" where
  "year_str y = (if y < 0 then CHR ''-'' # pad_zero 4 (nat (- y)) else pad_zero 4 (nat y))"

definition rfc3339nano :: "gotime \<Rightarrow> string" where
  "rfc3339nano t =
     (let secs = t div 1000000000; nanos = nat (t mod 1000000000); (y, m, d) = civil (secs div 86400); r = nat (secs mod 86400)
      in year_str y @ ''-'' @ pad_zero 2 m @ ''-'' @ pad_zero 2 d @ ''T'' @ pad_zero 2 (r div 3600) @ '':''
         @ pad_zero 2 (r div 60 mod 60) @ '':'' @ pad_zero 2 (r mod 60) @ frac_nanos nanos @ ''Z'')"

section \<open>Facts\<close>

lemma of_char_digit: "n < 10 \<Longrightarrow> of_char (char_of (48 + n :: nat)) = 48 + n"
  by (simp add: of_char_of)

lemma dec_str_ne [simp]: "dec_str n \<noteq> []"
  by (subst dec_str.simps) simp

lemma dec_val_append: "dec_val (s @ [char_of (48 + d)]) = 10 * dec_val s + d" if "d < 10"
  using that by (simp add: dec_val_def digits_val_append of_char_digit)

lemma dec_val_str [simp]: "dec_val (dec_str n) = n"
proof (induction n rule: dec_str.induct)
  case (1 n)
  show ?case
  proof (cases "n < 10")
    case True
    then show ?thesis by (subst dec_str.simps) (use dec_val_append[of n "[]"] in \<open>simp add: dec_val_def\<close>)
  next
    case False
    then show ?thesis using 1 by (subst dec_str.simps) (simp add: dec_val_append)
  qed
qed

lemma dec_str_inj: "dec_str m = dec_str n \<Longrightarrow> m = n"
  by (metis dec_val_str)

lemma dec_str_digits: "list_all is_digit (dec_str n)"
proof (induction n rule: dec_str.induct)
  case (1 n)
  have "is_digit (char_of (48 + d))" if "d < 10" for d :: nat
    using that by (simp add: is_digit_def less_eq_char_def of_char_of)
  with 1 show ?case by (cases "n < 10") (subst dec_str.simps, simp)+
qed

text \<open>\<^verbatim>\<open>strconv.Atoi\<close> reads back what \<^verbatim>\<open>strconv.Itoa\<close> prints.\<close>

lemma atoi_int_str: "- (2 ^ 63) \<le> i \<Longrightarrow> i < 2 ^ 63 \<Longrightarrow> atoi (int_str i) = Some i"
proof -
  assume i: "- (2 ^ 63) \<le> i" "i < 2 ^ 63"
  have no: "\<not> has_prefix (dec_str n) ''-'' \<and> \<not> has_prefix (dec_str n) ''+''" for n
    using dec_str_digits[of n] dec_str_ne[of n]
    by (cases "dec_str n") (auto simp: has_prefix_def is_digit_def)
  show ?thesis
  proof (cases "i < 0")
    case True
    then show ?thesis using i dec_str_digits by (simp add: int_str_def atoi_def has_prefix_def Let_def)
  next
    case False
    then show ?thesis using i dec_str_digits no by (simp add: int_str_def atoi_def Let_def)
  qed
qed

end
