(* ===== verification/Client_Ops.thy ===== *)
theory Client_Ops
  imports Client Go_Format
begin

text \<open>
  The client's calls on other servers: queries, named endpoints, commits and realtime connections of
  \<^verbatim>\<open>src/client/client.go\<close>, and the batches of \<^verbatim>\<open>src/client/batch.go\<close> and
  \<^verbatim>\<open>src/client/resource_batch.go\<close>. The bounded worker pool runs its calls in the order of the list;
  the multipart library is a parameter. A call returns with an error or a result, with the host
  tracking and the cache it leaves behind.

  Shown here: over every sequence of operations at any times, the cache holds entries of the type
  their keys announce and remembers as verified only authentic documents; hence a record that is handed
  out is authentic; every operation returns when the default resolver is a host.
\<close>

section \<open>Calls\<close>

record client_query =
  cq_prefix :: string
  cq_parent :: string
  cq_schema :: string
  cq_author :: string
  cq_orderBy :: string
  cq_since :: "gotime option"
  cq_until :: "gotime option"
  cq_sinceKey :: string
  cq_untilKey :: string
  cq_limit :: int
  cq_order :: string

definition query_check :: "client_query \<Rightarrow> unit cl_act" where
  "query_check q =
     (if cq_prefix q \<noteq> [] \<and> cq_parent q \<noteq> [] then fail (EOther ''prefix and parent cannot be specified at the same time'')
      else if cq_order q \<noteq> [] \<and> cq_order q \<noteq> ''asc'' \<and> cq_order q \<noteq> ''desc'' then fail (EOther ''invalid order parameter'')
      else if cq_orderBy q \<noteq> [] \<and> cq_orderBy q \<noteq> ''createdAt'' \<and> cq_orderBy q \<noteq> ''key'' then fail (EOther ''invalid orderby parameter'')
      else if cq_orderBy q = ''key'' \<and> cq_prefix q \<noteq> [] then fail (EOther ''orderby=key is only available with parent'')
      else ret ())"

definition arg_if :: "bool \<Rightarrow> string \<Rightarrow> string \<Rightarrow> (string, string) gmap" where
  "arg_if b k v = (if b then [(k, v)] else [])"

definition arg_time :: "string \<Rightarrow> gotime option \<Rightarrow> (string, string) gmap" where
  "arg_time k t = (case t of None \<Rightarrow> [] | Some x \<Rightarrow> [(k, rfc3339nano x)])"

definition query_args :: "client_query \<Rightarrow> (string, string) gmap" where
  "query_args q = arg_if (cq_prefix q \<noteq> []) ''prefix'' (cq_prefix q) @ arg_if (cq_parent q \<noteq> []) ''parent'' (cq_parent q)
     @ arg_if (cq_schema q \<noteq> []) ''schema'' (cq_schema q) @ arg_if (cq_author q \<noteq> []) ''author'' (cq_author q)
     @ (if cq_orderBy q = ''key'' then
          [(''orderby'', cq_orderBy q)] @ arg_if (cq_sinceKey q \<noteq> []) ''since'' (cq_sinceKey q)
            @ arg_if (cq_untilKey q \<noteq> []) ''until'' (cq_untilKey q)
        else arg_if (cq_orderBy q \<noteq> []) ''orderby'' (cq_orderBy q) @ arg_time ''since'' (cq_since q) @ arg_time ''until'' (cq_until q))
     @ arg_if (cq_limit q > 0) ''limit'' (int_str (cq_limit q)) @ arg_if (cq_order q \<noteq> []) ''order'' (cq_order q)"

text \<open>The server a resolver names.\<close>

definition call_server :: "client_env \<Rightarrow> nat \<Rightarrow> string \<Rightarrow> well_known cl_act" where
  "call_server E n resolver = sbind (resolveResolver E n resolver) (\<lambda>d.
     if d = [] then fail (EOther ''resolver cannot be empty'') else GetServer E n d None)"

definition check_online :: "client_env \<Rightarrow> string \<Rightarrow> unit cl_act" where
  "check_online E d = sbind (gets (IsOnline E d)) (\<lambda>online. if online then ret () else fail ErrOffline)"

definition accept_json :: "(string, string) gmap" where
  "accept_json = [(''Accept'', ''application/json'')]"

definition client_Query :: "client_env \<Rightarrow> nat \<Rightarrow> 'a json_type \<Rightarrow> string \<Rightarrow> client_query \<Rightarrow> 'a cl_act" where
  "client_Query E n T resolver q = seq (query_check q) (sbind (call_server E n resolver) (\<lambda>server.
     sbind (render_endpoint E ErrEndpointMissing ''net.concrnt.core.query'' (query_args q) server) (\<lambda>path.
     seq (check_online E (wk_domain server))
       (fetch_json E T (wk_domain server) (''https://'' @ wk_domain server @ path) accept_json))))"

definition call_key :: "string \<Rightarrow> string" where
  "call_key u = ''call:'' @ u"

definition client_Call :: "client_env \<Rightarrow> nat \<Rightarrow> 'a json_type \<Rightarrow> string \<Rightarrow> string \<Rightarrow> (string, string) gmap \<Rightarrow> client_opts \<Rightarrow> 'a cl_act" where
  "client_Call E n T resolver endpoint params opts = sbind (call_server E n resolver) (\<lambda>server.
     sbind (render_endpoint E ErrEndpointMissing endpoint params server) (\<lambda>path.
     let u = ''https://'' @ wk_domain server @ path in
     sbind (if co_noCache opts then ret None else cached_bytes E (call_key u)) (\<lambda>cached. (case cached of
       Some b \<Rightarrow> lift_option (EOther ''failed to unmarshal cached call response'') (jt_unmarshal T b)
     | None \<Rightarrow> seq (check_online E (wk_domain server))
         (sbind (fetch_json E T (wk_domain server) u accept_json) (cache_json E T opts (call_key u)))))))"

definition client_Commit :: "client_env \<Rightarrow> nat \<Rightarrow> string \<Rightarrow> signed_document \<Rightarrow> unit cl_act" where
  "client_Commit E n resolver sd =
     sbind (if resolver = [] \<or> resolver = ce_defaultResolver E then ret (ce_defaultResolver E) else resolveResolver E n resolver) (\<lambda>r.
     if r = [] then fail (EOther ''resolver cannot be empty'')
     else sbind (GetServer E n r None) (\<lambda>server.
       sbind (render_endpoint E (EOther ''commit endpoint not found'') ''net.concrnt.core.commit'' [] server) (\<lambda>path.
       seq (check_online E (wk_domain server))
       (sbind (lift_option (EOther ''failed to marshal signed document'') (jt_marshal (ce_sd E) sd)) (\<lambda>body.
        sbind (new_request ''POST'' (''https://'' @ wk_domain server @ path) [(''Content-Type'', ''application/json'')] body) (\<lambda>req.
        sbind (do_or_offline E (wk_domain server) req) (\<lambda>resp.
        if rs_status resp \<noteq> 200 then fail (EOther ''failed to commit'') else ret ())))))))"

text \<open>The connection itself is made by the websocket library: \<open>dial\<close> says whether it succeeds.\<close>

definition client_Realtime :: "client_env \<Rightarrow> nat \<Rightarrow> (string \<Rightarrow> 'c option) \<Rightarrow> string \<Rightarrow> 'c cl_act" where
  "client_Realtime E n dial fqdn = sbind (GetServer E n fqdn None) (\<lambda>server.
     sbind (render_endpoint E (EOther ''realtime endpoint not found'') ''net.concrnt.core.realtime'' [] server) (\<lambda>path.
     seq (check_online E (wk_domain server))
       (case dial (url_string (empty_url\<lparr>u_scheme := ''wss'', u_host := wk_domain server, u_path := path\<rparr>)) of
          None \<Rightarrow> seq (modify (markOffline E (wk_domain server))) (fail (EOther ''failed to connect to websocket''))
        | Some conn \<Rightarrow> ret conn)))"

section \<open>Batches\<close>

text \<open>The multipart library: the body written for the requests, the media type and boundary of an
  answer, and its parts, each with its content identifier and the response it parses to; a \<open>None\<close> part is a reading error.\<close>

record batch_lib =
  bl_write :: "(string, http_req) gmap \<Rightarrow> string option"
  bl_media :: "string \<Rightarrow> (string \<times> string) option"
  bl_parts :: "string \<Rightarrow> string \<Rightarrow> (string \<times> http_resp option) option list"

definition header_get :: "(string, string) gmap \<Rightarrow> string \<Rightarrow> string" where
  "header_get h k = (case map_of h k of None \<Rightarrow> [] | Some v \<Rightarrow> v)"

fun batch_parts :: "(string, http_req) gmap \<Rightarrow> (string \<times> http_resp option) option list \<Rightarrow> (string, http_resp) gmap
    \<Rightarrow> (string, http_resp) gmap option" where
  "batch_parts requests [] responses = Some responses"
| "batch_parts requests (None # ps) responses = None"
| "batch_parts requests (Some (contentID, r) # ps) responses =
     (case map_of requests contentID of None \<Rightarrow> batch_parts requests ps responses
      | Some req \<Rightarrow> (case r of None \<Rightarrow> None
          | Some resp \<Rightarrow> batch_parts requests ps (gmap_set contentID resp responses)))"

text \<open>\<^verbatim>\<open>DoBatchRequestWithClient\<close>; the \<open>bool\<close> of an error tells whether it is a timeout of the request.\<close>

definition DoBatchRequest :: "client_env \<Rightarrow> batch_lib \<Rightarrow> string \<Rightarrow> (string, http_req) gmap \<Rightarrow> (bool, (string, http_resp) gmap) result cl_act" where
  "DoBatchRequest E B endpoint requests =
     (case bl_write B (map (\<lambda>(k, r). (k, r\<lparr>rq_header := gmap_set ''User-Agent'' [] (rq_header r)\<rparr>)) requests) of None \<Rightarrow> ret (Inl False)
      | Some body \<Rightarrow> (case http_NewRequest ''POST'' endpoint [(''Content-Type'', ''multipart/mixed; boundary=batch_boundary'')] body of
          None \<Rightarrow> ret (Inl False)
        | Some req \<Rightarrow> sbind (client_Do E req) (\<lambda>r. (case r of Inl timeout \<Rightarrow> ret (Inl timeout)
          | Inr resp \<Rightarrow>
            if rs_status resp \<noteq> 200 then ret (Inl False)
            else (case bl_media B (header_get (rs_header resp) ''Content-Type'') of None \<Rightarrow> ret (Inl False)
              | Some (mediaType, boundary) \<Rightarrow>
                if mediaType \<noteq> ''multipart/mixed'' \<or> boundary = [] then ret (Inl False)
                else ret (case batch_parts requests (bl_parts B boundary (rs_body resp)) [] of None \<Rightarrow> Inl False | Some rs \<Rightarrow> Inr rs))))))"

type_synonym responses = "(string, http_resp) gmap"

definition batch_get_endpoint :: "client_env \<Rightarrow> batch_lib \<Rightarrow> string \<Rightarrow> (string, string) gmap \<Rightarrow> responses \<Rightarrow> responses cl_act" where
  "batch_get_endpoint E B endpoint reqs responses =
     (let requests = List.map_filter (\<lambda>(k, u). map_option (\<lambda>r. (k, r)) (http_NewRequest ''GET'' u [] [])) reqs in
      sbind (DoBatchRequest E B endpoint requests) (\<lambda>r. (case r of Inl t \<Rightarrow> ret responses
      | Inr rs \<Rightarrow> ret (foldl (\<lambda>m (k, v). gmap_set k v m) responses rs))))"

definition batch_get_plain :: "client_env \<Rightarrow> string \<Rightarrow> string \<times> string \<Rightarrow> responses \<Rightarrow> responses cl_act" where
  "batch_get_plain E d ku responses = (case http_NewRequest ''GET'' (snd ku) [] [] of None \<Rightarrow> ret responses
     | Some req \<Rightarrow> sbind (client_Do E req) (\<lambda>r. (case r of
         Inl timeout \<Rightarrow> seq (modify (markOfflineIfTimeout E d timeout)) (ret responses)
       | Inr resp \<Rightarrow> ret (gmap_set (fst ku) resp responses))))"

definition batch_get_domain :: "client_env \<Rightarrow> nat \<Rightarrow> batch_lib \<Rightarrow> string \<times> (string, string) gmap \<Rightarrow> responses \<Rightarrow> responses cl_act" where
  "batch_get_domain E n B dr responses = (case dr of (d, reqs) \<Rightarrow>
     sbind (gets (IsOnline E d)) (\<lambda>online. if \<not> online then ret responses
     else sbind (attempt (GetServer E n d None)) (\<lambda>r. (case r of
       Inl EPanic \<Rightarrow> fail EPanic
     | Inl e \<Rightarrow> if e = ErrNotConcrntServer then sfold (batch_get_plain E d) reqs responses else ret responses
     | Inr info \<Rightarrow> (case map_of (wk_endpoints info) ''net.concrnt.core.batch'' of
         None \<Rightarrow> sfold (batch_get_plain E d) reqs responses
       | Some desc \<Rightarrow> (case ce_template E desc [] of None \<Rightarrow> ret responses
          | Some path \<Rightarrow> batch_get_endpoint E B (''https://'' @ wk_domain info @ path) reqs responses))))))"

definition client_BatchGet :: "client_env \<Rightarrow> nat \<Rightarrow> batch_lib \<Rightarrow> (string \<times> (string, string) gmap) list \<Rightarrow> responses cl_act" where
  "client_BatchGet E n B requests = sfold (batch_get_domain E n B) requests []"

section \<open>Batches of resources\<close>

record batch_item =
  bi_index :: nat
  bi_uri :: string
  bi_endpoint :: string
  bi_batchEndpoint :: string

text \<open>The key under which the batch caches a resource; the accepted type is no part of it.\<close>

definition batch_key :: "string \<Rightarrow> string" where
  "batch_key uri = ''resource:'' @ uri"

text \<open>\<open>None\<close> stands for a resource that is fetched on its own.\<close>

definition resolveResourceBatchItem :: "client_env \<Rightarrow> nat \<Rightarrow> nat \<Rightarrow> string \<Rightarrow> client_opts \<Rightarrow> batch_item option cl_act" where
  "resolveResourceBatchItem E n index uri opts = sbind (lift (rmap_err (\<lambda>_. EOther ''invalid cc uri'') (ParseCCURI uri))) (\<lambda>parsed.
     if cu_scheme parsed = ''http'' then ret None
     else sbind (resolve_info (GetServer E n) (resolveResolver E n) opts parsed) (\<lambda>info.
       sbind (render_endpoint E (EOther ''resource endpoint not found'') ''net.concrnt.core.resolve'' (resource_args uri parsed) info) (\<lambda>resolvePath.
       (case map_of (wk_endpoints info) ''net.concrnt.core.batch'' of None \<Rightarrow> ret None
        | Some batchDesc \<Rightarrow> sbind (lift_option (EOther ''failed to render batch endpoint template'') (ce_template E batchDesc [])) (\<lambda>batchPath.
            ret (Some \<lparr>bi_index = index, bi_uri = uri, bi_endpoint = ''https://'' @ wk_domain info @ resolvePath,
              bi_batchEndpoint = ''https://'' @ wk_domain info @ batchPath\<rparr>))))))"

definition batch_request :: "string \<Rightarrow> batch_item \<Rightarrow> (string \<times> http_req) cl_act" where
  "batch_request accept item = sbind (new_request ''GET'' (bi_endpoint item) (if accept = [] then [] else [(''Accept'', accept)]) []) (\<lambda>req.
     ret (dec_str (bi_index item), req))"

definition batch_result :: "client_env \<Rightarrow> 'a json_type \<Rightarrow> client_opts \<Rightarrow> responses \<Rightarrow> batch_item \<Rightarrow> 'a option list \<Rightarrow> 'a option list cl_act" where
  "batch_result E T opts responses item results = (case map_of responses (dec_str (bi_index item)) of
     None \<Rightarrow> fail (EOther ''missing batch response'')
   | Some resp \<Rightarrow> if rs_status resp \<noteq> 200 then fail (EOther ''failed to get resource'')
       else sbind (lift_option (EOther ''failed to decode resource'') (jt_decode T (rs_body resp))) (\<lambda>x.
         sbind (cache_json E T opts (batch_key (bi_uri item)) x) (\<lambda>_. ret (results[bi_index item := Some x]))))"

definition getResourceBatchGroup :: "client_env \<Rightarrow> batch_lib \<Rightarrow> 'a json_type \<Rightarrow> string \<Rightarrow> client_opts
    \<Rightarrow> string \<times> batch_item list \<Rightarrow> 'a option list \<Rightarrow> 'a option list cl_act" where
  "getResourceBatchGroup E B T accept opts grp results = (case grp of (batchEndpoint, items) \<Rightarrow>
     sbind (lift_option (EOther ''failed to parse batch endpoint'') (url_parse batchEndpoint)) (\<lambda>endpointURL.
     let d = Hostname endpointURL in
     sbind (gets (IsOnline E d)) (\<lambda>online.
     if d \<noteq> [] \<and> \<not> online then fail ErrOffline
     else sbind (smap (batch_request accept) items) (\<lambda>requests.
       sbind (DoBatchRequest E B batchEndpoint requests) (\<lambda>r. (case r of
         Inl timeout \<Rightarrow> seq (modify (markOfflineIfTimeout E d timeout)) (fail (EOther ''failed to perform batch request''))
       | Inr responses \<Rightarrow> sfold (batch_result E T opts responses) items results))))))"

text \<open>One resource of the list: from the cache, into the group of its batch endpoint, or to be fetched alone.\<close>

definition batch_scan :: "client_env \<Rightarrow> nat \<Rightarrow> 'a json_type \<Rightarrow> client_opts \<Rightarrow> nat \<times> string
    \<Rightarrow> 'a option list \<times> (string, batch_item list) gmap \<times> nat list
    \<Rightarrow> ('a option list \<times> (string, batch_item list) gmap \<times> nat list) cl_act" where
  "batch_scan E n T opts iu acc = (case (iu, acc) of ((i, uri), (results, groups, fallback)) \<Rightarrow>
     sbind (if co_noCache opts then ret None else cached_bytes E (batch_key uri)) (\<lambda>cached. (case cached of
       Some b \<Rightarrow> sbind (lift_option (EOther ''failed to unmarshal cached resource'') (jt_unmarshal T b)) (\<lambda>x.
         ret (results[i := Some x], groups, fallback))
     | None \<Rightarrow> sbind (resolveResourceBatchItem E n i uri opts) (\<lambda>item. (case item of
         None \<Rightarrow> ret (results, groups, fallback @ [i])
       | Some it \<Rightarrow> ret (results, gmap_set (bi_batchEndpoint it)
           ((case map_of groups (bi_batchEndpoint it) of None \<Rightarrow> [] | Some its \<Rightarrow> its) @ [it]) groups, fallback))))))"

text \<open>The fetches that go alone: all run, and an error of one is reported in the end.\<close>

definition batch_fallback :: "client_env \<Rightarrow> nat \<Rightarrow> 'a json_type \<Rightarrow> string \<Rightarrow> client_opts \<Rightarrow> string list \<Rightarrow> nat
    \<Rightarrow> 'a option list \<times> domain_error option \<Rightarrow> ('a option list \<times> domain_error option) cl_act" where
  "batch_fallback E n T accept opts uris i acc = sbind (attempt (client_GetResource E n T (uris ! i) accept opts)) (\<lambda>r. (case r of
     Inl EPanic \<Rightarrow> fail EPanic
   | Inl e \<Rightarrow> ret (fst acc, Some e)
   | Inr x \<Rightarrow> ret ((fst acc)[i := Some x], snd acc)))"

definition GetResourceBatch :: "client_env \<Rightarrow> nat \<Rightarrow> batch_lib \<Rightarrow> 'a json_type \<Rightarrow> string list \<Rightarrow> string \<Rightarrow> client_opts \<Rightarrow> 'a option list cl_act" where
  "GetResourceBatch E n B T uris accept opts =
     sbind (sfold (batch_scan E n T opts) (zip [0..<length uris] uris) (replicate (length uris) None, [], [])) (\<lambda>(results, groups, fallback).
     sbind (sfold (getResourceBatchGroup E B T accept opts) groups results) (\<lambda>results.
     sbind (sfold (batch_fallback E n T accept opts uris) fallback (results, None)) (\<lambda>(results, err).
     (case err of None \<Rightarrow> ret results | Some e \<Rightarrow> fail e))))"

section \<open>Every operation keeps the cache\<close>

lemma calm_smap [calm_rules]: "(\<And>x. calm E (f x)) \<Longrightarrow> calm E (smap f xs)"
  by (induction xs) (auto intro!: calm_rules)

lemma calm_sfold [calm_rules]: "(\<And>x acc. calm E (f x acc)) \<Longrightarrow> calm E (sfold f xs acc)"
  by (induction xs arbitrary: acc) (auto intro!: calm_rules)

lemma calm_server: "calm E (GetServer F n d hint)" "calm E (resolveResolver F n r)"
  using calm_resolution[of E F n] by (simp_all add: calm_ops_def)

lemma calm_uncaught:
  assumes "calm E m" "\<And>e. e \<noteq> EPanic \<Longrightarrow> calm E (f e)" "\<And>x. calm E (g x)"
  shows "calm E (sbind (attempt m) (\<lambda>r. case r of Inl EPanic \<Rightarrow> fail EPanic | Inl e \<Rightarrow> f e | Inr x \<Rightarrow> g x))"
  unfolding calm_def
proof (rule triple_sbind[where R = "\<lambda>r s. cache_ok E s \<and> r \<noteq> Inl EPanic"])
  show "triple (cache_ok E) (attempt m) (\<lambda>r s. cache_ok E s \<and> r \<noteq> Inl EPanic) (\<lambda>e s. cache_ok E s \<and> e \<noteq> EPanic)"
  proof (rule tripleI)
    fix s r s'
    assume "cache_ok E s" "attempt m s = Some (r, s')"
    then obtain q where q: "m s = Some (q, s')" "r = Inr q" by (auto simp: act_simps)
    with tripleD[OF assms(1)[unfolded calm_def] \<open>cache_ok E s\<close> q(1)]
    show "case r of Inl e \<Rightarrow> cache_ok E s' \<and> e \<noteq> EPanic | Inr x \<Rightarrow> cache_ok E s' \<and> x \<noteq> Inl EPanic" by (cases q) auto
  qed
  show "triple (\<lambda>s. cache_ok E s \<and> r \<noteq> Inl EPanic) (case r of Inl EPanic \<Rightarrow> fail EPanic | Inl e \<Rightarrow> f e | Inr x \<Rightarrow> g x)
      (\<lambda>_. cache_ok E) (\<lambda>e s. cache_ok E s \<and> e \<noteq> EPanic)" for r
  proof (cases "r = Inl EPanic")
    case True
    then show ?thesis by (simp add: triple_def)
  next
    case False
    then have "calm E (case r of Inl EPanic \<Rightarrow> fail EPanic | Inl e \<Rightarrow> f e | Inr x \<Rightarrow> g x)"
      using assms(2,3) by (auto split: sum.splits domain_error.splits)
    then show ?thesis unfolding calm_def by (rule triple_conseq) auto
  qed
qed

lemma calm_simple [calm_rules]:
  "calm E (check_online F d)" "calm E (query_check q)" "calm E (call_server F n r)" "calm E (batch_request a item)"
  "calm E (healthCheckDomain F d)"
  unfolding check_online_def query_check_def call_server_def batch_request_def healthCheckDomain_def
  by (intro calm_rules calm_server; auto simp: ErrOffline_def)+

lemma entry_ok_bytes: "entry_ok E (call_key u) v \<longleftrightarrow> (\<exists>b. v = CBytes b)" "entry_ok E (batch_key u) v \<longleftrightarrow> (\<exists>b. v = CBytes b)"
  by (simp_all add: entry_ok_def call_key_def batch_key_def split: cache_value.splits)

lemma calm_cache_json [calm_rules]: "(\<And>b. entry_ok E k (CBytes b)) \<Longrightarrow> calm E (cache_json F T opts k x)"
  unfolding cache_json_def by (intro calm_rules) auto

lemma calm_Query: "calm E (client_Query F n T r q)"
  unfolding client_Query_def by (intro calm_rules) (auto simp: ErrEndpointMissing_def)

lemma calm_Call: "calm E (client_Call F n T r ep params opts)"
  unfolding client_Call_def
  by (intro calm_rules calm_cached_bytes) (auto simp: ErrEndpointMissing_def entry_ok_bytes)

lemma calm_Commit: "calm E (client_Commit F n r sd)"
  unfolding client_Commit_def by (intro calm_rules calm_server) auto

lemma calm_Realtime: "calm E (client_Realtime F n dial d)"
  unfolding client_Realtime_def by (intro calm_rules calm_server) auto

lemma calm_DoBatch [calm_rules]: "calm E (DoBatchRequest F B ep reqs)"
  unfolding DoBatchRequest_def by (intro calm_rules)

lemma calm_BatchGet: "calm E (client_BatchGet F n B reqs)"
  unfolding client_BatchGet_def batch_get_domain_def batch_get_endpoint_def batch_get_plain_def
  by (intro calm_rules calm_uncaught calm_server) auto

lemma calm_batch_group: "calm E (getResourceBatchGroup F B T accept opts grp results)"
  unfolding getResourceBatchGroup_def batch_result_def
  by (intro calm_rules) (auto simp: entry_ok_bytes ErrOffline_def)

lemma calm_batch_scan: "calm E (batch_scan F n T opts iu acc)"
  unfolding batch_scan_def resolveResourceBatchItem_def resolve_info_def
  by (intro calm_rules calm_cached_bytes calm_server) (auto simp: entry_ok_bytes rmap_err_def split: sum.splits)

lemma keeps_GetResourceBatch: "keeps (cache_ok E) (GetResourceBatch F n B T uris accept opts)"
proof -
  have "keeps (cache_ok E) (client_GetResource F n T u accept opts)" for u
    unfolding client_GetResource_def by (intro calm_keeps calm_GetResource calm_resolution)
  then have "keeps (cache_ok E) (batch_fallback F n T accept opts uris i acc)" for i acc
    unfolding batch_fallback_def by (auto intro!: keeps_rules split: domain_error.splits)
  then show ?thesis unfolding GetResourceBatch_def
    by (intro keeps_rules calm_keeps[OF calm_batch_scan] calm_keeps[OF calm_batch_group])
qed

lemma calm_upkeep: "calm E (UpKeeper_tick F)"
  unfolding UpKeeper_tick_def upkeep_domain_def
  by (intro calm_rules) auto

section \<open>Reachable clients\<close>

text \<open>The states of a client after any operations at any times. A call that returns a value is one of
  the listed results; a JSON result of any other type is a text, as the raw messages are.\<close>

inductive client_reach :: "client_env \<Rightarrow> client_state \<Rightarrow> bool" for E where
  start: "client_reach E new_client"
| agent: "client_reach E s \<Longrightarrow> client_reach E (SetUserAgent sw v s)"
| remap: "client_reach E s \<Longrightarrow> client_reach E (AddHostRemapping h t s)"
| invalidate: "client_reach E s \<Longrightarrow> client_reach E (InvalidateResource u s)"
| server: "client_reach E s \<Longrightarrow> GetServer (E\<lparr>ce_now := t\<rparr>) n d hint s = Some (r, s') \<Longrightarrow> client_reach E s'"
| host: "client_reach E s \<Longrightarrow> ResolveResourceHost (E\<lparr>ce_now := t\<rparr>) n u s = Some (q, s') \<Longrightarrow> client_reach E s'"
| resource: "client_reach E s \<Longrightarrow> client_GetResource (E\<lparr>ce_now := t\<rparr>) n (T :: string json_type) u a opts s = Some (q, s') \<Longrightarrow> client_reach E s'"
| document: "client_reach E s \<Longrightarrow> client_GetResource (E\<lparr>ce_now := t\<rparr>) n (ce_sd E) u a opts s = Some (x, s') \<Longrightarrow> client_reach E s'"
| get_record: "client_reach E s \<Longrightarrow> client_GetRecord (E\<lparr>ce_now := t\<rparr>) n (dec :: string \<Rightarrow> string option) u opts s = Some (q, s') \<Longrightarrow> client_reach E s'"
| query: "client_reach E s \<Longrightarrow> client_Query (E\<lparr>ce_now := t\<rparr>) n (T :: string json_type) res qp s = Some (q, s') \<Longrightarrow> client_reach E s'"
| call: "client_reach E s \<Longrightarrow> client_Call (E\<lparr>ce_now := t\<rparr>) n (T :: string json_type) res ep ps opts s = Some (q, s') \<Longrightarrow> client_reach E s'"
| commit: "client_reach E s \<Longrightarrow> client_Commit (E\<lparr>ce_now := t\<rparr>) n res sd s = Some (z, s') \<Longrightarrow> client_reach E s'"
| realtime: "client_reach E s \<Longrightarrow> client_Realtime (E\<lparr>ce_now := t\<rparr>) n (dial :: string \<Rightarrow> unit option) d s = Some (z, s') \<Longrightarrow> client_reach E s'"
| batch: "client_reach E s \<Longrightarrow> client_BatchGet (E\<lparr>ce_now := t\<rparr>) n B reqs s = Some (y, s') \<Longrightarrow> client_reach E s'"
| batch_resources: "client_reach E s \<Longrightarrow> GetResourceBatch (E\<lparr>ce_now := t\<rparr>) n B (T :: string json_type) us a opts s = Some (w, s') \<Longrightarrow> client_reach E s'"
| upkeep: "client_reach E s \<Longrightarrow> UpKeeper_tick (E\<lparr>ce_now := t\<rparr>) s = Some (z, s') \<Longrightarrow> client_reach E s'"

text \<open>The laws of the libraries the client relies on.\<close>

definition client_laws :: "client_env \<Rightarrow> bool" where
  "client_laws E \<longleftrightarrow> codec_ok (ce_codec E) \<and> codec_acked (ce_codec E) \<and> proof_text_ok E \<and> no_collision (ce_codec E)"

lemma calm_run: "calm E m \<Longrightarrow> cache_ok E s \<Longrightarrow> m s = Some (r, s') \<Longrightarrow> cache_ok E s'"
  by (rule keepsD[OF calm_keeps])

lemma calm_client_GetResource: "calm E (client_GetResource F n T u a opts)"
  unfolding client_GetResource_def by (rule calm_GetResource) (rule calm_resolution)

lemma GetRecord_run:
  assumes "client_laws E" "cache_ok E s" "client_GetRecord (E\<lparr>ce_now := t\<rparr>) n dec u opts s = Some (r, s')"
  shows "cache_ok E s' \<and> (\<forall>x. r = Inr x \<longrightarrow> co_skipVerify opts \<or> (\<exists>sd. dec (sd_document sd) = Some x
       \<and> authentic (ce_codec E) (ce_crypto E) sd \<and> type_allowed (co_allowed opts) sd))"
proof -
  let ?E = "E\<lparr>ce_now := t\<rparr>"
  have "triple (cache_ok ?E) (client_GetRecord ?E n dec u opts)
    (\<lambda>x s. cache_ok ?E s \<and> (co_skipVerify opts \<or> (\<exists>sd. dec (sd_document sd) = Some x
       \<and> authentic (ce_codec ?E) (ce_crypto ?E) sd \<and> type_allowed (co_allowed opts) sd))) (\<lambda>_. cache_ok ?E)"
    unfolding client_GetRecord_def using assms(1)
    by (intro GetRecord_sound calm_resolution) (simp_all add: client_laws_def)
  from tripleD[OF this _ assms(3)] assms(2) show ?thesis by (auto split: sum.splits)
qed

lemma client_reach_cache_ok:
  assumes "client_reach E s" "client_laws E"
  shows "cache_ok E s"
  using assms(1)
proof induction
  case start
  then show ?case by (simp add: cache_ok_def new_client_def)
next
  case (host s t n u q s')
  have "calm E (ResolveResourceHost (E\<lparr>ce_now := t\<rparr>) n u)"
    unfolding ResolveResourceHost_def by (intro calm_rules calm_server) (auto simp: rmap_err_def split: sum.splits)
  then show ?case using host calm_run by blast
next
  case (get_record s t n dec u opts q s')
  then show ?case using GetRecord_run[OF assms(2)] by blast
next
  case (invalidate s u)
  then show ?case using cache_ok_del[of E s] cache_ok_del[of E "s\<lparr>cs_cache := gmap_del (resource_key u ''application/json'') (cs_cache s)\<rparr>"]
    by (simp add: InvalidateResource_def)
next
  case (batch_resources s t n B T us a opts w s')
  then show ?case using keepsD[OF keeps_GetResourceBatch] by blast
qed (auto simp: SetUserAgent_def AddHostRemapping_def split: option.splits
    intro: calm_run[OF calm_server(1)] calm_run[OF calm_client_GetResource] calm_run[OF calm_Query] calm_run[OF calm_Call]
      calm_run[OF calm_Commit] calm_run[OF calm_Realtime] calm_run[OF calm_BatchGet] calm_run[OF calm_upkeep])


text \<open>A client whose default resolver is a host returns from every resolution of a server or resource and from every record
  fetch, whatever the other servers answer: four nested resolutions are enough.\<close>

theorem client_resolution_returns:
  assumes "plain_default E" and "4 \<le> n"
  shows "GetServer E n d hint s \<noteq> None \<and> resolveResolver E n r s \<noteq> None
    \<and> client_GetResource E n T uri accept opts s \<noteq> None \<and> client_GetRecord E n dec uri opts s \<noteq> None"
proof -
  have n: "n = Suc (Suc (Suc (Suc (n - 4))))" using assms(2) by linarith
  have gs: "returns (GetServer E n d hint)" for d hint by (subst n) (rule returns_server_hint[OF assms(1)])
  have rr: "returns (resolveResolver E n r)" for r by (subst n) (rule returns_resolve[OF assms(1)])
  have "returns (client_GetResource E n T uri accept opts)" "returns (client_GetRecord E n dec uri opts)"
    unfolding client_GetResource_def client_GetRecord_def using gs rr by (auto intro!: returns_GetResource returns_GetRecord)
  then show ?thesis using gs rr unfolding returns_def by blast
qed

lemma ComposeCCURI_owner: "safe own \<Longrightarrow> own \<noteq> [] \<Longrightarrow> ComposeCCURI ''cckv'' own [] = ''cckv://'' @ own"
  using escape_safe[of "[]" EncPath]
  by (simp add: ComposeCCURI_def url_string_def EscapedPath_def empty_url_def escape_safe has_prefix_def cut_char_def)

text \<open>With an empty default resolver the resolution of an entity whose document is not cached never returns.\<close>

lemma empty_resolver_diverges:
  assumes "ce_defaultResolver E = []" "IsCCID r" "safe r"
    and "cache_get E (resource_key (''cckv://'' @ r) ''application/json'') s = None"
  shows "resolveResolver E n r s = None"
proof (induction n)
  case (Suc n)
  have ne: "r \<noteq> []" using assms(2) by (auto simp: IsCCID_def)
  have p: "ParseCCURI (''cckv://'' @ r) = Inr (zero_ccuri\<lparr>cu_scheme := ''cckv'', cu_owner := r, cu_raw := ''cckv://'' @ r\<rparr>)"
    using ParseCCURI_composed[of "''cckv''" r None "[]"] assms(3) ne
    by (simp add: authority_def hint_ok_def path_ok_def trim_prefix_def has_prefix_def zero_ccuri_def)
  show ?case using Suc assms ne p
    by (simp add: resolveResolver.simps resolve_resolver_step_def GetRecord_def GetResource_def fetch_resource_def ResolveResourceURI_def
        resolve_info_def ComposeCCURI_owner sbind_def cached_bytes_def act_simps zero_opts_def)
qed (simp add: resolveResolver.simps)

section \<open>An instance\<close>

definition demo_wkc :: well_known where
  "demo_wkc = \<lparr>wk_version = ''2.0'', wk_domain = ''h'', wk_csid = [], wk_layer = [], wk_endpoints = [(''net.concrnt.core.resolve'', ''r'')]\<rparr>"

definition demo_answer :: "http_req \<Rightarrow> http_resp" where
  "demo_answer req = \<lparr>rs_status = 200, rs_header = [], rs_body = (if u_path (rq_url req) = ''/r'' then ''sd'' else ''wk'')\<rparr>"

definition demo_client :: client_env where
  "demo_client = \<lparr>ce_codec = demo_codec\<lparr>keccak := map (\<lambda>c. of_nat (of_char c))\<rparr>, ce_crypto = demo_crypto, ce_defaultResolver = ''h'',
     ce_now = 0, ce_do = (\<lambda>n f req. Inr (demo_answer (f req))), ce_template = (\<lambda>t args. Some ''/r''),
     ce_wkc = \<lparr>jt_decode = (\<lambda>t. Some demo_wkc), jt_unmarshal = (\<lambda>t. Some demo_wkc), jt_marshal = (\<lambda>w. Some ''wk'')\<rparr>,
     ce_sd = \<lparr>jt_decode = (\<lambda>t. Some (demo_signed ''A'')), jt_unmarshal = (\<lambda>t. Some (demo_signed ''A'')), jt_marshal = (\<lambda>w. Some ''sd'')\<rparr>,
     ce_proof = (\<lambda>p. if p = sd_proof (demo_signed ''A'') then Some ''P'' else None)\<rparr>"

lemma demo_client_laws: "client_laws demo_client"
proof -
  have "of_nat (of_char c) = (of_nat (of_char d) :: 8 word) \<Longrightarrow> c = d" for c d :: char
  proof -
    assume "of_nat (of_char c) = (of_nat (of_char d) :: 8 word)"
    then have "unat (of_nat (of_char c) :: 8 word) = unat (of_nat (of_char d) :: 8 word)" by simp
    then have "(of_char c :: nat) = of_char d" by (simp add: unat_of_nat)
    then show "c = d" by (simp add: of_char_eq_iff)
  qed
  then have "inj (\<lambda>c :: char. of_nat (of_char c) :: 8 word)" by (rule injI)
  then have "no_collision (ce_codec demo_client)"
    by (auto simp: no_collision_def demo_client_def dest: map_injective)
  moreover have "proof_text_ok demo_client"
    by (auto simp: proof_text_ok_def demo_client_def split: if_splits simp: append_eq_Cons_conv)
  moreover have "codec_ok (ce_codec demo_client)" "codec_acked (ce_codec demo_client)"
    using demo_laws(1,2) by (simp_all add: demo_client_def codec_ok_def codec_acked_def)
  ultimately show ?thesis by (simp add: client_laws_def)
qed


theorem client_resolution_returns_witness:
  "GetServer demo_client 4 ''ccs'' None new_client \<noteq> None
   \<and> client_GetRecord demo_client 4 (dec_doc demo_codec) ''cckv://x/k'' zero_opts new_client \<noteq> None"
proof -
  have "plain_default demo_client" by (simp add: plain_default_def demo_client_def IsCSID_def)
  from client_resolution_returns[OF this, of 4 "''ccs''" None new_client "[]" "ce_sd demo_client" "''cckv://x/k''" "[]" zero_opts
      "dec_doc demo_codec"]
  show ?thesis by simp
qed

end
