(* ===== verification/Auth.thy ===== *)
theory Auth
  imports Jwt Client_Ops Commit_Invariants
begin

text \<open>
  The identification of requesters, \<^verbatim>\<open>src/internal/present/rest/middleware/auth.go\<close>, the headers a
  gateway passes on, \<^verbatim>\<open>src/impl/interop/middleware.go\<close>. The middleware reads the entity store and fetches
  subkey documents with the client, so its state is the pair of the two; a failed check leaves the
  request anonymous and calls the next handler, a blocked requester is answered with 403.

  Shown here: a request is attributed to an entity only if its token is signed, unexpired, addressed to this
  server, by the entity's own key or by a subkey that an enact document signed by that key names; it
  runs as the service account only with a token the server's own key signed; a blocked entity or an entity
  of a blocked server reaches no handler as a requester.
\<close>

record auth_state =
  as_world :: world
  as_client :: client_state

definition in_world :: "'a uc_act \<Rightarrow> (auth_state, 'a) act" where
  "in_world m s = map_option (\<lambda>(r, w). (r, s\<lparr>as_world := w\<rparr>)) (m (as_world s))"

definition in_client :: "'a cl_act \<Rightarrow> (auth_state, 'a) act" where
  "in_client m s = map_option (\<lambda>(r, c). (r, s\<lparr>as_client := c\<rparr>)) (m (as_client s))"

text \<open>What the middleware stores under \<^verbatim>\<open>RequesterCtxKey\<close>: the server's identifier for a service account, an entity
  otherwise.\<close>

datatype requester = ServiceRequester string | EntityRequester entity

record request_ctx =
  rx_requester :: "requester option"
  rx_requesterTag :: "tags option"
  rx_serviceAccountType :: "string option"
  rx_captchaVerified :: "bool option"

definition anonymous_ctx :: request_ctx where
  "anonymous_ctx = \<lparr>rx_requester = None, rx_requesterTag = None, rx_serviceAccountType = None, rx_captchaVerified = None\<rparr>"

datatype auth_outcome = Next request_ctx | Forbidden string

record auth_env =
  au_uc :: uc_env
  au_client :: client_env
  au_fuel :: nat
  au_jwt :: jwt_codec
  au_commit :: commit_op

abbreviation au_now :: "auth_env \<Rightarrow> gotime" where
  "au_now A \<equiv> ce_now (au_client A)"

definition au_validate :: "auth_env \<Rightarrow> string \<Rightarrow> string \<Rightarrow> (jwt_error, unit) result" where
  "au_validate A token signer = jwt_Validate (au_jwt A) (ue_codec (au_uc A)) (ue_crypto (au_uc A)) (au_now A) token signer"

text \<open>\<^verbatim>\<open>goto skipCheckAuthorization\<close>.\<close>

definition skip_auth :: "request_ctx \<Rightarrow> (auth_state, auth_outcome) act" where
  "skip_auth cx = ret (Next cx)"

text \<open>An error of a callee leads to the next step of the middleware; a panic does not.\<close>

definition or_skip :: "request_ctx \<Rightarrow> (auth_state, 'a) act \<Rightarrow> ('a \<Rightarrow> (auth_state, auth_outcome) act) \<Rightarrow> (auth_state, auth_outcome) act" where
  "or_skip cx m k = sbind (attempt m) (\<lambda>r. (case r of
     Inr x \<Rightarrow> k x | Inl e \<Rightarrow> if e = EPanic then fail EPanic else skip_auth cx))"

text \<open>A validation may panic inside the signature library.\<close>

definition valid_or_skip :: "auth_env \<Rightarrow> request_ctx \<Rightarrow> string \<Rightarrow> string \<Rightarrow> (auth_state, auth_outcome) act \<Rightarrow> (auth_state, auth_outcome) act" where
  "valid_or_skip A cx token signer k = (case au_validate A token signer of Inr u \<Rightarrow> k
     | Inl e \<Rightarrow> if e = JwtSignature CryptoPanic then fail EPanic else skip_auth cx)"

definition subkey_opts :: client_opts where
  "subkey_opts = zero_opts\<lparr>co_allowed := Some [ProofTypeEcrecover]\<rparr>"

text \<open>The check of the signature, by the issuer's own key or by a subkey.\<close>

definition check_key :: "auth_env \<Rightarrow> request_ctx \<Rightarrow> string \<Rightarrow> string \<Rightarrow> ccuri \<Rightarrow> (auth_state, auth_outcome) act \<Rightarrow> (auth_state, auth_outcome) act" where
  "check_key A cx token keyID parsed k =
     (if cu_key parsed = [] then valid_or_skip A cx token (cu_owner parsed) k
      else or_skip cx (in_client (client_GetRecord (au_client A) (au_fuel A) (dec_subkey (ue_codec (au_uc A))) keyID subkey_opts))
        (\<lambda>(subKeyDoc, ckid).
          if d_schema subKeyDoc \<noteq> SubkeyURL then skip_auth cx
          else if d_author subKeyDoc \<noteq> cu_owner parsed then skip_auth cx
          else valid_or_skip A cx token ckid k))"

definition with_requester :: "request_ctx \<Rightarrow> entity \<Rightarrow> request_ctx" where
  "with_requester cx ent = cx\<lparr>rx_requester := Some (EntityRequester ent), rx_requesterTag := Some (entity_tags ent)\<rparr>"

definition identify_entity :: "auth_env \<Rightarrow> request_ctx \<Rightarrow> string \<Rightarrow> jwt_header \<Rightarrow> jwt_claims \<Rightarrow> (auth_state, auth_outcome) act" where
  "identify_entity A cx token header claims =
     or_skip cx (in_world (GetEntity (au_uc A) (au_commit A) (jc_iss claims))) (\<lambda>requester.
     if has_tag (entity_tags requester) ''_blocked'' then ret (Forbidden ''entity is blocked'')
     else (case server_Resolve (au_uc A) (en_domain requester) of
         Inl e \<Rightarrow> if e = EPanic then fail EPanic else skip_auth cx
       | Inr srv \<Rightarrow>
         if has_tag (server_Tag srv) ''_blocked'' then ret (Forbidden ''server is blocked'')
         else (let keyID = (if jh_kid header = [] then jc_iss claims else jh_kid header) in
           (case (ParseCCURI keyID, ParseCCURI (jc_iss claims)) of
              (Inr parsed, Inr parsedIssuer) \<Rightarrow>
                if cu_owner parsed \<noteq> cu_owner parsedIssuer then skip_auth cx
                else check_key A cx token keyID parsed (ret (Next (with_requester cx requester)))
            | _ \<Rightarrow> skip_auth cx))))"

definition identify_token :: "auth_env \<Rightarrow> request_ctx \<Rightarrow> string \<Rightarrow> (auth_state, auth_outcome) act" where
  "identify_token A cx token = (case jwt_Parse (au_jwt A) token of Inl e \<Rightarrow> skip_auth cx
     | Inr (header, claims) \<Rightarrow>
       (let cf = ue_config (au_uc A) in
        if jc_iss claims = cf_CSID cf then
          valid_or_skip A cx token (cf_CSID cf)
            (ret (Next (cx\<lparr>rx_requester := Some (ServiceRequester (cf_CSID cf)), rx_serviceAccountType := Some (jc_sub claims)\<rparr>)))
        else if jc_aud claims \<noteq> cf_FQDN cf \<and> jc_aud claims \<noteq> cf_CSID cf then skip_auth cx
        else if jc_sub claims \<noteq> ''concrnt'' then skip_auth cx
        else identify_entity A cx token header claims))"

definition IdentifyIdentity :: "auth_env \<Rightarrow> request_ctx \<Rightarrow> string \<Rightarrow> (auth_state, auth_outcome) act" where
  "IdentifyIdentity A cx authHeader = (if authHeader = [] then skip_auth cx
     else case split_char CHR '' '' authHeader of
       [authType, token] \<Rightarrow> if authType \<noteq> ''Bearer'' then skip_auth cx else identify_token A cx token
     | _ \<Rightarrow> skip_auth cx)"

definition Recaptcha :: "(string \<Rightarrow> bool) \<Rightarrow> request_ctx \<Rightarrow> string \<Rightarrow> request_ctx" where
  "Recaptcha verify_challenge cx challenge = cx\<lparr>rx_captchaVerified :=
     Some (if challenge \<noteq> [] then verify_challenge challenge else False)\<rparr>"

text \<open>The headers a gateway sets are believed as they are.\<close>

definition ReceiveGatewayAuthPropagation :: "(string \<Rightarrow> entity option) \<Rightarrow> request_ctx \<Rightarrow> string \<Rightarrow> string \<Rightarrow> request_ctx" where
  "ReceiveGatewayAuthPropagation dec cx requesterHeader tagHeader =
     (let cx1 = (if requesterHeader \<noteq> [] then (case dec requesterHeader of None \<Rightarrow> cx
          | Some e \<Rightarrow> cx\<lparr>rx_requester := Some (EntityRequester e)\<rparr>) else cx)
      in if tagHeader \<noteq> [] then cx1\<lparr>rx_requesterTag := Some (parse_tags tagHeader)\<rparr> else cx1)"

section \<open>Attribution\<close>

lemma in_world_Some [act_simps]: "in_world m s = Some (r, s') \<longleftrightarrow> (\<exists>w. m (as_world s) = Some (r, w) \<and> s' = s\<lparr>as_world := w\<rparr>)"
  by (auto simp: in_world_def)

lemma in_client_Some [act_simps]: "in_client m s = Some (r, s') \<longleftrightarrow> (\<exists>c. m (as_client s) = Some (r, c) \<and> s' = s\<lparr>as_client := c\<rparr>)"
  by (auto simp: in_client_def)

lemma GetEntityByCCID_id: "GetEntityByCCID d o' = Inr e \<Longrightarrow> en_id e = o'"
  by (auto simp: GetEntityByCCID_def row_entity_def find_Some_iff split: option.splits)

lemma get_entity_ccid_id:
  assumes "get_entity_ccid E rec uri p w = Some (Inr e, w')"
  shows "en_id e = cu_owner p"
  using assms unfolding get_entity_ccid_def
  by (auto simp: act_simps repo_read_def split: sum.splits if_splits option.splits dest: GetEntityByCCID_id)

lemma GetEntity_id:
  assumes "GetEntity E rec uri w = Some (Inr e, w')" "ParseCCURI uri = Inr p" "\<not> has_prefix (cu_owner p) ''@''"
  shows "en_id e = cu_owner p"
proof -
  have "hd (cu_owner p) \<noteq> CHR ''@''" if "cu_owner p \<noteq> []"
    using assms(3) that by (cases "cu_owner p") auto
  then show ?thesis using assms
    by (auto simp: GetEntity_def parse_uri_def act_simps Let_def split: if_splits dest: get_entity_ccid_id)
qed

text \<open>The signatures that speak for an owner: the owner's key, or a subkey an enact document signed by that key
  names.\<close>

definition speaks_for :: "codec \<Rightarrow> crypto_lib \<Rightarrow> string \<Rightarrow> string \<Rightarrow> bool" where
  "speaks_for C L own text \<longleftrightarrow> signed_by C L text own
     \<or> (\<exists>sd d ckid. master_signed C L sd own \<and> dec_subkey C (sd_document sd) = Some (d, ckid)
          \<and> d_schema d = SubkeyURL \<and> signed_by C L text ckid)"

lemma au_validate_signed:
  assumes "au_validate A tok a = Inr ()" "jwt_Parse (au_jwt A) tok = Inr (h, c)"
  shows "\<exists>p0 p1 p2. tok = p0 @ ''.'' @ p1 @ ''.'' @ p2
     \<and> signed_by (ue_codec (au_uc A)) (ue_crypto (au_uc A)) (p0 @ ''.'' @ p1) a \<and> jwt_expiry (au_now A) c = Inr ()"
  using jwt_Validate_signed[OF assms(1)[unfolded au_validate_def]] assms(2) by auto

lemma valid_or_skip_Next:
  assumes "valid_or_skip A cx tok a k s = Some (Inr (Next x), s')" "x \<noteq> cx"
  shows "au_validate A tok a = Inr () \<and> k s = Some (Inr (Next x), s')"
  using assms by (auto simp: valid_or_skip_def skip_auth_def act_simps split: sum.splits if_splits)

lemma or_skip_Next:
  assumes "or_skip cx m k s = Some (Inr (Next x), s')" "x \<noteq> cx"
  shows "\<exists>y s1. m s = Some (Inr y, s1) \<and> k y s1 = Some (Inr (Next x), s')"
proof -
  from assms(1) obtain q s1 where "m s = Some (q, s1)"
    "(case q of Inr x \<Rightarrow> k x | Inl e \<Rightarrow> if e = EPanic then fail EPanic else skip_auth cx) s1 = Some (Inr (Next x), s')"
    by (auto simp: or_skip_def act_simps)
  then show ?thesis using assms(2) by (cases q) (auto simp: skip_auth_def act_simps split: if_splits)
qed

lemma skip_auth_Next: "skip_auth cx s = Some (Inr (Next x), s') \<Longrightarrow> x = cx"
  by (auto simp: skip_auth_def act_simps)

text \<open>The environments of the client and of the use cases name the same libraries, and the client's state is
  one its operations lead to.\<close>

definition auth_ok :: "auth_env \<Rightarrow> auth_state \<Rightarrow> bool" where
  "auth_ok A s \<longleftrightarrow> client_laws (au_client A) \<and> client_reach (au_client A) (as_client s)
     \<and> ce_codec (au_client A) = ue_codec (au_uc A) \<and> ce_crypto (au_client A) = ue_crypto (au_uc A)"

lemma subkey_record:
  assumes ok: "auth_ok A s"
    and run: "client_GetRecord (au_client A) n (dec_subkey (ue_codec (au_uc A))) keyID subkey_opts (as_client s) = Some (Inr (d, ckid), c)"
  shows "\<exists>sd. master_signed (ue_codec (au_uc A)) (ue_crypto (au_uc A)) sd (d_author d)
    \<and> dec_subkey (ue_codec (au_uc A)) (sd_document sd) = Some (d, ckid)"
proof -
  let ?C = "ue_codec (au_uc A)" and ?L = "ue_crypto (au_uc A)" and ?E = "au_client A"
  have C: "codec_ok ?C" using ok by (auto simp: auth_ok_def client_laws_def)
  have laws: "client_laws ?E" "client_reach ?E (as_client s)" and eq: "ce_codec ?E = ?C" "ce_crypto ?E = ?L"
    using ok unfolding auth_ok_def by blast+
  have "client_GetRecord (?E\<lparr>ce_now := ce_now ?E\<rparr>) n (dec_subkey ?C) keyID subkey_opts (as_client s) = Some (Inr (d, ckid), c)"
    using run by simp
  from GetRecord_run[OF laws(1) client_reach_cache_ok[OF laws(2,1)] this]
  have "co_skipVerify subkey_opts \<or> (\<exists>sd. dec_subkey ?C (sd_document sd) = Some (d, ckid) \<and> authentic ?C ?L sd
      \<and> type_allowed (co_allowed subkey_opts) sd)" unfolding eq by blast
  then obtain sd where sd: "dec_subkey ?C (sd_document sd) = Some (d, ckid)" "authentic ?C ?L sd" "type_allowed (Some [ProofTypeEcrecover]) sd"
    by (auto simp: subkey_opts_def zero_opts_def)
  then obtain doc where doc: "dec_doc ?C (sd_document sd) = Some doc" "master_signed ?C ?L sd (d_author doc)"
    by (auto simp: authentic_def type_allowed_def)
  then show ?thesis using codec_ok_subkey[OF C doc(1) sd(1)] sd(1) by auto
qed

lemma check_key_Next:
  assumes ok: "auth_ok A s" and run: "check_key A cx tok keyID p k s = Some (Inr (Next x), s')" and "x \<noteq> cx"
    and parse: "jwt_Parse (au_jwt A) tok = Inr (h, c)"
  shows "jwt_expiry (au_now A) c = Inr ()
    \<and> (\<exists>p0 p1 p2. tok = p0 @ ''.'' @ p1 @ ''.'' @ p2 \<and> speaks_for (ue_codec (au_uc A)) (ue_crypto (au_uc A)) (cu_owner p) (p0 @ ''.'' @ p1))
    \<and> (\<exists>s1. k s1 = Some (Inr (Next x), s'))"
proof (cases "cu_key p = []")
  case True
  then show ?thesis
    using valid_or_skip_Next[of A cx tok "cu_owner p" k s x s'] run assms(3) au_validate_signed[OF _ parse, of "cu_owner p"]
    unfolding check_key_def speaks_for_def by fastforce
next
  case False
  let ?C = "ue_codec (au_uc A)" and ?L = "ue_crypto (au_uc A)"
  from run False or_skip_Next[of cx "in_client (client_GetRecord (au_client A) (au_fuel A) (dec_subkey ?C) keyID subkey_opts)"] assms(3)
  obtain d ckid s1 cst where g: "client_GetRecord (au_client A) (au_fuel A) (dec_subkey ?C) keyID subkey_opts (as_client s) = Some (Inr (d, ckid), cst)"
    and k: "(if d_schema d \<noteq> SubkeyURL then skip_auth cx else if d_author d \<noteq> cu_owner p then skip_auth cx
      else valid_or_skip A cx tok ckid k) s1 = Some (Inr (Next x), s')"
    unfolding check_key_def by (fastforce simp: act_simps)
  from k assms(3) have d: "d_schema d = SubkeyURL" "d_author d = cu_owner p"
    and v: "au_validate A tok ckid = Inr ()" "k s1 = Some (Inr (Next x), s')"
    using valid_or_skip_Next[of A cx tok ckid k s1 x s'] skip_auth_Next[of cx s1 x s'] by (auto split: if_splits)
  obtain sd where "master_signed ?C ?L sd (cu_owner p)" "dec_subkey ?C (sd_document sd) = Some (d, ckid)"
    using subkey_record[OF ok g] d(2) by auto
  then show ?thesis using au_validate_signed[OF v(1) parse] v(2) d(1) unfolding speaks_for_def by blast
qed

lemma identify_entity_Next:
  assumes ok: "auth_ok A s" and run: "identify_entity A cx tok h c s = Some (Inr (Next x), s')" and "x \<noteq> cx"
    and parse: "jwt_Parse (au_jwt A) tok = Inr (h, c)"
  shows "\<exists>e p. x = with_requester cx e \<and> ParseCCURI (jc_iss c) = Inr p \<and> (has_prefix (cu_owner p) ''@'' \<or> en_id e = cu_owner p)
    \<and> jwt_expiry (au_now A) c = Inr ()
    \<and> (\<exists>p0 p1 p2. tok = p0 @ ''.'' @ p1 @ ''.'' @ p2 \<and> speaks_for (ue_codec (au_uc A)) (ue_crypto (au_uc A)) (cu_owner p) (p0 @ ''.'' @ p1))
    \<and> \<not> has_tag (entity_tags e) ''_blocked''
    \<and> (\<exists>srv. server_Resolve (au_uc A) (en_domain e) = Inr srv \<and> \<not> has_tag (server_Tag srv) ''_blocked'')"
proof -
  from or_skip_Next[OF run[unfolded identify_entity_def] assms(3)] obtain e w
    where g: "GetEntity (au_uc A) (au_commit A) (jc_iss c) (as_world s) = Some (Inr e, w)"
    and k: "(if has_tag (entity_tags e) ''_blocked'' then ret (Forbidden ''entity is blocked'')
     else (case server_Resolve (au_uc A) (en_domain e) of
         Inl e \<Rightarrow> if e = EPanic then fail EPanic else skip_auth cx
       | Inr srv \<Rightarrow>
         if has_tag (server_Tag srv) ''_blocked'' then ret (Forbidden ''server is blocked'')
         else (let keyID = (if jh_kid h = [] then jc_iss c else jh_kid h) in
           (case (ParseCCURI keyID, ParseCCURI (jc_iss c)) of
              (Inr parsed, Inr parsedIssuer) \<Rightarrow>
                if cu_owner parsed \<noteq> cu_owner parsedIssuer then skip_auth cx
                else check_key A cx tok keyID parsed (ret (Next (with_requester cx e)))
            | _ \<Rightarrow> skip_auth cx)))) (s\<lparr>as_world := w\<rparr>) = Some (Inr (Next x), s')"
    by (auto simp: act_simps)
  from k assms(3) obtain srv keyID parsed p where b: "\<not> has_tag (entity_tags e) ''_blocked''"
      "server_Resolve (au_uc A) (en_domain e) = Inr srv" "\<not> has_tag (server_Tag srv) ''_blocked''"
    and p: "ParseCCURI (jc_iss c) = Inr p" "cu_owner parsed = cu_owner p"
    and ck: "check_key A cx tok keyID parsed (ret (Next (with_requester cx e))) (s\<lparr>as_world := w\<rparr>) = Some (Inr (Next x), s')"
    by (auto simp: act_simps Let_def dest: skip_auth_Next split: if_splits sum.splits)
  have "auth_ok A (s\<lparr>as_world := w\<rparr>)" using ok by (simp add: auth_ok_def)
  from check_key_Next[OF this ck assms(3) parse] GetEntity_id[OF g p(1)] b p show ?thesis by (auto simp: act_simps)
qed

text \<open>C12. A request is attributed to an entity only if it carries a bearer token that names the entity (by its identifier, unless
  the issuer is an alias) as issuer and this server as audience, has not expired, and is signed by the owner's key or by
  a subkey that an enact document signed by that key names; the entity and its server are not blocked. It runs as the service
  account only if the server's own key signed the token.\<close>

theorem IdentifyIdentity_attribution:
  assumes "auth_ok A s" and "IdentifyIdentity A cx hdr s = Some (Inr (Next x), s')"
    and "rx_requester cx = None" and "rx_requester x = Some r"
  shows "\<exists>tok h c p0 p1 p2. hdr = ''Bearer '' @ tok \<and> jwt_Parse (au_jwt A) tok = Inr (h, c) \<and> tok = p0 @ ''.'' @ p1 @ ''.'' @ p2
    \<and> jwt_expiry (au_now A) c = Inr ()
    \<and> (case r of
         ServiceRequester csid \<Rightarrow> csid = cf_CSID (ue_config (au_uc A)) \<and> jc_iss c = csid
           \<and> signed_by (ue_codec (au_uc A)) (ue_crypto (au_uc A)) (p0 @ ''.'' @ p1) csid
       | EntityRequester e \<Rightarrow> jc_aud c \<in> {FQDN (au_uc A), cf_CSID (ue_config (au_uc A))} \<and> jc_sub c = ''concrnt''
           \<and> (\<exists>p. ParseCCURI (jc_iss c) = Inr p \<and> (has_prefix (cu_owner p) ''@'' \<or> en_id e = cu_owner p)
               \<and> speaks_for (ue_codec (au_uc A)) (ue_crypto (au_uc A)) (cu_owner p) (p0 @ ''.'' @ p1))
           \<and> \<not> has_tag (entity_tags e) ''_blocked''
           \<and> (\<exists>srv. server_Resolve (au_uc A) (en_domain e) = Inr srv \<and> \<not> has_tag (server_Tag srv) ''_blocked''))"
proof -
  have ne: "x \<noteq> cx" using assms(3,4) by auto
  from assms(2) ne obtain tok where tok: "split_char CHR '' '' hdr = [''Bearer'', tok]"
    and it: "identify_token A cx tok s = Some (Inr (Next x), s')"
    unfolding IdentifyIdentity_def by (auto dest: skip_auth_Next split: if_splits list.splits)
  from it ne obtain h c where parse: "jwt_Parse (au_jwt A) tok = Inr (h, c)"
    unfolding identify_token_def by (auto dest: skip_auth_Next split: sum.splits)
  have hdr: "hdr = ''Bearer '' @ tok" using join_split[of "CHR '' ''" hdr] tok by simp
  let ?cf = "ue_config (au_uc A)"
  show ?thesis
  proof (cases "jc_iss c = cf_CSID ?cf")
    case True
    then have "valid_or_skip A cx tok (cf_CSID ?cf)
        (ret (Next (cx\<lparr>rx_requester := Some (ServiceRequester (cf_CSID ?cf)), rx_serviceAccountType := Some (jc_sub c)\<rparr>))) s
      = Some (Inr (Next x), s')" using it by (simp add: identify_token_def parse Let_def)
    from valid_or_skip_Next[OF this ne] have v: "au_validate A tok (cf_CSID ?cf) = Inr ()"
      and r: "r = ServiceRequester (cf_CSID ?cf)" using assms(4) by (auto simp: act_simps)
    from au_validate_signed[OF v parse] hdr parse True r show ?thesis by auto
  next
    case False
    then have aud: "jc_aud c \<in> {FQDN (au_uc A), cf_CSID ?cf}" "jc_sub c = ''concrnt''"
      and ie: "identify_entity A cx tok h c s = Some (Inr (Next x), s')"
      using it ne by (auto simp: identify_token_def parse Let_def dest: skip_auth_Next split: if_splits)
    from identify_entity_Next[OF assms(1) ie ne parse] obtain e p p0 p1 p2 where q: "x = with_requester cx e"
      "ParseCCURI (jc_iss c) = Inr p" "has_prefix (cu_owner p) ''@'' \<or> en_id e = cu_owner p" "jwt_expiry (au_now A) c = Inr ()"
      "tok = p0 @ ''.'' @ p1 @ ''.'' @ p2" "speaks_for (ue_codec (au_uc A)) (ue_crypto (au_uc A)) (cu_owner p) (p0 @ ''.'' @ p1)"
      "\<not> has_tag (entity_tags e) ''_blocked''"
      "\<exists>srv. server_Resolve (au_uc A) (en_domain e) = Inr srv \<and> \<not> has_tag (server_Tag srv) ''_blocked''"
      by blast
    have "r = EntityRequester e" using q(1) assms(4) by (simp add: with_requester_def)
    with hdr parse aud q(2-8) show ?thesis by auto
  qed
qed

section \<open>An instance\<close>

definition demo_login :: jwt_claims where
  "demo_login = \<lparr>jc_iss = ''cckv://'' @ demo_address, jc_sub = ''concrnt'', jc_aud = ''h'', jc_exp = [], jc_iat = [], jc_jti = []\<rparr>"

definition demo_member :: entity where
  "demo_member = \<lparr>en_id = demo_address, en_alias = None, en_domain = ''h'', en_tag = [],
     en_signedDocument = Some (bare_sd ''{}'' (Proof ''t'' None None None None None))\<rparr>"

definition demo_members :: db where
  "demo_members = demo_db\<lparr>entities := [\<lparr>ent_id = demo_address, ent_alias = None, ent_domain = ''h'', ent_tag = [], ent_document = ''c1'',
     ent_createdAt = 5\<rparr>]\<rparr>"

definition demo_auth :: auth_env where
  "demo_auth = \<lparr>au_uc = demo_uc\<lparr>ue_codec := ce_codec demo_client\<rparr>, au_client = demo_client, au_fuel = 4,
     au_jwt = demo_jwt\<lparr>dec_claims := (\<lambda>t. Some demo_login)\<rparr>, au_commit = (\<lambda>ip sd md. fail EPanic)\<rparr>"

definition demo_auth_state :: auth_state where
  "demo_auth_state = \<lparr>as_world = demo_world\<lparr>w_db := demo_members\<rparr>, as_client = new_client\<rparr>"

lemma demo_auth_run:
  "map_option fst (IdentifyIdentity demo_auth anonymous_ctx (''Bearer '' @ demo_token) demo_auth_state)
     = Some (Inr (Next (with_requester anonymous_ctx demo_member)))"
  by code_simp

theorem IdentifyIdentity_attribution_witness:
  "\<exists>p0 p1 p2. demo_token = p0 @ ''.'' @ p1 @ ''.'' @ p2
     \<and> speaks_for (ce_codec demo_client) demo_crypto demo_address (p0 @ ''.'' @ p1)"
proof -
  obtain s' where run: "IdentifyIdentity demo_auth anonymous_ctx (''Bearer '' @ demo_token) demo_auth_state
      = Some (Inr (Next (with_requester anonymous_ctx demo_member)), s')" using demo_auth_run by auto
  have ok: "auth_ok demo_auth demo_auth_state"
    using demo_client_laws client_reach.start[of demo_client]
    by (simp add: auth_ok_def demo_auth_def demo_auth_state_def demo_uc_def) (simp add: demo_client_def)
  have eq: "ue_codec (au_uc demo_auth) = ce_codec demo_client" "ue_crypto (au_uc demo_auth) = demo_crypto"
    by (simp_all add: demo_auth_def demo_uc_def)
  have own: "ParseCCURI (''cckv://'' @ demo_address) = Inr (zero_ccuri\<lparr>cu_scheme := ''cckv'', cu_owner := demo_address, cu_raw := ''cckv://'' @ demo_address\<rparr>)"
    by code_simp
  have iss: "jc_iss c = ''cckv://'' @ demo_address" if "jwt_Parse (au_jwt demo_auth) t = Inr (h, c)" for t h c
    using that by (auto simp: jwt_Parse_def jwt_part_def demo_auth_def demo_login_def rbind_eq_Inr split: list.splits option.splits)
  have r: "rx_requester anonymous_ctx = None"
    "rx_requester (with_requester anonymous_ctx demo_member) = Some (EntityRequester demo_member)"
    by (simp_all add: anonymous_ctx_def with_requester_def)
  from IdentifyIdentity_attribution[OF ok run r] obtain tok h c p0 p1 p2 p where q: "''Bearer '' @ demo_token = ''Bearer '' @ tok"
    "jwt_Parse (au_jwt demo_auth) tok = Inr (h, c)" "tok = p0 @ ''.'' @ p1 @ ''.'' @ p2" "ParseCCURI (jc_iss c) = Inr p"
    "speaks_for (ce_codec demo_client) demo_crypto (cu_owner p) (p0 @ ''.'' @ p1)"
    unfolding requester.case eq by blast
  have "cu_owner p = demo_address" using q(4) own unfolding iss[OF q(2)] by auto
  with q(1,3,5) show ?thesis by auto
qed

end
