(* ===== verification/Residence.thy ===== *)
theory Residence
  imports Jwt Commit_Invariants
begin

text \<open>
  Registration of residents, \<^verbatim>\<open>src/internal/usecase/residence/residence.go\<close>, and the repository of their
  metadata, \<^verbatim>\<open>src/internal/infra/repository/postgres/residence.go\<close>. \<open>captcha\<close> is the value the captcha
  middleware left in the context, \<open>None\<close> when it does not run.

  Shown here: who may register; what unregistering leaves behind, and that repeating it changes nothing;
  that metadata changes only for the requester outside of registration; and that registration stores
  the metadata of the named author before the document has been verified.
\<close>

section \<open>The repository\<close>

fun upsert_meta :: "entity_meta \<Rightarrow> entity_meta list \<Rightarrow> entity_meta list" where
  "upsert_meta m [] = [m]"
| "upsert_meta m (x # xs) = (if em_id x = em_id m then x\<lparr>em_inviter := em_inviter m, em_info := em_info m\<rparr> # xs else x # upsert_meta m xs)"

definition SaveMeta :: "entity_meta \<Rightarrow> unit uc_act" where
  "SaveMeta m = modify (\<lambda>w. w\<lparr>w_metas := upsert_meta m (w_metas w)\<rparr>)"

definition UpdateMetaInfo :: "string \<Rightarrow> string \<Rightarrow> unit uc_act" where
  "UpdateMetaInfo ccid info = sbind (gets (\<lambda>w. list_ex (\<lambda>m. em_id m = ccid) (w_metas w))) (\<lambda>found.
     if \<not> found then fail (ENotFound ''entity meta'' [] [])
     else modify (\<lambda>w. w\<lparr>w_metas := map (\<lambda>m. if em_id m = ccid then m\<lparr>em_info := info\<rparr> else m) (w_metas w)\<rparr>))"

definition DeleteMeta :: "string \<Rightarrow> unit uc_act" where
  "DeleteMeta ccid = modify (\<lambda>w. w\<lparr>w_metas := filter (\<lambda>m. em_id m \<noteq> ccid) (w_metas w)\<rparr>)"

definition MarkCommitLogsGcCandidateByOwner :: "string \<Rightarrow> unit uc_act" where
  "MarkCommitLogsGcCandidateByOwner owner = modify (\<lambda>w. w\<lparr>w_db := (w_db w)\<lparr>commit_logs :=
     upd_where (\<lambda>c. cl_owner c = owner \<and> \<not> cl_gc c) (\<lambda>c. c\<lparr>cl_gc := True\<rparr>) (commit_logs (w_db w))\<rparr>\<rparr>)"

section \<open>The use case\<close>

definition auth_required :: domain_error where
  "auth_required = EPermission ''authentication required''"

definition the_requester :: "call_ctx \<Rightarrow> entity uc_act" where
  "the_requester cx = lift_option auth_required (cx_requester cx)"

definition errRegistrationNotFound :: domain_error where
  "errRegistrationNotFound = ENotFound ''registration'' ''Registration Not Found'' ''net.concrnt.errors.registration-not-found''"

definition Unregister :: "call_ctx \<Rightarrow> unit uc_act" where
  "Unregister cx = sbind (the_requester cx) (\<lambda>requester.
     seq (MarkCommitLogsGcCandidateByOwner (en_id requester)) (DeleteMeta (en_id requester)))"

definition registration_error :: "domain_error \<Rightarrow> domain_error" where
  "registration_error e = (if is_not_found e then errRegistrationNotFound else e)"

definition GetRegistration :: "call_ctx \<Rightarrow> entity_meta uc_act" where
  "GetRegistration cx = sbind (the_requester cx) (\<lambda>requester.
     sbind (gets (\<lambda>w. GetMeta (w_metas w) (en_id requester))) (\<lambda>r. lift (rmap_err registration_error r)))"

definition encodeMetaInfo :: "('m \<Rightarrow> string option) \<Rightarrow> 'm \<Rightarrow> string uc_act" where
  "encodeMetaInfo enc meta = lift_option (EOther ''marshal'') (enc meta)"

definition UpdateRegistration :: "call_ctx \<Rightarrow> ('m \<Rightarrow> string option) \<Rightarrow> 'm \<Rightarrow> unit uc_act" where
  "UpdateRegistration cx enc meta = sbind (the_requester cx) (\<lambda>requester.
     sbind (encodeMetaInfo enc meta) (\<lambda>info.
     sbind (attempt (UpdateMetaInfo (en_id requester) info)) (\<lambda>r. lift (rmap_err registration_error r))))"

definition check_invite :: "uc_env \<Rightarrow> jwt_codec \<Rightarrow> gotime \<Rightarrow> string option \<Rightarrow> string uc_act" where
  "check_invite E J now inviteToken = (case inviteToken of None \<Rightarrow> fail (EPermission ''invitation code is required'')
     | Some token \<Rightarrow> (case jwt_Parse J token of Inl e \<Rightarrow> fail (EPermission ''invalid invitation code'')
       | Inr (header, claims) \<Rightarrow> (case jwt_Validate J (ue_codec E) (ue_crypto E) now token (jc_iss claims) of
           Inl e \<Rightarrow> if e = JwtSignature CryptoPanic then fail EPanic else fail (EPermission ''invalid invitation code'')
         | Inr u \<Rightarrow>
           if jc_sub claims \<noteq> ''invite'' then fail (EPermission ''invalid invitation code(subject)'')
           else if jc_iss claims = cf_CSID (ue_config E) then ret (jc_iss claims)
           else sbind (gets (\<lambda>w. GetEntityByCCID (w_db w) (jc_iss claims))) (\<lambda>r. (case r of
               Inl e \<Rightarrow> fail (EPermission ''invalid invitation code(issuer)'')
             | Inr inviterEntity \<Rightarrow> if \<not> has_tag (entity_tags inviterEntity) ''_invite''
                 then fail (EPermission ''invalid invitation code(issuer tag)'') else ret (jc_iss claims))))))"

definition check_registration :: "uc_env \<Rightarrow> jwt_codec \<Rightarrow> gotime \<Rightarrow> string option \<Rightarrow> string option uc_act" where
  "check_registration E J now inviteToken = (let mode = cf_Registration (ue_config E) in
     if mode = ''invite'' then sbind (check_invite E J now inviteToken) (\<lambda>i. ret (Some i))
     else if mode = ''open'' then ret None
     else fail (EPermission ''registration is not allowed''))"

text \<open>The creation time of the stored entity document; a store error counts as no document, and a stored entity without
  its document is a nil dereference.\<close>

definition stored_time :: "uc_env \<Rightarrow> string \<Rightarrow> gotime uc_act" where
  "stored_time E ccid = sbind (gets (\<lambda>w. GetEntityByCCID (w_db w) ccid)) (\<lambda>r. (case r of Inl e \<Rightarrow> ret zero_time
     | Inr existing \<Rightarrow> (case en_signedDocument existing of None \<Rightarrow> fail EPanic
       | Some sd \<Rightarrow> (case dec_entity (ue_codec E) (sd_document sd) of None \<Rightarrow> fail (EOther ''unmarshal'')
         | Some (existingDoc, v) \<Rightarrow> ret (d_createdAt existingDoc)))))"

definition Register :: "uc_env \<Rightarrow> jwt_codec \<Rightarrow> ('m \<Rightarrow> string option) \<Rightarrow> gotime \<Rightarrow> commit_op \<Rightarrow> bool option \<Rightarrow> string
    \<Rightarrow> signed_document \<Rightarrow> 'm \<Rightarrow> string option \<Rightarrow> unit uc_act" where
  "Register E J enc now commit captcha ip sd meta inviteToken =
     sbind (check_registration E J now inviteToken) (\<lambda>inviter.
     if captcha = Some False then fail (EOther ''captcha verification failed'')
     else sbind (lift_option (EOther ''unmarshal'') (dec_entity (ue_codec E) (sd_document sd))) (\<lambda>(ent, val).
       if ev_domain val \<noteq> FQDN E then fail (EOther ''entity domain does not match server domain'')
       else sbind (stored_time E (d_author ent)) (\<lambda>latest.
         if d_createdAt ent < latest then fail (EOther ''incoming document is older than existing document'')
         else sbind (encodeMetaInfo enc meta) (\<lambda>info.
           seq (SaveMeta \<lparr>em_id = d_author ent, em_inviter = inviter, em_info = info\<rparr>)
             (sbind (commit ip sd CommitModeLocalOnlyExecute) (\<lambda>_. ret ()))))))"

section \<open>Registration\<close>

text \<open>An invitation that is accepted.\<close>

definition invites :: "uc_env \<Rightarrow> jwt_codec \<Rightarrow> gotime \<Rightarrow> db \<Rightarrow> string \<Rightarrow> string \<Rightarrow> bool" where
  "invites E J now d token issuer \<longleftrightarrow> (\<exists>h c. jwt_Parse J token = Inr (h, c) \<and> jc_iss c = issuer \<and> jc_sub c = ''invite''
     \<and> jwt_Validate J (ue_codec E) (ue_crypto E) now token issuer = Inr ()
     \<and> (issuer = cf_CSID (ue_config E) \<or> (\<exists>e. GetEntityByCCID d issuer = Inr e \<and> has_tag (entity_tags e) ''_invite'')))"

lemma check_invite_iff:
  "check_invite E J now tok w = Some (Inr i, w') \<longleftrightarrow> w' = w \<and> (\<exists>t. tok = Some t \<and> invites E J now (w_db w) t i)"
  by (auto simp: check_invite_def invites_def act_simps split: option.splits sum.splits)

lemma check_registration_iff:
  "check_registration E J now tok w = Some (Inr i, w') \<longleftrightarrow> w' = w
     \<and> (cf_Registration (ue_config E) = ''open'' \<and> i = None
        \<or> cf_Registration (ue_config E) = ''invite'' \<and> (\<exists>t c. tok = Some t \<and> i = Some c \<and> invites E J now (w_db w) t c))"
  by (auto simp: check_registration_def Let_def act_simps check_invite_iff)

lemma find_upsert: "find (\<lambda>x. em_id x = em_id m) (upsert_meta m xs) = Some m"
  by (induction xs) auto

lemma find_upsert_other: "i \<noteq> em_id m \<Longrightarrow> find (\<lambda>x. em_id x = i) (upsert_meta m xs) = find (\<lambda>x. em_id x = i) xs"
  by (induction xs) auto

interpretation metas: handler_invariant "\<lambda>_. True" E cx now "\<lambda>w. w_metas w = M" for E cx now M
  by unfold_locales simp_all

text \<open>A commit never touches the metadata of residents.\<close>

lemma finish_commit_metas: "keeps (\<lambda>w. w_metas w = M) (finish_commit E doc r)"
proof (cases r)
  case (Pair ar tx)
  have "keeps (\<lambda>w. w_metas w = M) (run_post E p)" for p
    by (cases p) (auto simp: run_post_def intro!: keeps_rules metas.keeps_marks)
  then show ?thesis unfolding Pair finish_commit_def by (auto intro!: keeps_rules)
qed

lemma Commit_metas: "keeps (\<lambda>w. w_metas w = M) (Commit E cx now n ip sd mode)"
proof (induction n arbitrary: ip sd mode)
  case (Suc n)
  have "triple (metas.tx_post M r) (finish_commit E doc r) (\<lambda>_ w. w_metas w = M) (\<lambda>_ w. w_metas w = M)" for doc r
    by (rule triple_conseq[OF triple_keeps[OF finish_commit_metas]]) (auto simp: metas.tx_post_def)
  then show ?case using metas.commit_body_triple[where M = M and Q = "\<lambda>_ w. w_metas w = M", OF Suc] by (simp add: keeps_def)
qed (simp add: no_rec_def keeps_def triple_def)

text \<open>What a registration checks before it stores anything.\<close>

definition may_register :: "uc_env \<Rightarrow> jwt_codec \<Rightarrow> gotime \<Rightarrow> bool option \<Rightarrow> signed_document \<Rightarrow> string option \<Rightarrow> db \<Rightarrow> string \<Rightarrow> string option \<Rightarrow> bool" where
  "may_register E J now captcha sd inviteToken d ccid inviter \<longleftrightarrow> captcha \<noteq> Some False
     \<and> (\<exists>ent val. dec_entity (ue_codec E) (sd_document sd) = Some (ent, val) \<and> d_author ent = ccid \<and> ev_domain val = FQDN E
          \<and> (\<forall>e x v. GetEntityByCCID d ccid = Inr e \<longrightarrow> en_signedDocument e = Some x \<longrightarrow> dec_entity (ue_codec E) (sd_document x) = Some v \<longrightarrow>
               d_createdAt (fst v) \<le> d_createdAt ent))
     \<and> (cf_Registration (ue_config E) = ''open'' \<and> inviter = None
        \<or> cf_Registration (ue_config E) = ''invite'' \<and> (\<exists>t c. inviteToken = Some t \<and> inviter = Some c \<and> invites E J now d t c))"

lemma keeps_registration_checks: "keeps I (check_registration E J now tok)" "keeps I (stored_time E ccid)"
  by (auto simp: check_registration_def check_invite_def stored_time_def Let_def intro!: keeps_rules)

lemma same_state: "(\<And>I. keeps I m) \<Longrightarrow> m w = Some (r, w') \<Longrightarrow> w' = w"
  using keepsD[of "\<lambda>x. x = w" m w r w'] by simp

lemma sbind_check:
  assumes "\<And>I. keeps I m" "sbind m f w = Some (r, w')" "\<not> (\<exists>e. r = Inl e \<and> w' = w)"
  shows "\<exists>x. m w = Some (Inr x, w) \<and> f x w = Some (r, w')"
  using assms(2,3) same_state[OF assms(1)] unfolding sbind_Some by blast

lemma stored_time_newest:
  assumes "stored_time E ccid w = Some (Inr t, w')" "GetEntityByCCID (w_db w) ccid = Inr e" "en_signedDocument e = Some x"
    "dec_entity (ue_codec E) (sd_document x) = Some v"
  shows "t = d_createdAt (fst v)"
  using assms by (cases v) (auto simp: stored_time_def act_simps)

lemma Register_steps:
  assumes "Register E J enc now commit captcha ip sd meta inviteToken w = Some (r, w')"
  shows "(\<exists>e. r = Inl e \<and> w' = w) \<or> (\<exists>ccid inviter info. may_register E J now captcha sd inviteToken (w_db w) ccid inviter \<and> enc meta = Some info
    \<and> (\<exists>q. commit ip sd CommitModeLocalOnlyExecute (w\<lparr>w_metas := upsert_meta \<lparr>em_id = ccid, em_inviter = inviter, em_info = info\<rparr> (w_metas w)\<rparr>)
        = Some (q, w') \<and> (is_ok r \<longleftrightarrow> is_ok q)))"
proof (cases "\<exists>e. r = Inl e \<and> w' = w")
  case False
  from sbind_check[OF keeps_registration_checks(1) assms[unfolded Register_def] False] False obtain inviter where ci: "check_registration E J now inviteToken w = Some (Inr inviter, w)" and cap: "captcha \<noteq> Some False"
    and run: "sbind (lift_option (EOther ''unmarshal'') (dec_entity (ue_codec E) (sd_document sd))) (\<lambda>(ent, val).
       if ev_domain val \<noteq> FQDN E then fail (EOther ''entity domain does not match server domain'')
       else sbind (stored_time E (d_author ent)) (\<lambda>latest.
         if d_createdAt ent < latest then fail (EOther ''incoming document is older than existing document'')
         else sbind (encodeMetaInfo enc meta) (\<lambda>info.
           seq (SaveMeta \<lparr>em_id = d_author ent, em_inviter = inviter, em_info = info\<rparr>)
             (sbind (commit ip sd CommitModeLocalOnlyExecute) (\<lambda>_. ret ()))))) w = Some (r, w')"
    by (auto simp: act_simps split: if_splits)
  from run False obtain ent val where ent: "dec_entity (ue_codec E) (sd_document sd) = Some (ent, val)" "ev_domain val = FQDN E"
    and run2: "sbind (stored_time E (d_author ent)) (\<lambda>latest.
         if d_createdAt ent < latest then fail (EOther ''incoming document is older than existing document'')
         else sbind (encodeMetaInfo enc meta) (\<lambda>info.
           seq (SaveMeta \<lparr>em_id = d_author ent, em_inviter = inviter, em_info = info\<rparr>)
             (sbind (commit ip sd CommitModeLocalOnlyExecute) (\<lambda>_. ret ())))) w = Some (r, w')"
    by (auto simp: act_simps split: option.splits if_splits)
  from sbind_check[OF keeps_registration_checks(2) run2 False] False obtain t where t: "stored_time E (d_author ent) w = Some (Inr t, w)" "\<not> d_createdAt ent < t"
    and run3: "sbind (encodeMetaInfo enc meta) (\<lambda>info.
           seq (SaveMeta \<lparr>em_id = d_author ent, em_inviter = inviter, em_info = info\<rparr>)
             (sbind (commit ip sd CommitModeLocalOnlyExecute) (\<lambda>_. ret ()))) w = Some (r, w')"
    by (auto simp: act_simps split: if_splits)
  from run3 False obtain info q where info: "enc meta = Some info"
    and q: "commit ip sd CommitModeLocalOnlyExecute
        (w\<lparr>w_metas := upsert_meta \<lparr>em_id = d_author ent, em_inviter = inviter, em_info = info\<rparr> (w_metas w)\<rparr>) = Some (q, w')" "is_ok r \<longleftrightarrow> is_ok q"
    by (auto simp: act_simps encodeMetaInfo_def SaveMeta_def split: option.splits)
  have "may_register E J now captcha sd inviteToken (w_db w) (d_author ent) inviter"
    unfolding may_register_def using cap ent ci[unfolded check_registration_iff] stored_time_newest[OF t(1)] t(2) by fastforce
  then show ?thesis using info q by blast
qed simp

text \<open>C26. Registration succeeds only where it is open or with an invitation that the server, or an entity tagged for it, signed; only for
  an entity document that names this server and is not older than the stored one; and not after a failed captcha. It leaves the metadata of the
  document's author with the inviter of the invitation, and the metadata of nobody else changed.\<close>

theorem Register_outcome:
  assumes "Register E J enc now (Commit E cx now n) captcha ip sd meta inviteToken w = Some (Inr (), w')"
  shows "\<exists>ccid inviter info. may_register E J now captcha sd inviteToken (w_db w) ccid inviter \<and> enc meta = Some info
    \<and> GetMeta (w_metas w') ccid = Inr \<lparr>em_id = ccid, em_inviter = inviter, em_info = info\<rparr>
    \<and> (\<forall>i. i \<noteq> ccid \<longrightarrow> GetMeta (w_metas w') i = GetMeta (w_metas w) i)"
proof -
  from Register_steps[OF assms] obtain ccid inviter info q where m: "may_register E J now captcha sd inviteToken (w_db w) ccid inviter" "enc meta = Some info"
    and c: "Commit E cx now n ip sd CommitModeLocalOnlyExecute
      (w\<lparr>w_metas := upsert_meta \<lparr>em_id = ccid, em_inviter = inviter, em_info = info\<rparr> (w_metas w)\<rparr>) = Some (q, w')"
    by auto
  have "w_metas w' = upsert_meta \<lparr>em_id = ccid, em_inviter = inviter, em_info = info\<rparr> (w_metas w)"
    using keepsD[OF Commit_metas _ c] by simp
  then show ?thesis using m find_upsert[of "\<lparr>em_id = ccid, em_inviter = inviter, em_info = info\<rparr>" "w_metas w"]
      find_upsert_other[of _ "\<lparr>em_id = ccid, em_inviter = inviter, em_info = info\<rparr>" "w_metas w"]
    by (auto simp: GetMeta_def intro!: exI[of _ ccid] exI[of _ inviter])
qed

text \<open>C36. Registration stores the metadata of the author a document names before the document is verified: when its own checks pass
  and the commit then refuses the document, for instance because the author never signed it, the author's metadata and inviter have been replaced all
  the same.\<close>

theorem Register_saves_unverified:
  assumes "cf_Registration (ue_config E) = ''open''" and "captcha \<noteq> Some False"
    and "dec_entity (ue_codec E) (sd_document sd) = Some (ent, val)" and "ev_domain val = FQDN E"
    and "stored_time E (d_author ent) w = Some (Inr latest, w)" and "latest \<le> d_createdAt ent" and "enc meta = Some info"
    and "Register E J enc now (Commit E cx now n) captcha ip sd meta inviteToken w = Some (r, w')"
  shows "GetMeta (w_metas w') (d_author ent) = Inr \<lparr>em_id = d_author ent, em_inviter = None, em_info = info\<rparr>"
proof -
  let ?m = "\<lparr>em_id = d_author ent, em_inviter = None, em_info = info\<rparr>"
  have ci: "check_registration E J now inviteToken w = Some (Inr None, w)" using assms(1) by (simp add: check_registration_iff)
  have "\<exists>q. Commit E cx now n ip sd CommitModeLocalOnlyExecute (w\<lparr>w_metas := upsert_meta ?m (w_metas w)\<rparr>) = Some (q, w')"
    using assms(2-8) ci by (auto simp: Register_def act_simps encodeMetaInfo_def SaveMeta_def)
  then have "w_metas w' = upsert_meta ?m (w_metas w)" using keepsD[OF Commit_metas] by fastforce
  then show ?thesis using find_upsert[of ?m "w_metas w"] by (simp add: GetMeta_def)
qed

section \<open>Leaving\<close>

text \<open>Unregistering marks every commit log the requester owns for collection, removes the requester's metadata and nothing else, and
  doing it again changes nothing.\<close>

lemma Unregister_effect:
  assumes "cx_requester cx = Some e"
  shows "\<exists>w'. Unregister cx w = Some (Inr (), w') \<and> GetMeta (w_metas w') (en_id e) = Inl (ENotFound (en_id e) [] [])
    \<and> (\<forall>c\<in>set (commit_logs (w_db w')). cl_owner c = en_id e \<longrightarrow> cl_gc c)
    \<and> map cl_document (commit_logs (w_db w')) = map cl_document (commit_logs (w_db w))
    \<and> Unregister cx w' = Some (Inr (), w')"
  using assms by (auto simp: Unregister_def the_requester_def MarkCommitLogsGcCandidateByOwner_def DeleteMeta_def sbind_def seq_def act_simps
      GetMeta_def find_None_iff upd_where_def split: option.splits intro: map_idI)

section \<open>An instance\<close>

definition demo_register :: "call_ctx \<Rightarrow> unit uc_act" where
  "demo_register cx = Register demo_uc demo_jwt (\<lambda>m. Some m) 5 (Commit demo_uc cx 5 (Suc 0)) None [] entity_sd ''new'' None"

lemma demo_register_ok: "map_option fst (demo_register system_ctx demo_world) = Some (Inr ())"
  by code_simp

lemma demo_register_refused:
  "\<exists>e w'. demo_register \<lparr>cx_requester = None, cx_serviceAccountType = []\<rparr> demo_world = Some (Inl e, w')"
proof -
  have "map_option (is_ok \<circ> fst) (demo_register \<lparr>cx_requester = None, cx_serviceAccountType = []\<rparr> demo_world) = Some False" by code_simp
  then obtain r w' where "demo_register \<lparr>cx_requester = None, cx_serviceAccountType = []\<rparr> demo_world = Some (r, w')" "\<not> is_ok r"
    unfolding map_option_eq_Some by auto
  then show ?thesis by (cases r) auto
qed

theorem Register_outcome_witness:
  "\<exists>w'. demo_register system_ctx demo_world = Some (Inr (), w')
     \<and> (\<exists>i. GetMeta (w_metas w') ''con1a'' = Inr \<lparr>em_id = ''con1a'', em_inviter = i, em_info = ''new''\<rparr>)"
proof -
  obtain w' where w': "demo_register system_ctx demo_world = Some (Inr (), w')" using demo_register_ok by auto
  from Register_outcome[OF this[unfolded demo_register_def]] show ?thesis
    by (auto simp: w' may_register_def demo_uc_def entity_sd_def entity_doc_def)
qed

theorem Register_saves_unverified_witness:
  "\<exists>e w'. demo_register \<lparr>cx_requester = None, cx_serviceAccountType = []\<rparr> demo_world = Some (Inl e, w')
     \<and> GetMeta (w_metas demo_world) ''con1a'' = Inr \<lparr>em_id = ''con1a'', em_inviter = None, em_info = []\<rparr>
     \<and> GetMeta (w_metas w') ''con1a'' = Inr \<lparr>em_id = ''con1a'', em_inviter = None, em_info = ''new''\<rparr>"
proof -
  let ?cx = "\<lparr>cx_requester = None, cx_serviceAccountType = []\<rparr>"
  obtain e w' where w': "demo_register ?cx demo_world = Some (Inl e, w')" using demo_register_refused by blast
  have "GetMeta (w_metas w') (d_author entity_doc) = Inr \<lparr>em_id = d_author entity_doc, em_inviter = None, em_info = ''new''\<rparr>"
    by (rule Register_saves_unverified[OF _ _ _ _ _ _ _ w'[unfolded demo_register_def], where latest = zero_time
        and val = "\<lparr>ev_domain = ''h'', ev_alias = None, ev_aliasProofType = None\<rparr>"])
      (simp_all add: demo_uc_def entity_sd_def stored_time_def act_simps sbind_def GetEntityByCCID_def demo_world_def empty_db_def
        zero_time_def entity_doc_def)
  moreover have "GetMeta (w_metas demo_world) ''con1a'' = Inr \<lparr>em_id = ''con1a'', em_inviter = None, em_info = []\<rparr>"
    by (simp add: demo_world_def GetMeta_def)
  ultimately show ?thesis using w' by (simp add: entity_doc_def)
qed

end
