(* ===== verification/Server_Directory.thy ===== *)
theory Server_Directory
  imports Client_Ops Usecase_Base
begin

text \<open>
  The directory of other servers, \<^verbatim>\<open>src/internal/infra/repository/postgres/server.go\<close> and
  \<^verbatim>\<open>src/internal/usecase/server/server.go\<close>: a table of the descriptions servers gave of themselves, filled on
  demand with the client. The state is the table and the client's state.

  Shown here: a stored description is answered without a request; a description that is fetched is stored under
  the domain it names itself, which need not be the server asked, and the tag an operator gave
  that row is cleared.
\<close>

record server_row =
  srv_id :: string
  srv_csid :: string
  srv_tag :: string
  srv_layer :: string
  srv_wellKnown :: string

record dir_state =
  ds_servers :: "server_row list"
  ds_client :: client_state

type_synonym 'a dir_act = "(dir_state, 'a) act"

definition dir_client :: "'a cl_act \<Rightarrow> 'a dir_act" where
  "dir_client m s = map_option (\<lambda>(r, c). (r, s\<lparr>ds_client := c\<rparr>)) (m (ds_client s))"

definition modelToDomainServer :: "client_env \<Rightarrow> server_row \<Rightarrow> server dir_act" where
  "modelToDomainServer E m = sbind (lift_option (EOther ''unmarshal'') (jt_unmarshal (ce_wkc E) (srv_wellKnown m))) (\<lambda>wkc.
     ret \<lparr>sv_tagString = srv_tag m, sv_wellKnown = wkc\<rparr>)"

text \<open>\<^verbatim>\<open>ON CONFLICT (id) DO UPDATE\<close> of all other columns.\<close>

fun upsert_server :: "server_row \<Rightarrow> server_row list \<Rightarrow> server_row list" where
  "upsert_server r [] = [r]"
| "upsert_server r (x # xs) = (if srv_id x = srv_id r then r # xs else x # upsert_server r xs)"

definition server_row_of :: "well_known \<Rightarrow> string \<Rightarrow> server_row" where
  "server_row_of wkc serialized = \<lparr>srv_id = wk_domain wkc, srv_csid = wk_csid wkc, srv_tag = [], srv_layer = wk_layer wkc, srv_wellKnown = serialized\<rparr>"

definition cache_server_row :: "client_env \<Rightarrow> well_known \<Rightarrow> server dir_act" where
  "cache_server_row E wkc = sbind (lift_option (EOther ''marshal'') (jt_marshal (ce_wkc E) wkc)) (\<lambda>serialized.
     let newServer = server_row_of wkc serialized in
     seq (modify (\<lambda>s. s\<lparr>ds_servers := upsert_server newServer (ds_servers s)\<rparr>)) (modelToDomainServer E newServer))"

text \<open>A stored row with a description.\<close>

definition stored_server :: "(server_row \<Rightarrow> bool) \<Rightarrow> dir_state \<Rightarrow> server_row option" where
  "stored_server P s = (case find P (ds_servers s) of None \<Rightarrow> None
     | Some m \<Rightarrow> if srv_wellKnown m \<noteq> [] then Some m else None)"

definition GetAndCacheByCSID :: "client_env \<Rightarrow> nat \<Rightarrow> string \<Rightarrow> string option \<Rightarrow> server dir_act" where
  "GetAndCacheByCSID E n csid hint = sbind (gets (stored_server (\<lambda>m. srv_csid m = csid))) (\<lambda>r. (case r of
     Some m \<Rightarrow> modelToDomainServer E m
   | None \<Rightarrow> (case hint of None \<Rightarrow> fail ErrNotFound
       | Some h \<Rightarrow> sbind (dir_client (GetServer E n csid (Some h))) (cache_server_row E))))"

definition GetAndCacheByFQDN :: "client_env \<Rightarrow> nat \<Rightarrow> string \<Rightarrow> server dir_act" where
  "GetAndCacheByFQDN E n fqdn = sbind (gets (stored_server (\<lambda>m. srv_id m = fqdn))) (\<lambda>r. (case r of
     Some m \<Rightarrow> modelToDomainServer E m
   | None \<Rightarrow> sbind (dir_client (GetServer E n fqdn None)) (cache_server_row E)))"

definition repo_Resolve :: "client_env \<Rightarrow> nat \<Rightarrow> string \<Rightarrow> string option \<Rightarrow> server dir_act" where
  "repo_Resolve E n identifier hint = (if IsCSID identifier then GetAndCacheByCSID E n identifier hint
     else GetAndCacheByFQDN E n identifier)"

definition repo_ListServers :: "client_env \<Rightarrow> well_known list dir_act" where
  "repo_ListServers E = gets (\<lambda>s. List.map_filter (\<lambda>m. if srv_wellKnown m = [] then None else jt_unmarshal (ce_wkc E) (srv_wellKnown m)) (ds_servers s))"

definition uc_ResolveServer :: "uc_env \<Rightarrow> client_env \<Rightarrow> nat \<Rightarrow> string \<Rightarrow> string option \<Rightarrow> server dir_act" where
  "uc_ResolveServer U E n identifier hint =
     (if identifier = FQDN U \<or> identifier = cf_CSID (ue_config U) then ret (GetThisServer U) else repo_Resolve E n identifier hint)"

definition ListServers :: "client_env \<Rightarrow> well_known list dir_act" where
  "ListServers E = repo_ListServers E"

text \<open>An error of a callee becomes "not found", a panic stays one.\<close>

definition as_not_found :: "string \<Rightarrow> 'a dir_act \<Rightarrow> 'a dir_act" where
  "as_not_found raw m = sbind (attempt m) (\<lambda>r. (case r of Inr x \<Rightarrow> ret x
     | Inl e \<Rightarrow> fail (if e = EPanic then EPanic else ENotFound raw [] [])))"

definition blob_redirect :: "client_env \<Rightarrow> string \<Rightarrow> (string, string) gmap \<Rightarrow> string \<Rightarrow> unit dir_act" where
  "blob_redirect E desc args prefix = (case ce_template E desc args of None \<Rightarrow> fail (EOther ''template'')
     | Some path \<Rightarrow> fail (ERedirect (prefix @ path)))"

definition ResolveBlob :: "uc_env \<Rightarrow> client_env \<Rightarrow> nat \<Rightarrow> ccuri \<Rightarrow> unit dir_act" where
  "ResolveBlob U E n parsed = sbind (as_not_found (cu_raw parsed) (dir_client (ResolveResourceHost E n (cu_raw parsed)))) (\<lambda>host.
     if host \<noteq> FQDN U then
       sbind (as_not_found (cu_raw parsed) (uc_ResolveServer U E n host (cu_hint parsed))) (\<lambda>srv.
       (case map_of (wk_endpoints (sv_wellKnown srv)) ''net.concrnt.core.resolve'' of None \<Rightarrow> fail (ENotFound (cu_raw parsed) [] [])
        | Some remoteResolve \<Rightarrow> blob_redirect E remoteResolve [(''uri'', cu_raw parsed)] (''https://'' @ host)))
     else (case map_of (ue_endpoints U) ''net.concrnt.storage.resolve'' of None \<Rightarrow> fail (EOther ''storage module not found'')
       | Some storageModule \<Rightarrow> blob_redirect E storageModule [(''hash'', cu_cdid parsed)] []))"

section \<open>What the directory stores\<close>

definition row_at :: "string \<Rightarrow> dir_state \<Rightarrow> server_row option" where
  "row_at i s = find (\<lambda>m. srv_id m = i) (ds_servers s)"

lemma row_at_upsert:
  "row_at i (s\<lparr>ds_servers := upsert_server r (ds_servers s)\<rparr>) = (if i = srv_id r then Some r else row_at i s)"
proof -
  have "find (\<lambda>m. srv_id m = i) (upsert_server r xs) = (if i = srv_id r then Some r else find (\<lambda>m. srv_id m = i) xs)" for xs
    by (induction xs) auto
  then show ?thesis by (simp add: row_at_def)
qed

lemma dir_client_Some [act_simps]: "dir_client m s = Some (r, s') \<longleftrightarrow> (\<exists>c. m (ds_client s) = Some (r, c) \<and> s' = s\<lparr>ds_client := c\<rparr>)"
  by (auto simp: dir_client_def)

lemma modelToDomainServer_Some [act_simps]:
  "modelToDomainServer E m s = Some (r, s') \<longleftrightarrow> s' = s \<and> r = (case jt_unmarshal (ce_wkc E) (srv_wellKnown m) of
     None \<Rightarrow> Inl (EOther ''unmarshal'') | Some wkc \<Rightarrow> Inr \<lparr>sv_tagString = srv_tag m, sv_wellKnown = wkc\<rparr>)"
  by (auto simp: modelToDomainServer_def act_simps split: option.splits)

text \<open>A description the directory asked a server for.\<close>

lemma cache_server_row_rows:
  assumes "cache_server_row E wkc s = Some (r, s')" "jt_marshal (ce_wkc E) wkc = Some t"
  shows "row_at i s' = (if i = wk_domain wkc then Some (server_row_of wkc t) else row_at i s)"
  using assms row_at_upsert[where i = i and s = s and r = "server_row_of wkc t"]
  by (auto simp: cache_server_row_def act_simps Let_def server_row_of_def)

text \<open>C37. A server with a stored description is answered from the table: no request is made and nothing changes. Otherwise the description
  the client fetched is stored under the domain that the description itself names, whichever server was asked, and that row's tag is cleared:
  a server decides what the directory holds for every domain it cares to name, and lifts a block an operator put there.\<close>

theorem GetAndCacheByFQDN_rows:
  assumes "GetAndCacheByFQDN E n fqdn s = Some (r, s')"
  shows "(case stored_server (\<lambda>m. srv_id m = fqdn) s of
      Some m \<Rightarrow> s' = s \<and> (\<forall>v. r = Inr v \<longrightarrow> sv_tagString v = srv_tag m)
    | None \<Rightarrow> (\<forall>wkc c t. GetServer E n fqdn None (ds_client s) = Some (Inr wkc, c) \<longrightarrow> jt_marshal (ce_wkc E) wkc = Some t \<longrightarrow>
        (\<forall>i. row_at i s' = (if i = wk_domain wkc then Some (server_row_of wkc t) else row_at i s)) \<and> srv_tag (server_row_of wkc t) = []))"
proof (cases "stored_server (\<lambda>m. srv_id m = fqdn) s")
  case None
  have "row_at i s' = (if i = wk_domain wkc then Some (server_row_of wkc t) else row_at i s)"
    if "GetServer E n fqdn None (ds_client s) = Some (Inr wkc, c)" "jt_marshal (ce_wkc E) wkc = Some t" for wkc c t i
  proof -
    have "cache_server_row E wkc (s\<lparr>ds_client := c\<rparr>) = Some (r, s')"
      using assms None that by (auto simp: GetAndCacheByFQDN_def act_simps)
    from cache_server_row_rows[OF this that(2)] show ?thesis by (simp add: row_at_def)
  qed
  then show ?thesis using None by (auto simp: server_row_of_def)
next
  case (Some m)
  then show ?thesis using assms by (auto simp: GetAndCacheByFQDN_def act_simps split: option.splits)
qed

text \<open>An instance: the row of a blocked server is replaced by what another server says.\<close>

definition demo_directory :: dir_state where
  "demo_directory = \<lparr>ds_servers = [\<lparr>srv_id = ''h'', srv_csid = [], srv_tag = ''_blocked'', srv_layer = [], srv_wellKnown = ''old''\<rparr>],
     ds_client = new_client\<rparr>"

theorem GetAndCacheByFQDN_rows_witness:
  "\<exists>r s'. GetAndCacheByFQDN demo_client 4 ''evil'' demo_directory = Some (r, s')
     \<and> map_option srv_tag (row_at ''h'' demo_directory) = Some ''_blocked'' \<and> map_option srv_tag (row_at ''h'' s') = Some []"
proof -
  have "map_option (\<lambda>_. ()) (GetAndCacheByFQDN demo_client 4 ''evil'' demo_directory) = Some ()"
    "map_option fst (GetServer demo_client 4 ''evil'' None new_client) = Some (Inr demo_wkc)" by code_simp+
  then obtain r s' c where run: "GetAndCacheByFQDN demo_client 4 ''evil'' demo_directory = Some (r, s')"
    "GetServer demo_client 4 ''evil'' None new_client = Some (Inr demo_wkc, c)" by auto
  have st: "stored_server (\<lambda>m. srv_id m = ''evil'') demo_directory = None" "jt_marshal (ce_wkc demo_client) demo_wkc = Some ''wk''"
    "ds_client demo_directory = new_client" "wk_domain demo_wkc = ''h''"
    by (simp_all add: stored_server_def demo_directory_def demo_client_def demo_wkc_def)
  have "row_at ''h'' s' = Some (server_row_of demo_wkc ''wk'')"
    using GetAndCacheByFQDN_rows[OF run(1), unfolded st(1) option.case, rule_format, of demo_wkc c "''wk''"] run(2) st by simp
  then show ?thesis using run(1) by (simp add: server_row_of_def row_at_def demo_directory_def)
qed

end
