(* ===== verification/Go_Heap.thy ===== *)
theory Go_Heap
  imports Main "HOL-Library.Multiset"
begin

text \<open>
  The binary heap of Go's \<^verbatim>\<open>container/heap\<close> as the timeline client uses it (\<^verbatim>\<open>src/chunkline/client.go\<close>): a list in
  which the parent of position \<open>i\<close> is \<open>(i - 1) div 2\<close>, ordered by a key of which the largest comes first. The interface
  its client relies on is the locale \<open>max_queue\<close>: what is pushed stays in the queue until it is popped, and a pop takes
  an element of largest key.
\<close>

section \<open>The interface\<close>

locale max_queue =
  fixes push :: "'a \<Rightarrow> 'a list \<Rightarrow> 'a list" and pop :: "'a list \<Rightarrow> 'a \<times> 'a list" and qinv :: "'a list \<Rightarrow> bool" and key :: "'a \<Rightarrow> int"
  assumes inv_empty: "qinv []"
    and inv_push: "qinv q \<Longrightarrow> qinv (push x q)"
    and mset_push: "mset (push x q) = add_mset x (mset q)"
    and inv_pop: "qinv q \<Longrightarrow> q \<noteq> [] \<Longrightarrow> pop q = (x, q') \<Longrightarrow> qinv q'"
    and mset_pop: "q \<noteq> [] \<Longrightarrow> pop q = (x, q') \<Longrightarrow> mset q = add_mset x (mset q')"
    and pop_max: "qinv q \<Longrightarrow> q \<noteq> [] \<Longrightarrow> pop q = (x, q') \<Longrightarrow> y \<in> set q \<Longrightarrow> key y \<le> key x"

section \<open>The heap\<close>

definition swap :: "nat \<Rightarrow> nat \<Rightarrow> 'a list \<Rightarrow> 'a list" where
  "swap i j xs = xs[i := xs ! j, j := xs ! i]"

function heap_up :: "('a \<Rightarrow> int) \<Rightarrow> 'a list \<Rightarrow> nat \<Rightarrow> 'a list" where
  "heap_up key xs j = (if j = 0 then xs else let i = (j - 1) div 2 in
     if \<not> key (xs ! i) < key (xs ! j) then xs else heap_up key (swap i j xs) i)"
  by pat_completeness auto
termination by (relation "measure (\<lambda>(key, xs, j). j)") auto

function heap_down :: "('a \<Rightarrow> int) \<Rightarrow> 'a list \<Rightarrow> nat \<Rightarrow> nat \<Rightarrow> 'a list" where
  "heap_down key xs i n = (let j1 = 2 * i + 1 in
     if j1 \<ge> n then xs
     else let j = (if j1 + 1 < n \<and> key (xs ! j1) < key (xs ! (j1 + 1)) then j1 + 1 else j1) in
       if \<not> key (xs ! i) < key (xs ! j) then xs else heap_down key (swap i j xs) j n)"
  by pat_completeness auto
termination by (relation "measure (\<lambda>(key, xs, i, n). n - i)") (auto split: if_splits)

declare heap_up.simps [simp del] heap_down.simps [simp del]

definition heap_push :: "('a \<Rightarrow> int) \<Rightarrow> 'a \<Rightarrow> 'a list \<Rightarrow> 'a list" where
  "heap_push key x xs = heap_up key (xs @ [x]) (length xs)"

definition heap_pop :: "('a \<Rightarrow> int) \<Rightarrow> 'a list \<Rightarrow> 'a \<times> 'a list" where
  "heap_pop key xs = (let n = length xs - 1; ys = heap_down key (swap 0 n xs) 0 n in (last ys, butlast ys))"

section \<open>Correctness\<close>

definition parent :: "nat \<Rightarrow> nat" where
  "parent i = (i - 1) div 2"

definition heap_ok :: "('a \<Rightarrow> int) \<Rightarrow> 'a list \<Rightarrow> bool" where
  "heap_ok key xs \<longleftrightarrow> (\<forall>i. 0 < i \<longrightarrow> i < length xs \<longrightarrow> key (xs ! i) \<le> key (xs ! parent i))"

lemma parent_less: "0 < i \<Longrightarrow> parent i < i"
  by (auto simp: parent_def)

lemma parent_iff: "0 < k \<Longrightarrow> parent k = i \<longleftrightarrow> k = 2 * i + 1 \<or> k = 2 * i + 2"
  unfolding parent_def by auto

lemma swap_length [simp]: "length (swap i j xs) = length xs"
  by (simp add: swap_def)

lemma swap_mset: "i < length xs \<Longrightarrow> j < length xs \<Longrightarrow> mset (swap i j xs) = mset xs"
  unfolding swap_def by (rule mset_swap)

lemma swap_nth: "i < length xs \<Longrightarrow> j < length xs \<Longrightarrow> k < length xs \<Longrightarrow> swap i j xs ! k = (if k = j then xs ! i else if k = i then xs ! j else xs ! k)"
  by (auto simp: swap_def nth_list_update)

lemma heap_up_mset: "j < length xs \<Longrightarrow> mset (heap_up key xs j) = mset xs"
proof (induction key xs j rule: heap_up.induct)
  case (1 key xs j)
  have i: "(j - 1) div 2 < length xs" using "1.prems" by auto
  show ?case using 1 i by (subst heap_up.simps) (auto simp: Let_def swap_mset)
qed

lemma heap_down_mset: "n \<le> length xs \<Longrightarrow> i < length xs \<Longrightarrow> mset (heap_down key xs i n) = mset xs \<and> length (heap_down key xs i n) = length xs"
proof (induction key xs i n rule: heap_down.induct)
  case (1 key xs i n)
  show ?case using 1 by (subst (1 2) heap_down.simps) (auto simp: Let_def swap_mset)
qed

text \<open>A heap but for the order of one position with its parent, whose children are already below that parent.\<close>

definition hole_up :: "('a \<Rightarrow> int) \<Rightarrow> 'a list \<Rightarrow> nat \<Rightarrow> bool" where
  "hole_up key xs j \<longleftrightarrow> (\<forall>i. 0 < i \<longrightarrow> i < length xs \<longrightarrow> i \<noteq> j \<longrightarrow> key (xs ! i) \<le> key (xs ! parent i))
     \<and> (\<forall>i. 0 < i \<longrightarrow> i < length xs \<longrightarrow> parent i = j \<longrightarrow> 0 < j \<longrightarrow> key (xs ! i) \<le> key (xs ! parent j))"

lemma heap_up_ok: "j < length xs \<Longrightarrow> hole_up key xs j \<Longrightarrow> heap_ok key (heap_up key xs j)"
proof (induction key xs j rule: heap_up.induct)
  case (1 key xs j)
  show ?case
  proof (cases "j = 0 \<or> \<not> key (xs ! parent j) < key (xs ! j)")
    case True
    then have "heap_ok key xs" using "1.prems"(2) unfolding heap_ok_def hole_up_def by (metis linorder_not_less less_irrefl)
    then show ?thesis using True by (subst heap_up.simps) (auto simp: Let_def parent_def)
  next
    case False
    let ?i = "parent j" and ?ys = "swap (parent j) j xs"
    have len: "?i < length xs" "j < length xs" "?i < j" using False "1.prems"(1) parent_less[of j] by auto
    note nth = swap_nth[OF len(1,2)]
    have h1: "key (xs ! i) \<le> key (xs ! parent i)" if "0 < i" "i < length xs" "i \<noteq> j" for i
      using "1.prems"(2) that unfolding hole_up_def by blast
    have h2: "key (xs ! i) \<le> key (xs ! ?i)" if "0 < i" "i < length xs" "parent i = j" for i
      using "1.prems"(2) that False unfolding hole_up_def by blast
    have up: "key (xs ! ?i) < key (xs ! j)" using False by simp
    have "hole_up key ?ys ?i"
      unfolding hole_up_def
    proof (intro conjI allI impI)
      fix k assume k: "0 < k" "k < length ?ys" "k \<noteq> ?i"
      have pk: "parent k < length xs" using k parent_less[of k] by simp
      consider "k = j" | "k \<noteq> j" "parent k = j" | "k \<noteq> j" "parent k = ?i" | "k \<noteq> j" "parent k \<noteq> j" "parent k \<noteq> ?i" by blast
      then show "key (?ys ! k) \<le> key (?ys ! parent k)"
      proof cases
        case 3
        then have "key (xs ! k) \<le> key (xs ! ?i)" using h1[of k] k by simp
        then show ?thesis using 3 up nth[of k] nth[OF pk] k len by simp
      qed (use k len nth[of k] nth[OF pk] up h1[of k] h2[of k] in auto)
    next
      fix k assume k: "0 < k" "k < length ?ys" "parent k = ?i" "0 < ?i"
      have pp: "parent ?i < ?i" using k parent_less by blast
      have "key (xs ! ?i) \<le> key (xs ! parent ?i)" using h1[of ?i] k(4) len by simp
      moreover have "key (xs ! k) \<le> key (xs ! ?i)" if "k \<noteq> j" using h1[of k] k that by simp
      ultimately show "key (?ys ! k) \<le> key (?ys ! parent ?i)"
        using nth[of k] nth[of "parent ?i"] k len pp by (auto intro: order.trans)
    qed
    with "1.IH"[OF _ refl] False len show ?thesis by (subst heap_up.simps) (auto simp: Let_def parent_def)
  qed
qed

text \<open>A heap on the first \<open>n\<close> positions but for the order of one position with its children.\<close>

definition hole_down :: "('a \<Rightarrow> int) \<Rightarrow> 'a list \<Rightarrow> nat \<Rightarrow> nat \<Rightarrow> bool" where
  "hole_down key xs i n \<longleftrightarrow> (\<forall>k. 0 < k \<longrightarrow> k < n \<longrightarrow> parent k \<noteq> i \<longrightarrow> key (xs ! k) \<le> key (xs ! parent k))
     \<and> (\<forall>k. 0 < k \<longrightarrow> k < n \<longrightarrow> parent k = i \<longrightarrow> 0 < i \<longrightarrow> key (xs ! k) \<le> key (xs ! parent i))"

lemma heap_down_ok:
  "n \<le> length xs \<Longrightarrow> i < n \<or> n = 0 \<Longrightarrow> hole_down key xs i n \<Longrightarrow>
    \<forall>k. 0 < k \<longrightarrow> k < n \<longrightarrow> key (heap_down key xs i n ! k) \<le> key (heap_down key xs i n ! parent k)"
proof (induction "n - i" arbitrary: xs i rule: less_induct)
  case less
  define j where "j = (if 2 * i + 2 < n \<and> key (xs ! (2 * i + 1)) < key (xs ! (2 * i + 2)) then 2 * i + 2 else 2 * i + 1)"
  have h1: "key (xs ! k) \<le> key (xs ! parent k)" if "0 < k" "k < n" "parent k \<noteq> i" for k
    using less.prems(3) that unfolding hole_down_def by blast
  have h2: "key (xs ! k) \<le> key (xs ! parent i)" if "0 < k" "k < n" "parent k = i" "0 < i" for k
    using less.prems(3) that unfolding hole_down_def by blast
  show ?case
  proof (cases "n \<le> 2 * i + 1 \<or> \<not> key (xs ! i) < key (xs ! j)")
    case True
    have "key (xs ! k) \<le> key (xs ! parent k)" if k: "0 < k" "k < n" for k
    proof (cases "parent k = i")
      case pk: True
      then have "k = 2 * i + 1 \<or> k = 2 * i + 2" using parent_iff k by blast
      then have "key (xs ! k) \<le> key (xs ! j)" "\<not> n \<le> 2 * i + 1" using k by (auto simp: j_def)
      then show ?thesis using True pk by simp
    qed (use h1 k in blast)
    moreover have "heap_down key xs i n = xs" using True by (subst heap_down.simps) (auto simp: Let_def j_def)
    ultimately show ?thesis by simp
  next
    case False
    let ?ys = "swap i j xs"
    have j: "j < n" "i < j" "parent j = i" "0 < j" using False by (auto simp: j_def parent_def)
    have len: "i < length xs" "j < length xs" using j less.prems(1) by auto
    note nth = swap_nth[OF len]
    have child: "key (xs ! k) \<le> key (xs ! j)" if "0 < k" "k < n" "parent k = i" for k
      using that parent_iff[of k i] by (auto simp: j_def)
    have "hole_down key ?ys j n"
      unfolding hole_down_def
    proof (intro conjI allI impI)
      fix k assume k: "0 < k" "k < n" "parent k \<noteq> j"
      have pk: "parent k < length xs" "k < length xs" using k parent_less[of k] less.prems(1) by auto
      consider "k = j" | "k = i" | "k \<noteq> j" "k \<noteq> i" "parent k = i" | "k \<noteq> j" "k \<noteq> i" "parent k \<noteq> i" by blast
      then show "key (?ys ! k) \<le> key (?ys ! parent k)"
      proof cases
        case 1
        then show ?thesis using nth[OF pk(2)] nth[OF pk(1)] j False by simp
      next
        case 2
        then have "parent k \<noteq> i" using parent_less[of k] k by simp
        then show ?thesis using 2 nth[OF pk(2)] nth[OF pk(1)] j k h2[of j] by simp
      next
        case 3
        then show ?thesis using nth[OF pk(2)] nth[OF pk(1)] j k child[of k] by simp
      next
        case 4
        then show ?thesis using nth[OF pk(2)] nth[OF pk(1)] j k h1[of k] by simp
      qed
    next
      fix k assume k: "0 < k" "k < n" "parent k = j" "0 < j"
      have "key (xs ! k) \<le> key (xs ! j)" using h1[of k] k j by auto
      moreover have "k \<noteq> j" "k \<noteq> i" using k parent_less[of k] j by auto
      ultimately show "key (?ys ! k) \<le> key (?ys ! parent j)"
        using nth[of k] nth[of i] k j less.prems(1) len by simp
    qed
    moreover have "heap_down key xs i n = heap_down key ?ys j n" using False by (subst heap_down.simps) (auto simp: Let_def j_def)
    ultimately show ?thesis using less.hyps[of j ?ys] j less.prems(1) by simp
  qed
qed

lemma heap_root_max: "heap_ok key xs \<Longrightarrow> k < length xs \<Longrightarrow> key (xs ! k) \<le> key (xs ! 0)"
proof (induction k rule: less_induct)
  case (less k)
  show ?case
  proof (cases "k = 0")
    case False
    then have "key (xs ! k) \<le> key (xs ! parent k)" "parent k < k" using less.prems parent_less unfolding heap_ok_def by auto
    then show ?thesis using less by (meson order.strict_trans order.trans)
  qed simp
qed

lemma heap_push_ok: "heap_ok key xs \<Longrightarrow> heap_ok key (heap_push key x xs)"
  unfolding heap_push_def
proof (rule heap_up_ok)
  assume "heap_ok key xs"
  moreover have "parent i < length xs" if "0 < i" "i < Suc (length xs)" for i using that parent_less[of i] by simp
  ultimately show "hole_up key (xs @ [x]) (length xs)"
    unfolding hole_up_def heap_ok_def by (auto simp: nth_append dest: parent_less)
qed simp

lemma heap_down_tail: "n \<le> k \<Longrightarrow> n \<le> length xs \<Longrightarrow> heap_down key xs i n ! k = xs ! k"
proof (induction "n - i" arbitrary: xs i rule: less_induct)
  case less
  define j where "j = (if 2 * i + 2 < n \<and> key (xs ! (2 * i + 1)) < key (xs ! (2 * i + 2)) then 2 * i + 2 else 2 * i + 1)"
  show ?case
  proof (cases "n \<le> 2 * i + 1 \<or> \<not> key (xs ! i) < key (xs ! j)")
    case True
    then show ?thesis by (subst heap_down.simps) (auto simp: Let_def j_def)
  next
    case False
    then have j: "j < n" "i < j" by (auto simp: j_def)
    have "heap_down key xs i n = heap_down key (swap i j xs) j n" using False by (subst heap_down.simps) (auto simp: Let_def j_def)
    then show ?thesis using less.hyps[of j "swap i j xs"] less.prems j by (simp add: swap_def)
  qed
qed

lemma heap_pop_spec:
  assumes "xs \<noteq> []" "heap_pop key xs = (x, ys)"
  shows "x = xs ! 0 \<and> mset xs = add_mset x (mset ys) \<and> (heap_ok key xs \<longrightarrow> heap_ok key ys)"
proof -
  let ?n = "length xs - 1" let ?s = "swap 0 ?n xs" let ?d = "heap_down key ?s 0 ?n"
  have n: "?n < length xs" "0 < length xs" using assms(1) by auto
  have d: "mset ?d = mset xs" "length ?d = length xs"
    using heap_down_mset[of ?n ?s 0 key] n by (simp_all add: swap_mset)
  have ys: "x = last ?d" "ys = butlast ?d" using assms(2) by (simp_all add: heap_pop_def Let_def)
  have ne: "?d \<noteq> []" using d(2) assms(1) by auto
  then have "x = ?d ! ?n" using ys(1) d(2) by (simp add: last_conv_nth)
  also have "\<dots> = xs ! 0" using heap_down_tail[of ?n ?n ?s key 0] swap_nth[OF n(2) n(1), of ?n] n by simp
  finally have x: "x = xs ! 0" .
  have "?d = ys @ [x]" using ys ne by simp
  then have m: "mset xs = add_mset x (mset ys)" using d(1) by (metis mset_append mset.simps union_mset_add_mset_right add.right_neutral mset_single_iff_right union_commute add_mset_add_single)
  have "heap_ok key ys" if ok: "heap_ok key xs"
  proof -
    have "hole_down key ?s 0 ?n"
      unfolding hole_down_def
    proof (intro conjI allI impI)
      fix k assume k: "0 < k" "k < ?n" "parent k \<noteq> 0"
      have "?s ! k = xs ! k" "?s ! parent k = xs ! parent k"
        using swap_nth[OF n(2) n(1), of k] swap_nth[OF n(2) n(1), of "parent k"] k parent_less[of k] by auto
      then show "key (?s ! k) \<le> key (?s ! parent k)" using ok k unfolding heap_ok_def by simp
    qed simp
    then have h: "key (?d ! k) \<le> key (?d ! parent k)" if "0 < k" "k < ?n" for k
      using heap_down_ok[of ?n ?s 0 key] n that by auto
    show ?thesis unfolding heap_ok_def
    proof (intro allI impI)
      fix k assume k: "0 < k" "k < length ys"
      then have "k < ?n" "parent k < length ys" using ys(2) d(2) parent_less[of k] by auto
      with h[of k] k ys(2) show "key (ys ! k) \<le> key (ys ! parent k)" by (simp add: nth_butlast)
    qed
  qed
  then show ?thesis using x m by blast
qed

interpretation go_heap: max_queue "heap_push key" "heap_pop key" "heap_ok key" key for key :: "'a \<Rightarrow> int"
proof
  show "heap_ok key []" by (simp add: heap_ok_def)
  show "mset (heap_push key x q) = add_mset x (mset q)" for x q by (simp add: heap_push_def heap_up_mset)
  show "heap_ok key (heap_push key x q)" if "heap_ok key q" for x q using that by (rule heap_push_ok)
  show "heap_ok key q'" if "heap_ok key q" "q \<noteq> []" "heap_pop key q = (x, q')" for q x q' using heap_pop_spec[OF that(2,3)] that(1) by blast
  show "mset q = add_mset x (mset q')" if "q \<noteq> []" "heap_pop key q = (x, q')" for q x q' using heap_pop_spec[OF that] by blast
  show "key y \<le> key x" if "heap_ok key q" "q \<noteq> []" "heap_pop key q = (x, q')" "y \<in> set q" for q x q' y
    using heap_pop_spec[OF that(2,3)] heap_root_max[OF that(1)] that(4) by (auto simp: in_set_conv_nth)
qed

end
