(* ===== verification/Chunkline.thy ===== *)
theory Chunkline
  imports Act Go_Heap Go_Format "HOL-Library.Signed_Division" "HOL-Library.Word"
begin

text \<open>
  The timeline protocol: \<^verbatim>\<open>src/chunkline/types.go\<close>, \<^verbatim>\<open>src/chunkline/interface.go\<close> and the query of
  \<^verbatim>\<open>src/chunkline/client.go\<close>. A timeline is divided into chunks of equal duration; a server answers, for a
  moment, the newest chunk that has an item, and for a chunk, a body: its items and some older ones. The
  query merges many timelines through a heap and goes back chunk by chunk.

  The interface between the query and what resolves timelines is the locale \<open>timeline_source\<close>. Shown in it: the
  answer is sorted, without repetition, within the limit and made of items of the timelines that were not
  removed; no item that is newer than an item of the answer is missing; and what is missing at the end is
  missing for want of the limit, when the timelines are short enough for the bound on the iterations. The
  completeness is relative to the timelines that are not dropped at the start: a timeline whose newest body has no
  item before the asked moment is dropped whole, whatever older items it has (\<open>dropped_timeline\<close>).
\<close>

section \<open>Types\<close>

record chunk_endpoint =
  ep_iterator :: string
  ep_body :: string

record manifest =
  mf_version :: string
  mf_chunkSize :: int
  mf_firstChunk :: "int option"
  mf_lastChunk :: "int option"
  mf_ascending :: "chunk_endpoint option"
  mf_descending :: "chunk_endpoint option"
  mf_removed :: string

definition zero_manifest :: manifest where
  "zero_manifest = \<lparr>mf_version = [], mf_chunkSize = 0, mf_firstChunk = None, mf_lastChunk = None,
     mf_ascending = None, mf_descending = None, mf_removed = []\<rparr>"

definition second :: gotime where
  "second = 1000000000"

text \<open>\<^verbatim>\<open>t.Unix()\<close>.\<close>

definition unix_time :: "gotime \<Rightarrow> int" where
  "unix_time t = t div second"

text \<open>A 64-bit signed integer.\<close>

definition int64 :: "int \<Rightarrow> int" where
  "int64 x = sint (word_of_int x :: 64 word)"

definition Time2Chunk :: "manifest \<Rightarrow> gotime \<Rightarrow> (domain_error, int) result" where
  "Time2Chunk m t = (if mf_chunkSize m = 0 then Inl EPanic else Inr (unix_time t sdiv mf_chunkSize m))"

definition Chunk2Time :: "manifest \<Rightarrow> int \<Rightarrow> gotime" where
  "Chunk2Time m c = int64 (c * mf_chunkSize m) * second"

record body_item =
  it_timestamp :: gotime
  it_content :: string
  it_contentType :: string
  it_href :: string

record body_chunk =
  bc_uri :: string
  bc_chunkID :: int
  bc_items :: "body_item list"

definition zero_chunk :: body_chunk where
  "zero_chunk = \<lparr>bc_uri = [], bc_chunkID = 0, bc_items = []\<rparr>"

record body_item_with_source =
  bs_item :: body_item
  bs_source :: string

text \<open>\<open>xxh\<close> is the hexadecimal text of the xxh3 hash.\<close>

definition item_ID :: "(string \<Rightarrow> string) \<Rightarrow> body_item \<Rightarrow> string" where
  "item_ID xxh b = (if it_href b \<noteq> [] then it_href b else ''urn:xxh3:'' @ xxh (it_content b))"

section \<open>The resolver and the query\<close>

record 's chunk_resolver =
  cr_ResolveTimelines :: "string list \<Rightarrow> ('s, (string, manifest) gmap) act"
  cr_GetRemovedItems :: "string list \<Rightarrow> ('s, (string, string list) gmap) act"
  cr_LookupChunkItrs :: "string list \<Rightarrow> gotime \<Rightarrow> ('s, (string, string) gmap) act"
  cr_LoadChunkBodies :: "(string, string) gmap \<Rightarrow> ('s, (string, body_chunk) gmap) act"

record queue_item =
  qi_timeline :: string
  qi_item :: body_item
  qi_index :: nat

text \<open>\<^verbatim>\<open>PriorityQueue.Less\<close>: the newest item first.\<close>

abbreviation qi_key :: "queue_item \<Rightarrow> int" where
  "qi_key e \<equiv> it_timestamp (qi_item e)"

text \<open>\<^verbatim>\<open>sort.Search\<close>.\<close>

function sort_search :: "(nat \<Rightarrow> bool) \<Rightarrow> nat \<Rightarrow> nat \<Rightarrow> nat" where
  "sort_search f i j = (if i < j then let h = (i + j) div 2 in if \<not> f h then sort_search f (h + 1) j else sort_search f i h else i)"
  by pat_completeness auto
termination by (relation "measure (\<lambda>(f, i, j). j - i)") auto

declare sort_search.simps [simp del]

definition getChunks :: "'s chunk_resolver \<Rightarrow> string list \<Rightarrow> gotime \<Rightarrow> ('s, (string, body_chunk) gmap) act" where
  "getChunks R uris until = sbind (cr_LookupChunkItrs R uris until) (cr_LoadChunkBodies R)"

record query_state =
  qs_chunks :: "(string, body_chunk) gmap"
  qs_pq :: "queue_item list"
  qs_result :: "body_item_with_source list"
  qs_uniq :: "string list"

definition entry_at :: "string \<Rightarrow> body_item list \<Rightarrow> nat \<Rightarrow> queue_item" where
  "entry_at timeline items i = \<lparr>qi_timeline = timeline, qi_item = items ! i, qi_index = i\<rparr>"

definition push_first :: "gotime \<Rightarrow> queue_item list \<Rightarrow> string \<times> body_chunk \<Rightarrow> queue_item list" where
  "push_first until pq tc = (let items = bc_items (snd tc); index = sort_search (\<lambda>i. it_timestamp (items ! i) < until) 0 (length items) in
     if items = [] then pq else if index \<ge> length items then pq
     else heap_push qi_key (entry_at (fst tc) items index) pq)"

definition chunk_at :: "(string, body_chunk) gmap \<Rightarrow> string \<Rightarrow> body_chunk" where
  "chunk_at chunks timeline = (case map_of chunks timeline of None \<Rightarrow> zero_chunk | Some c \<Rightarrow> c)"

definition manifest_at :: "(string, manifest) gmap \<Rightarrow> string \<Rightarrow> manifest" where
  "manifest_at ms timeline = (case map_of ms timeline of None \<Rightarrow> zero_manifest | Some m \<Rightarrow> m)"

definition cancelled :: "(string, string list) gmap \<Rightarrow> string \<Rightarrow> string \<Rightarrow> bool" where
  "cancelled cancelMap timeline i = (case map_of cancelMap timeline of None \<Rightarrow> False | Some cancelList \<Rightarrow> i \<in> set cancelList)"

text \<open>Taking an item: it enters the answer unless it is there or was removed.\<close>

definition take_item :: "(string \<Rightarrow> string) \<Rightarrow> (string, string list) gmap \<Rightarrow> queue_item \<Rightarrow> query_state \<Rightarrow> query_state" where
  "take_item xxh cancelMap e q = (let i = item_ID xxh (qi_item e) in
     if i \<in> set (qs_uniq q) \<or> cancelled cancelMap (qi_timeline e) i then q
     else q\<lparr>qs_result := qs_result q @ [\<lparr>bs_item = qi_item e, bs_source = qi_timeline e\<rparr>], qs_uniq := i # qs_uniq q\<rparr>)"

text \<open>The chunk before the one whose last item was taken; an error ends the timeline.\<close>

definition previous_chunk :: "'s chunk_resolver \<Rightarrow> (string, manifest) gmap \<Rightarrow> queue_item \<Rightarrow> query_state \<Rightarrow> ('s, query_state) act" where
  "previous_chunk R ms e q = (let timeline = qi_timeline e; m = manifest_at ms timeline in
     sbind (lift (Time2Chunk m (qi_key e))) (\<lambda>k.
     let prevChunkId = (if k = bc_chunkID (chunk_at (qs_chunks q) timeline) then k - 1 else k) in
     sbind (attempt (getChunks R [timeline] (Chunk2Time m prevChunkId))) (\<lambda>r. (case r of
       Inl err \<Rightarrow> if err = EPanic then fail EPanic else ret q
     | Inr prevChunks \<Rightarrow> (case map_of prevChunks timeline of None \<Rightarrow> ret q
       | Some prevChunk \<Rightarrow> if bc_items prevChunk = [] then ret q
           else ret (q\<lparr>qs_chunks := gmap_set timeline prevChunk (qs_chunks q),
                       qs_pq := heap_push qi_key (entry_at timeline (bc_items prevChunk) 0) (qs_pq q)\<rparr>))))))"

definition query_step :: "'s chunk_resolver \<Rightarrow> (string \<Rightarrow> string) \<Rightarrow> (string, manifest) gmap \<Rightarrow> (string, string list) gmap
    \<Rightarrow> query_state \<Rightarrow> ('s, query_state) act" where
  "query_step R xxh ms cancelMap q = (case heap_pop qi_key (qs_pq q) of (smallest, pq) \<Rightarrow>
     let q1 = take_item xxh cancelMap smallest (q\<lparr>qs_pq := pq\<rparr>); timeline = qi_timeline smallest;
         items = bc_items (chunk_at (qs_chunks q) timeline); nextIndex = qi_index smallest + 1 in
     if nextIndex < length items then ret (q1\<lparr>qs_pq := heap_push qi_key (entry_at timeline items nextIndex) pq\<rparr>)
     else previous_chunk R ms smallest q1)"

fun query_loop :: "'s chunk_resolver \<Rightarrow> (string \<Rightarrow> string) \<Rightarrow> (string, manifest) gmap \<Rightarrow> (string, string list) gmap
    \<Rightarrow> int \<Rightarrow> nat \<Rightarrow> query_state \<Rightarrow> ('s, query_state) act" where
  "query_loop R xxh ms cancelMap limit 0 q = ret q"
| "query_loop R xxh ms cancelMap limit (Suc itrlimit) q =
     (if int (length (qs_result q)) < limit \<and> qs_pq q \<noteq> []
      then sbind (query_step R xxh ms cancelMap q) (query_loop R xxh ms cancelMap limit itrlimit) else ret q)"

definition itrlimit_max :: nat where
  "itrlimit_max = 1000"

definition QueryDescending :: "'s chunk_resolver \<Rightarrow> (string \<Rightarrow> string) \<Rightarrow> string list \<Rightarrow> gotime \<Rightarrow> int \<Rightarrow> ('s, body_item_with_source list) act" where
  "QueryDescending R xxh uris until limit =
     sbind (cr_ResolveTimelines R uris) (\<lambda>ms. sbind (cr_GetRemovedItems R uris) (\<lambda>cancelMap.
     sbind (getChunks R uris until) (\<lambda>chunks.
     sbind (query_loop R xxh ms cancelMap limit itrlimit_max
        \<lparr>qs_chunks = chunks, qs_pq = foldl (push_first until) [] chunks, qs_result = [], qs_uniq = []\<rparr>) (\<lambda>q. ret (qs_result q)))))"

section \<open>Arithmetic and search\<close>

lemma sort_search_spec:
  assumes "i \<le> j" "\<And>k l. k \<le> l \<Longrightarrow> l < j \<Longrightarrow> f k \<Longrightarrow> f l"
  shows "i \<le> sort_search f i j \<and> sort_search f i j \<le> j \<and> (\<forall>k. i \<le> k \<longrightarrow> k < j \<longrightarrow> (f k \<longleftrightarrow> sort_search f i j \<le> k))"
  using assms
proof (induction f i j rule: sort_search.induct)
  case (1 f i j)
  show ?case
  proof (cases "i < j")
    case False
    then show ?thesis using 1(3) by (simp add: sort_search.simps)
  next
    case True
    let ?h = "(i + j) div 2"
    have h: "i \<le> ?h" "?h < j" using True by auto
    show ?thesis
    proof (cases "f ?h")
      case True
      have mono: "\<And>k l. k \<le> l \<Longrightarrow> l < ?h \<Longrightarrow> f k \<Longrightarrow> f l" using 1(4) h by (meson less_trans)
      have IH: "i \<le> sort_search f i ?h \<and> sort_search f i ?h \<le> ?h \<and> (\<forall>k. i \<le> k \<longrightarrow> k < ?h \<longrightarrow> (f k \<longleftrightarrow> sort_search f i ?h \<le> k))"
        using 1(2)[OF \<open>i < j\<close> refl _ h(1) mono] True by simp
      have "sort_search f i j = sort_search f i ?h" using True \<open>i < j\<close> by (simp add: sort_search.simps[of f i j] Let_def)
      moreover have "f k \<longleftrightarrow> sort_search f i ?h \<le> k" if "i \<le> k" "k < j" for k
        using IH that True 1(4)[of ?h k] by (cases "k < ?h") auto
      ultimately show ?thesis using IH h by simp
    next
      case False
      have IH: "?h + 1 \<le> sort_search f (?h + 1) j \<and> sort_search f (?h + 1) j \<le> j
          \<and> (\<forall>k. ?h + 1 \<le> k \<longrightarrow> k < j \<longrightarrow> (f k \<longleftrightarrow> sort_search f (?h + 1) j \<le> k))"
        using 1(1)[OF \<open>i < j\<close> refl False _ 1(4)] h by simp
      have "sort_search f i j = sort_search f (?h + 1) j" using False \<open>i < j\<close> by (simp add: sort_search.simps[of f i j] Let_def)
      moreover have "f k \<longleftrightarrow> sort_search f (?h + 1) j \<le> k" if "i \<le> k" "k < j" for k
        using IH that False 1(4)[of k ?h] h by (cases "k \<le> ?h") auto
      ultimately show ?thesis using IH h by simp
    qed
  qed
qed

lemma int_str_inj: "int_str i = int_str j \<Longrightarrow> i = j"
proof -
  have head: "dec_str n \<noteq> CHR ''-'' # s" for n s
    using dec_str_digits[of n] by (auto simp: is_digit_def)
  show "int_str i = int_str j \<Longrightarrow> i = j"
    using head[of "nat i"] head[of "nat j"] dec_str_inj[of "nat i" "nat j"] dec_str_inj[of "nat (-i)" "nat (-j)"]
    by (auto simp: int_str_def split: if_splits dest: sym)
qed

lemma second_pos [simp]: "0 < second"
  by (simp add: second_def)

text \<open>The number of the chunk of a time.\<close>

definition chunk_no :: "int \<Rightarrow> gotime \<Rightarrow> int" where
  "chunk_no S t = t div (second * S)"

lemma chunk_no_unix: "0 \<le> t \<Longrightarrow> 0 < S \<Longrightarrow> unix_time t sdiv S = chunk_no S t"
  using pos_imp_zdiv_nonneg_iff[of second t]
  by (cases "t div second = 0") (simp_all add: unix_time_def chunk_no_def zdiv_zmult2_eq signed_divide_int_def sgn_if)

lemma chunk_no_le: "0 < S \<Longrightarrow> chunk_no S t \<le> c \<longleftrightarrow> t < (c + 1) * (second * S)"
proof -
  assume "0 < S"
  then have D: "0 < second * S" by simp
  have "t div (second * S) \<le> c \<longleftrightarrow> t < (c + 1) * (second * S)"
  proof
    assume "t div (second * S) \<le> c"
    then have "(t div (second * S) + 1) * (second * S) \<le> (c + 1) * (second * S)" using D by (intro mult_right_mono) auto
    then show "t < (c + 1) * (second * S)"
      using pos_mod_bound[OF D, of t] div_mult_mod_eq[of t "second * S"] by (simp only: distrib_right mult_1_left)
  next
    assume less: "t < (c + 1) * (second * S)"
    show "t div (second * S) \<le> c"
    proof (rule ccontr)
      assume "\<not> t div (second * S) \<le> c"
      then have "(c + 1) * (second * S) \<le> t div (second * S) * (second * S)" using D by (intro mult_right_mono) auto
      then show False using less pos_mod_sign[OF D, of t] div_mult_mod_eq[of t "second * S"] by linarith
    qed
  qed
  then show ?thesis by (simp add: chunk_no_def)
qed

lemma chunk_no_mono: "0 < S \<Longrightarrow> t \<le> u \<Longrightarrow> chunk_no S t \<le> chunk_no S u"
  by (simp add: chunk_no_def zdiv_mono1)

lemma chunk_no_ge: "0 < S \<Longrightarrow> c \<le> chunk_no S t \<longleftrightarrow> c * (second * S) \<le> t"
  using chunk_no_le[of S t "c - 1"] by auto

lemma int64_id: "- (2 ^ 63) \<le> x \<Longrightarrow> x < 2 ^ 63 \<Longrightarrow> int64 x = x"
  by (simp add: int64_def signed_of_int signed_take_bit_int_eq_self)

lemma Chunk2Time_exact:
  "0 < mf_chunkSize m \<Longrightarrow> mf_chunkSize m < 2 ^ 63 \<Longrightarrow> - 1 \<le> p \<Longrightarrow> p * (second * mf_chunkSize m) < 2 ^ 63 * second
    \<Longrightarrow> Chunk2Time m p = p * (second * mf_chunkSize m)"
proof -
  assume a: "0 < mf_chunkSize m" "mf_chunkSize m < 2 ^ 63" "- 1 \<le> p" "p * (second * mf_chunkSize m) < 2 ^ 63 * second"
  let ?S = "mf_chunkSize m"
  have "p * ?S * second < 2 ^ 63 * second" using a(4) by (simp add: ac_simps)
  then have up: "p * ?S < 2 ^ 63" by simp
  have "- 1 * ?S \<le> p * ?S" using a(1,3) by (intro mult_right_mono) auto
  then show ?thesis using up a(2) by (simp add: Chunk2Time_def int64_id ac_simps)
qed

lemma chunk_no_Chunk2Time:
  assumes "0 < mf_chunkSize m" "mf_chunkSize m < 2 ^ 63" "- 1 \<le> p" "p * (second * mf_chunkSize m) < 2 ^ 63 * second"
  shows "unix_time (Chunk2Time m p) sdiv mf_chunkSize m = p"
proof -
  have "unix_time (Chunk2Time m p) = p * mf_chunkSize m"
    by (simp add: Chunk2Time_exact[OF assms] unix_time_def second_def mult.assoc[symmetric] mult.commute[of _ "1000000000"])
  then show ?thesis using assms(1) by (simp add: signed_divide_int_def abs_mult sgn_mult mult.commute[of "sgn p"] abs_mult_sgn)
qed

section \<open>What a source of timelines promises\<close>

text \<open>The newest chunk with an item, up to a chunk.\<close>

definition newest :: "body_item list \<Rightarrow> int \<Rightarrow> int \<Rightarrow> int option" where
  "newest xs S k = (let cs = filter (\<lambda>c. c \<le> k) (map (\<lambda>x. chunk_no S (it_timestamp x)) xs) in
     if cs = [] then None else Some (Max (set cs)))"

text \<open>A body of a chunk: some items, in order, among them all of the chunk, and all that are newer than the last one.\<close>

definition body_of :: "body_item list \<Rightarrow> int \<Rightarrow> int \<Rightarrow> body_item list \<Rightarrow> bool" where
  "body_of xs S c bs \<longleftrightarrow> mset bs \<subseteq># mset xs \<and> sorted_wrt (\<lambda>x y. it_timestamp y \<le> it_timestamp x) bs
     \<and> (\<forall>x\<in>set bs. chunk_no S (it_timestamp x) \<le> c)
     \<and> (\<forall>x\<in>set xs. chunk_no S (it_timestamp x) \<le> c
          \<longrightarrow> chunk_no S (it_timestamp x) = c \<or> (bs \<noteq> [] \<and> it_timestamp (last bs) < it_timestamp x) \<longrightarrow> x \<in> set bs)"

locale timeline_source =
  fixes R :: "'s chunk_resolver" and ok :: "'s \<Rightarrow> bool" and chunk_size :: "string \<Rightarrow> int"
    and items :: "string \<Rightarrow> body_item list" and removed :: "string \<Rightarrow> string list"
  assumes size_bounds: "0 < chunk_size t" "chunk_size t < 2 ^ 62"
    and times: "ok s \<Longrightarrow> x \<in> set (items t) \<Longrightarrow> 0 \<le> it_timestamp x"
    and resolve_law: "ok s \<Longrightarrow> \<exists>ms s'. cr_ResolveTimelines R uris s = Some (Inr ms, s') \<and> ok s'
      \<and> (\<forall>t\<in>set uris. items t \<noteq> [] \<longrightarrow> mf_chunkSize (manifest_at ms t) = chunk_size t)"
    and removed_law: "ok s \<Longrightarrow> \<exists>cm s'. cr_GetRemovedItems R uris s = Some (Inr cm, s') \<and> ok s'
      \<and> (\<forall>t\<in>set uris. \<forall>i. cancelled cm t i \<longleftrightarrow> i \<in> set (removed t))"
    and lookup_law: "ok s \<Longrightarrow> \<bar>unix_time until\<bar> < 2 ^ 62 \<Longrightarrow> \<exists>query s'. cr_LookupChunkItrs R uris until s = Some (Inr query, s') \<and> ok s' \<and> gmap_ok query
      \<and> (\<forall>t. map_of query t = (if t \<in> set uris
            then map_option int_str (newest (items t) (chunk_size t) (unix_time until sdiv chunk_size t)) else None))"
    and load_law: "ok s \<Longrightarrow> gmap_ok query \<Longrightarrow> (\<And>t itr. map_of query t = Some itr \<Longrightarrow>
        \<exists>x\<in>set (items t). itr = int_str (chunk_no (chunk_size t) (it_timestamp x)))
      \<Longrightarrow> \<exists>chunks s'. cr_LoadChunkBodies R query s = Some (Inr chunks, s') \<and> ok s' \<and> gmap_ok chunks
        \<and> fst ` set chunks = fst ` set query
        \<and> (\<forall>t itr ch. map_of query t = Some itr \<longrightarrow> map_of chunks t = Some ch
             \<longrightarrow> int_str (bc_chunkID ch) = itr \<and> body_of (items t) (chunk_size t) (bc_chunkID ch) (bc_items ch))"

subsection \<open>Newest chunks and bodies\<close>

lemma newest_Some:
  "newest xs S k = Some c \<longleftrightarrow> c \<le> k \<and> (\<exists>x\<in>set xs. chunk_no S (it_timestamp x) = c)
     \<and> (\<forall>x\<in>set xs. chunk_no S (it_timestamp x) \<le> k \<longrightarrow> chunk_no S (it_timestamp x) \<le> c)"
proof -
  let ?A = "{y \<in> (\<lambda>x. chunk_no S (it_timestamp x)) ` set xs. y \<le> k}"
  have "newest xs S k = (if ?A = {} then None else Some (Max ?A))"
    by (auto simp: newest_def Let_def filter_empty_conv image_iff intro!: arg_cong[where f = Max])
  moreover have "finite ?A" by simp
  ultimately show ?thesis by (cases "?A = {}") (force simp: Max_eq_iff)+
qed

lemma newest_None: "newest xs S k = None \<longleftrightarrow> (\<forall>x\<in>set xs. k < chunk_no S (it_timestamp x))"
  by (auto simp: newest_def Let_def filter_empty_conv not_le)

lemma body_of_subset: "body_of xs S c bs \<Longrightarrow> set bs \<subseteq> set xs"
  using set_mset_mono[of "mset bs" "mset xs"] by (auto simp: body_of_def)

lemma body_of_last: "body_of xs S c bs \<Longrightarrow> i < length bs \<Longrightarrow> it_timestamp (last bs) \<le> it_timestamp (bs ! i)"
proof -
  assume "body_of xs S c bs" "i < length bs"
  then have "sorted_wrt (\<lambda>x y. it_timestamp y \<le> it_timestamp x) bs" "bs \<noteq> []" by (auto simp: body_of_def)
  then show ?thesis using \<open>i < length bs\<close>
    by (cases "i = length bs - 1") (auto simp: last_conv_nth sorted_wrt_iff_nth_less)
qed

lemma body_of_drop: "body_of xs S c bs \<Longrightarrow> i < length bs \<Longrightarrow> x \<in> set (drop i bs) \<Longrightarrow> it_timestamp x \<le> it_timestamp (bs ! i)"
proof -
  assume a: "body_of xs S c bs" "i < length bs" "x \<in> set (drop i bs)"
  then obtain j where "x = bs ! (i + j)" "i + j < length bs" by (auto simp: in_set_conv_nth)
  then show ?thesis using a by (cases "j = 0") (auto simp: body_of_def sorted_wrt_iff_nth_less)
qed

text \<open>An item up to the chunk is in the body or no newer than its end.\<close>

lemma body_of_rest:
  "body_of xs S c bs \<Longrightarrow> bs \<noteq> [] \<Longrightarrow> x \<in> set xs \<Longrightarrow> chunk_no S (it_timestamp x) \<le> c \<Longrightarrow> x \<notin> set bs
    \<Longrightarrow> it_timestamp x \<le> it_timestamp (last bs) \<and> chunk_no S (it_timestamp x) < c"
  unfolding body_of_def by (meson linorder_not_le order_le_imp_less_or_eq)

section \<open>The queue of the query\<close>

definition seen :: "(string \<Rightarrow> string) \<Rightarrow> string list \<Rightarrow> string list \<Rightarrow> body_item \<Rightarrow> bool" where
  "seen xxh uniq rem x \<longleftrightarrow> item_ID xxh x \<in> set uniq \<or> item_ID xxh x \<in> set rem"

lemma seen_mono: "seen xxh uniq rem x \<Longrightarrow> set uniq \<subseteq> set uniq' \<Longrightarrow> seen xxh uniq' rem x"
  by (auto simp: seen_def)

text \<open>What is left of a timeline is in the rest of the body from the entry on, or beyond the body.\<close>

definition entry_fits :: "gotime \<Rightarrow> int \<Rightarrow> body_item list \<Rightarrow> (body_item \<Rightarrow> bool) \<Rightarrow> body_chunk \<Rightarrow> queue_item \<Rightarrow> bool" where
  "entry_fits until S xs sn ch e \<longleftrightarrow> body_of xs S (bc_chunkID ch) (bc_items ch)
     \<and> qi_index e < length (bc_items ch) \<and> qi_item e = bc_items ch ! qi_index e
     \<and> bc_chunkID ch * (second * S) \<le> until
     \<and> (\<forall>x\<in>set (drop (qi_index e) (bc_items ch)). it_timestamp x < until)
     \<and> (\<forall>x\<in>set xs. it_timestamp x < until \<longrightarrow> sn x \<or> x \<in> set (drop (qi_index e) (bc_items ch))
          \<or> (x \<notin> set (bc_items ch) \<and> it_timestamp x \<le> it_timestamp (last (bc_items ch))))"

lemma entry_fits_newest:
  assumes "entry_fits until S xs sn ch e" "x \<in> set xs" "it_timestamp x < until" "\<not> sn x"
  shows "it_timestamp x \<le> qi_key e"
proof -
  have b: "body_of xs S (bc_chunkID ch) (bc_items ch)" "qi_index e < length (bc_items ch)" "qi_item e = bc_items ch ! qi_index e"
    using assms(1) by (auto simp: entry_fits_def)
  have "x \<in> set (drop (qi_index e) (bc_items ch)) \<or> it_timestamp x \<le> it_timestamp (last (bc_items ch))"
    using assms unfolding entry_fits_def by blast
  then show ?thesis using body_of_drop[OF b(1,2)] body_of_last[OF b(1,2)] b(3) by force
qed

lemma entry_fits_item:
  assumes "entry_fits until S xs sn ch e"
  shows "qi_item e \<in> set xs" "qi_key e < until"
proof -
  have "qi_item e \<in> set (drop (qi_index e) (bc_items ch))"
    using assms by (auto simp: entry_fits_def Cons_nth_drop_Suc[symmetric])
  then show "qi_item e \<in> set xs" "qi_key e < until"
    using assms body_of_subset[of xs S "bc_chunkID ch" "bc_items ch"] in_set_dropD[of "qi_item e" "qi_index e" "bc_items ch"]
    by (auto simp: entry_fits_def)
qed

text \<open>The entries of the queue, one per timeline at most; a timeline of \<open>L\<close> without an entry has nothing left.\<close>

definition queue_inv :: "(string \<Rightarrow> string) \<Rightarrow> gotime \<Rightarrow> (string \<Rightarrow> int) \<Rightarrow> (string \<Rightarrow> body_item list) \<Rightarrow> (string \<Rightarrow> string list)
    \<Rightarrow> string set \<Rightarrow> (string, body_chunk) gmap \<Rightarrow> string list \<Rightarrow> queue_item list \<Rightarrow> bool" where
  "queue_inv xxh until csize xs rem L chunks uniq pq \<longleftrightarrow>
     heap_ok qi_key pq \<and> distinct (map qi_timeline pq) \<and> qi_timeline ` set pq \<subseteq> L
     \<and> (\<forall>e\<in>set pq. \<exists>ch. map_of chunks (qi_timeline e) = Some ch
          \<and> entry_fits until (csize (qi_timeline e)) (xs (qi_timeline e)) (seen xxh uniq (rem (qi_timeline e))) ch e)
     \<and> (\<forall>t\<in>L. t \<notin> qi_timeline ` set pq \<longrightarrow> (\<forall>x\<in>set (xs t). it_timestamp x < until \<longrightarrow> seen xxh uniq (rem t) x))"

lemma queue_inv_empty: "queue_inv xxh until csize xs rem {} chunks uniq []"
  using go_heap.inv_empty by (simp add: queue_inv_def)

lemma entry_fits_mono:
  "entry_fits until S xs sn ch e \<Longrightarrow> (\<And>x. sn x \<Longrightarrow> sn' x) \<Longrightarrow> entry_fits until S xs sn' ch e"
  unfolding entry_fits_def by blast

lemma queue_inv_mono:
  assumes "queue_inv xxh until csize xs rem L chunks uniq pq" "set uniq \<subseteq> set uniq'"
  shows "queue_inv xxh until csize xs rem L chunks uniq' pq"
proof -
  note mono = seen_mono[OF _ assms(2)]
  show ?thesis unfolding queue_inv_def
  proof (intro conjI ballI impI)
    fix e assume "e \<in> set pq"
    then obtain ch where "map_of chunks (qi_timeline e) = Some ch"
        "entry_fits until (csize (qi_timeline e)) (xs (qi_timeline e)) (seen xxh uniq (rem (qi_timeline e))) ch e"
      using assms(1) by (auto simp: queue_inv_def)
    then show "\<exists>ch. map_of chunks (qi_timeline e) = Some ch
        \<and> entry_fits until (csize (qi_timeline e)) (xs (qi_timeline e)) (seen xxh uniq' (rem (qi_timeline e))) ch e"
      using entry_fits_mono mono by blast
  qed (use assms(1) mono in \<open>auto simp: queue_inv_def\<close>)
qed

lemma queue_pop:
  assumes "queue_inv xxh until csize xs rem L chunks uniq pq" "pq \<noteq> []" "heap_pop qi_key pq = (e, pq')"
  shows "queue_inv xxh until csize xs rem (L - {qi_timeline e}) chunks uniq pq'" "e \<in> set pq" "qi_timeline e \<notin> qi_timeline ` set pq'"
    "\<And>e'. e' \<in> set pq \<Longrightarrow> qi_key e' \<le> qi_key e"
proof -
  have m: "mset pq = add_mset e (mset pq')" by (rule go_heap.mset_pop[OF assms(2,3)])
  then have s: "set pq = insert e (set pq')" by (metis set_mset_add_mset_insert set_mset_mset)
  have "mset (map qi_timeline pq) = mset (map qi_timeline (e # pq'))" by (simp add: m)
  moreover have "distinct (map qi_timeline pq)" using assms(1) by (simp add: queue_inv_def)
  ultimately have d: "distinct (map qi_timeline (e # pq'))" by (metis mset_eq_imp_distinct_iff)
  then show fresh: "qi_timeline e \<notin> qi_timeline ` set pq'" by auto
  show "e \<in> set pq" by (simp add: s)
  have h: "heap_ok qi_key pq" using assms(1) by (simp add: queue_inv_def)
  then show "\<And>e'. e' \<in> set pq \<Longrightarrow> qi_key e' \<le> qi_key e" using go_heap.pop_max[OF h assms(2,3)] by blast
  have "heap_ok qi_key pq'" by (rule go_heap.inv_pop[OF h assms(2,3)])
  then show "queue_inv xxh until csize xs rem (L - {qi_timeline e}) chunks uniq pq'"
    using assms(1) d fresh unfolding queue_inv_def s by auto (metis rev_image_eqI)
qed

lemma queue_push:
  assumes "queue_inv xxh until csize xs rem (L - {t}) chunks uniq pq" "t \<in> L" "qi_timeline e = t"
    and "map_of chunks' = (map_of chunks)(t \<mapsto> ch)" "entry_fits until (csize t) (xs t) (seen xxh uniq (rem t)) ch e"
  shows "queue_inv xxh until csize xs rem L chunks' uniq (heap_push qi_key e pq)"
proof -
  have s: "set (heap_push qi_key e pq) = insert e (set pq)"
    by (metis go_heap.mset_push set_mset_add_mset_insert set_mset_mset)
  have fresh: "t \<notin> qi_timeline ` set pq" using assms(1) by (auto simp: queue_inv_def)
  have "mset (map qi_timeline (heap_push qi_key e pq)) = mset (map qi_timeline (e # pq))" by (simp add: go_heap.mset_push)
  moreover have "distinct (map qi_timeline (e # pq))" using assms(1,3) fresh by (auto simp: queue_inv_def)
  ultimately have d: "distinct (map qi_timeline (heap_push qi_key e pq))" by (metis mset_eq_imp_distinct_iff)
  have h: "heap_ok qi_key (heap_push qi_key e pq)" using assms(1) go_heap.inv_push by (auto simp: queue_inv_def)
  show ?thesis unfolding queue_inv_def s
  proof (intro conjI ballI impI h d)
    fix e' assume "e' \<in> insert e (set pq)"
    then show "\<exists>ch. map_of chunks' (qi_timeline e') = Some ch
        \<and> entry_fits until (csize (qi_timeline e')) (xs (qi_timeline e')) (seen xxh uniq (rem (qi_timeline e'))) ch e'"
      using assms fresh by (cases "e' = e") (force simp: queue_inv_def)+
  qed (use assms in \<open>auto simp: queue_inv_def\<close>)
qed

lemma queue_drop:
  assumes "queue_inv xxh until csize xs rem (L - {t}) chunks uniq pq" "\<And>x. x \<in> set (xs t) \<Longrightarrow> it_timestamp x < until \<Longrightarrow> seen xxh uniq (rem t) x"
  shows "queue_inv xxh until csize xs rem L chunks uniq pq"
  using assms unfolding queue_inv_def by blast

text \<open>What is not seen is no newer than the entry that is popped.\<close>

lemma queue_newest:
  assumes "queue_inv xxh until csize xs rem L chunks uniq pq" "pq \<noteq> []" "heap_pop qi_key pq = (e, pq')"
    and "t \<in> L" "x \<in> set (xs t)" "it_timestamp x < until" "\<not> seen xxh uniq (rem t) x"
  shows "it_timestamp x \<le> qi_key e"
proof -
  have "t \<in> qi_timeline ` set pq" using assms(1,4-7) by (auto simp: queue_inv_def)
  then obtain e' where e': "e' \<in> set pq" "qi_timeline e' = t" by auto
  then obtain ch where "entry_fits until (csize t) (xs t) (seen xxh uniq (rem t)) ch e'"
    using assms(1) by (auto simp: queue_inv_def)
  then have "it_timestamp x \<le> qi_key e'" using entry_fits_newest assms(5-7) by blast
  also have "\<dots> \<le> qi_key e" by (rule queue_pop(4)[OF assms(1-3) e'(1)])
  finally show ?thesis .
qed

subsection \<open>Advancing an entry\<close>

text \<open>Within a body.\<close>

lemma entry_next:
  assumes "entry_fits until S xs sn ch e" "sn (qi_item e)" "qi_index e + 1 < length (bc_items ch)"
  shows "entry_fits until S xs sn ch (entry_at t (bc_items ch) (qi_index e + 1))"
proof -
  let ?bs = "bc_items ch" and ?i = "qi_index e"
  have d: "drop ?i ?bs = ?bs ! ?i # drop (?i + 1) ?bs" using assms(3) by (simp add: Cons_nth_drop_Suc)
  then show ?thesis using assms unfolding entry_fits_def entry_at_def by (auto simp: d)
qed

text \<open>At the end of a body: what is left lies in the chunk that is asked for next, or before it.\<close>

definition previous_no :: "int \<Rightarrow> int \<Rightarrow> int" where
  "previous_no k c = (if k = c then k - 1 else k)"

lemma entry_end:
  assumes "entry_fits until S xs sn ch e" "sn (qi_item e)" "\<not> qi_index e + 1 < length (bc_items ch)" "0 < S"
  defines "p \<equiv> previous_no (chunk_no S (qi_key e)) (bc_chunkID ch)"
  shows "(p + 1) * (second * S) \<le> until" "p < bc_chunkID ch"
    "x \<in> set xs \<Longrightarrow> it_timestamp x < until \<Longrightarrow> \<not> sn x \<Longrightarrow> chunk_no S (it_timestamp x) \<le> p"
proof -
  let ?bs = "bc_items ch"
  have i: "qi_index e + 1 = length ?bs" "?bs \<noteq> []" and b: "body_of xs S (bc_chunkID ch) ?bs" and u: "bc_chunkID ch * (second * S) \<le> until"
    using assms(1,3) by (auto simp: entry_fits_def)
  have l: "last ?bs = qi_item e" using assms(1) i by (simp add: entry_fits_def last_conv_nth flip: i(1))
  have "qi_item e \<in> set ?bs" using l i(2) last_in_set by metis
  then have c: "chunk_no S (qi_key e) \<le> bc_chunkID ch" using b by (auto simp: body_of_def)
  then show pc: "p < bc_chunkID ch" by (auto simp: p_def previous_no_def)
  then have "(p + 1) * (second * S) \<le> bc_chunkID ch * (second * S)" using assms(4) by (intro mult_right_mono) (auto intro: less_imp_le)
  then show "(p + 1) * (second * S) \<le> until" using u by (rule order_trans)
  assume x: "x \<in> set xs" "it_timestamp x < until" "\<not> sn x"
  have d: "drop (qi_index e) ?bs = [qi_item e]"
    using i assms(1) by (auto simp: entry_fits_def Cons_nth_drop_Suc[symmetric])
  have "x \<noteq> qi_item e" using x(3) assms(2) by auto
  then have "x \<notin> set ?bs" "it_timestamp x \<le> qi_key e" using assms(1) x l d unfolding entry_fits_def by auto
  then show "chunk_no S (it_timestamp x) \<le> p"
    using body_of_rest[OF b i(2) x(1)] chunk_no_mono[OF assms(4), of "it_timestamp x" "qi_key e"] c
    by (auto simp: p_def previous_no_def)
qed

text \<open>The first entry of the body that is loaded next.\<close>

lemma entry_first:
  assumes "newest xs S p = Some c" "body_of xs S c bs" "0 < S" "(p + 1) * (second * S) \<le> until"
    and rest: "\<And>x. x \<in> set xs \<Longrightarrow> it_timestamp x < until \<Longrightarrow> \<not> sn x \<Longrightarrow> chunk_no S (it_timestamp x) \<le> p"
  shows "bs \<noteq> []" and "entry_fits until S xs sn \<lparr>bc_uri = u, bc_chunkID = c, bc_items = bs\<rparr> (entry_at t bs 0)"
proof -
  obtain y where "y \<in> set xs" "chunk_no S (it_timestamp y) = c" and cp: "c \<le> p"
    using assms(1) by (auto simp: newest_Some)
  then have "y \<in> set bs" using assms(2) by (auto simp: body_of_def)
  then show ne: "bs \<noteq> []" by auto
  have "c * (second * S) \<le> (p + 1) * (second * S)" using cp assms(3) by (intro mult_right_mono) (auto intro: less_imp_le)
  then have cu: "c * (second * S) \<le> until" using assms(4) by (rule order_trans)
  have before: "it_timestamp x < until" if "x \<in> set bs" for x
  proof -
    have "chunk_no S (it_timestamp x) \<le> p" using assms(2) that cp by (force simp: body_of_def)
    then show ?thesis using assms(3,4) by (simp add: chunk_no_le)
  qed
  have "x \<in> set bs \<or> (x \<notin> set bs \<and> it_timestamp x \<le> it_timestamp (last bs))"
    if "x \<in> set xs" "it_timestamp x < until" "\<not> sn x" for x
  proof -
    have "chunk_no S (it_timestamp x) \<le> c" using assms(1) rest[OF that] that(1) by (auto simp: newest_Some)
    then show ?thesis using body_of_rest[OF assms(2) ne that(1)] by blast
  qed
  then show "entry_fits until S xs sn \<lparr>bc_uri = u, bc_chunkID = c, bc_items = bs\<rparr> (entry_at t bs 0)"
    using ne assms(2) cu before by (auto simp: entry_fits_def entry_at_def)
qed

text \<open>The first entry of all, where the binary search puts it.\<close>

lemma entry_search:
  assumes "newest xs S (chunk_no S until) = Some c" "body_of xs S c bs" "0 < S"
    and i: "i = sort_search (\<lambda>i. it_timestamp (bs ! i) < until) 0 (length bs)" "i < length bs"
  shows "entry_fits until S xs sn \<lparr>bc_uri = u, bc_chunkID = c, bc_items = bs\<rparr> (entry_at t bs i)"
proof -
  have s: "sorted_wrt (\<lambda>x y. it_timestamp y \<le> it_timestamp x) bs" using assms(2) by (simp add: body_of_def)
  have mono: "\<And>k l. k \<le> l \<Longrightarrow> l < length bs \<Longrightarrow> it_timestamp (bs ! k) < until \<Longrightarrow> it_timestamp (bs ! l) < until"
    using s by (force simp: sorted_wrt_iff_nth_less le_less)
  have f: "\<And>k. k < length bs \<Longrightarrow> it_timestamp (bs ! k) < until \<longleftrightarrow> i \<le> k"
    using sort_search_spec[of 0 "length bs" "\<lambda>i. it_timestamp (bs ! i) < until"] mono i(1) by auto
  have c: "c \<le> chunk_no S until" using assms(1) by (simp add: newest_Some)
  have D: "x \<in> set (drop i bs)" if "x \<in> set bs" "it_timestamp x < until" for x
  proof -
    obtain k where k: "x = bs ! k" "k < length bs" using \<open>x \<in> set bs\<close> by (auto simp: in_set_conv_nth)
    then have "i \<le> k" using f that(2) by blast
    then have "x = drop i bs ! (k - i)" "k - i < length (drop i bs)" using k by auto
    then show ?thesis by (metis nth_mem)
  qed
  have B: "it_timestamp x < until" if "x \<in> set (drop i bs)" for x
    using that f by (auto simp: in_set_conv_nth)
  have "x \<in> set bs \<or> (x \<notin> set bs \<and> it_timestamp x \<le> it_timestamp (last bs))" if "x \<in> set xs" "it_timestamp x < until" for x
  proof -
    have "chunk_no S (it_timestamp x) \<le> c" using assms(1) chunk_no_mono[OF assms(3), of "it_timestamp x" until] that by (auto simp: newest_Some)
    then show ?thesis using body_of_rest[OF assms(2) _ that(1)] i(2) by fastforce
  qed
  then show ?thesis using assms(2) i(2) D B c assms(3) by (auto simp: entry_fits_def entry_at_def chunk_no_ge)
qed

section \<open>The answer of the query\<close>

text \<open>What holds of an answer at any time: order, no repetition, and that its items come from the timelines.\<close>

definition answer_ok :: "(string \<Rightarrow> string) \<Rightarrow> gotime \<Rightarrow> (string \<Rightarrow> body_item list) \<Rightarrow> (string \<Rightarrow> string list)
    \<Rightarrow> string set \<Rightarrow> body_item_with_source list \<Rightarrow> bool" where
  "answer_ok xxh until xs rem L rs \<longleftrightarrow>
     sorted_wrt (\<lambda>r r'. it_timestamp (bs_item r') \<le> it_timestamp (bs_item r)) rs
     \<and> distinct (map (item_ID xxh \<circ> bs_item) rs)
     \<and> (\<forall>r\<in>set rs. bs_source r \<in> L \<and> bs_item r \<in> set (xs (bs_source r)) \<and> it_timestamp (bs_item r) < until
          \<and> item_ID xxh (bs_item r) \<notin> set (rem (bs_source r)))"

definition query_inv :: "(string \<Rightarrow> string) \<Rightarrow> gotime \<Rightarrow> (string \<Rightarrow> int) \<Rightarrow> (string \<Rightarrow> body_item list) \<Rightarrow> (string \<Rightarrow> string list)
    \<Rightarrow> string set \<Rightarrow> query_state \<Rightarrow> bool" where
  "query_inv xxh until csize xs rem L q \<longleftrightarrow> queue_inv xxh until csize xs rem L (qs_chunks q) (qs_uniq q) (qs_pq q)
     \<and> answer_ok xxh until xs rem L (qs_result q)
     \<and> set (qs_uniq q) = (item_ID xxh \<circ> bs_item) ` set (qs_result q)
     \<and> (\<forall>r\<in>set (qs_result q). \<forall>t\<in>L. \<forall>x\<in>set (xs t). it_timestamp x < until \<longrightarrow> \<not> seen xxh (qs_uniq q) (rem t) x
          \<longrightarrow> it_timestamp x \<le> it_timestamp (bs_item r))"

lemma answer_ok_snoc:
  assumes "answer_ok xxh until xs rem L rs" "t \<in> L" "x \<in> set (xs t)" "it_timestamp x < until"
    and "item_ID xxh x \<notin> (item_ID xxh \<circ> bs_item) ` set rs" "item_ID xxh x \<notin> set (rem t)"
    and "\<And>r. r \<in> set rs \<Longrightarrow> it_timestamp x \<le> it_timestamp (bs_item r)"
  shows "answer_ok xxh until xs rem L (rs @ [\<lparr>bs_item = x, bs_source = t\<rparr>])"
  using assms by (auto simp: answer_ok_def sorted_wrt_append)

text \<open>Taking the entry that is popped.\<close>

lemma take_item_inv:
  assumes "query_inv xxh until csize xs rem L q" "qs_pq q \<noteq> []" "heap_pop qi_key (qs_pq q) = (e, pq)"
    and cm: "\<And>i. cancelled cm (qi_timeline e) i \<longleftrightarrow> i \<in> set (rem (qi_timeline e))"
  defines "q1 \<equiv> take_item xxh cm e (q\<lparr>qs_pq := pq\<rparr>)" and "t \<equiv> qi_timeline e"
  shows "queue_inv xxh until csize xs rem (L - {t}) (qs_chunks q) (qs_uniq q1) pq"
    and "qs_pq q1 = pq" "qs_chunks q1 = qs_chunks q" "t \<in> L" "seen xxh (qs_uniq q1) (rem t) (qi_item e)"
    and "\<exists>ch. map_of (qs_chunks q) t = Some ch \<and> entry_fits until (csize t) (xs t) (seen xxh (qs_uniq q1) (rem t)) ch e"
    and "\<And>pq' chunks'. queue_inv xxh until csize xs rem L chunks' (qs_uniq q1) pq'
          \<Longrightarrow> query_inv xxh until csize xs rem L (q1\<lparr>qs_pq := pq', qs_chunks := chunks'\<rparr>)"
    and "length (qs_result q1) \<le> length (qs_result q) + 1"
proof -
  let ?i = "item_ID xxh (qi_item e)"
  have Q: "queue_inv xxh until csize xs rem L (qs_chunks q) (qs_uniq q) (qs_pq q)" using assms(1) by (simp add: query_inv_def)
  note pop = queue_pop[OF Q assms(2,3)]
  have mono: "set (qs_uniq q) \<subseteq> set (qs_uniq q1)" by (auto simp: q1_def take_item_def Let_def)
  show "queue_inv xxh until csize xs rem (L - {t}) (qs_chunks q) (qs_uniq q1) pq"
    unfolding t_def by (rule queue_inv_mono[OF pop(1) mono])
  show "qs_pq q1 = pq" "qs_chunks q1 = qs_chunks q" "length (qs_result q1) \<le> length (qs_result q) + 1"
    by (auto simp: q1_def take_item_def Let_def)
  show tL: "t \<in> L" using Q pop(2) by (auto simp: queue_inv_def t_def)
  show "seen xxh (qs_uniq q1) (rem t) (qi_item e)"
    using cm by (auto simp: q1_def take_item_def Let_def seen_def t_def)
  obtain ch where ch: "map_of (qs_chunks q) t = Some ch" "entry_fits until (csize t) (xs t) (seen xxh (qs_uniq q) (rem t)) ch e"
    using Q pop(2) by (auto simp: queue_inv_def t_def)
  then show "\<exists>ch. map_of (qs_chunks q) t = Some ch \<and> entry_fits until (csize t) (xs t) (seen xxh (qs_uniq q1) (rem t)) ch e"
    using entry_fits_mono seen_mono[OF _ mono] by blast
  fix pq' chunks' assume new: "queue_inv xxh until csize xs rem L chunks' (qs_uniq q1) pq'"
  have old: "answer_ok xxh until xs rem L (qs_result q)" "set (qs_uniq q) = (item_ID xxh \<circ> bs_item) ` set (qs_result q)"
    and below_all: "\<And>r t x. r \<in> set (qs_result q) \<Longrightarrow> t \<in> L \<Longrightarrow> x \<in> set (xs t) \<Longrightarrow> it_timestamp x < until
       \<Longrightarrow> \<not> seen xxh (qs_uniq q) (rem t) x \<Longrightarrow> it_timestamp x \<le> it_timestamp (bs_item r)"
    using assms(1) by (auto simp: query_inv_def)
  show "query_inv xxh until csize xs rem L (q1\<lparr>qs_pq := pq', qs_chunks := chunks'\<rparr>)"
  proof (cases "?i \<in> set (qs_uniq q) \<or> cancelled cm (qi_timeline e) ?i")
    case True
    then have "q1 = q\<lparr>qs_pq := pq\<rparr>" by (simp add: q1_def take_item_def)
    then show ?thesis using assms(1) new by (simp add: query_inv_def)
  next
    case False
    then have q1: "q1 = q\<lparr>qs_pq := pq, qs_result := qs_result q @ [\<lparr>bs_item = qi_item e, bs_source = t\<rparr>], qs_uniq := ?i # qs_uniq q\<rparr>"
      by (simp add: q1_def take_item_def t_def Let_def)
    note e = entry_fits_item[OF ch(2)]
    have ns: "\<not> seen xxh (qs_uniq q) (rem t) (qi_item e)" using False cm by (auto simp: seen_def t_def)
    have "answer_ok xxh until xs rem L (qs_result q @ [\<lparr>bs_item = qi_item e, bs_source = t\<rparr>])"
      using ns by (intro answer_ok_snoc[OF old(1) tL e] below_all[OF _ tL e ns]) (auto simp: seen_def old(2))
    moreover have "it_timestamp x \<le> it_timestamp (bs_item r)"
      if "r \<in> set (qs_result q1)" "t' \<in> L" "x \<in> set (xs t')" "it_timestamp x < until" "\<not> seen xxh (qs_uniq q1) (rem t') x" for r t' x
    proof -
      have ns': "\<not> seen xxh (qs_uniq q) (rem t') x" using that(5) seen_mono[OF _ mono] by blast
      show ?thesis using that(1) below_all[OF _ that(2-4) ns'] queue_newest[OF Q assms(2,3) that(2-4) ns'] by (auto simp: q1)
    qed
    ultimately show ?thesis using new old(2) by (auto simp: query_inv_def q1)
  qed
qed

section \<open>The number of iterations\<close>

text \<open>An item is popped at most twice: in the body of its own chunk, and once in the tail of the body before it.\<close>

definition rest_work :: "body_item list \<Rightarrow> int \<Rightarrow> int \<Rightarrow> nat" where
  "rest_work xs S p = length (filter (\<lambda>x. chunk_no S (it_timestamp x) = p) xs) + 2 * length (filter (\<lambda>x. chunk_no S (it_timestamp x) < p) xs)"

definition body_work :: "body_item list \<Rightarrow> int \<Rightarrow> body_chunk \<Rightarrow> nat" where
  "body_work xs S ch = rest_work xs S (previous_no (chunk_no S (it_timestamp (last (bc_items ch)))) (bc_chunkID ch))"

definition entry_work :: "(string \<Rightarrow> body_item list) \<Rightarrow> (string \<Rightarrow> int) \<Rightarrow> (string, body_chunk) gmap \<Rightarrow> queue_item \<Rightarrow> nat" where
  "entry_work xs csize chunks e = (let t = qi_timeline e; ch = chunk_at chunks t in
     length (bc_items ch) - qi_index e + body_work (xs t) (csize t) ch)"

definition queue_work :: "(string \<Rightarrow> body_item list) \<Rightarrow> (string \<Rightarrow> int) \<Rightarrow> (string, body_chunk) gmap \<Rightarrow> queue_item list \<Rightarrow> nat" where
  "queue_work xs csize chunks pq = (\<Sum>e\<in>#mset pq. entry_work xs csize chunks e)"

lemma rest_work_mono: "p \<le> p' \<Longrightarrow> rest_work xs S p \<le> rest_work xs S p'"
  by (induction xs) (auto simp: rest_work_def)

lemma rest_work_bound: "rest_work xs S p \<le> 2 * length xs"
  by (induction xs) (auto simp: rest_work_def)

lemma rest_work_below: "k < c \<Longrightarrow> rest_work xs S k + length (filter (\<lambda>x. k \<le> chunk_no S (it_timestamp x) \<and> chunk_no S (it_timestamp x) \<le> c) xs) \<le> rest_work xs S c"
  by (induction xs) (auto simp: rest_work_def)

lemma rest_work_pred: "rest_work xs S (c - 1) + length (filter (\<lambda>x. chunk_no S (it_timestamp x) = c) xs) \<le> rest_work xs S c"
  by (induction xs) (auto simp: rest_work_def)

lemma length_subseteq: "mset bs \<subseteq># mset xs \<Longrightarrow> (\<And>x. x \<in> set bs \<Longrightarrow> P x) \<Longrightarrow> length bs \<le> length (filter P xs)"
proof -
  assume a: "mset bs \<subseteq># mset xs" "\<And>x. x \<in> set bs \<Longrightarrow> P x"
  then have "mset bs = filter_mset P (mset bs)" by (metis filter_True mset_filter)
  also have "\<dots> \<subseteq># filter_mset P (mset xs)" by (rule multiset_filter_mono[OF a(1)])
  finally show ?thesis by (metis mset_filter size_mset size_mset_mono)
qed

lemma body_work_bound:
  assumes "body_of xs S (bc_chunkID ch) (bc_items ch)" "bc_items ch \<noteq> []" "0 < S"
  shows "length (bc_items ch) + body_work xs S ch \<le> rest_work xs S (bc_chunkID ch)"
proof -
  let ?bs = "bc_items ch" and ?c = "bc_chunkID ch" and ?k = "chunk_no S (it_timestamp (last (bc_items ch)))"
  have b: "mset ?bs \<subseteq># mset xs" "\<And>x. x \<in> set ?bs \<Longrightarrow> chunk_no S (it_timestamp x) \<le> ?c" using assms(1) by (auto simp: body_of_def)
  have "it_timestamp (last ?bs) \<le> it_timestamp x" if "x \<in> set ?bs" for x
    using body_of_last[OF assms(1)] that by (auto simp: in_set_conv_nth)
  then have k: "\<And>x. x \<in> set ?bs \<Longrightarrow> ?k \<le> chunk_no S (it_timestamp x)" using chunk_no_mono[OF assms(3)] by blast
  have kc: "?k \<le> ?c" using b(2) assms(2) by simp
  show ?thesis
  proof (cases "?k = ?c")
    case True
    then have "length ?bs \<le> length (filter (\<lambda>x. chunk_no S (it_timestamp x) = ?c) xs)"
      using k b by (intro length_subseteq) (auto intro: antisym)
    then show ?thesis using rest_work_pred[of xs S ?c] True by (simp add: body_work_def previous_no_def)
  next
    case False
    then have "length ?bs \<le> length (filter (\<lambda>x. ?k \<le> chunk_no S (it_timestamp x) \<and> chunk_no S (it_timestamp x) \<le> ?c) xs)"
      using k b by (intro length_subseteq) auto
    then show ?thesis using rest_work_below[of ?k ?c xs S] False kc by (simp add: body_work_def previous_no_def)
  qed
qed

lemma queue_work_pop: "pq \<noteq> [] \<Longrightarrow> heap_pop qi_key pq = (e, pq') \<Longrightarrow> queue_work xs csize chunks pq = entry_work xs csize chunks e + queue_work xs csize chunks pq'"
  using go_heap.mset_pop[of pq qi_key e pq'] by (simp add: queue_work_def)

lemma queue_work_push: "queue_work xs csize chunks (heap_push qi_key e pq) = entry_work xs csize chunks e + queue_work xs csize chunks pq"
  by (simp add: queue_work_def go_heap.mset_push)

lemma queue_work_other:
  "qi_timeline e \<notin> qi_timeline ` set pq \<Longrightarrow> queue_work xs csize (gmap_set (qi_timeline e) ch chunks) pq = queue_work xs csize chunks pq"
  unfolding queue_work_def by (rule arg_cong[where f = sum_mset], rule image_mset_cong) (auto simp: entry_work_def chunk_at_def image_iff)

section \<open>The query over a source of timelines\<close>

context timeline_source
begin

lemma getChunks_law:
  assumes "ok s" "\<bar>unix_time until\<bar> < 2 ^ 62"
  shows "\<exists>chunks s'. getChunks R uris until s = Some (Inr chunks, s') \<and> ok s' \<and> gmap_ok chunks
    \<and> (\<forall>t. map_of chunks t = None \<longleftrightarrow> t \<notin> set uris \<or> newest (items t) (chunk_size t) (unix_time until sdiv chunk_size t) = None)
    \<and> (\<forall>t ch. map_of chunks t = Some ch \<longrightarrow> newest (items t) (chunk_size t) (unix_time until sdiv chunk_size t) = Some (bc_chunkID ch)
        \<and> body_of (items t) (chunk_size t) (bc_chunkID ch) (bc_items ch))"
proof -
  let ?n = "\<lambda>t. newest (items t) (chunk_size t) (unix_time until sdiv chunk_size t)"
  obtain query s1 where q: "cr_LookupChunkItrs R uris until s = Some (Inr query, s1)" "ok s1" "gmap_ok query"
    and m: "\<And>t. map_of query t = (if t \<in> set uris then map_option int_str (?n t) else None)"
    using lookup_law[OF assms] by blast
  have pre: "\<exists>x\<in>set (items t). itr = int_str (chunk_no (chunk_size t) (it_timestamp x))" if "map_of query t = Some itr" for t itr
    using that m[of t] by (force simp: newest_Some split: if_splits)
  obtain chunks s2 where l: "cr_LoadChunkBodies R query s1 = Some (Inr chunks, s2)" "ok s2" "gmap_ok chunks" "fst ` set chunks = fst ` set query"
    and b: "\<And>t itr ch. map_of query t = Some itr \<Longrightarrow> map_of chunks t = Some ch
        \<Longrightarrow> int_str (bc_chunkID ch) = itr \<and> body_of (items t) (chunk_size t) (bc_chunkID ch) (bc_items ch)"
    using load_law[OF q(2,3) pre] by blast
  have None: "map_of chunks t = None \<longleftrightarrow> map_of query t = None" for t by (simp add: map_of_eq_None_iff l(4))
  moreover have "?n t = Some (bc_chunkID ch) \<and> body_of (items t) (chunk_size t) (bc_chunkID ch) (bc_items ch)"
    if "map_of chunks t = Some ch" for t ch
  proof -
    obtain itr where itr: "map_of query t = Some itr" using None[of t] \<open>map_of chunks t = Some ch\<close> by (cases "map_of query t") simp_all
    then obtain c where c: "?n t = Some c" "itr = int_str c" using m[of t] by (auto split: if_splits)
    then have "bc_chunkID ch = c" using b[OF itr that] int_str_inj by simp
    then show ?thesis using c(1) b[OF itr that] by simp
  qed
  ultimately have "(\<forall>t. map_of chunks t = None \<longleftrightarrow> t \<notin> set uris \<or> ?n t = None)
      \<and> (\<forall>t ch. map_of chunks t = Some ch \<longrightarrow> ?n t = Some (bc_chunkID ch) \<and> body_of (items t) (chunk_size t) (bc_chunkID ch) (bc_items ch))"
    using m by auto
  then show ?thesis using q(1) l by (auto simp: getChunks_def sbind_def)
qed

end

context timeline_source
begin

text \<open>The next chunk of a timeline whose body is used up.\<close>

lemma previous_chunk_law:
  assumes "ok s" and fits: "map_of (qs_chunks q) t = Some ch" "entry_fits until (chunk_size t) (items t) (seen xxh (qs_uniq q) (removed t)) ch e"
    and e: "qi_timeline e = t" "seen xxh (qs_uniq q) (removed t) (qi_item e)" "\<not> qi_index e + 1 < length (bc_items ch)"
    and Q: "queue_inv xxh until chunk_size items removed (L - {t}) (qs_chunks q) (qs_uniq q) (qs_pq q)" "t \<in> L"
    and m: "mf_chunkSize (manifest_at ms t) = chunk_size t" and u: "until < 2 ^ 62 * second"
  shows "\<exists>pq' chunks' s'. previous_chunk R ms e q s = Some (Inr (q\<lparr>qs_pq := pq', qs_chunks := chunks'\<rparr>), s') \<and> ok s'
    \<and> queue_inv xxh until chunk_size items removed L chunks' (qs_uniq q) pq'
    \<and> queue_work items chunk_size chunks' pq' < entry_work items chunk_size (qs_chunks q) e + queue_work items chunk_size (qs_chunks q) (qs_pq q)"
proof -
  let ?S = "chunk_size t" and ?sn = "seen xxh (qs_uniq q) (removed t)" and ?m = "manifest_at ms t"
  define k where "k = chunk_no ?S (qi_key e)"
  define p where "p = previous_no k (bc_chunkID ch)"
  note S = size_bounds[of t] and item = entry_fits_item[OF fits(2)] and ended = entry_end[OF fits(2) e(2,3) S(1), folded k_def p_def]
  have k0: "0 \<le> k" using times[OF assms(1) item(1)] S(1) by (simp add: k_def chunk_no_def pos_imp_zdiv_nonneg_iff)
  have T: "Time2Chunk ?m (qi_key e) = Inr k"
    using S m chunk_no_unix[OF times[OF assms(1) item(1)] S(1)] by (simp add: Time2Chunk_def k_def)
  have pr: "- 1 \<le> p" using k0 by (auto simp: p_def previous_no_def)
  have "p * (second * ?S) \<le> (p + 1) * (second * ?S)" using S(1) by (intro mult_right_mono) (auto intro: less_imp_le)
  then have pu: "p * (second * ?S) < 2 ^ 62 * second" using ended(1) u by linarith
  have look: "unix_time (Chunk2Time ?m p) sdiv ?S = p"
    using chunk_no_Chunk2Time[of ?m p] S m pr pu by simp
  have range: "\<bar>unix_time (Chunk2Time ?m p)\<bar> < 2 ^ 62"
  proof -
    have "Chunk2Time ?m p = p * (second * ?S)" using Chunk2Time_exact[of ?m p] S m pr pu by simp
    then have eq: "unix_time (Chunk2Time ?m p) = p * ?S"
      by (simp add: unix_time_def second_def mult.assoc[symmetric] mult.commute[of _ "1000000000"])
    have "- 1 * ?S \<le> p * ?S" using pr S(1) by (intro mult_right_mono) auto
    moreover have "p * ?S * second < 2 ^ 62 * second" using pu by (simp add: ac_simps)
    ultimately show ?thesis using S(2) unfolding eq by (simp add: abs_less_iff)
  qed
  obtain prevs s' where g: "getChunks R [t] (Chunk2Time ?m p) s = Some (Inr prevs, s')" "ok s'"
    and gn: "map_of prevs t = None \<longleftrightarrow> newest (items t) ?S p = None"
    and gb: "\<And>ch'. map_of prevs t = Some ch' \<Longrightarrow> newest (items t) ?S p = Some (bc_chunkID ch') \<and> body_of (items t) ?S (bc_chunkID ch') (bc_items ch')"
    using getChunks_law[OF assms(1) range, of "[t]"] by (auto simp: look) (metis look)
  have run: "previous_chunk R ms e q s = (case map_of prevs t of None \<Rightarrow> Some (Inr q, s')
      | Some c \<Rightarrow> if bc_items c = [] then Some (Inr q, s') else Some (Inr (q\<lparr>qs_chunks := gmap_set t c (qs_chunks q),
           qs_pq := heap_push qi_key (entry_at t (bc_items c) 0) (qs_pq q)\<rparr>), s'))"
    using T g fits(1) by (simp add: previous_chunk_def e(1) Let_def sbind_def lift_def attempt_def chunk_at_def ret_def
        p_def previous_no_def split: option.split)
  have work: "entry_work items chunk_size (qs_chunks q) e = 1 + rest_work (items t) ?S p"
  proof -
    have i: "qi_index e + 1 = length (bc_items ch)" using fits(2) e(3) by (auto simp: entry_fits_def)
    then have "bc_items ch \<noteq> []" "qi_index e = length (bc_items ch) - 1" by auto
    then have "last (bc_items ch) = qi_item e" using fits(2) by (simp add: entry_fits_def last_conv_nth)
    then show ?thesis using i fits(1) by (simp add: entry_work_def e(1) Let_def chunk_at_def body_work_def p_def k_def flip: i)
  qed
  show ?thesis
  proof (cases "map_of prevs t")
    case None
    have "queue_inv xxh until chunk_size items removed L (qs_chunks q) (qs_uniq q) (qs_pq q)"
      by (rule queue_drop[OF Q(1)]) (use ended(3) gn None in \<open>fastforce simp: newest_None\<close>)
    then show ?thesis using run None g(2) work
      by (intro exI[of _ "qs_pq q"] exI[of _ "qs_chunks q"] exI[of _ s']) simp
  next
    case (Some ch')
    then have n: "newest (items t) ?S p = Some (bc_chunkID ch')" and b: "body_of (items t) ?S (bc_chunkID ch') (bc_items ch')"
      using gb by auto
    have first: "bc_items ch' \<noteq> []" by (rule entry_first(1)[where sn = ?sn, OF n b S(1) ended(1)]) (rule ended(3))
    let ?e = "entry_at t (bc_items ch') 0" and ?cs = "gmap_set t ch' (qs_chunks q)"
    have "entry_fits until ?S (items t) ?sn \<lparr>bc_uri = bc_uri ch', bc_chunkID = bc_chunkID ch', bc_items = bc_items ch'\<rparr> ?e"
      by (rule entry_first(2)[OF n b S(1) ended(1)]) (rule ended(3))
    then have f: "entry_fits until ?S (items t) ?sn ch' ?e" by (cases ch') simp
    have inv': "queue_inv xxh until chunk_size items removed L ?cs (qs_uniq q) (heap_push qi_key ?e (qs_pq q))"
      by (rule queue_push[OF Q(1,2) _ _ f]) (auto simp: entry_at_def)
    have t: "qi_timeline ?e = t" by (simp add: entry_at_def)
    have fresh: "qi_timeline ?e \<notin> qi_timeline ` set (qs_pq q)" using Q(1) by (auto simp: queue_inv_def t)
    have "entry_work items chunk_size ?cs ?e \<le> rest_work (items t) ?S (bc_chunkID ch')"
      using body_work_bound[OF b first S(1)] by (simp add: entry_work_def entry_at_def Let_def chunk_at_def)
    also have "\<dots> \<le> rest_work (items t) ?S p" using n by (intro rest_work_mono) (simp add: newest_Some)
    finally have "queue_work items chunk_size ?cs (heap_push qi_key ?e (qs_pq q)) < entry_work items chunk_size (qs_chunks q) e + queue_work items chunk_size (qs_chunks q) (qs_pq q)"
      using queue_work_other[OF fresh, of items chunk_size ch' "qs_chunks q"] by (simp add: queue_work_push work t)
    then show ?thesis using run Some first g(2) inv'
      by (intro exI[of _ "heap_push qi_key ?e (qs_pq q)"] exI[of _ ?cs] exI[of _ s']) simp
  qed
qed

end

context timeline_source
begin

lemma query_step_law:
  assumes "ok s" "query_inv xxh until chunk_size items removed L q" "qs_pq q \<noteq> []"
    and ms: "\<And>t. t \<in> L \<Longrightarrow> items t \<noteq> [] \<Longrightarrow> mf_chunkSize (manifest_at ms t) = chunk_size t"
    and cm: "\<And>t i. t \<in> L \<Longrightarrow> cancelled cm t i \<longleftrightarrow> i \<in> set (removed t)"
    and u: "until < 2 ^ 62 * second"
  shows "\<exists>q' s'. query_step R xxh ms cm q s = Some (Inr q', s') \<and> ok s' \<and> query_inv xxh until chunk_size items removed L q'
    \<and> queue_work items chunk_size (qs_chunks q') (qs_pq q') < queue_work items chunk_size (qs_chunks q) (qs_pq q)
    \<and> length (qs_result q') \<le> length (qs_result q) + 1"
proof -
  obtain e pq where pop: "heap_pop qi_key (qs_pq q) = (e, pq)" by fastforce
  let ?q1 = "take_item xxh cm e (q\<lparr>qs_pq := pq\<rparr>)" and ?t = "qi_timeline e"
  have Q: "queue_inv xxh until chunk_size items removed L (qs_chunks q) (qs_uniq q) (qs_pq q)" using assms(2) by (simp add: query_inv_def)
  then have tL: "?t \<in> L" using queue_pop(2)[OF Q assms(3) pop] by (auto simp: queue_inv_def)
  note taken = take_item_inv[OF assms(2,3) pop cm[OF tL]]
  obtain ch where ch: "map_of (qs_chunks q) ?t = Some ch"
      "entry_fits until (chunk_size ?t) (items ?t) (seen xxh (qs_uniq ?q1) (removed ?t)) ch e"
    using taken(6) by blast
  have at: "chunk_at (qs_chunks q) ?t = ch" using ch(1) by (simp add: chunk_at_def)
  note popped = queue_work_pop[OF assms(3) pop, of items chunk_size "qs_chunks q"]
  show ?thesis
  proof (cases "qi_index e + 1 < length (bc_items ch)")
    case True
    let ?e = "entry_at ?t (bc_items ch) (qi_index e + 1)"
    have f: "entry_fits until (chunk_size ?t) (items ?t) (seen xxh (qs_uniq ?q1) (removed ?t)) ch ?e"
      by (rule entry_next[OF ch(2) taken(5) True])
    have "queue_inv xxh until chunk_size items removed L (qs_chunks q) (qs_uniq ?q1) (heap_push qi_key ?e pq)"
      by (rule queue_push[OF taken(1) tL _ _ f]) (auto simp: entry_at_def ch(1) fun_upd_idem)
    note inv' = taken(7)[OF this]
    have eq: "?q1\<lparr>qs_pq := heap_push qi_key ?e pq, qs_chunks := qs_chunks q\<rparr> = ?q1\<lparr>qs_pq := heap_push qi_key ?e pq\<rparr>"
      using taken(3) by simp
    have "entry_work items chunk_size (qs_chunks q) ?e < entry_work items chunk_size (qs_chunks q) e"
      using True at by (simp add: entry_work_def entry_at_def Let_def)
    then show ?thesis using True at inv'[unfolded eq] taken(8) assms(1)
      by (auto simp: query_step_def pop Let_def ret_def taken(3) queue_work_push popped)
  next
    case False
    have m: "mf_chunkSize (manifest_at ms ?t) = chunk_size ?t"
      using ms[OF tL] entry_fits_item(1)[OF ch(2)] by (metis empty_iff list.set(1))
    obtain pq' chunks' s' where p: "previous_chunk R ms e ?q1 s = Some (Inr (?q1\<lparr>qs_pq := pq', qs_chunks := chunks'\<rparr>), s')" "ok s'"
        "queue_inv xxh until chunk_size items removed L chunks' (qs_uniq ?q1) pq'"
        "queue_work items chunk_size chunks' pq' < entry_work items chunk_size (qs_chunks q) e + queue_work items chunk_size (qs_chunks q) pq"
      using previous_chunk_law[where q = ?q1, unfolded taken(2,3), OF assms(1) ch refl taken(5) False taken(1) tL m u] by blast
    show ?thesis using False at p(1,2,4) taken(7)[OF p(3)] taken(8) by (auto simp: query_step_def pop Let_def popped)
  qed
qed

lemma query_loop_law:
  assumes "ok s" "query_inv xxh until chunk_size items removed L q" "int (length (qs_result q)) \<le> max 0 limit"
    and ms: "\<And>t. t \<in> L \<Longrightarrow> items t \<noteq> [] \<Longrightarrow> mf_chunkSize (manifest_at ms t) = chunk_size t"
    and cm: "\<And>t i. t \<in> L \<Longrightarrow> cancelled cm t i \<longleftrightarrow> i \<in> set (removed t)"
    and u: "until < 2 ^ 62 * second"
  shows "\<exists>q' s'. query_loop R xxh ms cm limit n q s = Some (Inr q', s') \<and> ok s' \<and> query_inv xxh until chunk_size items removed L q'
    \<and> int (length (qs_result q')) \<le> max 0 limit
    \<and> (queue_work items chunk_size (qs_chunks q) (qs_pq q) \<le> n \<longrightarrow> int (length (qs_result q')) < limit \<longrightarrow> qs_pq q' = [])"
  using assms(1-3)
proof (induction n arbitrary: q s)
  case 0
  have "qs_pq q = []" if "queue_work items chunk_size (qs_chunks q) (qs_pq q) \<le> 0"
  proof (rule ccontr)
    assume "qs_pq q \<noteq> []"
    then show False using query_step_law[OF 0(1,2) _ ms cm u] that by fastforce
  qed
  then show ?case using 0 by (simp add: ret_def)
next
  case (Suc n)
  show ?case
  proof (cases "int (length (qs_result q)) < limit \<and> qs_pq q \<noteq> []")
    case False
    then show ?thesis using Suc.prems by (auto simp: ret_def)
  next
    case True
    obtain q1 s1 where step: "query_step R xxh ms cm q s = Some (Inr q1, s1)" "ok s1" "query_inv xxh until chunk_size items removed L q1"
        "queue_work items chunk_size (qs_chunks q1) (qs_pq q1) < queue_work items chunk_size (qs_chunks q) (qs_pq q)"
        "length (qs_result q1) \<le> length (qs_result q) + 1"
      using query_step_law[OF Suc.prems(1,2) _ ms cm u] True by blast
    have "int (length (qs_result q1)) \<le> max 0 limit" using step(5) True by linarith
    from Suc.IH[OF step(2,3) this] show ?thesis using True step(1,4) by (fastforce simp: sbind_def)
  qed
qed

end

subsection \<open>The first entries\<close>

text \<open>The timelines whose first body has an item before the asked moment.\<close>

definition entered :: "gotime \<Rightarrow> (string, body_chunk) gmap \<Rightarrow> string set" where
  "entered until chunks = {t. \<exists>ch. map_of chunks t = Some ch \<and> (\<exists>x\<in>set (bc_items ch). it_timestamp x < until)}"

lemma entered_Cons: "gmap_ok ((t, ch) # cs) \<Longrightarrow>
    entered until ((t, ch) # cs) = (if \<exists>x\<in>set (bc_items ch). it_timestamp x < until then {t} else {}) \<union> entered until cs"
  by (auto simp: entered_def gmap_ok_def) (metis image_eqI fst_conv map_of_SomeD)

lemma search_found:
  assumes "sorted_wrt (\<lambda>x y. it_timestamp y \<le> it_timestamp x) bs"
  shows "sort_search (\<lambda>i. it_timestamp (bs ! i) < until) 0 (length bs) < length bs \<longleftrightarrow> (\<exists>x\<in>set bs. it_timestamp x < until)"
proof -
  let ?f = "\<lambda>i. it_timestamp (bs ! i) < until"
  have mono: "\<And>k l. k \<le> l \<Longrightarrow> l < length bs \<Longrightarrow> ?f k \<Longrightarrow> ?f l"
    using assms by (force simp: sorted_wrt_iff_nth_less le_less)
  have s: "\<forall>k<length bs. ?f k \<longleftrightarrow> sort_search ?f 0 (length bs) \<le> k"
    using sort_search_spec[of 0 "length bs" ?f] mono by auto
  show ?thesis
  proof
    assume "sort_search ?f 0 (length bs) < length bs"
    then show "\<exists>x\<in>set bs. it_timestamp x < until" using s nth_mem by blast
  next
    assume "\<exists>x\<in>set bs. it_timestamp x < until"
    then obtain k where "k < length bs" "?f k" by (auto simp: in_set_conv_nth)
    then show "sort_search ?f 0 (length bs) < length bs" using s by (meson le_less_trans)
  qed
qed

lemma push_all:
  assumes "gmap_ok cs" "queue_inv xxh until csize xs rem L chunks uniq pq" "L \<inter> fst ` set cs = {}"
    and "\<And>t ch. (t, ch) \<in> set cs \<Longrightarrow> map_of chunks t = Some ch"
    and "\<And>t ch. (t, ch) \<in> set cs \<Longrightarrow> newest (xs t) (csize t) (chunk_no (csize t) until) = Some (bc_chunkID ch)
          \<and> body_of (xs t) (csize t) (bc_chunkID ch) (bc_items ch)"
    and "\<And>t. 0 < csize t"
  shows "queue_inv xxh until csize xs rem (L \<union> entered until cs) chunks uniq (foldl (push_first until) pq cs)"
  using assms(1-5)
proof (induction cs arbitrary: L pq)
  case Nil
  then show ?case by (simp add: entered_def)
next
  case (Cons tc cs)
  obtain t ch where tc: "tc = (t, ch)" by fastforce
  let ?bs = "bc_items ch" and ?S = "csize t"
  define i where "i = sort_search (\<lambda>i. it_timestamp (?bs ! i) < until) 0 (length ?bs)"
  have n: "newest (xs t) ?S (chunk_no ?S until) = Some (bc_chunkID ch)" and b: "body_of (xs t) ?S (bc_chunkID ch) ?bs"
    using Cons.prems(5) tc by auto
  have found: "i < length ?bs \<longleftrightarrow> (\<exists>x\<in>set ?bs. it_timestamp x < until)"
    unfolding i_def by (rule search_found) (use b in \<open>simp add: body_of_def\<close>)
  have ok: "gmap_ok cs" "t \<notin> fst ` set cs" using Cons.prems(1) tc by (auto simp: gmap_ok_def)
  have e: "entered until (tc # cs) = (if i < length ?bs then {t} else {}) \<union> entered until cs"
    using entered_Cons[of t ch cs until] Cons.prems(1) found by (simp add: tc)
  have head: "push_first until pq tc = (if i < length ?bs then heap_push qi_key (entry_at t ?bs i) pq else pq)"
    by (auto simp: push_first_def tc Let_def i_def)
  show ?case
  proof (cases "i < length ?bs")
    case False
    have "queue_inv xxh until csize xs rem (L \<union> entered until cs) chunks uniq (foldl (push_first until) pq cs)"
      using Cons.prems by (intro Cons.IH) (auto simp: ok)
    then show ?thesis using head e False by simp
  next
    case True
    have "entry_fits until ?S (xs t) (seen xxh uniq (rem t)) \<lparr>bc_uri = bc_uri ch, bc_chunkID = bc_chunkID ch, bc_items = ?bs\<rparr> (entry_at t ?bs i)"
      by (rule entry_search[OF n b assms(6) i_def True])
    then have f: "entry_fits until ?S (xs t) (seen xxh uniq (rem t)) ch (entry_at t ?bs i)" by (cases ch) simp
    have "map_of chunks t = Some ch" "t \<notin> L" using Cons.prems(3,4) tc by auto
    then have "queue_inv xxh until csize xs rem (insert t L) chunks uniq (heap_push qi_key (entry_at t ?bs i) pq)"
      using Cons.prems(2) f by (intro queue_push[where t = t and ch = ch]) (auto simp: entry_at_def fun_upd_idem)
    moreover have "insert t L \<inter> fst ` set cs = {}" using Cons.prems(3) ok(2) tc by auto
    ultimately have "queue_inv xxh until csize xs rem (insert t L \<union> entered until cs) chunks uniq (foldl (push_first until) (heap_push qi_key (entry_at t ?bs i) pq) cs)"
      using Cons.prems(4,5) by (intro Cons.IH ok(1)) auto
    then show ?thesis using head e True by simp
  qed
qed

lemma queue_inv_extend:
  "queue_inv xxh until csize xs rem L chunks uniq pq \<Longrightarrow> (\<And>t x. t \<in> M \<Longrightarrow> x \<in> set (xs t) \<Longrightarrow> \<not> it_timestamp x < until)
    \<Longrightarrow> queue_inv xxh until csize xs rem (L \<union> M) chunks uniq pq"
  unfolding queue_inv_def by blast

lemma queue_work_bound:
  assumes "queue_inv xxh until csize xs rem L chunks uniq pq" "L \<subseteq> U" "finite U" "\<And>t. 0 < csize t"
  shows "queue_work xs csize chunks pq \<le> (\<Sum>t\<in>U. 2 * length (xs t))"
proof -
  have e: "entry_work xs csize chunks e \<le> 2 * length (xs (qi_timeline e))" if "e \<in> set pq" for e
  proof -
    let ?t = "qi_timeline e"
    obtain ch where ch: "map_of chunks ?t = Some ch" "entry_fits until (csize ?t) (xs ?t) (seen xxh uniq (rem ?t)) ch e"
      using assms(1) \<open>e \<in> set pq\<close> by (auto simp: queue_inv_def)
    then have "body_of (xs ?t) (csize ?t) (bc_chunkID ch) (bc_items ch)" "bc_items ch \<noteq> []" by (auto simp: entry_fits_def)
    from body_work_bound[OF this assms(4)] rest_work_bound[of "xs ?t" "csize ?t" "bc_chunkID ch"]
    show ?thesis using ch(1) by (simp add: entry_work_def Let_def chunk_at_def)
  qed
  have d: "distinct (map qi_timeline pq)" "qi_timeline ` set pq \<subseteq> U" using assms(1,2) by (auto simp: queue_inv_def)
  have "queue_work xs csize chunks pq = sum_list (map (entry_work xs csize chunks) pq)"
    by (simp add: queue_work_def flip: sum_mset_sum_list)
  also have "\<dots> \<le> sum_list (map (\<lambda>t. 2 * length (xs t)) (map qi_timeline pq))"
    using e by (auto simp: o_def intro!: sum_list_mono)
  also have "\<dots> = (\<Sum>t\<in>qi_timeline ` set pq. 2 * length (xs t))"
    using sum_list_distinct_conv_sum_set[OF d(1), of "\<lambda>t. 2 * length (xs t)"] by simp
  also have "\<dots> \<le> (\<Sum>t\<in>U. 2 * length (xs t))" by (rule sum_mono2) (use assms(3) d(2) in auto)
  finally show ?thesis .
qed

section \<open>Correctness of the query\<close>

text \<open>The newest chunk of the timeline up to the asked moment has an item before that moment, if there is any.\<close>

definition reaches :: "body_item list \<Rightarrow> int \<Rightarrow> gotime \<Rightarrow> bool" where
  "reaches xs S until \<longleftrightarrow> (\<forall>x\<in>set xs. it_timestamp x < until \<longrightarrow>
     (\<exists>y\<in>set xs. it_timestamp y < until \<and> newest xs S (chunk_no S until) = Some (chunk_no S (it_timestamp y))))"

text \<open>The answer: its form, and what can be missing from it.\<close>

definition descending_answer :: "(string \<Rightarrow> string) \<Rightarrow> gotime \<Rightarrow> int \<Rightarrow> (string \<Rightarrow> int) \<Rightarrow> (string \<Rightarrow> body_item list) \<Rightarrow> (string \<Rightarrow> string list)
    \<Rightarrow> string list \<Rightarrow> body_item_with_source list \<Rightarrow> bool" where
  "descending_answer xxh until limit csize xs rem uris rs \<longleftrightarrow>
     answer_ok xxh until xs rem (set uris) rs \<and> int (length rs) \<le> max 0 limit
     \<and> (\<forall>t\<in>set uris. reaches (xs t) (csize t) until \<longrightarrow> (\<forall>x\<in>set (xs t). it_timestamp x < until
          \<longrightarrow> item_ID xxh x \<notin> set (rem t) \<longrightarrow> item_ID xxh x \<notin> (item_ID xxh \<circ> bs_item) ` set rs
          \<longrightarrow> (\<forall>r\<in>set rs. it_timestamp x \<le> it_timestamp (bs_item r))
              \<and> ((\<Sum>t\<in>set uris. 2 * length (xs t)) \<le> itrlimit_max \<longrightarrow> limit \<le> int (length rs))))"

lemma answer_ok_mono: "answer_ok xxh until xs rem L rs \<Longrightarrow> L \<subseteq> U \<Longrightarrow> answer_ok xxh until xs rem U rs"
  by (auto simp: answer_ok_def)

lemma reaches_entered:
  assumes "reaches xs S until" "x \<in> set xs" "it_timestamp x < until" "newest xs S (chunk_no S until) = Some c" "body_of xs S c bs"
  shows "\<exists>y\<in>set bs. it_timestamp y < until"
proof -
  obtain y where "y \<in> set xs" "it_timestamp y < until" "chunk_no S (it_timestamp y) = c"
    using assms(1-4) by (auto simp: reaches_def)
  then show ?thesis using assms(5) by (auto simp: body_of_def)
qed

context timeline_source
begin

lemma query_start:
  assumes "gmap_ok chunks" "0 \<le> until"
    and none: "\<And>t. map_of chunks t = None \<longleftrightarrow> t \<notin> set uris \<or> newest (items t) (chunk_size t) (chunk_no (chunk_size t) until) = None"
    and some: "\<forall>t ch. map_of chunks t = Some ch \<longrightarrow> newest (items t) (chunk_size t) (chunk_no (chunk_size t) until) = Some (bc_chunkID ch)
        \<and> body_of (items t) (chunk_size t) (bc_chunkID ch) (bc_items ch)"
  defines "L \<equiv> entered until chunks \<union> {t \<in> set uris. \<forall>x\<in>set (items t). \<not> it_timestamp x < until}"
    and "pq \<equiv> foldl (push_first until) [] chunks"
  shows "query_inv xxh until chunk_size items removed L \<lparr>qs_chunks = chunks, qs_pq = pq, qs_result = [], qs_uniq = []\<rparr>"
    and "L \<subseteq> set uris" and "\<And>t. t \<in> set uris \<Longrightarrow> reaches (items t) (chunk_size t) until \<Longrightarrow> t \<in> L"
    and "queue_work items chunk_size chunks pq \<le> (\<Sum>t\<in>set uris. 2 * length (items t))"
proof -
  have "queue_inv xxh until chunk_size items removed ({} \<union> entered until chunks) chunks [] pq"
    unfolding pq_def using assms(1) some size_bounds(1)
    by (intro push_all queue_inv_empty) (auto simp: gmap_ok_def)
  then have Q: "queue_inv xxh until chunk_size items removed L chunks [] pq"
    unfolding L_def using queue_inv_extend[where M = "{t \<in> set uris. \<forall>x\<in>set (items t). \<not> it_timestamp x < until}"] by simp
  show "query_inv xxh until chunk_size items removed L \<lparr>qs_chunks = chunks, qs_pq = pq, qs_result = [], qs_uniq = []\<rparr>"
    using Q by (simp add: query_inv_def answer_ok_def)
  show L: "L \<subseteq> set uris" using none by (force simp: L_def entered_def)
  show "queue_work items chunk_size chunks pq \<le> (\<Sum>t\<in>set uris. 2 * length (items t))"
    by (rule queue_work_bound[OF Q L]) (simp_all add: size_bounds)
  show "t \<in> L" if "t \<in> set uris" "reaches (items t) (chunk_size t) until" for t
  proof (cases "\<exists>x\<in>set (items t). it_timestamp x < until")
    case True
    then obtain x where x: "x \<in> set (items t)" "it_timestamp x < until" by blast
    then have "newest (items t) (chunk_size t) (chunk_no (chunk_size t) until) \<noteq> None"
      using chunk_no_mono[OF size_bounds(1), of "it_timestamp x" until t] by (auto simp: newest_None not_less)
    then obtain ch where ch: "map_of chunks t = Some ch" using none[of t] \<open>t \<in> set uris\<close> by fastforce
    then have "\<exists>y\<in>set (bc_items ch). it_timestamp y < until" using some reaches_entered[OF that(2) x] by blast
    then show ?thesis using ch by (auto simp: L_def entered_def)
  qed (use that in \<open>auto simp: L_def\<close>)
qed

lemma QueryDescending_law:
  assumes "ok s" "0 \<le> until" "until < 2 ^ 62 * second"
  shows "\<exists>rs s'. QueryDescending R xxh uris until limit s = Some (Inr rs, s') \<and> ok s'
    \<and> descending_answer xxh until limit chunk_size items removed uris rs"
proof -
  obtain ms s1 where m: "cr_ResolveTimelines R uris s = Some (Inr ms, s1)" "ok s1"
    and ms: "\<And>t. t \<in> set uris \<Longrightarrow> items t \<noteq> [] \<Longrightarrow> mf_chunkSize (manifest_at ms t) = chunk_size t"
    using resolve_law[OF assms(1)] by blast
  obtain cm s2 where c: "cr_GetRemovedItems R uris s1 = Some (Inr cm, s2)" "ok s2"
    and cm: "\<And>t i. t \<in> set uris \<Longrightarrow> cancelled cm t i \<longleftrightarrow> i \<in> set (removed t)"
    using removed_law[OF m(2)] by blast
  have look: "unix_time until sdiv chunk_size t = chunk_no (chunk_size t) until" for t
    by (rule chunk_no_unix[OF assms(2) size_bounds(1)])
  have range: "\<bar>unix_time until\<bar> < 2 ^ 62"
    using assms(2,3) by (simp add: unix_time_def second_def abs_less_iff)
  obtain chunks s3 where g: "getChunks R uris until s2 = Some (Inr chunks, s3)" "ok s3" "gmap_ok chunks"
    and none: "\<And>t. map_of chunks t = None \<longleftrightarrow> t \<notin> set uris \<or> newest (items t) (chunk_size t) (chunk_no (chunk_size t) until) = None"
    and some: "\<forall>t ch. map_of chunks t = Some ch \<longrightarrow> newest (items t) (chunk_size t) (chunk_no (chunk_size t) until) = Some (bc_chunkID ch)
        \<and> body_of (items t) (chunk_size t) (bc_chunkID ch) (bc_items ch)"
    using getChunks_law[OF c(2) range, of uris] unfolding look by blast
  note start = query_start[OF g(3) assms(2) none some]
  let ?q = "\<lparr>qs_chunks = chunks, qs_pq = foldl (push_first until) [] chunks, qs_result = [], qs_uniq = []\<rparr>"
  let ?L = "entered until chunks \<union> {t \<in> set uris. \<forall>x\<in>set (items t). \<not> it_timestamp x < until}"
  obtain q' s' where l: "query_loop R xxh ms cm limit itrlimit_max ?q s3 = Some (Inr q', s')" "ok s'"
      "query_inv xxh until chunk_size items removed ?L q'" "int (length (qs_result q')) \<le> max 0 limit"
    and fin: "queue_work items chunk_size chunks (qs_pq ?q) \<le> itrlimit_max \<Longrightarrow> int (length (qs_result q')) < limit \<Longrightarrow> qs_pq q' = []"
    using query_loop_law[where n = itrlimit_max and ms = ms and cm = cm and limit = limit, OF g(2) start(1)] ms cm start(2) assms(3)
    by fastforce
  have "descending_answer xxh until limit chunk_size items removed uris (qs_result q')"
    unfolding descending_answer_def
  proof (intro conjI ballI impI)
    show "answer_ok xxh until items removed (set uris) (qs_result q')"
      using answer_ok_mono[OF _ start(2)] l(3) by (simp add: query_inv_def)
    fix t x assume t: "t \<in> set uris" "reaches (items t) (chunk_size t) until" and x: "x \<in> set (items t)" "it_timestamp x < until"
      and new: "item_ID xxh x \<notin> set (removed t)" "item_ID xxh x \<notin> (item_ID xxh \<circ> bs_item) ` set (qs_result q')"
    have tL: "t \<in> ?L" by (rule start(3)[OF t])
    have ns: "\<not> seen xxh (qs_uniq q') (removed t) x" using l(3) new by (simp add: query_inv_def seen_def)
    then show "it_timestamp x \<le> it_timestamp (bs_item r)" if "r \<in> set (qs_result q')" for r
      using l(3) that tL x unfolding query_inv_def by blast
    assume "(\<Sum>t\<in>set uris. 2 * length (items t)) \<le> itrlimit_max"
    then have "queue_work items chunk_size chunks (qs_pq ?q) \<le> itrlimit_max" using start(4) by simp
    moreover have "qs_pq q' \<noteq> []" using l(3) ns tL x unfolding query_inv_def queue_inv_def by auto
    ultimately show "limit \<le> int (length (qs_result q'))" using fin by fastforce
  qed (rule l(4))
  then show ?thesis using m(1) c(1) g(1) l(1,2) by (simp add: QueryDescending_def sbind_def ret_def)
qed

end

end
