(* ===== verification/Chunkline_Store.thy ===== *)
theory Chunkline_Store
  imports Chunkline Commit_Invariants
begin

text \<open>
  The timelines a server holds itself: the repository \<^verbatim>\<open>src/internal/infra/repository/postgres/chunkline.go\<close>, the use
  case \<^verbatim>\<open>src/internal/usecase/chunkline/chunkline.go\<close> and the endpoints of \<^verbatim>\<open>src/internal/present/rest/handler.go\<close>
  that serve chunks. A timeline is a key, its items are the keys directly below it that hold a record.

  Shown here: what the endpoints serve is a source of timelines (the interpretation \<open>served\<close>), so a query over it has
  the properties shown of the query; the batch of iterator lookups answers every part as the single endpoint does.
\<close>

section \<open>The repository\<close>

definition defaultChunkSize :: int where
  "defaultChunkSize = 32"

definition key_time :: "record_key \<Rightarrow> gotime" where
  "key_time k = (case rk_createdAt k of None \<Rightarrow> zero_time | Some t \<Rightarrow> t)"

text \<open>The rows below a key that hold a record created before a cutoff.\<close>

definition members_before :: "db \<Rightarrow> int \<Rightarrow> gotime \<Rightarrow> record_key list" where
  "members_before d pid cutoff = filter (\<lambda>k. rk_parent k = Some pid \<and> rk_createdAt k \<noteq> None \<and> key_time k < cutoff) (record_keys d)"

definition repo_GetChunklineManifest :: "db \<Rightarrow> string \<Rightarrow> manifest db_result" where
  "repo_GetChunklineManifest d uri = rbind (GetRecordKeyByURI d uri) (\<lambda>recordKey.
     let first = order_limit key_time ''asc'' 1 (filter (\<lambda>k. rk_parent k = Some (rk_id recordKey) \<and> rk_createdAt k \<noteq> None) (record_keys d));
         safeURI = escape EncQueryComponent uri
     in Inr \<lparr>mf_version = ''1.0'', mf_chunkSize = 600,
          mf_firstChunk = (case first of [] \<Rightarrow> None | k # _ \<Rightarrow> Some (unix_time (key_time k) sdiv 600)),
          mf_lastChunk = None, mf_ascending = None,
          mf_descending = Some \<lparr>ep_iterator = ''/api/v2/chunkline/itr/{chunk}?uri='' @ safeURI, ep_body = ''/api/v2/chunkline/body/{chunk}?uri='' @ safeURI\<rparr>,
          mf_removed = ''/api/v2/chunkline/removed?uri='' @ safeURI\<rparr>)"

definition newest_itr :: "db \<Rightarrow> gotime \<Rightarrow> record_key \<Rightarrow> (string \<times> int) option" where
  "newest_itr d cutoff pk = (case order_limit key_time ''desc'' 1 (members_before d (rk_id pk) cutoff) of
     [] \<Rightarrow> None | k # _ \<Rightarrow> Some (rk_uri pk, unix_time (key_time k) sdiv 600))"

definition LookupLocalItrs :: "db \<Rightarrow> string list \<Rightarrow> int \<Rightarrow> (string, int) gmap" where
  "LookupLocalItrs d uris chunkID = List.map_filter (newest_itr d (int64 ((chunkID + 1) * 600) * second))
     (filter (\<lambda>k. rk_uri k \<in> set uris) (record_keys d))"

definition member_item :: "db \<Rightarrow> record_key \<Rightarrow> body_item" where
  "member_item d k = (let rec = Option.bind (rk_record k) (find_record d) in
     \<lparr>it_timestamp = (case rk_createdAt k of Some t \<Rightarrow> t | None \<Rightarrow> (case rec of None \<Rightarrow> zero_time | Some r \<Rightarrow> r_createdAt r)),
      it_content = [], it_contentType = ''application/concrnt.document+json'',
      it_href = (case Option.bind rec r_redirect of None \<Rightarrow> rk_uri k | Some h \<Rightarrow> h)\<rparr>)"

definition local_members :: "db \<Rightarrow> int \<Rightarrow> int \<Rightarrow> record_key list" where
  "local_members d pid chunkID = (let chunkDate = int64 ((chunkID + 1) * 600) * second; prevChunkDate = int64 ((chunkID - 1) * 600) * second;
       members = order_limit key_time ''desc'' defaultChunkSize (members_before d pid chunkDate)
     in if members = [] \<or> rk_createdAt (last members) = None \<or> \<not> key_time (last members) < prevChunkDate
        then order_limit key_time ''desc'' 0 (filter (\<lambda>k. prevChunkDate \<le> key_time k) (members_before d pid chunkDate))
        else members)"

definition LoadLocalBody :: "db \<Rightarrow> string \<Rightarrow> int \<Rightarrow> body_item list db_result" where
  "LoadLocalBody d uri chunkID = rbind (GetRecordKeyByURI d uri) (\<lambda>parentRecordKey.
     Inr (map (member_item d) (local_members d (rk_id parentRecordKey) chunkID)))"

section \<open>The use case\<close>

definition GetChunklineManifest :: "uc_env \<Rightarrow> commit_op \<Rightarrow> string \<Rightarrow> manifest uc_act" where
  "GetChunklineManifest E rec uri = sbind (CanonicalizeURI E rec uri) (\<lambda>canonical. repo_read (\<lambda>d. repo_GetChunklineManifest d canonical))"

definition GetLocalRemovedItems :: "string \<Rightarrow> world \<Rightarrow> string list" where
  "GetLocalRemovedItems uri w = map snd (filter (\<lambda>kv. fst kv = RemovedItemsKey uri) (w_removed w))"

definition GetRecent :: "'s chunk_resolver \<Rightarrow> (string \<Rightarrow> string) \<Rightarrow> string list \<Rightarrow> gotime \<Rightarrow> int \<Rightarrow> ('s, body_item_with_source list) act" where
  "GetRecent R xxh uris until limit = sbind (attempt (QueryDescending R xxh uris until limit)) (\<lambda>r. (case r of
     Inr items \<Rightarrow> ret items | Inl e \<Rightarrow> fail (if e = EPanic then EPanic else EOther ''failed to query descending'')))"

section \<open>The endpoints\<close>

text \<open>An answer: its status and its text or value.\<close>

datatype 'a answer = Answer (status: nat) (payload: "'a option")

definition handleChunklineItr :: "db \<Rightarrow> string \<Rightarrow> string \<Rightarrow> string answer" where
  "handleChunklineItr d uri chunk = (case atoi chunk of None \<Rightarrow> Answer 400 None
     | Some chunkID \<Rightarrow> (case map_of (LookupLocalItrs d [uri] chunkID) uri of None \<Rightarrow> Answer 404 None
        | Some itr \<Rightarrow> Answer 200 (Some (int_str itr))))"

definition handleChunklineBody :: "db \<Rightarrow> string \<Rightarrow> string \<Rightarrow> body_item list answer" where
  "handleChunklineBody d uri chunk = (case atoi chunk of None \<Rightarrow> Answer 400 None
     | Some chunkID \<Rightarrow> (case LoadLocalBody d uri chunkID of Inl e \<Rightarrow> Answer 500 None | Inr items \<Rightarrow> Answer 200 (Some items)))"

definition handleChunklineRemoved :: "world \<Rightarrow> string \<Rightarrow> string list answer" where
  "handleChunklineRemoved w uri = Answer 200 (Some (GetLocalRemovedItems uri w))"

definition chunklineItrBatchChunk :: "string \<Rightarrow> string option" where
  "chunklineItrBatchChunk path = (let prefix = ''/api/v2/chunkline/itr/'' in
     if \<not> has_prefix path prefix then None
     else let chunk = drop (length prefix) path in if chunk = [] \<or> CHR ''/'' \<in> set chunk then None else Some chunk)"

text \<open>The batch: a part is its content identifier, its path and the \<^verbatim>\<open>uri\<close> of its query.\<close>

record itr_part =
  ip_contentID :: string
  ip_path :: string
  ip_uri :: string

text \<open>The lookups of the parts, grouped by chunk, and the answers that need no lookup.\<close>

type_synonym batch_acc = "(int, (string \<times> string) list) gmap \<times> (string, string answer) gmap"

definition batch_part :: "batch_acc \<Rightarrow> itr_part \<Rightarrow> batch_acc" where
  "batch_part acc p = (case acc of (groups, responses) \<Rightarrow>
     (case chunklineItrBatchChunk (ip_path p) of None \<Rightarrow> (groups, gmap_set (ip_contentID p) (Answer 404 None) responses)
      | Some chunk \<Rightarrow> (case atoi chunk of None \<Rightarrow> (groups, gmap_set (ip_contentID p) (Answer 400 None) responses)
         | Some chunkID \<Rightarrow> (gmap_set chunkID ((case map_of groups chunkID of None \<Rightarrow> [] | Some ls \<Rightarrow> ls) @ [(ip_contentID p, ip_uri p)]) groups, responses))))"

definition group_answers :: "db \<Rightarrow> int \<times> (string \<times> string) list \<Rightarrow> (string, string answer) gmap" where
  "group_answers d g = (let results = LookupLocalItrs d (map snd (snd g)) (fst g) in
     map (\<lambda>(contentID, uri). (contentID, case map_of results uri of None \<Rightarrow> Answer 404 None | Some itr \<Rightarrow> Answer 200 (Some (int_str itr)))) (snd g))"

definition chunklineItrBatchHandler :: "db \<Rightarrow> itr_part list \<Rightarrow> (string, string answer) gmap" where
  "chunklineItrBatchHandler d parts = (case foldl batch_part ([], []) parts of (groups, responses) \<Rightarrow>
     foldl (\<lambda>m (k, v). gmap_set k v m) responses (concat (map (group_answers d) groups)))"

text \<open>The request for recent items: its parameters and the query it makes.\<close>

definition handleTimelineRecent :: "gotime \<Rightarrow> (string list \<Rightarrow> gotime \<Rightarrow> int \<Rightarrow> ('s, body_item_with_source list) act)
    \<Rightarrow> string \<Rightarrow> string \<Rightarrow> string \<Rightarrow> ('s, body_item_with_source list answer) act" where
  "handleTimelineRecent now recent uriString untilStr limitStr =
     (if uriString = [] then ret (Answer 200 (Some []))
      else (case (if untilStr = [] then Some now else map_option (\<lambda>ms. ms * 1000000) (atoi untilStr)) of None \<Rightarrow> ret (Answer 400 None)
        | Some until \<Rightarrow> (case (if limitStr = [] then Some 16 else atoi limitStr) of None \<Rightarrow> ret (Answer 400 None)
           | Some limit \<Rightarrow> sbind (attempt (recent (split_char CHR '','' uriString) until (min limit 64))) (\<lambda>r. (case r of
               Inr items \<Rightarrow> ret (Answer 200 (Some items)) | Inl e \<Rightarrow> if e = EPanic then fail EPanic else ret (Answer 500 None))))))"

section \<open>The batch answers as the single endpoint\<close>

lemma map_filter_key:
  assumes "u \<in> U" "\<And>k y. f k = Some y \<Longrightarrow> fst y = rk_uri k"
  shows "map_of (List.map_filter f (filter (\<lambda>k. rk_uri k \<in> U) ks)) u = map_of (List.map_filter f (filter (\<lambda>k. rk_uri k = u) ks)) u"
  by (induction ks) (auto simp: map_filter_simps assms(1) split: option.splits dest: assms(2))

lemma lookup_part: "u \<in> set uris \<Longrightarrow> map_of (LookupLocalItrs d uris c) u = map_of (LookupLocalItrs d [u] c) u"
  unfolding LookupLocalItrs_def
  by (subst (1 2) map_filter_key) (auto simp: newest_itr_def split: list.splits)

lemma foldl_gmap_set_other: "k \<notin> fst ` set kvs \<Longrightarrow> map_of (foldl (\<lambda>m (k, v). gmap_set k v m) m kvs) k = map_of m k"
  by (induction kvs arbitrary: m) auto

lemma foldl_gmap_set_same:
  "(k, v) \<in> set kvs \<Longrightarrow> (\<And>v'. (k, v') \<in> set kvs \<Longrightarrow> v' = v) \<Longrightarrow> map_of (foldl (\<lambda>m (k, v). gmap_set k v m) m kvs) k = Some v"
proof (induction kvs arbitrary: m)
  case (Cons kv kvs)
  show ?case
  proof (cases "k \<in> fst ` set kvs")
    case True
    then obtain v' where v': "(k, v') \<in> set kvs" by auto
    then have kv: "(k, v) \<in> set kvs" using Cons.prems(2)[of v'] by simp
    have "map_of (foldl (\<lambda>m (k, v). gmap_set k v m) m' kvs) k = Some v" for m'
      by (rule Cons.IH[OF kv]) (rule Cons.prems(2), simp)
    then show ?thesis by simp
  next
    case False
    then have "kv = (k, v)" using Cons.prems(1) by force
    then show ?thesis using foldl_gmap_set_other[OF False] by simp
  qed
qed simp

text \<open>The chunk of a part that needs a lookup.\<close>

definition part_chunk :: "itr_part \<Rightarrow> int option" where
  "part_chunk p = Option.bind (chunklineItrBatchChunk (ip_path p)) atoi"

definition single_answer :: "db \<Rightarrow> itr_part \<Rightarrow> string answer" where
  "single_answer d p = (case chunklineItrBatchChunk (ip_path p) of None \<Rightarrow> Answer 404 None
     | Some chunk \<Rightarrow> handleChunklineItr d (ip_uri p) chunk)"

definition group_of :: "(int, (string \<times> string) list) gmap \<Rightarrow> int \<Rightarrow> (string \<times> string) list" where
  "group_of groups c = (case map_of groups c of None \<Rightarrow> [] | Some ls \<Rightarrow> ls)"

lemma batch_part_step:
  "batch_part (g, r) q = (case part_chunk q of None \<Rightarrow> (g, gmap_set (ip_contentID q) (single_answer d q) r)
     | Some c \<Rightarrow> (gmap_set c (group_of g c @ [(ip_contentID q, ip_uri q)]) g, r))"
  by (simp add: batch_part_def part_chunk_def single_answer_def group_of_def handleChunklineItr_def split: option.split)

lemma batch_part_groups:
  assumes "distinct (map ip_contentID ps)" "foldl batch_part ([], []) ps = (groups, responses)"
  shows "(\<forall>c i u. (i, u) \<in> set (group_of groups c) \<longleftrightarrow> (\<exists>p\<in>set ps. part_chunk p = Some c \<and> ip_contentID p = i \<and> ip_uri p = u))
    \<and> (\<forall>p\<in>set ps. part_chunk p = None \<longrightarrow> map_of responses (ip_contentID p) = Some (single_answer d p)) \<and> gmap_ok groups"
  using assms
proof (induction ps arbitrary: groups responses rule: rev_induct)
  case Nil
  then show ?case by (simp add: group_of_def gmap_ok_def)
next
  case (snoc q ps)
  obtain g r where gr: "foldl batch_part ([], []) ps = (g, r)" by fastforce
  have IH: "\<And>c i u. (i, u) \<in> set (group_of g c) \<longleftrightarrow> (\<exists>p\<in>set ps. part_chunk p = Some c \<and> ip_contentID p = i \<and> ip_uri p = u)"
    "\<And>p. p \<in> set ps \<Longrightarrow> part_chunk p = None \<Longrightarrow> map_of r (ip_contentID p) = Some (single_answer d p)" "gmap_ok g"
    using snoc.IH[OF _ gr] snoc.prems(1) by auto
  have new: "\<And>p. p \<in> set ps \<Longrightarrow> ip_contentID p \<noteq> ip_contentID q" using snoc.prems(1) by (auto simp: image_iff)
  have step: "batch_part (g, r) q = (groups, responses)" using snoc.prems(2) gr by simp
  show ?case
  proof (cases "part_chunk q")
    case None
    then show ?thesis using IH new step by (auto simp: batch_part_step[where d = d])
  next
    case (Some c)
    then have eq: "groups = gmap_set c (group_of g c @ [(ip_contentID q, ip_uri q)]) g" "responses = r"
      using step by (auto simp: batch_part_step[where d = d])
    have "group_of groups c' = (if c' = c then group_of g c @ [(ip_contentID q, ip_uri q)] else group_of g c')" for c'
      by (simp add: eq group_of_def)
    then show ?thesis using IH Some new by (auto simp: eq)
  qed
qed

lemma group_answers_single:
  assumes "p \<in> set ps" "part_chunk p = Some c" "(ip_contentID p, ip_uri p) \<in> set ls"
  shows "(ip_contentID p, single_answer d p) \<in> set (group_answers d (c, ls))"
proof -
  have "single_answer d p = (case map_of (LookupLocalItrs d [ip_uri p] c) (ip_uri p) of None \<Rightarrow> Answer 404 None | Some itr \<Rightarrow> Answer 200 (Some (int_str itr)))"
    using assms(2) by (auto simp: part_chunk_def single_answer_def handleChunklineItr_def split: option.splits bind_splits)
  moreover have "map_of (LookupLocalItrs d (map snd ls) c) (ip_uri p) = map_of (LookupLocalItrs d [ip_uri p] c) (ip_uri p)"
    using assms(3) by (intro lookup_part) force
  ultimately show ?thesis using assms(3) by (force simp: group_answers_def Let_def)
qed

lemma batch_answers:
  assumes "distinct (map ip_contentID ps)" "p \<in> set ps"
  shows "map_of (chunklineItrBatchHandler d ps) (ip_contentID p) = Some (single_answer d p)"
proof -
  obtain groups responses where gr: "foldl batch_part ([], []) ps = (groups, responses)" by fastforce
  have G: "\<And>c i u. (i, u) \<in> set (group_of groups c) \<longleftrightarrow> (\<exists>p\<in>set ps. part_chunk p = Some c \<and> ip_contentID p = i \<and> ip_uri p = u)"
    and bad: "\<And>p. p \<in> set ps \<Longrightarrow> part_chunk p = None \<Longrightarrow> map_of responses (ip_contentID p) = Some (single_answer d p)" and ok: "gmap_ok groups"
    using batch_part_groups[OF assms(1) gr, of d] by auto
  have unique: "\<And>p'. p' \<in> set ps \<Longrightarrow> ip_contentID p' = ip_contentID p \<Longrightarrow> p' = p"
    using assms by (metis distinct_map inj_on_def)
  have grp: "group_of groups c = ls" if "(c, ls) \<in> set groups" for c ls using ok that by (simp add: group_of_def gmap_ok_def)
  let ?kvs = "concat (map (group_answers d) groups)"
  have only: "part_chunk p \<noteq> None \<and> v = single_answer d p" if v: "(ip_contentID p, v) \<in> set ?kvs" for v
  proof -
    obtain c ls where g: "(c, ls) \<in> set groups" "(ip_contentID p, v) \<in> set (group_answers d (c, ls))" using v by auto
    then obtain u where cl: "(c, ls) \<in> set groups" "(ip_contentID p, u) \<in> set ls" "(ip_contentID p, v) \<in> set (group_answers d (c, ls))"
      by (force simp: group_answers_def Let_def)
    obtain p' where "p' \<in> set ps" "part_chunk p' = Some c" "ip_contentID p' = ip_contentID p" using G[of _ u c] grp[OF cl(1)] cl(2) by auto
    then have pc: "part_chunk p = Some c" using unique by auto
    have "\<And>u'. (ip_contentID p, u') \<in> set ls \<Longrightarrow> u' = ip_uri p" using G grp[OF cl(1)] unique by metis
    then have "v = v'" if "(ip_contentID p, v') \<in> set (group_answers d (c, ls))" for v'
      using cl(3) that by (auto simp: group_answers_def Let_def)
    moreover have "(ip_contentID p, ip_uri p) \<in> set ls" using G[of _ _ c] grp[OF cl(1)] assms(2) pc by blast
    ultimately show ?thesis using pc group_answers_single[OF assms(2) pc] by blast
  qed
  show ?thesis
  proof (cases "part_chunk p")
    case None
    then have "ip_contentID p \<notin> fst ` set ?kvs" using only by force
    then show ?thesis using bad[OF assms(2) None] gr by (simp add: chunklineItrBatchHandler_def foldl_gmap_set_other)
  next
    case (Some c)
    then have mem: "(ip_contentID p, ip_uri p) \<in> set (group_of groups c)" using G assms(2) by blast
    then obtain ls where "(c, ls) \<in> set groups" "(ip_contentID p, ip_uri p) \<in> set ls"
      by (cases "map_of groups c") (auto simp: group_of_def dest: map_of_SomeD)
    then have "(ip_contentID p, single_answer d p) \<in> set ?kvs" using group_answers_single[OF assms(2) Some, of ls d] by auto
    then have "map_of (foldl (\<lambda>m (k, v). gmap_set k v m) responses ?kvs) (ip_contentID p) = Some (single_answer d p)"
      by (rule foldl_gmap_set_same) (use only in blast)
    then show ?thesis using gr by (simp add: chunklineItrBatchHandler_def)
  qed
qed

section \<open>The endpoints as a source of timelines\<close>

text \<open>A reader that asks the endpoints of the server for every timeline, as the gateway does without its cache.\<close>

definition found :: "'a answer \<Rightarrow> 'a option" where
  "found a = (if status a = 200 then payload a else None)"

definition served_itr :: "db \<Rightarrow> gotime \<Rightarrow> string \<Rightarrow> (string \<times> string) option" where
  "served_itr d until u = (case repo_GetChunklineManifest d u of Inl e \<Rightarrow> None
     | Inr m \<Rightarrow> (case Time2Chunk m until of Inl e \<Rightarrow> None
        | Inr c \<Rightarrow> if (case mf_firstChunk m of None \<Rightarrow> False | Some f \<Rightarrow> c < f) then None
            else Option.bind (found (handleChunklineItr d u (int_str c)))
              (\<lambda>itr. if itr = [] \<or> itr = ''0'' then None else Some (u, itr))))"

definition served_body :: "db \<Rightarrow> string \<times> string \<Rightarrow> (string \<times> body_chunk) option" where
  "served_body d q = (case (found (handleChunklineBody d (fst q) (snd q)), atoi (snd q)) of
     (Some items, Some c) \<Rightarrow> Some (fst q, \<lparr>bc_uri = fst q, bc_chunkID = c, bc_items = items\<rparr>) | _ \<Rightarrow> None)"

definition served_resolver :: "world chunk_resolver" where
  "served_resolver = \<lparr>cr_ResolveTimelines = (\<lambda>uris. gets (\<lambda>w. List.map_filter (\<lambda>u. case repo_GetChunklineManifest (w_db w) u of
         Inl e \<Rightarrow> None | Inr m \<Rightarrow> Some (u, m)) (remdups uris))),
     cr_GetRemovedItems = (\<lambda>uris. gets (\<lambda>w. map (\<lambda>u. (u, GetLocalRemovedItems u w)) (remdups uris))),
     cr_LookupChunkItrs = (\<lambda>uris until. gets (\<lambda>w. List.map_filter (served_itr (w_db w) until) (remdups uris))),
     cr_LoadChunkBodies = (\<lambda>query. gets (\<lambda>w. List.map_filter (served_body (w_db w)) query))\<rparr>"

text \<open>The items of a timeline.\<close>

definition local_rows :: "db \<Rightarrow> int \<Rightarrow> record_key list" where
  "local_rows d pid = filter (\<lambda>k. rk_parent k = Some pid \<and> rk_createdAt k \<noteq> None) (record_keys d)"

definition local_items :: "db \<Rightarrow> string \<Rightarrow> body_item list" where
  "local_items d t = (case find_key d t of None \<Rightarrow> [] | Some pk \<Rightarrow> map (member_item d) (local_rows d (rk_id pk)))"

definition local_removed :: "(string \<times> string) list \<Rightarrow> string \<Rightarrow> string list" where
  "local_removed rm t = map snd (filter (\<lambda>kv. fst kv = RemovedItemsKey t) rm)"

text \<open>Times after the first chunk of the epoch.\<close>

definition dated :: "db \<Rightarrow> bool" where
  "dated d \<longleftrightarrow> (\<forall>k\<in>set (record_keys d). \<forall>t. rk_createdAt k = Some t \<longrightarrow> 600 * second \<le> t \<and> t < 2 ^ 62 * second)"

lemma order_desc_sorted: "sorted_wrt (\<lambda>x y. k y \<le> k x) (order_limit k ''desc'' n rows)"
proof -
  have "sorted (map k (sort_key k rows))" by simp
  then have "sorted_wrt (\<lambda>x y. k y \<le> k x) (rev (sort_key k rows))" by (simp add: sorted_map sorted_wrt_rev)
  then show ?thesis by (simp add: order_limit_def Let_def sorted_wrt_take)
qed

lemma order_desc_all: "mset (order_limit k ''desc'' 0 rows) = mset rows" "set (order_limit k ''desc'' 0 rows) = set rows"
  by (simp_all add: order_limit_def Let_def)

lemma order_desc_top:
  assumes "0 < n"
  shows "mset (order_limit k ''desc'' n rows) \<subseteq># mset rows" "order_limit k ''desc'' n rows = [] \<longleftrightarrow> rows = []"
    "x \<in> set rows \<Longrightarrow> x \<notin> set (order_limit k ''desc'' n rows) \<Longrightarrow> k x \<le> k (last (order_limit k ''desc'' n rows))"
proof -
  let ?s = "rev (sort_key k rows)" and ?n = "nat n"
  have eq: "order_limit k ''desc'' n rows = take ?n ?s" using assms by (simp add: order_limit_def Let_def)
  have "mset (take ?n ?s) \<subseteq># mset ?s" by (metis append_take_drop_id mset_append mset_subset_eq_add_left)
  then show "mset (order_limit k ''desc'' n rows) \<subseteq># mset rows" by (simp add: eq)
  have "sort_key k rows = [] \<longleftrightarrow> rows = []" by (metis mset_sort mset_zero_iff)
  then show ne: "order_limit k ''desc'' n rows = [] \<longleftrightarrow> rows = []" using assms by (simp add: eq)
  assume x: "x \<in> set rows" "x \<notin> set (order_limit k ''desc'' n rows)"
  then have d: "x \<in> set (drop ?n ?s)"
    unfolding eq by (metis Un_iff append_take_drop_id set_append set_rev set_sort)
  have "sorted_wrt (\<lambda>x y. k y \<le> k x) (take ?n ?s @ drop ?n ?s)"
    using order_desc_sorted[of k 0 rows] by (simp add: order_limit_def Let_def)
  moreover have "last (take ?n ?s) \<in> set (take ?n ?s)" using ne x eq by (metis last_in_set length_greater_0_conv length_pos_if_in_set)
  ultimately show "k x \<le> k (last (order_limit k ''desc'' n rows))" using d unfolding eq sorted_wrt_append by blast
qed

lemma find_key_uri: "find_key d t = Some pk \<Longrightarrow> rk_uri pk = t \<and> pk \<in> set (record_keys d)"
  by (auto simp: find_key_def find_Some_iff)

lemma member_time: "k \<in> set (local_rows d pid) \<Longrightarrow> it_timestamp (member_item d k) = key_time k"
  by (auto simp: local_rows_def member_item_def key_time_def Let_def)

lemma members_before_rows: "members_before d pid cutoff = filter (\<lambda>k. key_time k < cutoff) (local_rows d pid)"
  by (simp add: members_before_def local_rows_def conj_assoc conj_commute conj_left_commute)

lemma dated_rows: "dated d \<Longrightarrow> k \<in> set (local_rows d pid) \<Longrightarrow> 600 * second \<le> key_time k \<and> key_time k < 2 ^ 62 * second"
  by (auto simp: dated_def local_rows_def key_time_def)

lemma row_chunk: "dated d \<Longrightarrow> k \<in> set (local_rows d pid) \<Longrightarrow> unix_time (key_time k) sdiv 600 = chunk_no 600 (key_time k)"
  using dated_rows[of d k pid] by (intro chunk_no_unix) (auto simp: second_def)

lemma row_chunk_bounds:
  assumes "dated d" "k \<in> set (local_rows d pid)"
  shows "1 \<le> chunk_no 600 (key_time k)" "chunk_no 600 (key_time k) < 2 ^ 53"
proof -
  show "1 \<le> chunk_no 600 (key_time k)" using dated_rows[OF assms] by (simp add: chunk_no_ge second_def)
  have "key_time k < (2 ^ 53) * (second * 600)" using dated_rows[OF assms] by (simp add: second_def)
  then have "chunk_no 600 (key_time k) \<le> 2 ^ 53 - 1" using chunk_no_le[of 600 "key_time k" "2 ^ 53 - 1"] by simp
  then show "chunk_no 600 (key_time k) < 2 ^ 53" by simp
qed

lemma cutoff_exact: "\<bar>c\<bar> < 2 ^ 53 \<Longrightarrow> int64 ((c + 1) * 600) = (c + 1) * 600" "\<bar>c\<bar> < 2 ^ 53 \<Longrightarrow> int64 ((c - 1) * 600) = (c - 1) * 600"
  by (auto intro!: int64_id)

lemma before_cutoff:
  "key_time k < (c + 1) * 600 * second \<longleftrightarrow> chunk_no 600 (key_time k) \<le> c"
  "key_time k < (c * 600 + 600) * second \<longleftrightarrow> chunk_no 600 (key_time k) \<le> c"
  using chunk_no_le[of 600 "key_time k" c] by (simp_all add: algebra_simps)

text \<open>The iterator is the newest chunk.\<close>

lemma newest_itr_newest:
  assumes "dated d" "find_key d t = Some pk"
  shows "newest_itr d ((c + 1) * 600 * second) pk = map_option (Pair t) (newest (local_items d t) 600 c)"
proof -
  let ?rows = "local_rows d (rk_id pk)"
  let ?ms = "filter (\<lambda>k. key_time k < (c + 1) * 600 * second) ?rows"
  have items: "set (local_items d t) = member_item d ` set ?rows" using assms(2) by (simp add: local_items_def)
  note top = order_desc_top[where n = 1 and k = key_time and rows = ?ms, simplified]
  show ?thesis
  proof (cases "order_limit key_time ''desc'' 1 ?ms")
    case Nil
    then have "?ms = []" using top(2) by simp
    then have "newest (local_items d t) 600 c = None"
      unfolding newest_None items by (auto simp: filter_empty_conv before_cutoff not_le member_time)
    then show ?thesis using Nil by (simp add: newest_itr_def members_before_rows)
  next
    case (Cons k ks)
    moreover have "length (order_limit key_time ''desc'' 1 ?ms) \<le> 1" by (simp add: order_limit_def Let_def)
    ultimately have ks: "ks = []" by simp
    have "k \<in> set ?ms" using set_mset_mono[OF top(1)] Cons by simp
    then have k: "k \<in> set ?rows" "chunk_no 600 (key_time k) \<le> c" by (auto simp: before_cutoff)
    have "chunk_no 600 (key_time x) \<le> chunk_no 600 (key_time k)" if "x \<in> set ?rows" "chunk_no 600 (key_time x) \<le> c" for x
    proof -
      have "x \<in> set ?ms" using that by (simp add: before_cutoff)
      then have "key_time x \<le> key_time k" using top(3)[of x] Cons ks by (cases "x = k") auto
      then show ?thesis by (simp add: chunk_no_mono)
    qed
    then have "newest (local_items d t) 600 c = Some (chunk_no 600 (key_time k))"
      unfolding newest_Some items using k by (auto simp: member_time)
    then show ?thesis using Cons row_chunk[OF assms(1) k(1)] find_key_uri[OF assms(2)]
      by (simp add: newest_itr_def members_before_rows)
  qed
qed

text \<open>What the body endpoint serves is a body of the chunk.\<close>

lemma local_members_body:
  assumes "dated d" "find_key d t = Some pk" "\<bar>c\<bar> < 2 ^ 53"
  shows "body_of (local_items d t) 600 c (map (member_item d) (local_members d (rk_id pk) c))"
proof -
  let ?rows = "local_rows d (rk_id pk)" and ?bs = "local_members d (rk_id pk) c"
  let ?ms = "filter (\<lambda>k. key_time k < (c + 1) * 600 * second) ?rows" and ?prev = "(c - 1) * 600 * second"
  have items: "local_items d t = map (member_item d) ?rows" using assms(2) by (simp add: local_items_def)
  let ?top = "order_limit key_time ''desc'' defaultChunkSize ?ms" and ?win = "order_limit key_time ''desc'' 0 (filter (\<lambda>k. ?prev \<le> key_time k) ?ms)"
  note top = order_desc_top[where n = defaultChunkSize and k = key_time and rows = ?ms]
  have bs: "?bs = (if ?top = [] \<or> rk_createdAt (last ?top) = None \<or> \<not> key_time (last ?top) < ?prev then ?win else ?top)"
    unfolding local_members_def members_before_rows Let_def cutoff_exact[OF assms(3)] ..
  have "mset ?win = filter_mset (\<lambda>k. ?prev \<le> key_time k) (mset ?ms)" by (simp only: order_desc_all(1) mset_filter)
  then have win: "mset ?win \<subseteq># mset ?ms" "set ?win = {k \<in> set ?ms. ?prev \<le> key_time k}"
    by (simp_all only: multiset_filter_subset order_desc_all(2) set_filter)
  have sub: "mset ?bs \<subseteq># mset ?ms" using bs win(1) top(1) by (simp add: defaultChunkSize_def split: if_splits)
  have rows: "set ?bs \<subseteq> set ?ms" using set_mset_mono[OF sub] by simp
  have time: "\<And>k. k \<in> set ?bs \<Longrightarrow> it_timestamp (member_item d k) = key_time k" using rows member_time by fastforce
  have "mset ?bs \<subseteq># mset ?rows" using sub multiset_filter_subset subset_mset.order_trans by (metis mset_filter)
  then have "mset (map (member_item d) ?bs) \<subseteq># mset (local_items d t)" by (simp add: items image_mset_subseteq_mono)
  moreover have "sorted_wrt (\<lambda>x y. key_time y \<le> key_time x) ?bs" using bs order_desc_sorted by metis
  then have "sorted_wrt (\<lambda>x y. it_timestamp y \<le> it_timestamp x) (map (member_item d) ?bs)"
    unfolding sorted_wrt_map by (rule sorted_wrt_mono_rel[rotated]) (auto simp: time)
  moreover have "\<forall>x\<in>set (map (member_item d) ?bs). chunk_no 600 (it_timestamp x) \<le> c"
    using rows by (auto simp: time before_cutoff)
  moreover have "k \<in> set ?bs" if k: "k \<in> set ?rows" "chunk_no 600 (key_time k) \<le> c"
      "chunk_no 600 (key_time k) = c \<or> (?bs \<noteq> [] \<and> key_time (last ?bs) < key_time k)" for k
  proof -
    have km: "k \<in> set ?ms" using k by (simp add: before_cutoff)
    have late: "?prev \<le> key_time k" if "chunk_no 600 (key_time k) = c"
      using chunk_no_ge[of 600 "c - 1" "key_time k"] that by (simp add: algebra_simps)
    show ?thesis
    proof (cases "?bs = ?win")
      case True
      have "?prev \<le> key_time k"
      proof (cases "chunk_no 600 (key_time k) = c")
        case False
        then have "?win \<noteq> []" "key_time (last ?win) < key_time k" using k(3) True by auto
        moreover have "last ?win \<in> {k \<in> set ?ms. ?prev \<le> key_time k}" using last_in_set[OF \<open>?win \<noteq> []\<close>] win(2) by simp
        ultimately show ?thesis by simp
      qed (rule late)
      then have "k \<in> set ?win" unfolding win(2) using km by simp
      then show ?thesis using True by simp
    next
      case False
      then have "?bs = ?top" "key_time (last ?top) < ?prev" "?top \<noteq> []" using bs by (auto split: if_splits)
      moreover have "key_time (last ?top) < key_time k" using k(3) late calculation order_less_le_trans by metis
      ultimately show ?thesis using top(3)[OF _ km] by (force simp: defaultChunkSize_def)
    qed
  qed
  ultimately show ?thesis unfolding body_of_def
    by (auto simp: items member_time last_map time)
qed

lemma chunk_range: "\<bar>unix_time t\<bar> < 2 ^ 62 \<Longrightarrow> \<bar>unix_time t sdiv 600\<bar> < 2 ^ 53"
proof -
  assume a: "\<bar>unix_time t\<bar> < 2 ^ 62"
  have "\<bar>unix_time t sdiv 600\<bar> = \<bar>unix_time t\<bar> div 600"
    by (auto simp: signed_divide_int_def abs_mult sgn_if)
  moreover have "\<bar>unix_time t\<bar> div 600 < 2 ^ 53" using a by simp
  ultimately show ?thesis by simp
qed

lemma order_asc_first: "order_limit k ''asc'' 1 rows = x # xs \<Longrightarrow> y \<in> set rows \<Longrightarrow> k x \<le> k y"
proof -
  assume a: "order_limit k ''asc'' 1 rows = x # xs" "y \<in> set rows"
  then obtain ys where s: "sort_key k rows = x # ys" by (cases "sort_key k rows") (auto simp: order_limit_def Let_def)
  have "sorted (map k (sort_key k rows))" "y \<in> set (sort_key k rows)" using a(2) by simp_all
  then show ?thesis using s by auto
qed

lemma find_key_filter: "keys_ok d \<Longrightarrow> find_key d t = Some pk \<Longrightarrow> filter (\<lambda>k. rk_uri k = t) (record_keys d) = [pk]"
proof -
  assume "keys_ok d" "find_key d t = Some pk"
  moreover have "distinct (map rk_uri ks) \<Longrightarrow> find (\<lambda>k. rk_uri k = t) ks = Some pk \<Longrightarrow> filter (\<lambda>k. rk_uri k = t) ks = [pk]" for ks
    by (induction ks) (auto simp: filter_empty_conv image_iff split: if_splits)
  ultimately show ?thesis by (simp add: keys_ok_def find_key_def)
qed

lemma lookup_one:
  assumes "keys_ok d" "dated d" "\<bar>c\<bar> < 2 ^ 53"
  shows "map_of (LookupLocalItrs d [t] c) t = newest (local_items d t) 600 c"
proof (cases "find_key d t")
  case None
  then have "filter (\<lambda>k. rk_uri k = t) (record_keys d) = []" by (simp add: find_key_def find_None_iff filter_empty_conv)
  then show ?thesis using None by (simp add: LookupLocalItrs_def local_items_def map_filter_simps newest_def)
next
  case (Some pk)
  have "LookupLocalItrs d [t] c = List.map_filter (newest_itr d ((c + 1) * 600 * second)) [pk]"
    using find_key_filter[OF assms(1) Some] cutoff_exact(1)[OF assms(3)] by (simp add: LookupLocalItrs_def)
  then show ?thesis unfolding newest_itr_newest[OF assms(2) Some] map_filter_simps
    by (cases "newest (local_items d t) 600 c") (simp_all add: newest_itr_newest[OF assms(2) Some] map_filter_simps)
qed

lemma newest_item: "newest (local_items d t) 600 k = Some c \<Longrightarrow> dated d \<Longrightarrow> 1 \<le> c \<and> c < 2 ^ 53"
  by (auto simp: newest_Some local_items_def member_time dest: row_chunk_bounds split: option.splits)

lemma int_str_real: "1 \<le> c \<Longrightarrow> int_str c \<noteq> [] \<and> int_str c \<noteq> ''0''"
proof -
  assume c: "1 \<le> c"
  have "int_str 0 = ''0''" by code_simp
  then have "int_str c \<noteq> ''0''" using int_str_inj[of c 0] c by auto
  then show ?thesis using c by (simp add: int_str_def)
qed

lemma served_itr_newest:
  assumes "keys_ok d" "dated d" "\<bar>unix_time until\<bar> < 2 ^ 62"
  shows "served_itr d until t = map_option (\<lambda>c. (t, int_str c)) (newest (local_items d t) 600 (unix_time until sdiv 600))"
proof (cases "find_key d t")
  case None
  then show ?thesis by (simp add: served_itr_def repo_GetChunklineManifest_def GetRecordKeyByURI_def local_items_def newest_def)
next
  case (Some pk)
  let ?c = "unix_time until sdiv 600" and ?rows = "local_rows d (rk_id pk)"
  let ?first = "order_limit key_time ''asc'' 1 ?rows"
  note range = chunk_range[OF assms(3)]
  have m: "\<exists>m. repo_GetChunklineManifest d t = Inr m \<and> mf_chunkSize m = 600
      \<and> mf_firstChunk m = (case ?first of [] \<Rightarrow> None | k # _ \<Rightarrow> Some (unix_time (key_time k) sdiv 600))"
    by (simp add: repo_GetChunklineManifest_def GetRecordKeyByURI_def Some Let_def local_rows_def)
  then obtain m where m: "repo_GetChunklineManifest d t = Inr m" "mf_chunkSize m = 600"
      "mf_firstChunk m = (case ?first of [] \<Rightarrow> None | k # _ \<Rightarrow> Some (unix_time (key_time k) sdiv 600))" by blast
  have none: "newest (local_items d t) 600 ?c = None" if f: "mf_firstChunk m = Some f" "?c < f" for f
  proof -
    obtain k ks where k: "?first = k # ks" "f = unix_time (key_time k) sdiv 600" using f(1) m(3) by (cases ?first) auto
    have "set ?first \<subseteq> set ?rows" by (auto simp: order_limit_def Let_def dest: in_set_takeD)
    then have "k \<in> set ?rows" using k(1) by simp
    then have "f = chunk_no 600 (key_time k)" using k(2) row_chunk[OF assms(2)] by simp
    then have "\<And>x. x \<in> set ?rows \<Longrightarrow> ?c < chunk_no 600 (key_time x)"
      using order_asc_first[OF k(1)] chunk_no_mono[of 600 "key_time k"] f(2) by force
    then show ?thesis using Some by (auto simp: newest_None local_items_def member_time)
  qed
  have look: "found (handleChunklineItr d t (int_str ?c)) = map_option int_str (newest (local_items d t) 600 ?c)"
    using range by (simp add: handleChunklineItr_def atoi_int_str lookup_one[OF assms(1,2) range] found_def split: option.split)
  have "served_itr d until t = (if case mf_firstChunk m of None \<Rightarrow> False | Some f \<Rightarrow> ?c < f then None
      else Option.bind (map_option int_str (newest (local_items d t) 600 ?c)) (\<lambda>itr. if itr = [] \<or> itr = ''0'' then None else Some (t, itr)))"
    using m(1,2) look by (simp add: served_itr_def Time2Chunk_def)
  then show ?thesis using none newest_item[OF _ assms(2), of t ?c] int_str_real
    by (cases "newest (local_items d t) 600 ?c") (auto split: option.splits)
qed

definition served_ok :: "db \<Rightarrow> (string \<times> string) list \<Rightarrow> world \<Rightarrow> bool" where
  "served_ok d rm w \<longleftrightarrow> w_db w = d \<and> w_removed w = rm \<and> keys_ok d \<and> dated d"

lemma map_filter_keys:
  assumes "\<And>u y. f u = Some y \<Longrightarrow> fst y = u"
  shows "distinct us \<Longrightarrow> gmap_ok (List.map_filter f us)" "map_of (List.map_filter f us) t = (if t \<in> set us then map_option snd (f t) else None)"
proof -
  have sub: "fst ` set (List.map_filter f us) \<subseteq> set us" for us
    using assms by (force simp: set_map_filter)
  show "distinct us \<Longrightarrow> gmap_ok (List.map_filter f us)"
  proof (induction us)
    case (Cons u us)
    then show ?case using assms[of u] sub[of us] by (auto simp: gmap_ok_def map_filter_simps split: option.splits)
  qed (simp add: gmap_ok_def map_filter_simps)
  show "map_of (List.map_filter f us) t = (if t \<in> set us then map_option snd (f t) else None)"
    by (induction us) (auto simp: map_filter_simps dest: assms split: option.splits)
qed

lemma served_body_law:
  assumes "keys_ok d" "dated d" "x \<in> set (local_items d t)"
  defines "c \<equiv> chunk_no 600 (it_timestamp x)"
  shows "\<exists>bs. served_body d (t, int_str c) = Some (t, \<lparr>bc_uri = t, bc_chunkID = c, bc_items = bs\<rparr>) \<and> body_of (local_items d t) 600 c bs"
proof -
  obtain pk where pk: "find_key d t = Some pk" using assms(3) by (cases "find_key d t") (auto simp: local_items_def)
  obtain k where "k \<in> set (local_rows d (rk_id pk))" "c = chunk_no 600 (key_time k)"
    using assms(3) pk by (auto simp: local_items_def c_def member_time)
  then have c: "1 \<le> c" "c < 2 ^ 53" using row_chunk_bounds[OF assms(2)] by auto
  have "atoi (int_str c) = Some c" using c by (intro atoi_int_str) auto
  moreover have "LoadLocalBody d t c = Inr (map (member_item d) (local_members d (rk_id pk) c))"
    by (simp add: LoadLocalBody_def GetRecordKeyByURI_def pk)
  moreover have "body_of (local_items d t) 600 c (map (member_item d) (local_members d (rk_id pk) c))"
    using local_members_body[OF assms(2) pk] c by simp
  ultimately show ?thesis by (simp add: served_body_def handleChunklineBody_def found_def)
qed

interpretation served: timeline_source served_resolver "served_ok d rm" "\<lambda>_. 600" "local_items d" "local_removed rm"
  for d :: db and rm :: "(string \<times> string) list"
proof (unfold_locales, goal_cases)
  case (3 s x t)
  then show ?case using dated_rows by (fastforce simp: served_ok_def local_items_def member_time second_def split: option.splits)
next
  case (4 s uris)
  let ?f = "\<lambda>u. case repo_GetChunklineManifest d u of Inl e \<Rightarrow> None | Inr m \<Rightarrow> Some (u, m)"
  have "mf_chunkSize (manifest_at (List.map_filter ?f (remdups uris)) t) = 600" if "t \<in> set uris" "local_items d t \<noteq> []" for t
  proof -
    obtain pk where "find_key d t = Some pk" using \<open>local_items d t \<noteq> []\<close> by (cases "find_key d t") (auto simp: local_items_def)
    then show ?thesis using \<open>t \<in> set uris\<close>
      by (subst manifest_at_def, subst map_filter_keys(2))
        (auto simp: repo_GetChunklineManifest_def GetRecordKeyByURI_def Let_def split: sum.splits)
  qed
  then show ?case using 4 by (simp add: served_resolver_def gets_def served_ok_def)
next
  case (5 s uris)
  have "map_of (map (\<lambda>u. (u, f u)) us) t = (if t \<in> set us then Some (f t) else None)" for f :: "string \<Rightarrow> string list" and us t
    by (induction us) auto
  then show ?case using 5
    by (simp add: served_resolver_def gets_def served_ok_def cancelled_def local_removed_def GetLocalRemovedItems_def)
next
  case (6 s until uris)
  have f: "\<And>u y. served_itr d until u = Some y \<Longrightarrow> fst y = u"
    using 6 by (auto simp: served_itr_newest served_ok_def)
  have "map_of (List.map_filter (served_itr d until) (remdups uris)) t
      = (if t \<in> set uris then map_option int_str (newest (local_items d t) 600 (unix_time until sdiv 600)) else None)" for t
    using 6 by (simp add: map_filter_keys(2)[OF f] served_itr_newest served_ok_def option.map_comp o_def)
  moreover have "gmap_ok (List.map_filter (served_itr d until) (remdups uris))" by (rule map_filter_keys(1)[OF f]) simp_all
  ultimately show ?case using 6 by (simp add: served_resolver_def gets_def served_ok_def)
next
  case (7 s query)
  then have ok: "keys_ok d" "dated d" "w_db s = d" "gmap_ok query" by (auto simp: served_ok_def)
  have one: "\<exists>ch. served_body d (t, itr) = Some (t, ch) \<and> int_str (bc_chunkID ch) = itr \<and> body_of (local_items d t) 600 (bc_chunkID ch) (bc_items ch)"
    if q: "(t, itr) \<in> set query" for t itr
  proof -
    have "map_of query t = Some itr" using ok(4) q by (simp add: gmap_ok_def)
    then obtain x where "x \<in> set (local_items d t)" "itr = int_str (chunk_no 600 (it_timestamp x))" using 7(3) by blast
    then show ?thesis using served_body_law[OF ok(1,2)] by fastforce
  qed
  let ?cs = "List.map_filter (served_body d) query"
  have "map fst (List.map_filter (served_body d) qs) = map fst qs" if "set qs \<subseteq> set query" for qs
    using that by (induction qs) (use one in \<open>fastforce simp: map_filter_simps\<close>)+
  then have fst: "map fst ?cs = map fst query" by simp
  then have set: "fst ` set ?cs = fst ` set query" by (metis set_map)
  have "gmap_ok ?cs" using ok(4) fst by (simp add: gmap_ok_def)
  moreover have "int_str (bc_chunkID ch) = itr \<and> body_of (local_items d t) 600 (bc_chunkID ch) (bc_items ch)"
    if a: "map_of query t = Some itr" "map_of ?cs t = Some ch" for t itr ch
  proof -
    obtain q where q: "q \<in> set query" "served_body d q = Some (t, ch)" using map_of_SomeD[OF a(2)] by (auto simp: set_map_filter)
    then have t: "fst q = t" using one[of "fst q" "snd q"] by auto
    then have "map_of query t = Some (snd q)" using q(1) ok(4) by (auto simp: gmap_ok_def intro!: map_of_is_SomeI)
    then have "q = (t, itr)" using t a(1) by (cases q) auto
    then show ?thesis using one[of t itr] q by auto
  qed
  ultimately show ?case using 7(1) set by (simp add: served_resolver_def gets_def ok(3))
qed simp_all

text \<open>A query changes the state only as the resolver does.\<close>

definition resolver_keeps :: "('s \<Rightarrow> bool) \<Rightarrow> 's chunk_resolver \<Rightarrow> bool" where
  "resolver_keeps I R \<longleftrightarrow> (\<forall>us t q. keeps I (cr_ResolveTimelines R us) \<and> keeps I (cr_GetRemovedItems R us)
     \<and> keeps I (cr_LookupChunkItrs R us t) \<and> keeps I (cr_LoadChunkBodies R q))"

lemma getChunks_keeps: "resolver_keeps I R \<Longrightarrow> keeps I (getChunks R us t)"
  by (auto simp: getChunks_def resolver_keeps_def intro!: keeps_rules)

lemma query_step_keeps: "resolver_keeps I R \<Longrightarrow> keeps I (query_step R xxh ms cm q)"
  unfolding query_step_def previous_chunk_def
  by (auto intro!: keeps_rules getChunks_keeps simp: Let_def)

lemma query_loop_keeps: "resolver_keeps I R \<Longrightarrow> keeps I (query_loop R xxh ms cm limit n q)"
  by (induction n arbitrary: q) (auto intro!: keeps_rules query_step_keeps)

lemma QueryDescending_keeps: "resolver_keeps I R \<Longrightarrow> keeps I (QueryDescending R xxh uris until limit)"
  unfolding QueryDescending_def
  by (intro keeps_rules getChunks_keeps query_loop_keeps) (auto simp: resolver_keeps_def)

section \<open>Recent items of the server's timelines\<close>


text \<open>A timeline with an item at each of the given seconds.\<close>

definition demo_line :: "int list \<Rightarrow> db" where
  "demo_line ts = (let ks = zip [0..<length ts] ts; i = (\<lambda>n. ''r'' @ dec_str n) in
     empty_db\<lparr>commit_logs := map (\<lambda>(n, t). \<lparr>cl_id = i n, cl_ip = [], cl_document = [], cl_proof = Proof ProofTypeNone None None None None None,
         cl_owner = ''a'', cl_gc = False, cl_cdate = t * second\<rparr>) ks,
       records := map (\<lambda>(n, t). \<lparr>r_id = i n, r_owner = ''a'', r_author = ''a'', r_redirect = None, r_schema = [], r_policies = None,
         r_distributions = [], r_createdAt = t * second\<rparr>) ks,
       record_keys := \<lparr>rk_id = 1, rk_parent = None, rk_uri = ''cckv://a/t'', rk_record = None, rk_createdAt = None, rk_clean = False\<rparr>
         # map (\<lambda>(n, t). \<lparr>rk_id = int n + 2, rk_parent = Some 1, rk_uri = ''cckv://a/t/'' @ dec_str n, rk_record = Some (i n),
               rk_createdAt = Some (t * second), rk_clean = False\<rparr>) ks,
       next_key := int (length ts) + 2\<rparr>)"

definition demo_times :: "int list" where
  "demo_times = [700, 5000, 5001, 9000]"

definition recent_hrefs :: "db \<Rightarrow> gotime \<Rightarrow> int \<Rightarrow> string list option" where
  "recent_hrefs d until limit = (case GetRecent served_resolver id [''cckv://a/t''] until limit (demo_world\<lparr>w_db := d\<rparr>) of
     Some (Inr rs, w) \<Rightarrow> Some (map (it_href \<circ> bs_item) rs) | _ \<Rightarrow> None)"

lemma demo_line_rows:
  "record_keys (demo_line demo_times) = \<lparr>rk_id = 1, rk_parent = None, rk_uri = ''cckv://a/t'', rk_record = None, rk_createdAt = None, rk_clean = False\<rparr>
     # map (\<lambda>(n, t). \<lparr>rk_id = int n + 2, rk_parent = Some 1, rk_uri = ''cckv://a/t/'' @ dec_str n, rk_record = Some (''r'' @ dec_str n),
               rk_createdAt = Some (t * second), rk_clean = False\<rparr>) [(0, 700), (1, 5000), (2, 5001), (3, 9000)]"
  "map r_id (records (demo_line demo_times)) = map (\<lambda>n. ''r'' @ dec_str n) [0, 1, 2, 3]"
  "map cl_id (commit_logs (demo_line demo_times)) = map (\<lambda>n. ''r'' @ dec_str n) [0, 1, 2, 3]" "next_key (demo_line demo_times) = 6"
  by (simp_all add: demo_line_def demo_times_def Let_def numeral_2_eq_2 numeral_3_eq_3)

lemma demo_line_ok: "keys_ok (demo_line demo_times) \<and> dated (demo_line demo_times)"
proof -
  have d: "dec_str 0 = ''0''" "dec_str (Suc 0) = ''1''" "dec_str 2 = ''2''" "dec_str 3 = ''3''" by code_simp+
  have ids: "r_id ` set (records (demo_line demo_times)) = set (map (\<lambda>n. ''r'' @ dec_str n) [0, 1, 2, 3])"
    using arg_cong[OF demo_line_rows(2), of set] by simp
  have "\<forall>r\<in>set (records (demo_line demo_times)). has_log (demo_line demo_times) (r_id r)"
    unfolding has_log_def demo_line_rows(3) using ids by auto
  then show ?thesis unfolding keys_ok_def dated_def demo_line_rows ids by (simp add: d second_def)
qed

lemma demo_recent: "recent_hrefs (demo_line demo_times) (9000 * second) 2 = Some [''cckv://a/t/2'', ''cckv://a/t/1'']"
  by code_simp




lemma served_dropped:
  assumes "served_itr (w_db w) until t = Some (t, itr)" "served_body (w_db w) (t, itr) = Some (t, ch)"
    and "list_all (\<lambda>x. until \<le> it_timestamp x) (bc_items ch)"
  shows "GetRecent served_resolver xxh [t] until limit w = Some (Inr [], w)"
proof -
  let ?f = "\<lambda>i. it_timestamp (bc_items ch ! i) < until"
  have "\<not> ?f k" if "k < length (bc_items ch)" for k using assms(3) that by (simp add: list_all_length not_less)
  then have "length (bc_items ch) \<le> sort_search ?f 0 (length (bc_items ch))"
    using sort_search_spec[of 0 "length (bc_items ch)" ?f] by (intro leI notI) (auto dest!: spec[of _ "sort_search ?f 0 (length (bc_items ch))"])
  then have "foldl (push_first until) [] [(t, ch)] = []" by (simp add: push_first_def Let_def)
  then have "query_loop served_resolver xxh ms cm limit n \<lparr>qs_chunks = [(t, ch)], qs_pq = foldl (push_first until) [] [(t, ch)], qs_result = [], qs_uniq = []\<rparr> w
      = Some (Inr \<lparr>qs_chunks = [(t, ch)], qs_pq = [], qs_result = [], qs_uniq = []\<rparr>, w)" for ms cm n
    by (cases n) (simp_all add: ret_def)
  then show ?thesis using assms(1,2)
    by (simp add: GetRecent_def QueryDescending_def getChunks_def sbind_def attempt_def ret_def served_resolver_def gets_def map_filter_simps)
qed

definition burst_line :: db where
  "burst_line = empty_db\<lparr>record_keys := \<lparr>rk_id = 1, rk_parent = None, rk_uri = ''cckv://a/t'', rk_record = None, rk_createdAt = None, rk_clean = False\<rparr>
     # map (\<lambda>n. \<lparr>rk_id = int n + 2, rk_parent = Some 1, rk_uri = ''k'' @ replicate n CHR ''k'', rk_record = None,
         rk_createdAt = Some ((if n = 0 then 700 else 60000 + int n) * second), rk_clean = False\<rparr>) [0..<33]\<rparr>"

lemma burst_served:
  "served_itr burst_line (60001 * second) ''cckv://a/t'' = Some (''cckv://a/t'', ''100'')"
  "(case served_body burst_line (''cckv://a/t'', ''100'') of None \<Rightarrow> False
     | Some (t, ch) \<Rightarrow> t = ''cckv://a/t'' \<and> list_all (\<lambda>x. 60001 * second \<le> it_timestamp x) (bc_items ch))"
  by code_simp+


end
