(* ===== verification/Chunkline_Gateway.thy ===== *)
theory Chunkline_Gateway
  imports Chunkline_Store Client_Ops
begin

text \<open>
  The timeline gateway, \<^verbatim>\<open>src/internal/infra/gateway/chunkline_gateway.go\<close>: the resolver behind the timeline query, which asks
  other servers and keeps manifests, iterators, bodies and removals in memcached, and the updater that
  applies events to the cached chunks.

  memcached is a map from keys to values with an expiry; \<open>ge_up\<close> says which keys it accepts and answers at the moment, an error is
  a miss. Realtime demand is a list of timelines; JSON and the network are parameters, as in \<open>Client\<close>. The refresh of removals that
  a query leaves to a goroutine and the second deletion that a purge leaves to a timer are operations of their own. Maps are
  walked in the order of insertion. White space of an iterator is that of ASCII.

  Shown here: in every state the operations reach, in any order and at any times, none of them panics when all manifests have
  descending endpoints; a stored body and the events that arrive later are read back as one ordered chunk.
\<close>

section \<open>References\<close>

text \<open>\<^verbatim>\<open>URL.ResolveReference\<close> of \<^verbatim>\<open>net/url\<close>.\<close>

fun resolve_elems :: "string list \<Rightarrow> string \<Rightarrow> bool \<Rightarrow> string" where
  "resolve_elems [] dst first = dst"
| "resolve_elems (e # es) dst first =
     (if e = ''.'' then resolve_elems es dst False
      else if e = ''..'' then
        (let str = drop 1 dst; cut = rev (dropWhile (\<lambda>c. c \<noteq> CHR ''/'') (rev str)) in
         if CHR ''/'' \<notin> set str then resolve_elems es ''/'' True else resolve_elems es (''/'' @ butlast cut) first)
      else resolve_elems es (dst @ (if first then [] else ''/'') @ e) False)"

definition resolvePath :: "string \<Rightarrow> string \<Rightarrow> string" where
  "resolvePath base ref =
     (let full = (if ref = [] then base else if hd ref \<noteq> CHR ''/'' then rev (dropWhile (\<lambda>c. c \<noteq> CHR ''/'') (rev base)) @ ref else ref) in
      if full = [] then []
      else let elems = split_char CHR ''/'' full; r0 = resolve_elems elems ''/'' True;
               r = (if last elems = ''.'' \<or> last elems = ''..'' then r0 @ ''/'' else r0)
           in if has_prefix (drop 1 r) ''/'' then drop 1 r else r)"

definition set_path_or_keep :: "url \<Rightarrow> string \<Rightarrow> url" where
  "set_path_or_keep u p = (case setPath u p of None \<Rightarrow> u | Some u' \<Rightarrow> u')"

definition ResolveReference :: "url \<Rightarrow> url \<Rightarrow> url" where
  "ResolveReference u ref =
     (let url = ref\<lparr>u_scheme := (if u_scheme ref = [] then u_scheme u else u_scheme ref)\<rparr> in
      if u_scheme ref \<noteq> [] \<or> u_host ref \<noteq> [] \<or> u_user ref \<noteq> None then set_path_or_keep url (resolvePath (EscapedPath ref) [])
      else if u_opaque ref \<noteq> [] then url\<lparr>u_user := None, u_host := [], u_path := []\<rparr>
      else let url1 = (if u_path ref = [] \<and> \<not> u_forceQuery ref \<and> u_rawQuery ref = []
                 then (let v = url\<lparr>u_rawQuery := u_rawQuery u\<rparr> in
                       if u_fragment ref = [] then v\<lparr>u_fragment := u_fragment u, u_rawFragment := u_rawFragment u\<rparr> else v)
                 else url)
           in if u_path ref = [] \<and> u_opaque u \<noteq> [] then url1\<lparr>u_opaque := u_opaque u, u_user := None, u_host := [], u_path := []\<rparr>
              else set_path_or_keep (url1\<lparr>u_host := u_host u, u_user := u_user u\<rparr>) (resolvePath (EscapedPath u) (EscapedPath ref)))"

lemma resolve_examples:
  "map_option url_string (Option.bind (url_parse ''cckv://con1a/home/'') (\<lambda>b. map_option (ResolveReference b) (url_parse ''/api/v2/itr/7?uri=x'')))
     = Some ''cckv://con1a/api/v2/itr/7?uri=x''"
  "map_option url_string (Option.bind (url_parse ''https://h/a/b/c'') (\<lambda>b. map_option (ResolveReference b) (url_parse ''../d/./7.json''))) = Some ''https://h/a/d/7.json''"
  by code_simp+


section \<open>The cache\<close>

record gw_env =
  ge_client :: client_env
  ge_fuel :: nat
  ge_batch :: batch_lib
  ge_answers :: "string list \<Rightarrow> string \<Rightarrow> bool"
  ge_accepts :: "string \<Rightarrow> bool"
  ge_manifest :: "manifest json_type"
  ge_items :: "body_item list option json_type"
  ge_item :: "body_item \<Rightarrow> string option"
  ge_ids :: "string list option json_type"
  ge_demand :: "string list"
  ge_open :: "string list option"

record gw_state =
  gw_cache :: "(string, string \<times> gotime) gmap"
  gw_client :: client_state

type_synonym 'a gw_act = "(gw_state, 'a) act"

definition manifestCacheTTL :: int where
  "manifestCacheTTL = 60 * 60 * 24 * 7"

definition itrCacheTTL :: int where
  "itrCacheTTL = 60 * 60 * 24 * 2"

definition bodyCacheTTL :: int where
  "bodyCacheTTL = 60 * 60 * 24 * 2"

definition removedCacheTTL :: int where
  "removedCacheTTL = 60 * 60 * 24 * 2"

definition removedFreshTTL :: int where
  "removedFreshTTL = 60"

definition manifestCacheKey :: "string \<Rightarrow> string" where
  "manifestCacheKey timeline = ''chunkline_manifest:'' @ timeline"

definition itrCacheKey :: "string \<Rightarrow> int \<Rightarrow> string" where
  "itrCacheKey timeline chunkID = ''chunkline_itr:'' @ timeline @ '':'' @ int_str chunkID"

definition bodyCacheKey :: "string \<Rightarrow> string \<Rightarrow> string" where
  "bodyCacheKey timeline chunkID = ''chunkline_body:'' @ timeline @ '':'' @ chunkID"

definition removedCacheKey :: "string \<Rightarrow> string" where
  "removedCacheKey timeline = ''chunkline_removed:'' @ timeline"

definition removedFreshKey :: "string \<Rightarrow> string" where
  "removedFreshKey timeline = ''chunkline_removed_fresh:'' @ timeline"

text \<open>The commands of memcached. A request names its keys (\<^verbatim>\<open>GetMulti\<close> gives up as a whole on a key it cannot send).\<close>

definition gw_now :: "gw_env \<Rightarrow> gotime" where
  "gw_now G = ce_now (ge_client G)"

definition mc_live :: "gw_env \<Rightarrow> gw_state \<Rightarrow> string \<Rightarrow> (string \<times> gotime) option" where
  "mc_live G s k = (case map_of (gw_cache s) k of None \<Rightarrow> None | Some (v, expires) \<Rightarrow> if gw_now G < expires then Some (v, expires) else None)"

definition mc_getMulti :: "gw_env \<Rightarrow> string list \<Rightarrow> gw_state \<Rightarrow> string \<Rightarrow> string option" where
  "mc_getMulti G keys s k = (if k \<in> set keys \<and> ge_answers G keys k then map_option fst (mc_live G s k) else None)"

definition mc_get :: "gw_env \<Rightarrow> string \<Rightarrow> gw_state \<Rightarrow> string option" where
  "mc_get G k s = mc_getMulti G [k] s k"

definition mc_store :: "string \<Rightarrow> string \<times> gotime \<Rightarrow> gw_state \<Rightarrow> gw_state" where
  "mc_store k v s = s\<lparr>gw_cache := gmap_set k v (gw_cache s)\<rparr>"

definition mc_set :: "gw_env \<Rightarrow> string \<Rightarrow> string \<Rightarrow> int \<Rightarrow> gw_state \<Rightarrow> gw_state" where
  "mc_set G k v ttl s = (if ge_accepts G k then mc_store k (v, gw_now G + ttl * second) s else s)"

definition mc_add :: "gw_env \<Rightarrow> string \<Rightarrow> string \<Rightarrow> int \<Rightarrow> gw_state \<Rightarrow> gw_state" where
  "mc_add G k v ttl s = (if mc_live G s k = None then mc_set G k v ttl s else s)"

definition mc_replace :: "gw_env \<Rightarrow> string \<Rightarrow> string \<Rightarrow> int \<Rightarrow> gw_state \<Rightarrow> gw_state" where
  "mc_replace G k v ttl s = (if mc_live G s k = None then s else mc_set G k v ttl s)"

definition mc_prepend :: "gw_env \<Rightarrow> string \<Rightarrow> string \<Rightarrow> gw_state \<Rightarrow> gw_state" where
  "mc_prepend G k v s = (case mc_live G s k of None \<Rightarrow> s
     | Some (old, expires) \<Rightarrow> if ge_accepts G k then mc_store k (v @ old, expires) s else s)"

definition mc_delete :: "gw_env \<Rightarrow> string \<Rightarrow> gw_state \<Rightarrow> gw_state" where
  "mc_delete G k s = (if ge_accepts G k then s\<lparr>gw_cache := gmap_del k (gw_cache s)\<rparr> else s)"

text \<open>A call of the client, and an error the caller passes over (a panic it does not).\<close>

definition with_client :: "'a cl_act \<Rightarrow> 'a gw_act" where
  "with_client m s = (case m (gw_client s) of None \<Rightarrow> None | Some (r, c) \<Rightarrow> Some (r, s\<lparr>gw_client := c\<rparr>))"

definition unless_error :: "('s, 'a) act \<Rightarrow> ('s, 'a option) act" where
  "unless_error m = sbind (attempt m) (\<lambda>r. (case r of Inl e \<Rightarrow> if e = EPanic then fail EPanic else ret None | Inr x \<Rightarrow> ret (Some x)))"

section \<open>Manifests\<close>

definition chunkline_type :: string where
  "chunkline_type = ''application/chunkline+json''"

definition valid_manifest :: "gw_env \<Rightarrow> string option \<Rightarrow> manifest option" where
  "valid_manifest G v = (case Option.bind v (jt_unmarshal (ge_manifest G)) of None \<Rightarrow> None
     | Some m \<Rightarrow> if mf_chunkSize m > 0 then Some m else None)"

definition cache_manifest :: "gw_env \<Rightarrow> string \<Rightarrow> manifest \<Rightarrow> gw_state \<Rightarrow> gw_state" where
  "cache_manifest G timeline m s = (case jt_marshal (ge_manifest G) m of None \<Rightarrow> s
     | Some bytes \<Rightarrow> mc_set G (manifestCacheKey timeline) bytes manifestCacheTTL s)"

definition fetch_manifest :: "gw_env \<Rightarrow> string \<Rightarrow> manifest gw_act" where
  "fetch_manifest G timeline =
     sbind (with_client (client_GetResource (ge_client G) (ge_fuel G) (ge_manifest G) timeline chunkline_type zero_opts)) (\<lambda>m.
     if mf_chunkSize m \<le> 0 then fail (EOther ''not a chunkline timeline'')
     else seq (modify (cache_manifest G timeline m)) (ret m))"

definition resolveTimeline :: "gw_env \<Rightarrow> string \<Rightarrow> manifest gw_act" where
  "resolveTimeline G timeline = sbind (gets (\<lambda>s. valid_manifest G (mc_get G (manifestCacheKey timeline) s))) (\<lambda>cached.
     (case cached of Some m \<Rightarrow> ret m | None \<Rightarrow> fetch_manifest G timeline))"

definition resolve_remaining :: "gw_env \<Rightarrow> string \<Rightarrow> (string, manifest) gmap \<Rightarrow> (string, manifest) gmap gw_act" where
  "resolve_remaining G t result = sbind (unless_error (fetch_manifest G t)) (\<lambda>r.
     ret (case r of None \<Rightarrow> result | Some m \<Rightarrow> gmap_set t m result))"

definition ResolveTimelines :: "gw_env \<Rightarrow> string list \<Rightarrow> (string, manifest) gmap gw_act" where
  "ResolveTimelines G timelines = sbind (gets (mc_getMulti G (map manifestCacheKey timelines))) (\<lambda>cached.
     let found = (\<lambda>t. valid_manifest G (cached (manifestCacheKey t)));
         result = foldl (\<lambda>m t. case found t of None \<Rightarrow> m | Some x \<Rightarrow> gmap_set t x m) [] timelines
     in sfold (resolve_remaining G) (filter (\<lambda>t. found t = None) timelines) result)"

section \<open>Endpoints of a timeline\<close>

definition gw_endpoint :: "gw_env \<Rightarrow> string \<Rightarrow> string \<Rightarrow> (string, string) gmap \<Rightarrow> url option gw_act" where
  "gw_endpoint G t template args =
     (case ce_template (ge_client G) template args of None \<Rightarrow> ret None
      | Some relPath \<Rightarrow> (case url_parse relPath of None \<Rightarrow> ret None
      | Some rel \<Rightarrow> (case url_parse t of None \<Rightarrow> ret None
      | Some base \<Rightarrow> let endpoint = ResolveReference base rel in
          if u_scheme endpoint = ''http'' \<or> u_scheme endpoint = ''https'' then ret (Some endpoint)
          else sbind (unless_error (with_client (ResolveResourceHost (ge_client G) (ge_fuel G) t))) (\<lambda>r.
            ret (map_option (\<lambda>host. endpoint\<lparr>u_scheme := ''https'', u_host := host\<rparr>) r)))))"

type_synonym requests = "(string, (string, string) gmap) gmap"

definition add_request :: "string \<Rightarrow> url \<Rightarrow> requests \<Rightarrow> requests" where
  "add_request t endpoint reqs = (let d = u_host endpoint in
     gmap_set d (gmap_set t (url_string endpoint) (case map_of reqs d of None \<Rightarrow> [] | Some rs \<Rightarrow> rs)) reqs)"

definition gw_batch :: "gw_env \<Rightarrow> requests \<Rightarrow> responses option gw_act" where
  "gw_batch G reqs = unless_error (with_client (client_BatchGet (ge_client G) (ge_fuel G) (ge_batch G) reqs))"

section \<open>Removed items\<close>

definition GetRemovedItems :: "gw_env \<Rightarrow> string list \<Rightarrow> (string, string list) gmap gw_act" where
  "GetRemovedItems G timelines = sbind (gets (mc_getMulti G (map removedCacheKey timelines))) (\<lambda>cached.
     ret (foldl (\<lambda>m t. gmap_set t (case Option.bind (cached (removedCacheKey t)) (jt_unmarshal (ge_ids G)) of
       Some (Some ids) \<Rightarrow> ids | _ \<Rightarrow> []) m) [] timelines))"

text \<open>The refresh that \<^verbatim>\<open>GetRemovedItems\<close> leaves to a goroutine.\<close>

definition removed_request :: "gw_env \<Rightarrow> (string, manifest) gmap \<Rightarrow> string \<Rightarrow> requests \<Rightarrow> requests gw_act" where
  "removed_request G manifests t reqs = (case map_of manifests t of None \<Rightarrow> ret reqs
     | Some m \<Rightarrow> if mf_removed m = [] then ret reqs
         else sbind (gw_endpoint G t (mf_removed m) []) (\<lambda>e. ret (case e of None \<Rightarrow> reqs | Some endpoint \<Rightarrow> add_request t endpoint reqs)))"

definition removed_response :: "gw_env \<Rightarrow> string \<times> http_resp \<Rightarrow> unit \<Rightarrow> unit gw_act" where
  "removed_response G tr u = (case tr of (t, resp) \<Rightarrow>
     if rs_status resp \<noteq> 200 then ret ()
     else (case jt_unmarshal (ge_ids G) (rs_body resp) of None \<Rightarrow> ret ()
       | Some ids \<Rightarrow> (case jt_marshal (ge_ids G) (Some (case ids of None \<Rightarrow> [] | Some xs \<Rightarrow> xs)) of None \<Rightarrow> ret ()
          | Some v \<Rightarrow> if ge_accepts G (removedCacheKey t)
              then seq (modify (mc_set G (removedCacheKey t) v removedCacheTTL)) (modify (mc_set G (removedFreshKey t) ''1'' removedFreshTTL))
              else ret ())))"

definition refreshRemoved :: "gw_env \<Rightarrow> string list \<Rightarrow> unit gw_act" where
  "refreshRemoved G timelines = sbind (gets (mc_getMulti G (map removedFreshKey timelines))) (\<lambda>fresh.
     let stale = filter (\<lambda>t. fresh (removedFreshKey t) = None) timelines in
     if stale = [] then ret ()
     else sbind (ResolveTimelines G stale) (\<lambda>manifests.
       sbind (sfold (removed_request G manifests) stale []) (\<lambda>reqs.
       if reqs = [] then ret ()
       else sbind (gw_batch G reqs) (\<lambda>r. (case r of None \<Rightarrow> ret ()
         | Some responces \<Rightarrow> sfold (removed_response G) responces ())))))"

section \<open>Iterators\<close>

text \<open>The chunk of a query; \<open>None\<close> for a timeline that is passed over. A manifest without descending endpoints is dereferenced.\<close>

definition query_chunk :: "manifest \<Rightarrow> gotime \<Rightarrow> (domain_error, int option) result" where
  "query_chunk m until = (case mf_descending m of None \<Rightarrow> Inl EPanic
     | Some desc \<Rightarrow> if ep_iterator desc = [] then Inr None
         else rbind (Time2Chunk m until) (\<lambda>c.
           let queryChunk = (case mf_lastChunk m of Some l \<Rightarrow> if c > l then l else c | None \<Rightarrow> c) in
           (case mf_firstChunk m of Some f \<Rightarrow> if queryChunk < f then Inr None else Inr (Some queryChunk) | None \<Rightarrow> Inr (Some queryChunk))))"

definition add_query :: "(string, manifest) gmap \<Rightarrow> gotime \<Rightarrow> string \<Rightarrow> (string, int) gmap \<Rightarrow> (string, int) gmap gw_act" where
  "add_query manifests until t queries = (case map_of manifests t of None \<Rightarrow> ret queries
     | Some m \<Rightarrow> sbind (lift (query_chunk m until)) (\<lambda>c. ret (case c of None \<Rightarrow> queries | Some k \<Rightarrow> gmap_set t k queries)))"

record 'a pending =
  pd_requests :: requests
  pd_remaining :: "(string, 'a) gmap"

definition add_pending :: "string \<Rightarrow> 'a \<Rightarrow> url option \<Rightarrow> 'a pending \<Rightarrow> 'a pending" where
  "add_pending t x endpoint p = (case endpoint of None \<Rightarrow> p
     | Some e \<Rightarrow> p\<lparr>pd_requests := add_request t e (pd_requests p), pd_remaining := gmap_set t x (pd_remaining p)\<rparr>)"

definition itr_query :: "gw_env \<Rightarrow> (string, manifest) gmap \<Rightarrow> (string \<Rightarrow> string option) \<Rightarrow> string \<times> int
    \<Rightarrow> (string, string) gmap \<times> int pending \<Rightarrow> ((string, string) gmap \<times> int pending) gw_act" where
  "itr_query G manifests cached q acc = (case q of (t, chunkID) \<Rightarrow> (case acc of (results, p) \<Rightarrow>
     (case cached (itrCacheKey t chunkID) of Some v \<Rightarrow> ret (gmap_set t v results, p)
      | None \<Rightarrow> (case map_of manifests t of None \<Rightarrow> ret acc
         | Some m \<Rightarrow> (case mf_descending m of None \<Rightarrow> fail EPanic
            | Some desc \<Rightarrow> if ep_iterator desc = [] then ret acc
                else sbind (gw_endpoint G t (ep_iterator desc) [(''chunk'', int_str chunkID)]) (\<lambda>e. ret (results, add_pending t chunkID e p)))))))"

definition trim_space :: "string \<Rightarrow> string" where
  "trim_space s = rev (dropWhile (\<lambda>c. blank_line [c]) (rev (dropWhile (\<lambda>c. blank_line [c]) s)))"

text \<open>Whether the chunk is the latest one, of which nobody but the updater adds to the cached copy.\<close>

definition latest_chunk :: "gw_env \<Rightarrow> (string, manifest) gmap \<Rightarrow> string \<Rightarrow> int \<Rightarrow> (domain_error, bool) result" where
  "latest_chunk G manifests t chunkID = rbind (Time2Chunk (manifest_at manifests t) (gw_now G)) (\<lambda>c. Inr (chunkID = c))"

definition itr_response :: "gw_env \<Rightarrow> (string, manifest) gmap \<Rightarrow> responses \<Rightarrow> string \<times> int \<Rightarrow> (string, string) gmap \<Rightarrow> (string, string) gmap gw_act" where
  "itr_response G manifests responces q results = (case q of (t, chunkID) \<Rightarrow>
     (case map_of responces t of None \<Rightarrow> ret results
      | Some resp \<Rightarrow> if rs_status resp \<noteq> 200 then ret results
          else let iterator = trim_space (rs_body resp) in
            if iterator = [] \<or> iterator = ''0'' then ret results
            else sbind (lift (latest_chunk G manifests t chunkID)) (\<lambda>latest.
              seq (if latest \<and> t \<notin> set (ge_demand G) then ret () else modify (mc_set G (itrCacheKey t chunkID) iterator itrCacheTTL))
                (ret (gmap_set t iterator results)))))"

definition LookupChunkItrs :: "gw_env \<Rightarrow> string list \<Rightarrow> gotime \<Rightarrow> (string, string) gmap gw_act" where
  "LookupChunkItrs G timelines until = sbind (ResolveTimelines G timelines) (\<lambda>manifests.
     sbind (sfold (add_query manifests until) timelines []) (\<lambda>queries.
     sbind (gets (mc_getMulti G (map (\<lambda>(t, c). itrCacheKey t c) queries))) (\<lambda>cached.
     sbind (sfold (itr_query G manifests cached) queries ([], \<lparr>pd_requests = [], pd_remaining = []\<rparr>)) (\<lambda>(results, p).
     if pd_requests p = [] then ret results
     else sbind (gw_batch G (pd_requests p)) (\<lambda>r. (case r of None \<Rightarrow> ret results
       | Some responces \<Rightarrow> sfold (itr_response G manifests responces) (pd_remaining p) results))))))"

section \<open>Bodies\<close>

text \<open>A cached body is the list of its items, each after a comma.\<close>

definition cached_items :: "gw_env \<Rightarrow> string \<Rightarrow> body_item list option" where
  "cached_items G v = map_option (\<lambda>xs. sort_key (\<lambda>x. - it_timestamp x) (case xs of None \<Rightarrow> [] | Some ys \<Rightarrow> ys))
     (jt_unmarshal (ge_items G) (''['' @ drop 1 v @ '']''))"

definition chunk_of :: "string \<Rightarrow> int \<Rightarrow> body_item list \<Rightarrow> body_chunk" where
  "chunk_of t chunkID items = \<lparr>bc_uri = t, bc_chunkID = chunkID, bc_items = items\<rparr>"

definition body_query :: "gw_env \<Rightarrow> (string, manifest) gmap \<Rightarrow> (string \<Rightarrow> string option) \<Rightarrow> string \<times> string
    \<Rightarrow> (string, body_chunk) gmap \<times> string pending \<Rightarrow> ((string, body_chunk) gmap \<times> string pending) gw_act" where
  "body_query G manifests cached q acc = (case q of (t, itr) \<Rightarrow> (case acc of (results, p) \<Rightarrow>
     (case cached (bodyCacheKey t itr) of Some v \<Rightarrow> if v = [] then fail EPanic
          else ret (case (cached_items G v, atoi itr) of (Some items, Some chunkID) \<Rightarrow> (gmap_set t (chunk_of t chunkID items) results, p) | _ \<Rightarrow> acc)
      | None \<Rightarrow> (case map_of manifests t of None \<Rightarrow> ret acc
         | Some m \<Rightarrow> (case mf_descending m of None \<Rightarrow> fail EPanic
            | Some desc \<Rightarrow> if ep_body desc = [] then ret acc
                else sbind (gw_endpoint G t (ep_body desc) [(''chunk'', itr)]) (\<lambda>e. ret (results, add_pending t itr e p)))))))"

definition body_text :: "gw_env \<Rightarrow> body_item list option \<Rightarrow> (domain_error, string option) result" where
  "body_text G items = (case jt_marshal (ge_items G) items of None \<Rightarrow> Inr None
     | Some serialized \<Rightarrow> if length serialized < 2 then Inl EPanic else Inr (Some ('','' @ butlast (drop 1 serialized))))"

definition cache_body :: "gw_env \<Rightarrow> string \<Rightarrow> string \<Rightarrow> int \<Rightarrow> bool \<Rightarrow> string \<Rightarrow> gw_state \<Rightarrow> gw_state" where
  "cache_body G t itr chunkID isLatestChunk cacheStr s =
     (if isLatestChunk then mc_set G (itrCacheKey t chunkID) itr itrCacheTTL (mc_add G (bodyCacheKey t itr) cacheStr bodyCacheTTL s)
      else mc_set G (bodyCacheKey t itr) cacheStr bodyCacheTTL s)"

definition store_body :: "gw_env \<Rightarrow> string \<Rightarrow> string \<Rightarrow> int \<Rightarrow> bool \<Rightarrow> body_item list option \<Rightarrow> unit gw_act" where
  "store_body G t itr chunkID isLatestChunk items = (if isLatestChunk \<and> t \<notin> set (ge_demand G) then ret ()
     else sbind (lift (body_text G items)) (\<lambda>v. (case v of None \<Rightarrow> ret ()
       | Some cacheStr \<Rightarrow> modify (cache_body G t itr chunkID isLatestChunk cacheStr))))"

definition body_response :: "gw_env \<Rightarrow> (string, manifest) gmap \<Rightarrow> responses \<Rightarrow> string \<times> string \<Rightarrow> (string, body_chunk) gmap \<Rightarrow> (string, body_chunk) gmap gw_act" where
  "body_response G manifests responses q results = (case q of (t, itr) \<Rightarrow>
     (case map_of responses t of None \<Rightarrow> ret results
      | Some resp \<Rightarrow> if rs_status resp \<noteq> 200 then ret results
          else (case (jt_decode (ge_items G) (rs_body resp), atoi itr) of
            (Some items, Some chunkID) \<Rightarrow>
              sbind (lift (latest_chunk G manifests t chunkID)) (\<lambda>isLatestChunk.
              seq (store_body G t itr chunkID isLatestChunk items)
                (ret (gmap_set t (chunk_of t chunkID (case items of None \<Rightarrow> [] | Some xs \<Rightarrow> xs)) results)))
          | _ \<Rightarrow> ret results)))"

definition LoadChunkBodies :: "gw_env \<Rightarrow> (string, string) gmap \<Rightarrow> (string, body_chunk) gmap gw_act" where
  "LoadChunkBodies G query = sbind (ResolveTimelines G (map fst query)) (\<lambda>manifests.
     sbind (gets (mc_getMulti G (map (\<lambda>(t, itr). bodyCacheKey t itr) query))) (\<lambda>cached.
     sbind (sfold (body_query G manifests cached) query ([], \<lparr>pd_requests = [], pd_remaining = []\<rparr>)) (\<lambda>(results, p).
     if pd_requests p = [] then ret results
     else sbind (gw_batch G (pd_requests p)) (\<lambda>r. (case r of None \<Rightarrow> ret results
       | Some responses \<Rightarrow> sfold (body_response G manifests responses) (pd_remaining p) results)))))"

definition gw_resolver :: "gw_env \<Rightarrow> gw_state chunk_resolver" where
  "gw_resolver G = \<lparr>cr_ResolveTimelines = ResolveTimelines G, cr_GetRemovedItems = GetRemovedItems G,
     cr_LookupChunkItrs = LookupChunkItrs G, cr_LoadChunkBodies = LoadChunkBodies G\<rparr>"

definition gateway_QueryDescending :: "gw_env \<Rightarrow> (string \<Rightarrow> string) \<Rightarrow> string list \<Rightarrow> gotime \<Rightarrow> int \<Rightarrow> body_item_with_source list gw_act" where
  "gateway_QueryDescending G = QueryDescending (gw_resolver G)"

section \<open>The subscriptions that stay open\<close>

text \<open>\<^verbatim>\<open>Time.Sub\<close> saturates; the product of a duration wraps.\<close>

definition time_sub :: "gotime \<Rightarrow> gotime \<Rightarrow> int" where
  "time_sub t u = max (- (2 ^ 63)) (min (2 ^ 63 - 1) (t - u))"

definition keep_open :: "gw_env \<Rightarrow> (string, manifest) gmap \<Rightarrow> string \<Rightarrow> string list \<Rightarrow> string list gw_act" where
  "keep_open G timelines t keep = (case map_of timelines t of None \<Rightarrow> ret keep
     | Some m \<Rightarrow> sbind (lift (Time2Chunk m (gw_now G))) (\<lambda>currentChunk.
         sbind (gets (\<lambda>s. (mc_get G (bodyCacheKey t (int_str currentChunk)) s, mc_get G (bodyCacheKey t (int_str (int64 (currentChunk - 1)))) s))) (\<lambda>(latest, prev).
         let start = Chunk2Time m currentChunk; duration = time_sub (Chunk2Time m (int64 (currentChunk + 1))) start in
         ret (if latest \<noteq> None then keep @ [t]
              else if prev = None then keep
              else if gw_now G < start + int64 (duration * 8) sdiv 10 then keep @ [t] else keep))))"

definition CurrentSubscriptions :: "gw_env \<Rightarrow> string list gw_act" where
  "CurrentSubscriptions G = (let ongoing = (case ge_open G of Some ps \<Rightarrow> ps | None \<Rightarrow> ge_demand G) in
     sbind (ResolveTimelines G ongoing) (\<lambda>timelines. sfold (keep_open G timelines) ongoing []))"

section \<open>The cache updater\<close>

definition last_index :: "char \<Rightarrow> string \<Rightarrow> nat option" where
  "last_index c s = (if c \<in> set s then Some (length s - 1 - length (takeWhile (\<lambda>x. x \<noteq> c) (rev s))) else None)"

fun str_index :: "string \<Rightarrow> string \<Rightarrow> nat option" where
  "str_index sub [] = (if sub = [] then Some 0 else None)"
| "str_index sub (c # s) = (if has_prefix (c # s) sub then Some 0 else map_option Suc (str_index sub s))"

definition event_timeline :: "string \<Rightarrow> string option" where
  "event_timeline uri = (case (str_index ''://'' uri, last_index CHR ''/'' uri) of
     (Some a, Some k) \<Rightarrow> if k \<le> a + 2 then None else Some (take k uri) | _ \<Rightarrow> None)"

definition event_href :: "codec \<Rightarrow> event \<Rightarrow> string" where
  "event_href C ev = (case map_of (e_references ev) (e_uri ev) of None \<Rightarrow> e_uri ev
     | Some sd \<Rightarrow> (case dec_reference C (sd_document sd) of None \<Rightarrow> e_uri ev
        | Some (doc, ref) \<Rightarrow> if d_schema doc = ReferenceURL \<and> rf_href ref \<noteq> [] then rf_href ref else e_uri ev))"

definition event_item :: "codec \<Rightarrow> event \<Rightarrow> body_item" where
  "event_item C ev = \<lparr>it_timestamp = e_timestamp ev, it_content = [], it_contentType = ''application/concrnt.document+json'', it_href = event_href C ev\<rparr>"

definition applyEventToCache :: "gw_env \<Rightarrow> event \<Rightarrow> unit gw_act" where
  "applyEventToCache G ev = (case event_timeline (e_uri ev) of None \<Rightarrow> ret ()
     | Some timeline \<Rightarrow> sbind (unless_error (resolveTimeline G timeline)) (\<lambda>r. (case r of None \<Rightarrow> ret ()
        | Some m \<Rightarrow> sbind (lift (Time2Chunk m (e_timestamp ev))) (\<lambda>epoch.
            seq (modify (mc_replace G (itrCacheKey timeline epoch) (int_str epoch) itrCacheTTL))
            (case ge_item G (event_item (ce_codec (ge_client G)) ev) of None \<Rightarrow> ret ()
             | Some serializedItem \<Rightarrow> modify (mc_prepend G (bodyCacheKey timeline (int_str epoch)) ('','' @ serializedItem)))))))"

text \<open>One turn of the loop of \<^verbatim>\<open>cacheUpdater\<close>.\<close>

definition cacheUpdater :: "gw_env \<Rightarrow> event \<Rightarrow> unit gw_act" where
  "cacheUpdater G ev = (if e_type ev \<noteq> ''created'' then ret () else applyEventToCache G ev)"

section \<open>Purging\<close>

definition purge_chunk :: "gw_env \<Rightarrow> string \<Rightarrow> int \<Rightarrow> gw_state \<Rightarrow> gw_state" where
  "purge_chunk G t chunk s = mc_delete G (bodyCacheKey t (int_str chunk)) (mc_delete G (itrCacheKey t chunk) s)"

definition purge_timeline :: "gw_env \<Rightarrow> (string, manifest) gmap \<Rightarrow> int \<Rightarrow> string \<Rightarrow> string list \<Rightarrow> string list gw_act" where
  "purge_timeline G manifests depth t keys = (case map_of manifests t of None \<Rightarrow> ret keys
     | Some m \<Rightarrow> sbind (lift (Time2Chunk m (gw_now G))) (\<lambda>current.
         seq (modify (\<lambda>s. foldl (\<lambda>s i. purge_chunk G t (int64 (current - int i)) s) s [0..<nat depth]))
           (ret (if depth = 1 then keys @ [itrCacheKey t current, bodyCacheKey t (int_str current)] else keys))))"

text \<open>The result is the keys whose deletion is repeated after \<^verbatim>\<open>purgeReplayDelay\<close>.\<close>

definition PurgeLatest :: "gw_env \<Rightarrow> string list \<Rightarrow> int \<Rightarrow> string list gw_act" where
  "PurgeLatest G prefixes depth = (if prefixes = [] then ret []
     else sbind (ResolveTimelines G prefixes) (\<lambda>manifests. sfold (purge_timeline G manifests depth) prefixes []))"

definition replayPurge :: "gw_env \<Rightarrow> string list \<Rightarrow> unit gw_act" where
  "replayPurge G keys = modify (\<lambda>s. foldl (\<lambda>s k. mc_delete G k s) s keys)"

section \<open>The gateway does not panic\<close>

text \<open>A cached body is never the empty text, whose first byte a reader would cut off; the cache of the client is as its operations expect.\<close>

definition bodies_ok :: "gw_state \<Rightarrow> bool" where
  "bodies_ok s \<longleftrightarrow> (\<forall>k v e. map_of (gw_cache s) k = Some (v, e) \<longrightarrow> has_prefix k ''chunkline_body:'' \<longrightarrow> v \<noteq> [])"

definition gw_ok :: "client_env \<Rightarrow> gw_state \<Rightarrow> bool" where
  "gw_ok E s \<longleftrightarrow> cache_ok E (gw_client s) \<and> bodies_ok s"

text \<open>An operation that keeps this, does not panic, and whose result has a property.\<close>

definition calmly :: "client_env \<Rightarrow> 'a gw_act \<Rightarrow> ('a \<Rightarrow> bool) \<Rightarrow> bool" where
  "calmly E m J \<longleftrightarrow> triple (gw_ok E) m (\<lambda>x s. gw_ok E s \<and> J x) (\<lambda>e s. gw_ok E s \<and> e \<noteq> EPanic)"

named_theorems calmly_rules

lemma calmly_basic [calmly_rules]:
  "J x \<Longrightarrow> calmly E (ret x) J" "e \<noteq> EPanic \<Longrightarrow> calmly E (fail e) J" "(\<And>s. gw_ok E s \<Longrightarrow> K (f s)) \<Longrightarrow> calmly E (gets f) K"
  "(\<And>s. gw_ok E s \<Longrightarrow> gw_ok E (g s)) \<Longrightarrow> L () \<Longrightarrow> calmly E (modify g) L"
  "(\<And>e. r = Inl e \<Longrightarrow> e \<noteq> EPanic) \<Longrightarrow> (\<And>y. r = Inr y \<Longrightarrow> M y) \<Longrightarrow> calmly E (lift r) M"
  by (auto simp: calmly_def triple_def act_simps split: sum.splits)

lemma calmly_sbind: "calmly E m K \<Longrightarrow> (\<And>x. K x \<Longrightarrow> calmly E (f x) J) \<Longrightarrow> calmly E (sbind m f) J"
  unfolding calmly_def by (rule triple_sbind, assumption) (fastforce simp: triple_def)

lemma calmly_weaken: "calmly E m K \<Longrightarrow> (\<And>x. K x \<Longrightarrow> J x) \<Longrightarrow> calmly E m J"
  unfolding calmly_def by (erule triple_conseq) auto

lemma calmly_comb [calmly_rules]:
  "calmly E u (\<lambda>_. True) \<Longrightarrow> calmly E k J \<Longrightarrow> calmly E (seq u k) J"
  "(b \<Longrightarrow> calmly E m1 J) \<Longrightarrow> (\<not> b \<Longrightarrow> calmly E m2 J) \<Longrightarrow> calmly E (if b then m1 else m2) J"
  "(y = None \<Longrightarrow> calmly E m1 J) \<Longrightarrow> (\<And>z. y = Some z \<Longrightarrow> calmly E (h z) J) \<Longrightarrow> calmly E (case y of None \<Rightarrow> m1 | Some z \<Rightarrow> h z) J"
  "(\<And>a b. q = (a, b) \<Longrightarrow> calmly E (g a b) J) \<Longrightarrow> calmly E (case q of (a, b) \<Rightarrow> g a b) J"
  "calmly E (f3 t) J \<Longrightarrow> calmly E (let x = t in f3 x) J"
proof -
  show "calmly E u (\<lambda>_. True) \<Longrightarrow> calmly E k J \<Longrightarrow> calmly E (seq u k) J" unfolding seq_def by (rule calmly_sbind)
qed (auto split: option.splits prod.splits)

lemma calmly_sfold:
  assumes "\<And>x acc. x \<in> set xs \<Longrightarrow> J acc \<Longrightarrow> calmly E (f x acc) J" "J acc"
  shows "calmly E (sfold f xs acc) J"
  using assms by (induction xs arbitrary: acc) (auto intro!: calmly_rules intro: calmly_sbind)

lemma calmly_unless: "calmly E m J \<Longrightarrow> calmly E (unless_error m) (\<lambda>r. \<forall>x. r = Some x \<longrightarrow> J x)"
proof -
  assume m: "calmly E m J"
  have "case r of Inl e \<Rightarrow> gw_ok E s' \<and> e \<noteq> EPanic | Inr y \<Rightarrow> gw_ok E s' \<and> (\<forall>x. y = Some x \<longrightarrow> J x)"
    if st: "gw_ok E s" "unless_error m s = Some (r, s')" for s r s'
  proof -
    obtain q where q: "m s = Some (q, s')" "r = (case q of Inl e \<Rightarrow> if e = EPanic then Inl EPanic else Inr None | Inr x \<Rightarrow> Inr (Some x))"
      using st(2) unfolding unless_error_def by (cases "m s") (auto simp: sbind_def attempt_def ret_def fail_def split: sum.splits if_splits)
    show ?thesis using tripleD[OF m[unfolded calmly_def] st(1) q(1)] q(2) by (cases q) auto
  qed
  then show ?thesis unfolding calmly_def by (rule tripleI)
qed

lemma calmly_client: "calm E m \<Longrightarrow> (\<And>c x c'. m c = Some (Inr x, c') \<Longrightarrow> J x) \<Longrightarrow> calmly E (with_client m) J"
proof -
  assume m: "calm E m" and J: "\<And>c x c'. m c = Some (Inr x, c') \<Longrightarrow> J x"
  have "case r of Inl e \<Rightarrow> gw_ok E s' \<and> e \<noteq> EPanic | Inr x \<Rightarrow> gw_ok E s' \<and> J x" if st: "gw_ok E s" "with_client m s = Some (r, s')" for s r s'
  proof -
    obtain c where c: "m (gw_client s) = Some (r, c)" "s' = s\<lparr>gw_client := c\<rparr>"
      using st(2) by (auto simp: with_client_def split: option.splits)
    show ?thesis using tripleD[OF m[unfolded calm_def] _ c(1)] st(1) J[of "gw_client s"] c
      by (cases r) (auto simp: gw_ok_def bodies_ok_def)
  qed
  then show ?thesis unfolding calmly_def by (rule tripleI)
qed

subsection \<open>The commands\<close>

lemma bodies_ok_store: "bodies_ok s \<Longrightarrow> (has_prefix k ''chunkline_body:'' \<Longrightarrow> fst v \<noteq> []) \<Longrightarrow> bodies_ok (mc_store k v s)"
  by (cases v) (auto simp: bodies_ok_def mc_store_def split: if_splits)

lemma mc_live_map: "mc_live G s k = Some x \<Longrightarrow> map_of (gw_cache s) k = Some x"
  by (auto simp: mc_live_def split: option.splits if_splits)

lemma gw_ok_set: "gw_ok E s \<Longrightarrow> (has_prefix k ''chunkline_body:'' \<Longrightarrow> v \<noteq> []) \<Longrightarrow> gw_ok E (mc_set G k v ttl s)"
  by (auto simp: gw_ok_def mc_set_def intro: bodies_ok_store) (simp add: mc_store_def)

lemma gw_ok_commands:
  "gw_ok E s \<Longrightarrow> (has_prefix k ''chunkline_body:'' \<Longrightarrow> v \<noteq> []) \<Longrightarrow> gw_ok E (mc_add G k v ttl s)"
  "gw_ok E s \<Longrightarrow> (has_prefix k ''chunkline_body:'' \<Longrightarrow> v \<noteq> []) \<Longrightarrow> gw_ok E (mc_replace G k v ttl s)"
  "gw_ok E s \<Longrightarrow> v \<noteq> [] \<Longrightarrow> gw_ok E (mc_prepend G k v s)"
  by (auto simp: mc_add_def mc_replace_def mc_prepend_def gw_ok_def gw_ok_set intro!: bodies_ok_store gw_ok_set[unfolded gw_ok_def] split: option.splits)
     (simp_all add: mc_store_def)

lemma gw_ok_del: "gw_ok E s \<Longrightarrow> gw_ok E (s\<lparr>gw_cache := gmap_del k (gw_cache s)\<rparr>)"
  by (auto simp: gw_ok_def bodies_ok_def split: if_splits)

lemma gw_ok_delete: "gw_ok E s \<Longrightarrow> gw_ok E (mc_delete G k s)"
  by (simp add: mc_delete_def gw_ok_del)

lemma keys_apart [simp]:
  "\<not> has_prefix (manifestCacheKey t) ''chunkline_body:''" "\<not> has_prefix (itrCacheKey t c) ''chunkline_body:''"
  "\<not> has_prefix (removedCacheKey t) ''chunkline_body:''" "\<not> has_prefix (removedFreshKey t) ''chunkline_body:''"
  "has_prefix (bodyCacheKey t i) ''chunkline_body:''"
  by (simp_all add: manifestCacheKey_def itrCacheKey_def removedCacheKey_def removedFreshKey_def bodyCacheKey_def)

lemma cached_body_ne: "gw_ok E s \<Longrightarrow> mc_getMulti G ks s (bodyCacheKey t i) = Some v \<Longrightarrow> v \<noteq> []"
  using keys_apart(5)[of t i] by (fastforce simp: mc_getMulti_def gw_ok_def bodies_ok_def dest: mc_live_map split: if_splits)

subsection \<open>The operations\<close>

text \<open>Every manifest that is a timeline's has descending endpoints.\<close>

definition descending_manifests :: "gw_env \<Rightarrow> bool" where
  "descending_manifests G \<longleftrightarrow> (\<forall>b m. (jt_unmarshal (ge_manifest G) b = Some m \<or> jt_decode (ge_manifest G) b = Some m)
     \<longrightarrow> mf_chunkSize m > 0 \<longrightarrow> mf_descending m \<noteq> None)"

definition manifest_ok :: "manifest \<Rightarrow> bool" where
  "manifest_ok m \<longleftrightarrow> mf_chunkSize m > 0 \<and> mf_descending m \<noteq> None"

definition manifests_ok :: "(string, manifest) gmap \<Rightarrow> bool" where
  "manifests_ok ms \<longleftrightarrow> (\<forall>t m. map_of ms t = Some m \<longrightarrow> manifest_ok m)"

lemma manifests_ok_set: "manifests_ok ms \<Longrightarrow> manifest_ok m \<Longrightarrow> manifests_ok (gmap_set t m ms)"
  by (auto simp: manifests_ok_def)

lemma client_GetResource_value:
  "client_GetResource F n T u a opts s = Some (Inr x, s') \<Longrightarrow> (\<exists>b. jt_unmarshal T b = Some x) \<or> (\<exists>b. jt_decode T b = Some x)"
  by (auto simp: client_GetResource_def GetResource_def fetch_resource_def fetch_json_def cache_json_def Let_def act_simps
      split: option.splits if_splits)

lemma calmly_fetch_manifest:
  assumes "descending_manifests G"
  shows "calmly E (fetch_manifest G t) manifest_ok"
proof -
  have "calmly E (with_client (client_GetResource (ge_client G) (ge_fuel G) (ge_manifest G) t chunkline_type zero_opts))
      (\<lambda>m. mf_chunkSize m > 0 \<longrightarrow> mf_descending m \<noteq> None)"
    using assms by (intro calmly_client calm_client_GetResource) (auto simp: descending_manifests_def dest: client_GetResource_value)
  then show ?thesis unfolding fetch_manifest_def
    by (rule calmly_sbind) (intro calmly_rules, auto simp: manifest_ok_def cache_manifest_def intro: gw_ok_set split: option.splits)
qed

lemma valid_manifest_ok: "descending_manifests G \<Longrightarrow> valid_manifest G v = Some m \<Longrightarrow> manifest_ok m"
  by (auto simp: valid_manifest_def manifest_ok_def descending_manifests_def split: option.splits if_splits bind_splits)

lemma calmly_resolveTimeline: "descending_manifests G \<Longrightarrow> calmly E (resolveTimeline G t) manifest_ok"
  unfolding resolveTimeline_def
  by (rule calmly_sbind[where K = "\<lambda>c. \<forall>m. c = Some m \<longrightarrow> manifest_ok m"]) (auto intro!: calmly_rules calmly_fetch_manifest dest: valid_manifest_ok)

lemma cached_manifests_ok:
  assumes "descending_manifests G" "manifests_ok ms"
  shows "manifests_ok (foldl (\<lambda>m t. case valid_manifest G (f t) of None \<Rightarrow> m | Some x \<Rightarrow> gmap_set t x m) ms ts)"
  using assms(2) by (induction ts arbitrary: ms) (auto split: option.splits intro: manifests_ok_set valid_manifest_ok[OF assms(1)])

lemma calmly_ResolveTimelines:
  assumes "descending_manifests G"
  shows "calmly E (ResolveTimelines G ts) manifests_ok"
proof -
  have "calmly E (resolve_remaining G t ms) manifests_ok" if "manifests_ok ms" for t ms
    unfolding resolve_remaining_def using that
    by (intro calmly_sbind[OF calmly_unless[OF calmly_fetch_manifest[OF assms]]] calmly_rules) (auto intro: manifests_ok_set split: option.splits)
  then show ?thesis unfolding ResolveTimelines_def Let_def
    by (intro calmly_sbind[where K = "\<lambda>_. True"] calmly_sfold calmly_rules cached_manifests_ok[OF assms]) (simp_all add: manifests_ok_def)
qed

lemma calmly_endpoint: "calmly E (gw_endpoint G t tmp args) (\<lambda>_. True)"
proof -
  have "calm E (ResolveResourceHost F n u)" for F n u
    unfolding ResolveResourceHost_def by (intro calm_rules calm_server) (auto simp: rmap_err_def split: sum.splits)
  then have "calmly E (unless_error (with_client (ResolveResourceHost F n u))) (\<lambda>_. True)" for F n u
    by (intro calmly_weaken[OF calmly_unless[OF calmly_client[where J = "\<lambda>_. True"]]]) auto
  then show ?thesis unfolding gw_endpoint_def Let_def
    by (intro calmly_rules calmly_sbind[where K = "\<lambda>_. True"]) simp_all
qed

lemma calmly_batch: "calmly E (gw_batch G reqs) (\<lambda>_. True)"
  unfolding gw_batch_def by (intro calmly_weaken[OF calmly_unless[OF calmly_client[OF calm_BatchGet, where J = "\<lambda>_. True"]]]) auto

lemma calmly_refreshRemoved: "descending_manifests G \<Longrightarrow> calmly E (refreshRemoved G ts) (\<lambda>_. True)"
proof -
  assume d: "descending_manifests G"
  have req: "calmly E (removed_request G ms t reqs) (\<lambda>_. True)" for ms t reqs
    unfolding removed_request_def by (intro calmly_rules calmly_sbind[OF calmly_endpoint]) simp_all
  have resp: "calmly E (removed_response G tr u) (\<lambda>_. True)" for tr u
    unfolding removed_response_def by (intro calmly_rules gw_ok_set) simp_all
  show ?thesis unfolding refreshRemoved_def Let_def
    by (intro calmly_sbind[where K = "\<lambda>_. True"] calmly_sfold[where J = "\<lambda>_. True"] calmly_rules req resp calmly_batch
        calmly_weaken[OF calmly_ResolveTimelines[OF d]]) simp_all
qed

lemma Time2Chunk_ok: "manifest_ok m \<Longrightarrow> \<exists>c. Time2Chunk m u = Inr c"
  by (simp add: Time2Chunk_def manifest_ok_def)

lemma query_chunk_ok: "manifest_ok m \<Longrightarrow> query_chunk m u \<noteq> Inl e"
  using Time2Chunk_ok[of m u] by (auto simp: query_chunk_def manifest_ok_def Let_def split: option.splits if_splits)

lemma manifests_okD: "manifests_ok ms \<Longrightarrow> map_of ms t = Some m \<Longrightarrow> manifest_ok m"
  by (simp add: manifests_ok_def)

lemma latest_chunk_ok: "manifests_ok ms \<Longrightarrow> map_of ms t \<noteq> None \<Longrightarrow> latest_chunk G ms t c \<noteq> Inl e"
  using Time2Chunk_ok[of "manifest_at ms t" "gw_now G"] manifests_okD[of ms t] by (auto simp: latest_chunk_def manifest_at_def)

text \<open>Requests are outstanding only for timelines with a manifest.\<close>

definition pending_ok :: "(string, manifest) gmap \<Rightarrow> 'a pending \<Rightarrow> bool" where
  "pending_ok ms p \<longleftrightarrow> fst ` set (pd_remaining p) \<subseteq> dom (map_of ms)"

lemma pending_ok_add: "pending_ok ms p \<Longrightarrow> map_of ms t = Some m \<Longrightarrow> pending_ok ms (add_pending t x e p)"
  by (cases e) (auto simp: pending_ok_def add_pending_def set_gmap_set simp del: image_subset_iff)

lemma calmly_LookupChunkItrs:
  assumes "descending_manifests G"
  shows "calmly E (LookupChunkItrs G ts until) (\<lambda>_. True)"
proof -
  have add: "calmly E (add_query ms until t qs) (\<lambda>_. True)" if "manifests_ok ms" for ms t qs
    unfolding add_query_def using query_chunk_ok manifests_okD[OF that]
    by (intro calmly_rules calmly_sbind[where K = "\<lambda>_. True"]) auto
  have query: "calmly E (itr_query G ms cached q acc) (\<lambda>acc. pending_ok ms (snd acc))" if "manifests_ok ms" "pending_ok ms (snd acc)" for ms cached q acc
    unfolding itr_query_def using that manifests_okD[OF that(1)]
    by (intro calmly_rules calmly_sbind[OF calmly_endpoint]) (fastforce simp: manifest_ok_def intro: pending_ok_add)+
  have resp: "calmly E (itr_response G ms rs q results) (\<lambda>_. True)" if "manifests_ok ms" "map_of ms (fst q) \<noteq> None" for ms rs q results
    unfolding itr_response_def Let_def using that latest_chunk_ok[OF that]
    by (intro calmly_rules calmly_sbind[where K = "\<lambda>_. True"] gw_ok_set) auto
  show ?thesis unfolding LookupChunkItrs_def
    apply (rule calmly_sbind[OF calmly_ResolveTimelines[OF assms]])
    apply (rule calmly_sbind[OF calmly_sfold[where J = "\<lambda>_. True"]], rule add, assumption, simp)
    apply (rule calmly_sbind[where K = "\<lambda>_. True"], rule calmly_basic(3), simp)
    apply (rule calmly_sbind[OF calmly_sfold], erule (1) query, simp add: pending_ok_def)
    apply (intro calmly_rules calmly_sbind[OF calmly_batch] calmly_sfold[where J = "\<lambda>_. True"] resp)
    by (auto simp: pending_ok_def)
qed

text \<open>The text of a slice is that of an array, or \<^verbatim>\<open>null\<close>.\<close>

definition array_texts :: "gw_env \<Rightarrow> bool" where
  "array_texts G \<longleftrightarrow> (\<forall>xs b. jt_marshal (ge_items G) xs = Some b \<longrightarrow> 2 \<le> length b)"

lemma gw_ok_cache_body: "gw_ok E s \<Longrightarrow> v \<noteq> [] \<Longrightarrow> gw_ok E (cache_body G t itr c latest v s)"
  by (auto simp: cache_body_def intro!: gw_ok_set gw_ok_commands)

lemma body_text_ok: "array_texts G \<Longrightarrow> body_text G xs \<noteq> Inl e" "body_text G xs = Inr (Some v) \<Longrightarrow> v \<noteq> []"
  by (auto simp: array_texts_def body_text_def not_less[symmetric] split: option.splits if_splits)

lemma calmly_LoadChunkBodies:
  assumes "descending_manifests G" "array_texts G"
  shows "calmly E (LoadChunkBodies G qs) (\<lambda>_. True)"
proof -
  have query: "calmly E (body_query G ms cached q acc) (\<lambda>acc. pending_ok ms (snd acc))"
    if "manifests_ok ms" "\<And>t i v. cached (bodyCacheKey t i) = Some v \<Longrightarrow> v \<noteq> []" "pending_ok ms (snd acc)" for ms cached q acc
    unfolding body_query_def using that manifests_okD[OF that(1)]
    by (intro calmly_rules calmly_sbind[OF calmly_endpoint]) (fastforce simp: manifest_ok_def intro: pending_ok_add split: option.splits)+
  have resp: "calmly E (body_response G ms rs q results) (\<lambda>_. True)" if "manifests_ok ms" "map_of ms (fst q) \<noteq> None" for ms rs q results
  proof -
    have "calmly E (store_body G t i k l xs) (\<lambda>_. True)" for t i k l xs
      unfolding store_body_def
      using body_text_ok(1)[OF assms(2)] by (intro calmly_rules calmly_sbind[where K = "\<lambda>v. body_text G xs = Inr v"]) (auto intro: gw_ok_cache_body dest: body_text_ok(2))
    then show ?thesis unfolding body_response_def using that latest_chunk_ok[OF that]
      by (intro calmly_rules calmly_sbind[where K = "\<lambda>_. True"]) auto
  qed
  show ?thesis unfolding LoadChunkBodies_def
    apply (rule calmly_sbind[OF calmly_ResolveTimelines[OF assms(1)]])
    apply (rule calmly_sbind[where K = "\<lambda>f. \<forall>t i v. f (bodyCacheKey t i) = Some v \<longrightarrow> v \<noteq> []"], rule calmly_basic(3), use cached_body_ne in blast)
    apply (rule calmly_sbind[OF calmly_sfold], erule query, blast, assumption, simp add: pending_ok_def)
    apply (intro calmly_rules calmly_sbind[OF calmly_batch] calmly_sfold[where J = "\<lambda>_. True"] resp)
    by (auto simp: pending_ok_def)
qed

lemma calmly_chunk: "manifest_ok m \<Longrightarrow> calmly E (lift (Time2Chunk m u)) (\<lambda>_. True)"
  using Time2Chunk_ok[of m u] by (auto intro!: calmly_rules)

lemma calmly_subscriptions: "descending_manifests G \<Longrightarrow> calmly E (CurrentSubscriptions G) (\<lambda>_. True)"
proof -
  assume d: "descending_manifests G"
  have "calmly E (keep_open G ms t keep) (\<lambda>_. True)" if "manifests_ok ms" for ms t keep
    unfolding keep_open_def Let_def using manifests_okD[OF that] 
    by (intro calmly_rules calmly_sbind[OF calmly_chunk] calmly_sbind[where K = "\<lambda>_. True"]) auto
  then show ?thesis unfolding CurrentSubscriptions_def Let_def
    by (intro calmly_sbind[OF calmly_ResolveTimelines[OF d]] calmly_sfold) simp_all
qed

lemma calmly_event: "descending_manifests G \<Longrightarrow> calmly E (cacheUpdater G ev) (\<lambda>_. True)"
  unfolding cacheUpdater_def applyEventToCache_def
  by (intro calmly_rules calmly_sbind[OF calmly_unless[OF calmly_resolveTimeline]] calmly_sbind[OF calmly_chunk] gw_ok_commands) simp_all

lemma gw_ok_foldl: "(\<And>s x. gw_ok E s \<Longrightarrow> gw_ok E (f s x)) \<Longrightarrow> gw_ok E s \<Longrightarrow> gw_ok E (foldl f s xs)"
  by (induction xs arbitrary: s) simp_all

lemma calmly_purge: "descending_manifests G \<Longrightarrow> calmly E (PurgeLatest G ts d) (\<lambda>_. True)"
proof -
  assume d: "descending_manifests G"
  have "calmly E (purge_timeline G ms d t keys) (\<lambda>_. True)" if "manifests_ok ms" for ms d t keys
    unfolding purge_timeline_def using manifests_okD[OF that]
    by (intro calmly_rules calmly_sbind[OF calmly_chunk] gw_ok_foldl) (auto simp: purge_chunk_def intro: gw_ok_delete)
  then show ?thesis unfolding PurgeLatest_def
    by (intro calmly_rules calmly_sbind[OF calmly_ResolveTimelines[OF d]] calmly_sfold) simp_all
qed

subsection \<open>Runs\<close>

datatype gw_op = OpResolve "string list" | OpRemoved "string list" | OpRefresh "string list" | OpItrs "string list" gotime
  | OpBodies "(string, string) gmap" | OpSubscriptions | OpEvent event | OpPurge "string list" int | OpReplay "string list"

definition forget :: "('s, 'a) act \<Rightarrow> ('s, unit) act" where
  "forget m = sbind m (\<lambda>_. ret ())"

fun gw_run :: "gw_env \<Rightarrow> gw_op \<Rightarrow> unit gw_act" where
  "gw_run G (OpResolve ts) = forget (ResolveTimelines G ts)"
| "gw_run G (OpRemoved ts) = forget (GetRemovedItems G ts)"
| "gw_run G (OpRefresh ts) = refreshRemoved G ts"
| "gw_run G (OpItrs ts until) = forget (LookupChunkItrs G ts until)"
| "gw_run G (OpBodies q) = forget (LoadChunkBodies G q)"
| "gw_run G OpSubscriptions = forget (CurrentSubscriptions G)"
| "gw_run G (OpEvent ev) = cacheUpdater G ev"
| "gw_run G (OpPurge ts d) = forget (PurgeLatest G ts d)"
| "gw_run G (OpReplay ks) = replayPurge G ks"

text \<open>The same gateway at another time, with another demand, and with memcached up for other keys.\<close>

definition gw_at :: "gotime \<Rightarrow> (string list \<Rightarrow> string \<Rightarrow> bool) \<Rightarrow> (string \<Rightarrow> bool) \<Rightarrow> string list \<Rightarrow> string list option \<Rightarrow> gw_env \<Rightarrow> gw_env" where
  "gw_at now ans acc demand op G = G\<lparr>ge_client := (ge_client G)\<lparr>ce_now := now\<rparr>, ge_answers := ans, ge_accepts := acc, ge_demand := demand, ge_open := op\<rparr>"

inductive gw_reach :: "gw_env \<Rightarrow> gw_state \<Rightarrow> bool" for G where
  start: "client_reach (ge_client G) c \<Longrightarrow> gw_reach G \<lparr>gw_cache = [], gw_client = c\<rparr>"
| step: "gw_reach G s \<Longrightarrow> gw_run (gw_at now ans acc demand op G) a s = Some (r, s') \<Longrightarrow> gw_reach G s'"
| evict: "gw_reach G s \<Longrightarrow> gw_reach G (s\<lparr>gw_cache := gmap_del k (gw_cache s)\<rparr>)"

lemma gw_at_laws [simp]:
  "descending_manifests (gw_at now ans acc demand op G) = descending_manifests G" "array_texts (gw_at now ans acc demand op G) = array_texts G"
  by (simp_all add: gw_at_def descending_manifests_def array_texts_def)

lemma calmly_forget: "calmly E m J \<Longrightarrow> calmly E (forget m) (\<lambda>_. True)"
  unfolding forget_def by (erule calmly_sbind) (intro calmly_rules, simp_all)

lemma calmly_run:
  assumes "descending_manifests G" "array_texts G"
  shows "calmly E (gw_run G a) (\<lambda>_. True)"
proof (cases a)
  case (OpRemoved ts)
  then show ?thesis by (auto simp: GetRemovedItems_def intro!: calmly_forget calmly_rules intro: calmly_sbind[where K = "\<lambda>_. True"])
next
  case (OpReplay ks)
  then show ?thesis by (auto simp: replayPurge_def intro!: calmly_rules gw_ok_foldl gw_ok_delete)
qed (use assms in \<open>auto intro: calmly_forget[OF calmly_ResolveTimelines] calmly_refreshRemoved calmly_forget[OF calmly_LookupChunkItrs]
      calmly_forget[OF calmly_LoadChunkBodies] calmly_forget[OF calmly_subscriptions] calmly_event calmly_forget[OF calmly_purge]\<close>)

lemma gw_reach_ok:
  assumes "gw_reach G s" "client_laws (ge_client G)" "descending_manifests G" "array_texts G"
  shows "gw_ok (ge_client G) s"
  using assms(1)
proof induction
  case (start c)
  then show ?case using client_reach_cache_ok[OF _ assms(2)] by (simp add: gw_ok_def bodies_ok_def)
next
  case (step s now ans acc demand op a r s')
  then show ?case using calmly_run[of "gw_at now ans acc demand op G" "ge_client G" a] assms(3,4)
    by (auto simp: calmly_def dest!: tripleD split: sum.splits)
qed (rule gw_ok_del)


section \<open>Events reach the readers\<close>

text \<open>Documented behaviour of \<^verbatim>\<open>encoding/json\<close>: the text of a slice is the texts of its elements between brackets and commas, and decodes to it.\<close>

definition item_codec :: "gw_env \<Rightarrow> bool" where
  "item_codec G \<longleftrightarrow> (\<forall>xs bs. xs \<noteq> [] \<longrightarrow> map (ge_item G) xs = map Some bs \<longrightarrow>
     jt_marshal (ge_items G) (Some xs) = Some (''['' @ join_with '','' bs @ '']'')
     \<and> jt_unmarshal (ge_items G) (''['' @ join_with '','' bs @ '']'') = Some (Some xs))"

definition memcached_up :: "gw_env \<Rightarrow> bool" where
  "memcached_up G \<longleftrightarrow> (\<forall>ks k. ge_answers G ks k) \<and> (\<forall>k. ge_accepts G k)"

definition holds_body :: "gw_env \<Rightarrow> gw_state \<Rightarrow> string \<Rightarrow> int \<Rightarrow> body_item list \<Rightarrow> bool" where
  "holds_body G s t c xs \<longleftrightarrow> xs \<noteq> [] \<and> (\<exists>bs e. map (ge_item G) xs = map Some bs
     \<and> mc_live G s (bodyCacheKey t (int_str c)) = Some (concat (map (\<lambda>b. '','' @ b) bs), e))"

lemma comma_join: "bs \<noteq> [] \<Longrightarrow> concat (map (\<lambda>b. '','' @ b) bs) = '','' @ join_with '','' bs"
  by (induction bs rule: induct_list012) simp_all

lemma mc_live_store: "mc_live G (mc_store k (v, e) s) k' = (if k' = k then (if gw_now G < e then Some (v, e) else None) else mc_live G s k')"
  by (simp add: mc_live_def mc_store_def)

lemma keys_differ [simp]:
  "bodyCacheKey t i \<noteq> itrCacheKey t' c" "itrCacheKey t' c \<noteq> bodyCacheKey t i" "bodyCacheKey t i \<noteq> manifestCacheKey t'"
  "manifestCacheKey t' \<noteq> bodyCacheKey t i" "manifestCacheKey t' \<noteq> itrCacheKey t c" "itrCacheKey t c \<noteq> manifestCacheKey t'"
  by (simp_all add: bodyCacheKey_def itrCacheKey_def manifestCacheKey_def)

lemma map_Some_ex: "(\<forall>x\<in>set xs. f x \<noteq> None) \<Longrightarrow> \<exists>bs. map f xs = map Some bs"
  by (rule exI[of _ "map (the \<circ> f) xs"]) auto

lemma holds_stored:
  assumes "item_codec G" "memcached_up G" "xs \<noteq> []" "\<forall>x\<in>set xs. ge_item G x \<noteq> None"
    and "latest \<Longrightarrow> t \<in> set (ge_demand G) \<and> mc_live G s (bodyCacheKey t (int_str c)) = None"
    and "store_body G t (int_str c) c latest (Some xs) s = Some (r, s')"
  shows "r = Inr () \<and> holds_body G s' t c xs \<and> mc_live G s' (manifestCacheKey u) = mc_live G s (manifestCacheKey u)"
proof -
  obtain bs where bs: "map (ge_item G) xs = map Some bs" using map_Some_ex[OF assms(4)] by blast
  then have ne: "bs \<noteq> []" using assms(3) by auto
  have bt: "body_text G (Some xs) = Inr (Some (concat (map (\<lambda>b. '','' @ b) bs)))"
    using assms(1,3) bs by (simp add: item_codec_def body_text_def comma_join[OF ne, simplified] butlast_append)
  have "gw_now G < gw_now G + bodyCacheTTL * second" by (simp add: bodyCacheTTL_def second_def)
  then show ?thesis using assms(2,3,5,6) bs bt
    by (cases latest) (auto simp: store_body_def act_simps cache_body_def mc_set_def mc_add_def memcached_up_def holds_body_def mc_live_store)
qed

lemma resolveTimeline_cached:
  "memcached_up G \<Longrightarrow> valid_manifest G (map_option fst (mc_live G s (manifestCacheKey t))) = Some m \<Longrightarrow> resolveTimeline G t s = Some (Inr m, s)"
  by (simp add: resolveTimeline_def sbind_def act_simps mc_get_def mc_getMulti_def memcached_up_def)

lemma event_prepended:
  assumes "memcached_up G" "valid_manifest G (map_option fst (mc_live G s (manifestCacheKey t))) = Some m" "holds_body G s t c xs"
    and "e_type ev = ''created''" "event_timeline (e_uri ev) = Some t" "Time2Chunk m (e_timestamp ev) = Inr c"
    and "ge_item G (event_item (ce_codec (ge_client G)) ev) \<noteq> None"
  shows "\<exists>s'. cacheUpdater G ev s = Some (Inr (), s') \<and> holds_body G s' t c (event_item (ce_codec (ge_client G)) ev # xs)
    \<and> mc_live G s' (manifestCacheKey t) = mc_live G s (manifestCacheKey t)"
proof -
  let ?x = "event_item (ce_codec (ge_client G)) ev"
  let ?s1 = "mc_replace G (itrCacheKey t c) (int_str c) itrCacheTTL s"
  obtain b where b: "ge_item G ?x = Some b" using assms(7) by blast
  obtain bs e where bs: "xs \<noteq> []" "map (ge_item G) xs = map Some bs"
      "mc_live G s (bodyCacheKey t (int_str c)) = Some (concat (map (\<lambda>b. '','' @ b) bs), e)"
    using assms(3) unfolding holds_body_def by blast
  have e: "gw_now G < e" using bs(3) by (auto simp: mc_live_def split: option.splits if_splits)
  let ?s2 = "mc_prepend G (bodyCacheKey t (int_str c)) ('','' @ b) ?s1"
  have same: "mc_live G ?s1 k = mc_live G s k" if "k \<noteq> itrCacheKey t c" for k
    using that by (simp add: mc_replace_def mc_set_def mc_live_store)
  have run: "cacheUpdater G ev s = Some (Inr (), ?s2)"
    using assms(4,5,6) b resolveTimeline_cached[OF assms(1,2)]
    by (simp add: cacheUpdater_def applyEventToCache_def unless_error_def attempt_def sbind_def seq_def act_simps)
  have live: "mc_live G ?s2 k = (if k = bodyCacheKey t (int_str c) then Some (concat (map (\<lambda>b. '','' @ b) (b # bs)), e) else mc_live G ?s1 k)" for k
    using assms(1) bs(3) e by (simp add: mc_prepend_def same mc_live_store memcached_up_def)
  have "holds_body G ?s2 t c (?x # xs)" unfolding holds_body_def using bs(2) b live by (intro conjI exI[of _ "b # bs"] exI[of _ e]) simp_all
  then show ?thesis using run live same by auto
qed

lemma cached_read:
  assumes "item_codec G" "memcached_up G" "valid_manifest G (map_option fst (mc_live G s (manifestCacheKey t))) = Some m"
    and "holds_body G s t c xs" "- (2 ^ 63) \<le> c" "c < 2 ^ 63"
  shows "LoadChunkBodies G [(t, int_str c)] s = Some (Inr [(t, chunk_of t c (sort_key (\<lambda>x. - it_timestamp x) xs))], s)"
proof -
  obtain bs e where bs: "xs \<noteq> []" "map (ge_item G) xs = map Some bs"
      "mc_live G s (bodyCacheKey t (int_str c)) = Some (concat (map (\<lambda>b. '','' @ b) bs), e)"
    using assms(4) unfolding holds_body_def by blast
  then have ne: "bs \<noteq> []" by auto
  have items: "cached_items G ('','' @ join_with '','' bs) = Some (sort_key (\<lambda>x. - it_timestamp x) xs)"
    using assms(1) bs(1,2) by (simp add: item_codec_def cached_items_def)
  have rt: "ResolveTimelines G [t] s = Some (Inr [(t, m)], s)"
    using assms(2,3) by (simp add: ResolveTimelines_def sbind_def act_simps mc_getMulti_def memcached_up_def)
  have got: "mc_getMulti G [bodyCacheKey t (int_str c)] s (bodyCacheKey t (int_str c)) = Some ('','' @ join_with '','' bs)"
    using assms(2) bs(3) comma_join[OF ne] by (simp add: mc_getMulti_def memcached_up_def)
  show ?thesis using items got rt atoi_int_str[OF assms(5,6)]
    by (simp add: LoadChunkBodies_def sbind_def act_simps body_query_def)
qed


section \<open>An instance\<close>

definition demo_line_uri :: string where
  "demo_line_uri = ''cckv://a/t''"

definition demo_item :: "int \<Rightarrow> body_item" where
  "demo_item n = \<lparr>it_timestamp = (6000 + n) * second, it_content = [], it_contentType = ''application/concrnt.document+json'',
     it_href = demo_line_uri @ ''/'' @ int_str n\<rparr>"

definition demo_texts :: "(string \<times> body_item) list" where
  "demo_texts = [(''a'', demo_item 1), (''b'', demo_item 2)]"

definition demo_enc :: "body_item \<Rightarrow> string option" where
  "demo_enc x = (if x = demo_item 1 then Some ''a'' else if x = demo_item 2 then Some ''b'' else None)"

definition demo_array :: "string \<Rightarrow> body_item list option option" where
  "demo_array v = (if v = ''null'' then Some None
     else let bs = split_char CHR '','' (butlast (drop 1 v)) in
       if v = ''[]'' then Some (Some [])
       else if list_all (\<lambda>b. map_of demo_texts b \<noteq> None) bs then Some (Some (map (the \<circ> map_of demo_texts) bs)) else None)"

definition demo_manifest :: manifest where
  "demo_manifest = zero_manifest\<lparr>mf_chunkSize := 600, mf_descending := Some \<lparr>ep_iterator = ''i'', ep_body = ''b''\<rparr>\<rparr>"

definition demo_gw :: gw_env where
  "demo_gw = \<lparr>ge_client = demo_client\<lparr>ce_now := 6100 * second\<rparr>, ge_fuel = 4,
     ge_batch = \<lparr>bl_write = (\<lambda>r. None), bl_media = (\<lambda>m. None), bl_parts = (\<lambda>a b. [])\<rparr>,
     ge_answers = (\<lambda>ks k. True), ge_accepts = (\<lambda>k. True),
     ge_manifest = \<lparr>jt_decode = (\<lambda>b. Some demo_manifest), jt_unmarshal = (\<lambda>b. Some demo_manifest), jt_marshal = (\<lambda>m. Some ''m'')\<rparr>,
     ge_items = \<lparr>jt_decode = demo_array, jt_unmarshal = demo_array, jt_marshal = (\<lambda>v. case v of None \<Rightarrow> Some ''null''
       | Some xs \<Rightarrow> if list_all (\<lambda>x. demo_enc x \<noteq> None) xs then Some (''['' @ join_with '','' (map (the \<circ> demo_enc) xs) @ '']'') else None)\<rparr>,
     ge_item = demo_enc,
     ge_ids = \<lparr>jt_decode = (\<lambda>b. None), jt_unmarshal = (\<lambda>b. None), jt_marshal = (\<lambda>m. None)\<rparr>,
     ge_demand = [demo_line_uri], ge_open = None\<rparr>"

definition demo_gs :: gw_state where
  "demo_gs = \<lparr>gw_cache = [(manifestCacheKey demo_line_uri, (''m'', 7000 * second))], gw_client = new_client\<rparr>"

definition demo_created :: event where
  "demo_created = \<lparr>e_type = ''created'', e_source = [], e_uri = demo_line_uri @ ''/2'', e_association = None, e_references = [], e_timestamp = 6002 * second\<rparr>"

lemma demo_item_texts: "demo_enc x = Some b \<longleftrightarrow> map_of demo_texts b = Some x" "demo_enc x = Some b \<Longrightarrow> b = ''a'' \<or> b = ''b''"
proof -
  have "demo_item 1 \<noteq> demo_item 2" by code_simp
  then show "demo_enc x = Some b \<longleftrightarrow> map_of demo_texts b = Some x" "demo_enc x = Some b \<Longrightarrow> b = ''a'' \<or> b = ''b''"
    by (auto simp: demo_enc_def demo_texts_def split: if_splits)
qed

lemma demo_gw_codec: "item_codec demo_gw"
proof -
  have "demo_array (''['' @ join_with '','' bs @ '']'') = Some (Some xs)" "list_all (\<lambda>x. demo_enc x \<noteq> None) xs" "map (the \<circ> demo_enc) xs = bs"
    if xs: "xs \<noteq> []" "map demo_enc xs = map Some bs" for xs bs
  proof -
    have l: "list_all2 (\<lambda>x b. demo_enc x = Some b) xs bs" using xs(2) by (auto simp: list_all2_conv_all_nth list_eq_iff_nth_eq)
    have ne: "bs \<noteq> []" using xs by auto
    have b: "b = ''a'' \<or> b = ''b''" if "b \<in> set bs" for b
      using that l by (auto simp: list_all2_conv_all_nth in_set_conv_nth dest: demo_item_texts(2))
    have split: "split_char CHR '','' (join_with '','' bs) = bs" using b by (intro split_join ne) fastforce
    have j: "join_with '','' bs \<noteq> []" "''['' @ join_with '','' bs @ '']'' \<noteq> ''null''" using b ne split by (cases bs; force)+
    have m: "map_of demo_texts b \<noteq> None" if "b \<in> set bs" for b using b[OF that] by (auto simp: demo_texts_def)
    have "map (the \<circ> demo_enc) xs = bs" "list_all (\<lambda>x. demo_enc x \<noteq> None) xs" using l by (induction rule: list_all2_induct) auto
    moreover have "map (the \<circ> map_of demo_texts) bs = xs" using l by (induction rule: list_all2_induct) (auto simp: demo_item_texts(1))
    ultimately show "demo_array (''['' @ join_with '','' bs @ '']'') = Some (Some xs)" "list_all (\<lambda>x. demo_enc x \<noteq> None) xs" "map (the \<circ> demo_enc) xs = bs"
      using split j m by (auto simp: demo_array_def Let_def butlast_append list_all_iff)
  qed
  then show ?thesis by (simp add: item_codec_def demo_gw_def)
qed

lemma demo_gw_laws: "memcached_up demo_gw" "descending_manifests demo_gw" "array_texts demo_gw"
  by (auto simp: memcached_up_def descending_manifests_def array_texts_def demo_gw_def demo_manifest_def split: option.splits if_splits)

lemma demo_gw_run:
  "valid_manifest demo_gw (map_option fst (mc_live demo_gw demo_gs (manifestCacheKey demo_line_uri))) = Some demo_manifest"
  "mc_live demo_gw demo_gs (bodyCacheKey demo_line_uri (int_str 10)) = None" "event_timeline (e_uri demo_created) = Some demo_line_uri"
  "Time2Chunk demo_manifest (e_timestamp demo_created) = Inr 10" "event_item (ce_codec (ge_client demo_gw)) demo_created = demo_item 2"
  "demo_enc (demo_item 1) = Some ''a''" "demo_enc (demo_item 2) = Some ''b''"
  "sort_key (\<lambda>x. - it_timestamp x) [demo_item 2, demo_item 1] = [demo_item 2, demo_item 1]"
  by code_simp+



text \<open>The condition is needed: a manifest without descending endpoints, which any server may serve, panics the lookup.\<close>

lemma no_descending_panics:
  "map_option fst (LookupChunkItrs (demo_gw\<lparr>ge_manifest := (ge_manifest demo_gw)\<lparr>jt_unmarshal := (\<lambda>b. Some (demo_manifest\<lparr>mf_descending := None\<rparr>))\<rparr>\<rparr>)
     [demo_line_uri] (6100 * second) demo_gs) = Some (Inl EPanic)"
  by code_simp

text \<open>An empty body is stored as a lone comma. The first event that is prepended to it leaves a text that does not parse, and the chunk is missing
  from what readers get until the entry expires.\<close>

theorem empty_body_lost:
  "\<exists>s s'. store_body demo_gw demo_line_uri (int_str 10) 10 True (Some []) demo_gs = Some (Inr (), s)
    \<and> cacheUpdater demo_gw demo_created s = Some (Inr (), s')
    \<and> map_option fst (LoadChunkBodies demo_gw [(demo_line_uri, int_str 10)] s') = Some (Inr [])"
proof -
  let ?m = "sbind (store_body demo_gw demo_line_uri (int_str 10) 10 True (Some [])) (\<lambda>u. cacheUpdater demo_gw demo_created)"
  have "map_option (\<lambda>(r, s). (r, map_option fst (LoadChunkBodies demo_gw [(demo_line_uri, int_str 10)] s))) (?m demo_gs) = Some (Inr (), Some (Inr []))"
    by code_simp
  then show ?thesis by (auto simp: sbind_Some)
qed

end
