(* ===== verification/Leader_Subscriber.thy ===== *)
theory Leader_Subscriber
  imports Documents
begin

text \<open>
  The subscriber of the leading replica, \<^verbatim>\<open>src/internal/worker/LeaderSubscriber.go\<close>: it keeps one websocket per peer host and
  asks the peer for the events of the prefixes that are wanted.

  The critical sections under \<^verbatim>\<open>s.mu\<close> are functions of the state; what a goroutine still has to do after it
  releases the lock is a thread of the state (a dial, a listen request to write, a purge of cached chunks, the
  serving of a connection, the rest of an ensure). The step relation \<open>lreach\<close> interleaves them in any
  way. Pointers to \<^verbatim>\<open>SubState\<close> and connections are numbers, so that the identity checks of the code are comparisons of them; contexts of lead terms are numbers,
  of which some have ended. The demand of the registered clients is an argument of the operations that ask for it.

  Shown here: every open connection is the connection of its host's entry, an entry is being dialled by exactly one goroutine or
  by none, and every connection has a goroutine that cleans up after it; what a keeper tick leaves subscribed; and that listen requests can
  overtake each other, so that the peer is left with an older list.
\<close>

section \<open>State\<close>

record sub_state =
  ss_id :: nat
  ss_prefixes :: "string list"
  ss_conn :: "nat option"
  ss_dialing :: bool

record listen_update =
  lu_host :: string
  lu_conn :: nat
  lu_prefixes :: "string list"
  lu_added :: "string list"

datatype lthread = Dial nat string nat | Listen listen_update | Purge "string list" int | Serve string nat nat
  | Ensure "string list" "(string, string list) gmap"

record leader =
  ls_fresh :: nat
  ls_runCtx :: "nat option"
  ls_ended :: "nat list"
  ls_subs :: "(string, sub_state) gmap"
  ls_peerDemand :: "(string, string list) gmap"
  ls_localSeen :: "(string, gotime) gmap"
  ls_ensuredAt :: "(string, gotime) gmap"
  ls_threads :: "lthread list"
  ls_open :: "nat list"
  ls_wire :: "(nat, string list) gmap"
  ls_purged :: "(string list \<times> int) list"
  ls_published :: "(string \<times> event) list"

record leader_config =
  lc_fqdn :: string
  lc_purger :: bool
  lc_discovery :: bool

definition NewLeaderSubscriber :: leader where
  "NewLeaderSubscriber = \<lparr>ls_fresh = 0, ls_runCtx = None, ls_ended = [], ls_subs = [], ls_peerDemand = [], ls_localSeen = [], ls_ensuredAt = [],
     ls_threads = [], ls_open = [], ls_wire = [], ls_purged = [], ls_published = []\<rparr>"

definition spawn :: "lthread list \<Rightarrow> leader \<Rightarrow> leader" where
  "spawn ts s = s\<lparr>ls_threads := ls_threads s @ ts\<rparr>"

definition put_sub :: "string \<Rightarrow> sub_state \<Rightarrow> leader \<Rightarrow> leader" where
  "put_sub host st s = s\<lparr>ls_subs := gmap_set host st (ls_subs s)\<rparr>"

definition del_sub :: "string \<Rightarrow> leader \<Rightarrow> leader" where
  "del_sub host s = s\<lparr>ls_subs := gmap_del host (ls_subs s)\<rparr>"

definition close_conn :: "nat \<Rightarrow> leader \<Rightarrow> leader" where
  "close_conn c s = s\<lparr>ls_open := filter (\<lambda>x. x \<noteq> c) (ls_open s)\<rparr>"

text \<open>The context of the current term, unless it has ended.\<close>

definition lead_ctx :: "leader \<Rightarrow> nat option" where
  "lead_ctx s = (case ls_runCtx s of None \<Rightarrow> None | Some t \<Rightarrow> if t \<in> set (ls_ended s) then None else Some t)"

section \<open>Demand\<close>

definition leader_Start :: "leader \<Rightarrow> leader" where
  "leader_Start s = s\<lparr>ls_runCtx := Some (ls_fresh s), ls_fresh := ls_fresh s + 1\<rparr>"

definition OpenPrefixes :: "leader \<Rightarrow> string list" where
  "OpenPrefixes s = remdups (concat (map (ss_prefixes \<circ> snd) (filter (\<lambda>(h, st). ss_conn st \<noteq> None) (ls_subs s))))"

definition ConnectionCounts :: "leader \<Rightarrow> nat \<times> nat" where
  "ConnectionCounts s = (length (ls_subs s), length (filter (\<lambda>(h, st). ss_conn st \<noteq> None) (ls_subs s)))"

definition leader_CurrentSubscriptions :: "string list list \<Rightarrow> leader \<Rightarrow> string list" where
  "leader_CurrentSubscriptions clients s = filter (\<lambda>p. map_of (ls_localSeen s) p \<noteq> None \<or> p \<in> set (OpenPrefixes s))
     (remdups (concat clients @ concat (map snd (ls_peerDemand s))))"

text \<open>The peers that discovery lists, each with the demand it answered or \<open>None\<close>; \<open>None\<close> when discovery fails.\<close>

definition store_polls :: "(string \<times> string list option) list option \<Rightarrow> leader \<Rightarrow> leader" where
  "store_polls polls s = (case polls of None \<Rightarrow> s
     | Some ps \<Rightarrow> s\<lparr>ls_peerDemand := filter (\<lambda>(peer, d). peer \<in> fst ` set ps)
         (foldl (\<lambda>m (peer, r). case r of None \<Rightarrow> m | Some d \<Rightarrow> gmap_set peer d m) (ls_peerDemand s) ps)\<rparr>)"

definition pollPeerDemand :: "leader_config \<Rightarrow> (string \<times> string list option) list option \<Rightarrow> leader \<Rightarrow> string list \<times> leader" where
  "pollPeerDemand C polls s = (if \<not> lc_discovery C then ([], s)
     else let s' = store_polls polls s in (remdups (concat (map snd (ls_peerDemand s'))), s'))"

definition minute :: gotime where
  "minute = 60 * 1000000000"

definition tick_expire :: "gotime \<Rightarrow> leader \<Rightarrow> leader" where
  "tick_expire tickStart s = s\<lparr>ls_localSeen := filter (\<lambda>(p, seen). \<not> tickStart - seen > minute) (ls_localSeen s),
     ls_ensuredAt := filter (\<lambda>(p, stamped). \<not> tickStart - stamped > minute) (ls_ensuredAt s)\<rparr>"

section \<open>Opening subscriptions\<close>

definition tracked :: "leader \<Rightarrow> string list" where
  "tracked s = concat (map (ss_prefixes \<circ> snd) (ls_subs s))"

definition stamp :: "gotime \<Rightarrow> string list \<Rightarrow> leader \<Rightarrow> leader" where
  "stamp now ps s = s\<lparr>ls_ensuredAt := foldl (\<lambda>m p. gmap_set p now m) (ls_ensuredAt s) ps\<rparr>"

text \<open>The first critical section of \<^verbatim>\<open>EnsureSubscriptions\<close>, the resolution of one prefix, and the last critical section.\<close>

definition ensure_stamp :: "gotime \<Rightarrow> string list \<Rightarrow> leader \<Rightarrow> leader" where
  "ensure_stamp now ps s = stamp now (filter (\<lambda>p. p \<in> set (tracked s)) ps) s"

definition by_host :: "string \<Rightarrow> string \<Rightarrow> (string, string list) gmap \<Rightarrow> (string, string list) gmap" where
  "by_host host p m = (let ps = (case map_of m host of None \<Rightarrow> [] | Some ps \<Rightarrow> ps) in if p \<in> set ps then m else gmap_set host (ps @ [p]) m)"

definition ensure_resolve :: "leader_config \<Rightarrow> gotime \<Rightarrow> string option \<Rightarrow> string \<Rightarrow> (string, string list) gmap \<times> leader \<Rightarrow> (string, string list) gmap \<times> leader" where
  "ensure_resolve C now host p acc = (case acc of (m, s) \<Rightarrow> (case host of None \<Rightarrow> (m, s)
     | Some h \<Rightarrow> if h = lc_fqdn C then (m, s\<lparr>ls_localSeen := gmap_set p now (ls_localSeen s)\<rparr>) else (by_host h p m, s)))"

definition add_prefix :: "string list \<times> string list \<Rightarrow> string \<Rightarrow> string list \<times> string list" where
  "add_prefix acc p = (if p \<in> set (fst acc) then acc else (fst acc @ [p], snd acc @ [p]))"

definition add_prefixes :: "string list \<Rightarrow> string list \<Rightarrow> string list \<times> string list" where
  "add_prefixes old new = foldl add_prefix (old, []) new"

definition merge_host :: "gotime \<Rightarrow> nat \<Rightarrow> leader \<Rightarrow> string \<times> string list \<Rightarrow> leader" where
  "merge_host now t s hp = (case hp of (host, hostPrefixes) \<Rightarrow> let s = stamp now hostPrefixes s in
     (case map_of (ls_subs s) host of
        None \<Rightarrow> let i = ls_fresh s in
          spawn [Dial t host i] (put_sub host \<lparr>ss_id = i, ss_prefixes = hostPrefixes, ss_conn = None, ss_dialing = True\<rparr> (s\<lparr>ls_fresh := i + 1\<rparr>))
      | Some st \<Rightarrow> (case add_prefixes (ss_prefixes st) hostPrefixes of (ps, added) \<Rightarrow>
          if ss_dialing st then put_sub host (st\<lparr>ss_prefixes := ps\<rparr>) s
          else (case ss_conn st of
              None \<Rightarrow> spawn [Dial t host (ss_id st)] (put_sub host (st\<lparr>ss_prefixes := ps, ss_dialing := True\<rparr>) s)
            | Some c \<Rightarrow> spawn (if added = [] then [] else [Listen \<lparr>lu_host = host, lu_conn = c, lu_prefixes = ps, lu_added = added\<rparr>])
                (put_sub host (st\<lparr>ss_prefixes := ps\<rparr>) s)))))"

definition ensure_merge :: "gotime \<Rightarrow> (string, string list) gmap \<Rightarrow> leader \<Rightarrow> leader" where
  "ensure_merge now m s = (case lead_ctx s of None \<Rightarrow> s | Some t \<Rightarrow> foldl (merge_host now t) s m)"

definition leader_EnsureSubscriptions :: "leader_config \<Rightarrow> gotime \<Rightarrow> (string \<Rightarrow> string option) \<Rightarrow> string list \<Rightarrow> leader \<Rightarrow> leader" where
  "leader_EnsureSubscriptions C now resolve ps s = (let s1 = ensure_stamp now ps s in
     (case foldl (\<lambda>acc p. ensure_resolve C now (resolve p) p acc) ([], s1) (filter (\<lambda>p. p \<notin> set (tracked s)) ps) of
        (m, s2) \<Rightarrow> ensure_merge now m s2))"

definition repair_host :: "nat \<Rightarrow> leader \<Rightarrow> string \<times> sub_state \<Rightarrow> leader" where
  "repair_host t s hs = (case hs of (host, st) \<Rightarrow>
     if ss_conn st = None \<and> \<not> ss_dialing st then spawn [Dial t host (ss_id st)] (put_sub host (st\<lparr>ss_dialing := True\<rparr>) s) else s)"

definition repairBrokenSubscriptions :: "leader \<Rightarrow> leader" where
  "repairBrokenSubscriptions s = (case lead_ctx s of None \<Rightarrow> s | Some t \<Rightarrow> foldl (repair_host t) s (ls_subs s))"

section \<open>Connections\<close>

text \<open>A dial that has ended, with a connection or without.\<close>

definition same_sub :: "leader \<Rightarrow> string \<Rightarrow> nat \<Rightarrow> bool" where
  "same_sub s host i = (case map_of (ls_subs s) host of None \<Rightarrow> False | Some st \<Rightarrow> ss_id st = i)"

definition install :: "string \<Rightarrow> sub_state \<Rightarrow> leader \<Rightarrow> leader" where
  "install host st s = (let c = ls_fresh s in
     spawn [Serve host (ss_id st) c, Serve host (ss_id st) c,
            Listen \<lparr>lu_host = host, lu_conn = c, lu_prefixes = ss_prefixes st, lu_added = ss_prefixes st\<rparr>]
       (put_sub host (st\<lparr>ss_dialing := False, ss_conn := Some c\<rparr>) (s\<lparr>ls_fresh := c + 1, ls_open := ls_open s @ [c]\<rparr>)))"

definition dialAndRun :: "nat \<Rightarrow> string \<Rightarrow> nat \<Rightarrow> bool \<Rightarrow> leader \<Rightarrow> leader" where
  "dialAndRun t host i ok s = (if \<not> same_sub s host i then s
     else let st = the (map_of (ls_subs s) host) in
       if \<not> ok then del_sub host s
       else if t \<in> set (ls_ended s) then put_sub host (st\<lparr>ss_dialing := False\<rparr>) s
       else install host st s)"

text \<open>Writing a listen request; on failure, and on a connection that is closed, the connection is closed.\<close>

definition send_listen :: "leader_config \<Rightarrow> listen_update \<Rightarrow> bool \<Rightarrow> leader \<Rightarrow> leader" where
  "send_listen C u written s = (if written \<and> lu_conn u \<in> set (ls_open s)
     then let s1 = s\<lparr>ls_wire := gmap_set (lu_conn u) (lu_prefixes u) (ls_wire s)\<rparr> in
       if lc_purger C \<and> lu_added u \<noteq> [] then s1\<lparr>ls_purged := ls_purged s1 @ [(lu_added u, 2)]\<rparr> else s1
     else close_conn (lu_conn u) s)"

text \<open>What a listener or relayer does at its end, and a message that it relays.\<close>

definition end_serving :: "leader_config \<Rightarrow> string \<Rightarrow> nat \<Rightarrow> nat \<Rightarrow> leader \<Rightarrow> leader" where
  "end_serving C host i c s = (let s1 = close_conn c s in
     (case map_of (ls_subs s1) host of None \<Rightarrow> s1
      | Some st \<Rightarrow> if ss_id st = i \<and> ss_conn st = Some c
          then spawn (if lc_purger C \<and> ss_prefixes st \<noteq> [] then [Purge (ss_prefixes st) 1] else []) (del_sub host s1) else s1))"

definition relay_message :: "event option \<Rightarrow> leader \<Rightarrow> leader" where
  "relay_message message s = (case message of None \<Rightarrow> s
     | Some ev \<Rightarrow> if e_source ev = [] then s else s\<lparr>ls_published := ls_published s @ [(e_source ev, MarkAllPublic ev)]\<rparr>)"

definition disconnectTimeout :: gotime where
  "disconnectTimeout = 30 * 1000000000"

definition pong_overdue :: "gotime \<Rightarrow> gotime \<Rightarrow> bool" where
  "pong_overdue lastPong now = (lastPong < now - disconnectTimeout)"

section \<open>Closing subscriptions\<close>

definition spared :: "string list \<Rightarrow> gotime \<Rightarrow> leader \<Rightarrow> string \<Rightarrow> bool" where
  "spared currentSubs since s p = (p \<in> set currentSubs \<or> (case map_of (ls_ensuredAt s) p of None \<Rightarrow> zero_time > since | Some stamped \<Rightarrow> stamped > since))"

definition conns_of :: "(string, sub_state) gmap \<Rightarrow> nat list" where
  "conns_of subs = List.map_filter (ss_conn \<circ> snd) subs"

definition deleteExcessSubscriptions :: "leader_config \<Rightarrow> string list \<Rightarrow> gotime \<Rightarrow> leader \<Rightarrow> leader" where
  "deleteExcessSubscriptions C currentSubs since s =
     (let keep = spared currentSubs since s;
          pruned = map (\<lambda>(h, st). (h, st\<lparr>ss_prefixes := filter keep (ss_prefixes st)\<rparr>)) (ls_subs s);
          dropped = filter (\<lambda>p. \<not> keep p) (tracked s);
          closed = filter (\<lambda>(h, st). ss_prefixes st = []) pruned;
          rest = filter (\<lambda>(h, st). ss_prefixes st \<noteq> []) pruned;
          changed = filter (\<lambda>(h, st). \<not> list_all keep (ss_prefixes st)) (ls_subs s);
          updates = List.map_filter (\<lambda>(h, st). if h \<in> fst ` set changed \<and> \<not> ss_dialing st
              then map_option (\<lambda>c. Listen \<lparr>lu_host = h, lu_conn = c, lu_prefixes = ss_prefixes st, lu_added = []\<rparr>) (ss_conn st) else None) rest
      in spawn ((if lc_purger C \<and> dropped \<noteq> [] then [Purge dropped 1] else []) @ updates)
           (s\<lparr>ls_subs := rest, ls_open := filter (\<lambda>c. c \<notin> set (conns_of closed)) (ls_open s)\<rparr>))"

definition closeAllSubscriptions :: "leader_config \<Rightarrow> nat \<Rightarrow> leader \<Rightarrow> leader" where
  "closeAllSubscriptions C t s = (if ls_runCtx s \<noteq> Some t then s
     else spawn (if lc_purger C \<and> tracked s \<noteq> [] then [Purge (tracked s) 1] else [])
       (s\<lparr>ls_subs := [], ls_open := filter (\<lambda>c. c \<notin> set (conns_of (ls_subs s))) (ls_open s)\<rparr>))"

text \<open>One turn of the keeper, with what the clients, the peers and the resolution of hosts answer; the goroutines it starts are left as threads.\<close>

definition keeper_tick :: "leader_config \<Rightarrow> gotime \<Rightarrow> (string \<Rightarrow> string option) \<Rightarrow> string list list \<Rightarrow> (string \<times> string list option) list option \<Rightarrow> leader \<Rightarrow> leader" where
  "keeper_tick C tickStart resolve clients polls s = (case pollPeerDemand C polls (tick_expire tickStart s) of (peers, s1) \<Rightarrow>
     let demand = remdups (concat clients @ peers) in
     deleteExcessSubscriptions C demand tickStart (repairBrokenSubscriptions (leader_EnsureSubscriptions C tickStart resolve demand s1)))"

section \<open>Interleavings\<close>

datatype laction = AStart | AEnd nat | APoll "(string \<times> string list option) list option" | AExpire gotime
  | AEnsure gotime "string list" | AResolve gotime "string list" "(string, string list) gmap" "string option" | AMerge gotime "(string, string list) gmap"
  | ARepair | ADial nat string nat bool | AListen listen_update bool | APurge "string list" int | AEndServing string nat nat
  | AClosed nat | ARelay "event option" | AExcess "string list" gotime | ACloseAll nat

definition take_thread :: "lthread \<Rightarrow> leader \<Rightarrow> leader option" where
  "take_thread th s = (if th \<in> set (ls_threads s) then Some (s\<lparr>ls_threads := remove1 th (ls_threads s)\<rparr>) else None)"

fun lexec :: "leader_config \<Rightarrow> laction \<Rightarrow> leader \<Rightarrow> leader option" where
  "lexec C AStart s = Some (leader_Start s)"
| "lexec C (AEnd t) s = Some (s\<lparr>ls_ended := t # ls_ended s\<rparr>)"
| "lexec C (APoll polls) s = Some (snd (pollPeerDemand C polls s))"
| "lexec C (AExpire now) s = Some (tick_expire now s)"
| "lexec C (AEnsure now ps) s = Some (spawn [Ensure (filter (\<lambda>p. p \<notin> set (tracked s)) ps) []] (ensure_stamp now ps s))"
| "lexec C (AResolve now ps m host) s = (case ps of [] \<Rightarrow> None | p # qs \<Rightarrow> map_option (\<lambda>s. case ensure_resolve C now host p (m, s) of
     (m', s') \<Rightarrow> spawn [Ensure qs m'] s') (take_thread (Ensure ps m) s))"
| "lexec C (AMerge now m) s = map_option (ensure_merge now m) (take_thread (Ensure [] m) s)"
| "lexec C ARepair s = Some (repairBrokenSubscriptions s)"
| "lexec C (ADial t host i ok) s = map_option (dialAndRun t host i ok) (take_thread (Dial t host i) s)"
| "lexec C (AListen u ok) s = map_option (send_listen C u ok) (take_thread (Listen u) s)"
| "lexec C (APurge ps d) s = map_option (\<lambda>s. s\<lparr>ls_purged := ls_purged s @ [(ps, d)]\<rparr>) (take_thread (Purge ps d) s)"
| "lexec C (AEndServing host i c) s = map_option (end_serving C host i c) (take_thread (Serve host i c) s)"
| "lexec C (AClosed c) s = Some (close_conn c s)"
| "lexec C (ARelay m) s = Some (relay_message m s)"
| "lexec C (AExcess ds since) s = Some (deleteExcessSubscriptions C ds since s)"
| "lexec C (ACloseAll t) s = Some (closeAllSubscriptions C t s)"

inductive lreach :: "leader_config \<Rightarrow> leader \<Rightarrow> bool" for C where
  init: "lreach C NewLeaderSubscriber"
| step: "lreach C s \<Longrightarrow> lexec C a s = Some s' \<Longrightarrow> lreach C s'"

fun lrun :: "leader_config \<Rightarrow> laction list \<Rightarrow> leader \<Rightarrow> leader option" where
  "lrun C [] s = Some s"
| "lrun C (a # as) s = Option.bind (lexec C a s) (lrun C as)"

lemma lrun_reach: "lreach C s \<Longrightarrow> lrun C as s = Some s' \<Longrightarrow> lreach C s'"
  by (induction as arbitrary: s) (auto split: bind_splits intro: lreach.step)

section \<open>Connections and dials\<close>

definition is_dial :: "string \<Rightarrow> nat \<Rightarrow> lthread \<Rightarrow> bool" where
  "is_dial h i th = (case th of Dial t h' i' \<Rightarrow> h' = h \<and> i' = i | _ \<Rightarrow> False)"

definition dials :: "leader \<Rightarrow> string \<Rightarrow> nat \<Rightarrow> nat" where
  "dials s h i = length (filter (is_dial h i) (ls_threads s))"

definition entry_ok :: "leader \<Rightarrow> string \<Rightarrow> sub_state \<Rightarrow> bool" where
  "entry_ok s h st \<longleftrightarrow> ss_id st < ls_fresh s \<and> ss_prefixes st \<noteq> [] \<and> distinct (ss_prefixes st)
     \<and> dials s h (ss_id st) = (if ss_dialing st then 1 else 0)
     \<and> (\<forall>c. ss_conn st = Some c \<longrightarrow> \<not> ss_dialing st \<and> c < ls_fresh s \<and> Serve h (ss_id st) c \<in> set (ls_threads s))"

definition hosts_ok :: "(string, string list) gmap \<Rightarrow> bool" where
  "hosts_ok m \<longleftrightarrow> (\<forall>(h, ps)\<in>set m. ps \<noteq> [] \<and> distinct ps)"

definition thread_ok :: "nat \<Rightarrow> lthread \<Rightarrow> bool" where
  "thread_ok n th = (case th of Dial t h i \<Rightarrow> i < n | Ensure ps m \<Rightarrow> hosts_ok m | _ \<Rightarrow> True)"

definition open_ok :: "leader \<Rightarrow> bool" where
  "open_ok s \<longleftrightarrow> distinct (ls_open s) \<and> (\<forall>c\<in>set (ls_open s). \<exists>h st. map_of (ls_subs s) h = Some st \<and> ss_conn st = Some c)"

definition linv :: "leader \<Rightarrow> bool" where
  "linv s \<longleftrightarrow> gmap_ok (ls_subs s) \<and> (\<forall>h st. map_of (ls_subs s) h = Some st \<longrightarrow> entry_ok s h st)
     \<and> (\<forall>th\<in>set (ls_threads s). thread_ok (ls_fresh s) th) \<and> open_ok s"

lemma linvD:
  "linv s \<Longrightarrow> gmap_ok (ls_subs s)" "linv s \<Longrightarrow> map_of (ls_subs s) h = Some st \<Longrightarrow> entry_ok s h st"
  "linv s \<Longrightarrow> th \<in> set (ls_threads s) \<Longrightarrow> thread_ok (ls_fresh s) th" "linv s \<Longrightarrow> open_ok s"
  by (auto simp: linv_def)

text \<open>A step that leaves the entries alone, closes connections at most, and changes no dial and no serving goroutine.\<close>

definition plain_thread :: "lthread \<Rightarrow> bool" where
  "plain_thread th = (case th of Dial t h i \<Rightarrow> False | Serve h i c \<Rightarrow> False | _ \<Rightarrow> True)"

definition same_goroutines :: "leader \<Rightarrow> leader \<Rightarrow> bool" where
  "same_goroutines s s' \<longleftrightarrow> filter (\<lambda>th. \<not> plain_thread th) (ls_threads s') = filter (\<lambda>th. \<not> plain_thread th) (ls_threads s)"

lemma goroutine_views:
  assumes "same_goroutines s s'"
  shows "dials s' h i = dials s h i" "Serve h i c \<in> set (ls_threads s') \<longleftrightarrow> Serve h i c \<in> set (ls_threads s)"
proof -
  have "filter (is_dial h i) xs = filter (is_dial h i) (filter (\<lambda>th. \<not> plain_thread th) xs)" for xs
    unfolding filter_filter by (rule filter_cong) (auto simp: is_dial_def plain_thread_def split: lthread.splits)
  then show "dials s' h i = dials s h i" using assms unfolding dials_def same_goroutines_def by metis
  have "Serve h i c \<in> set xs \<longleftrightarrow> Serve h i c \<in> set (filter (\<lambda>th. \<not> plain_thread th) xs)" for xs by (simp add: plain_thread_def)
  then show "Serve h i c \<in> set (ls_threads s') \<longleftrightarrow> Serve h i c \<in> set (ls_threads s)" using assms by (metis same_goroutines_def)
qed

lemma linv_same:
  assumes "linv s" "same_goroutines s s'" "ls_subs s' = ls_subs s" "ls_fresh s \<le> ls_fresh s'"
    and "distinct (ls_open s')" "set (ls_open s') \<subseteq> set (ls_open s)" "\<And>th. th \<in> set (ls_threads s') \<Longrightarrow> plain_thread th \<Longrightarrow> thread_ok (ls_fresh s') th"
  shows "linv s'"
proof -
  have th: "thread_ok (ls_fresh s') th" if "th \<in> set (ls_threads s')" for th
  proof (cases "plain_thread th")
    case True
    then show ?thesis using assms(7) that by blast
  next
    case False
    then have "th \<in> set (filter (\<lambda>th. \<not> plain_thread th) (ls_threads s))" using that assms(2) unfolding same_goroutines_def by (metis (mono_tags, lifting) mem_Collect_eq set_filter)
    then have "thread_ok (ls_fresh s) th" using linvD(3)[OF assms(1)] by auto
    then show ?thesis using assms(4) by (auto simp: thread_ok_def split: lthread.splits)
  qed
  have "entry_ok s' h st" if "map_of (ls_subs s') h = Some st" for h st
    using linvD(2)[OF assms(1)] that assms(3,4) unfolding entry_ok_def goroutine_views[OF assms(2)] by fastforce
  then show ?thesis using assms(1,3,5,6) th linvD(4)[OF assms(1)] unfolding linv_def open_ok_def by auto
qed

lemma filter_remove1_other: "\<not> P x \<Longrightarrow> filter P (remove1 x xs) = filter P xs"
  by (induction xs) auto

lemma length_filter_remove1: "x \<in> set xs \<Longrightarrow> P x \<Longrightarrow> length (filter P (remove1 x xs)) = length (filter P xs) - 1"
proof -
  assume "x \<in> set xs" "P x"
  moreover have "filter P (remove1 x ys) = remove1 x (filter P ys)" if "P x" for ys using that by (induction ys) auto
  ultimately show ?thesis by (simp add: length_remove1)
qed

text \<open>A step at one host.\<close>

lemma linv_at:
  assumes "linv s" "gmap_ok (ls_subs s')" "\<And>h'. h' \<noteq> h \<Longrightarrow> map_of (ls_subs s') h' = map_of (ls_subs s) h'" "ls_fresh s \<le> ls_fresh s'"
    and "\<And>st. map_of (ls_subs s') h = Some st \<Longrightarrow> entry_ok s' h st"
    and "\<And>h' i. h' \<noteq> h \<Longrightarrow> dials s' h' i = dials s h' i"
    and "\<And>h' i c. h' \<noteq> h \<Longrightarrow> Serve h' i c \<in> set (ls_threads s) \<Longrightarrow> Serve h' i c \<in> set (ls_threads s')"
    and "\<And>th. th \<in> set (ls_threads s') \<Longrightarrow> thread_ok (ls_fresh s') th" "open_ok s'"
  shows "linv s'"
proof -
  have "entry_ok s' h' st" if "map_of (ls_subs s') h' = Some st" for h' st
  proof (cases "h' = h")
    case False
    then have e: "entry_ok s h' st" using that assms(3) linvD(2)[OF assms(1)] by simp
    show ?thesis unfolding entry_ok_def assms(6)[OF False]
      using e assms(4) assms(7)[OF False] unfolding entry_ok_def by fastforce
  qed (use assms(5) that in blast)
  then show ?thesis using assms(2,8,9) unfolding linv_def by blast
qed

lemma open_ok_put:
  assumes "open_ok s" "ls_open s' = ls_open s" "ls_subs s' = gmap_set h st' (ls_subs s)"
    and "\<And>st c. map_of (ls_subs s) h = Some st \<Longrightarrow> ss_conn st = Some c \<Longrightarrow> ss_conn st' = Some c"
  shows "open_ok s'"
  unfolding open_ok_def
proof (intro conjI ballI)
  show "distinct (ls_open s')" using assms(1,2) by (simp add: open_ok_def)
  fix c assume "c \<in> set (ls_open s')"
  then obtain h' st where "map_of (ls_subs s) h' = Some st" "ss_conn st = Some c" using assms(1,2) by (auto simp: open_ok_def)
  then show "\<exists>h st. map_of (ls_subs s') h = Some st \<and> ss_conn st = Some c"
    using assms(3,4) by (cases "h' = h") auto
qed

lemma dials_spawn: "dials (spawn ts s) h i = dials s h i + length (filter (is_dial h i) ts)"
  by (simp add: dials_def spawn_def)

lemma leader_sel [simp]:
  "ls_subs (spawn ts s) = ls_subs s" "ls_fresh (spawn ts s) = ls_fresh s" "ls_open (spawn ts s) = ls_open s" "ls_threads (spawn ts s) = ls_threads s @ ts"
  "ls_subs (put_sub h st s) = gmap_set h st (ls_subs s)" "ls_fresh (put_sub h st s) = ls_fresh s" "ls_open (put_sub h st s) = ls_open s"
  "ls_threads (put_sub h st s) = ls_threads s" "dials (put_sub h st s) = dials s"
  "ls_subs (stamp now ps s) = ls_subs s" "ls_fresh (stamp now ps s) = ls_fresh s" "ls_open (stamp now ps s) = ls_open s"
  "ls_threads (stamp now ps s) = ls_threads s" "dials (stamp now ps s) = dials s" "ls_ended (stamp now ps s) = ls_ended s" "ls_runCtx (stamp now ps s) = ls_runCtx s"
  by (simp_all add: spawn_def put_sub_def stamp_def dials_def fun_eq_iff)

lemma linv_stamp: "linv s \<Longrightarrow> linv (stamp now ps s)"
  by (rule linv_same[of s]) (auto simp: same_goroutines_def linv_def open_ok_def)

lemma add_prefixes_spec:
  assumes "add_prefixes old new = (ps, added)"
  shows "set ps = set old \<union> set new" "distinct old \<Longrightarrow> distinct ps" "ps = old @ added"
proof -
  have "foldl add_prefix (old @ xs, xs) new = (ps, added) \<Longrightarrow>
    set ps = set (old @ xs) \<union> set new \<and> (distinct (old @ xs) \<longrightarrow> distinct ps) \<and> ps = old @ added" for xs
  proof (induction new arbitrary: xs)
    case (Cons p new)
    show ?case
    proof (cases "p \<in> set (old @ xs)")
      case False
      then have "add_prefix (old @ xs, xs) p = (old @ (xs @ [p]), xs @ [p])" by (simp add: add_prefix_def)
      with Cons.prems have "foldl add_prefix (old @ (xs @ [p]), xs @ [p]) new = (ps, added)" by simp
      from Cons.IH[OF this] have ih: "set ps = set (old @ (xs @ [p])) \<union> set new" "distinct (old @ (xs @ [p])) \<longrightarrow> distinct ps" "ps = old @ added" by blast+
      have "distinct (old @ (xs @ [p]))" if "distinct (old @ xs)" using that False by simp
      then show ?thesis using ih(2,3) unfolding ih(1) by simp
    next
      case True
      then have "add_prefix (old @ xs, xs) p = (old @ xs, xs)" by (simp add: add_prefix_def)
      with Cons.prems have "foldl add_prefix (old @ xs, xs) new = (ps, added)" by simp
      from Cons.IH[OF this] have ih: "set ps = set (old @ xs) \<union> set new" "distinct (old @ xs) \<longrightarrow> distinct ps" "ps = old @ added" by blast+
      then have "set ps = set (old @ xs) \<union> set (p # new)" using True unfolding ih(1) by auto
      then show ?thesis using ih(2,3) by blast
    qed
  qed auto
  from this[of "[]"] assms show "set ps = set old \<union> set new" "distinct old \<Longrightarrow> distinct ps" "ps = old @ added" by (auto simp: add_prefixes_def)
qed

lemma dials_zero: "linv s \<Longrightarrow> ls_fresh s \<le> i \<Longrightarrow> dials s h i = 0"
  using linvD(3)[of s] by (force simp: dials_def is_dial_def thread_ok_def filter_empty_conv split: lthread.splits)

subsection \<open>Ensuring and repairing\<close>

lemma lthread_ok_mono: "thread_ok n th \<Longrightarrow> n \<le> m \<Longrightarrow> thread_ok m th"
  by (auto simp: thread_ok_def split: lthread.splits)

lemma linv_merge_host:
  assumes "linv s" "hp = (h, ps)" "ps \<noteq> []" "distinct ps"
  shows "linv (merge_host now t s hp)"
proof -
  let ?s = "stamp now ps s"
  have inv: "linv ?s" by (rule linv_stamp[OF assms(1)])
  show ?thesis
  proof (cases "map_of (ls_subs s) h")
    case None
    have z: "dials s h (ls_fresh s) = 0" using dials_zero[OF assms(1)] by simp
    show ?thesis unfolding merge_host_def assms(2) using None z assms(3,4) linvD(1,3,4)[OF assms(1)]
      apply (simp add: Let_def)
      apply (rule linv_at[OF inv, of _ h])
              apply (auto simp: entry_ok_def dials_spawn is_dial_def dials_def thread_ok_def[of _ "Dial t h i" for t h i])[7]
       apply (auto simp: thread_ok_def[of _ "Dial t h i" for t h i] intro: lthread_ok_mono[where n = "ls_fresh s"])[1]
      by (rule open_ok_put[of ?s _ h]) (auto simp: open_ok_def)
  next
    case (Some st)
    have e: "entry_ok s h st" by (rule linvD(2)[OF assms(1) Some])
    obtain qs added where a: "add_prefixes (ss_prefixes st) ps = (qs, added)" by fastforce
    have qs: "qs \<noteq> []" "distinct qs" using add_prefixes_spec[OF a] e by (auto simp: entry_ok_def)
    have op: "open_ok ?s" using linvD(4)[OF inv] .
    consider (dialing) "ss_dialing st" | (idle) "\<not> ss_dialing st" "ss_conn st = None" | (conn) c where "\<not> ss_dialing st" "ss_conn st = Some c"
      by (cases "ss_conn st") auto
    then show ?thesis
    proof cases
      case dialing
      have "linv (put_sub h (st\<lparr>ss_prefixes := qs\<rparr>) ?s)"
        apply (rule linv_at[OF inv, of _ h])
        using Some e qs linvD(1,3)[OF inv] by (auto simp: entry_ok_def dials_def intro: open_ok_put[OF op])
      then show ?thesis using Some a dialing by (simp add: merge_host_def assms(2) Let_def)
    next
      case idle
      have "linv (spawn [Dial t h (ss_id st)] (put_sub h (st\<lparr>ss_prefixes := qs, ss_dialing := True\<rparr>) ?s))"
        apply (rule linv_at[OF inv, of _ h])
        using Some e qs idle linvD(1,3)[OF inv]
                apply (auto simp: entry_ok_def dials_spawn dials_def is_dial_def thread_ok_def)[8]
        by (rule open_ok_put[OF op, of _ h]) (auto simp: Some idle)
      then show ?thesis using Some a idle by (simp add: merge_host_def assms(2) Let_def)
    next
      case (conn c)
      have "linv (spawn l (put_sub h (st\<lparr>ss_prefixes := qs\<rparr>) ?s))" if "l = [] \<or> l = [Listen u]" for l u
        apply (rule linv_at[OF inv, of _ h])
        using Some e qs conn linvD(1,3)[OF inv] that
                apply (auto simp: entry_ok_def dials_spawn dials_def is_dial_def thread_ok_def)[7]
        by (rule open_ok_put[OF op, of _ h]) (auto simp: Some conn)
      then show ?thesis using Some a conn by (simp add: merge_host_def assms(2) Let_def)
    qed
  qed
qed

lemma linv_ensure_merge: "linv s \<Longrightarrow> hosts_ok m \<Longrightarrow> linv (ensure_merge now m s)"
proof -
  have "linv s \<Longrightarrow> hosts_ok m \<Longrightarrow> linv (foldl (merge_host now t) s m)" for t s
    by (induction m arbitrary: s) (auto simp: hosts_ok_def intro!: linv_merge_host)
  then show "linv s \<Longrightarrow> hosts_ok m \<Longrightarrow> linv (ensure_merge now m s)" by (simp add: ensure_merge_def split: option.splits)
qed

lemma linv_repair_host:
  assumes "linv s" "map_of (ls_subs s) h = Some st"
  shows "linv (repair_host t s (h, st))"
proof (cases "ss_conn st = None \<and> \<not> ss_dialing st")
  case True
  have "linv (spawn [Dial t h (ss_id st)] (put_sub h (st\<lparr>ss_dialing := True\<rparr>) s))"
    apply (rule linv_at[OF assms(1), of _ h])
    using True assms(2) linvD(1,3)[OF assms(1)] linvD(2)[OF assms]
            apply (auto simp: entry_ok_def dials_spawn dials_def is_dial_def thread_ok_def)[8]
    by (rule open_ok_put[OF linvD(4)[OF assms(1)], of _ h]) (auto simp: assms(2) True)
  then show ?thesis using True by (simp add: repair_host_def)
qed (use assms in \<open>auto simp: repair_host_def\<close>)

lemma linv_repair: "linv s \<Longrightarrow> linv (repairBrokenSubscriptions s)"
proof -
  have "linv (foldl (repair_host t) s xs)" if "linv s" "distinct (map fst xs)" "\<forall>(h, st)\<in>set xs. map_of (ls_subs s) h = Some st" for t xs s
    using that
  proof (induction xs arbitrary: s)
    case (Cons x xs)
    obtain h st where x: "x = (h, st)" by fastforce
    have other: "map_of (ls_subs (repair_host t s x)) h' = map_of (ls_subs s) h'" if "h' \<noteq> h" for h'
      using that by (simp add: x repair_host_def)
    have "\<forall>(h', st)\<in>set xs. map_of (ls_subs (repair_host t s x)) h' = Some st" 
    proof (rule ballI, clarify)
      fix h' st' assume "(h', st') \<in> set xs"
      moreover from this have "h' \<noteq> h" using Cons.prems(2) x by force
      ultimately show "map_of (ls_subs (repair_host t s x)) h' = Some st'"
        using Cons.prems(3) other by auto
    qed
    moreover have "linv (repair_host t s x)" unfolding x using Cons.prems x by (intro linv_repair_host) auto
    ultimately show ?case using Cons.IH Cons.prems(2) by simp
  qed simp
  moreover assume "linv s"
  ultimately show ?thesis using linvD(1)[of s] by (auto simp: repairBrokenSubscriptions_def gmap_ok_def split: option.splits)
qed

subsection \<open>Connections\<close>

lemma dials_taken:
  assumes "Dial t h i \<in> set (ls_threads s)"
  shows "dials (s\<lparr>ls_threads := remove1 (Dial t h i) (ls_threads s)\<rparr>) h' i' = (if h' = h \<and> i' = i then dials s h i - 1 else dials s h' i')"
proof (cases "is_dial h' i' (Dial t h i)")
  case True
  then show ?thesis using length_filter_remove1[OF assms, of "is_dial h' i'", OF True] by (auto simp: dials_def is_dial_def[of _ _ "Dial t h i"])
next
  case False
  then show ?thesis by (auto simp: dials_def filter_remove1_other is_dial_def[of _ _ "Dial t h i"])
qed

lemma linv_dial:
  assumes "linv s" "Dial t h i \<in> set (ls_threads s)"
  shows "linv (dialAndRun t h i ok (s\<lparr>ls_threads := remove1 (Dial t h i) (ls_threads s)\<rparr>))"
proof -
  let ?s = "s\<lparr>ls_threads := remove1 (Dial t h i) (ls_threads s)\<rparr>"
  have th: "th \<in> set (ls_threads ?s) \<Longrightarrow> thread_ok (ls_fresh s) th" for th
    using linvD(3)[OF assms(1)] by (auto dest: notin_set_remove1)
  have serve: "Serve h' i' c \<in> set (ls_threads s) \<Longrightarrow> Serve h' i' c \<in> set (ls_threads ?s)" for h' i' c by simp
  note d = dials_taken[OF assms(2)]
  show ?thesis
  proof (cases "same_sub s h i")
    case False
    have "linv ?s"
      apply (rule linv_at[OF assms(1), of _ h])
      using False linvD(1,2)[OF assms(1)] d th serve linvD(4)[OF assms(1)]
      by (auto simp: entry_ok_def same_sub_def open_ok_def split: option.splits)
    then show ?thesis using False by (simp add: dialAndRun_def same_sub_def)
  next
    case True
    then obtain st where st: "map_of (ls_subs s) h = Some st" "ss_id st = i" by (auto simp: same_sub_def split: option.splits)
    have e: "entry_ok s h st" by (rule linvD(2)[OF assms(1) st(1)])
    have pos: "0 < dials s h i" using assms(2) by (force simp: dials_def is_dial_def filter_empty_conv)
    then have e1: "ss_dialing st" "ss_conn st = None" "dials s h i = 1" using e st(2) by (auto simp: entry_ok_def split: if_splits)
    have op: "open_ok s" by (rule linvD(4)[OF assms(1)])
    have ok0: "same_sub ?s h i" "map_of (ls_subs ?s) h = Some st" using True st by (simp_all add: same_sub_def)
    consider (failed) "\<not> ok" | (ended) "ok" "t \<in> set (ls_ended s)" | (live) "ok" "t \<notin> set (ls_ended s)" by blast
    then show ?thesis
    proof cases
      case failed
      have "open_ok (del_sub h ?s)" unfolding open_ok_def
      proof (intro conjI ballI)
        fix c assume "c \<in> set (ls_open (del_sub h ?s))"
        then obtain h' st' where "map_of (ls_subs s) h' = Some st'" "ss_conn st' = Some c" using op by (auto simp: open_ok_def del_sub_def)
        then show "\<exists>h' st'. map_of (ls_subs (del_sub h ?s)) h' = Some st' \<and> ss_conn st' = Some c"
          using st(1) e1(2) by (intro exI[of _ h'] exI[of _ st']) (auto simp: del_sub_def)
      qed (use op in \<open>simp add: open_ok_def del_sub_def\<close>)
      then have "linv (del_sub h ?s)"
        apply (intro linv_at[OF assms(1), of _ h])
        using linvD(1)[OF assms(1)] d th serve by (auto simp: del_sub_def dials_def)
      then show ?thesis using failed ok0 by (simp add: dialAndRun_def)
    next
      case ended
      have "linv (put_sub h (st\<lparr>ss_dialing := False\<rparr>) ?s)"
        apply (rule linv_at[OF assms(1), of _ h])
        using linvD(1)[OF assms(1)] d th e e1 st(2) by (auto simp: entry_ok_def intro: open_ok_put[OF op] simp: st(1))
      then show ?thesis using ended ok0 by (simp add: dialAndRun_def)
    next
      case live
      let ?c = "ls_fresh s"
      have fresh: "?c \<notin> set (ls_open s)" using op linvD(2)[OF assms(1)] by (force simp: open_ok_def entry_ok_def)
      have "open_ok (install h st ?s)" unfolding open_ok_def
      proof (intro conjI ballI)
        show "distinct (ls_open (install h st ?s))" using op fresh by (simp add: open_ok_def install_def Let_def)
        fix c assume "c \<in> set (ls_open (install h st ?s))"
        then consider "c = ?c" | h' st' where "map_of (ls_subs s) h' = Some st'" "ss_conn st' = Some c"
          using op by (auto simp: open_ok_def install_def Let_def)
        then show "\<exists>h' st'. map_of (ls_subs (install h st ?s)) h' = Some st' \<and> ss_conn st' = Some c"
        proof cases
          case 1
          then show ?thesis by (intro exI[of _ h]) (simp add: install_def Let_def)
        next
          case 2
          then have "h' \<noteq> h" using st(1) e1(2) by auto
          with 2 show ?thesis by (intro exI[of _ h'] exI[of _ st']) (simp add: install_def Let_def)
        qed
      qed
      moreover have "dials (install h st ?s) h' i' = dials ?s h' i'" for h' i' by (simp add: install_def Let_def dials_def is_dial_def spawn_def put_sub_def)
      ultimately have "linv (install h st ?s)"
        apply (intro linv_at[OF assms(1), of _ h])
        using linvD(1)[OF assms(1)] d th e e1 st(2)
        by (auto simp: entry_ok_def install_def Let_def thread_ok_def[of _ "Serve a b c" for a b c] thread_ok_def[of _ "Listen u" for u] intro: lthread_ok_mono[where n = "ls_fresh s"])
      then show ?thesis using live ok0 by (simp add: dialAndRun_def)
    qed
  qed
qed

lemma plain_taken: "plain_thread th \<Longrightarrow> linv s \<Longrightarrow> linv (s\<lparr>ls_threads := remove1 th (ls_threads s)\<rparr>)"
  by (rule linv_same[of s]) (auto simp: same_goroutines_def filter_remove1_other linv_def open_ok_def dest: notin_set_remove1)

lemma linv_close: "linv s \<Longrightarrow> linv (close_conn c s)"
  by (rule linv_same[of s]) (auto simp: close_conn_def same_goroutines_def linv_def open_ok_def)

lemma linv_listen: "linv s \<Longrightarrow> linv (send_listen C u ok s)"
proof -
  assume inv: "linv s"
  have "linv (s\<lparr>ls_wire := w\<rparr>)" "linv (s\<lparr>ls_wire := w, ls_purged := p\<rparr>)" for w p
    by (rule linv_same[OF inv]; use inv in \<open>auto simp: same_goroutines_def linv_def open_ok_def\<close>)+
  then show ?thesis using linv_close[OF inv] by (simp add: send_listen_def Let_def)
qed

lemma open_ok_drop:
  assumes "open_ok s" "ls_open s' = filter (\<lambda>c. c \<notin> set (conns_of xs)) (ls_open s)"
    and "\<And>h st. map_of (ls_subs s) h = Some st \<Longrightarrow> (\<exists>st'. map_of (ls_subs s') h = Some st' \<and> ss_conn st' = ss_conn st) \<or> (\<exists>st'. (h, st') \<in> set xs \<and> ss_conn st' = ss_conn st)"
  shows "open_ok s'"
  unfolding open_ok_def
proof (intro conjI ballI)
  show "distinct (ls_open s')" using assms(1,2) by (simp add: open_ok_def)
  fix c assume c: "c \<in> set (ls_open s')"
  then obtain h st where st: "map_of (ls_subs s) h = Some st" "ss_conn st = Some c" using assms(1,2) by (auto simp: open_ok_def)
  from assms(3)[OF st(1)] show "\<exists>h st. map_of (ls_subs s') h = Some st \<and> ss_conn st = Some c"
  proof (elim disjE exE conjE)
    fix st' assume "(h, st') \<in> set xs" "ss_conn st' = ss_conn st"
    then have "c \<in> set (conns_of xs)" using st(2) by (force simp: conns_of_def map_filter_def)
    then show ?thesis using c assms(2) by simp
  qed (use st in auto)
qed

lemma linv_serve:
  assumes "linv s" "Serve h i c \<in> set (ls_threads s)"
  shows "linv (end_serving C h i c (s\<lparr>ls_threads := remove1 (Serve h i c) (ls_threads s)\<rparr>))"
proof -
  let ?s = "close_conn c (s\<lparr>ls_threads := remove1 (Serve h i c) (ls_threads s)\<rparr>)"
  have th: "th \<in> set (ls_threads ?s) \<Longrightarrow> thread_ok (ls_fresh s) th" for th
    using linvD(3)[OF assms(1)] by (auto simp: close_conn_def dest: notin_set_remove1)
  have d: "dials ?s h' i' = dials s h' i'" for h' i' by (simp add: dials_def close_conn_def filter_remove1_other is_dial_def)
  have serve: "Serve h' i' c' \<in> set (ls_threads s) \<Longrightarrow> (h', i', c') \<noteq> (h, i, c) \<Longrightarrow> Serve h' i' c' \<in> set (ls_threads ?s)" for h' i' c'
    by (auto simp: close_conn_def)
  have op: "open_ok s" by (rule linvD(4)[OF assms(1)])
  have gm: "gmap_ok (ls_subs s)" by (rule linvD(1)[OF assms(1)])
  show ?thesis
  proof (cases "\<exists>st. map_of (ls_subs s) h = Some st \<and> ss_id st = i \<and> ss_conn st = Some c")
    case True
    then obtain st where st: "map_of (ls_subs s) h = Some st" "ss_id st = i" "ss_conn st = Some c" by blast
    have "linv (spawn l (del_sub h ?s))" if l: "l = [] \<or> l = [Purge ps 1]" for l ps
    proof (rule linv_at[OF assms(1), of _ h])
      show "open_ok (spawn l (del_sub h ?s))"
        by (rule open_ok_drop[OF op, of _ "[(h, st)]"]) (use st in \<open>auto simp: close_conn_def del_sub_def conns_of_def map_filter_simps\<close>)
      show "dials (spawn l (del_sub h ?s)) h' i' = dials s h' i'" for h' i' using l d by (auto simp: dials_spawn is_dial_def) (simp_all add: dials_def del_sub_def)
      show "Serve h' i' c' \<in> set (ls_threads (spawn l (del_sub h ?s)))" if "h' \<noteq> h" "Serve h' i' c' \<in> set (ls_threads s)" for h' i' c'
        using serve[OF that(2)] that(1) by (simp add: del_sub_def)
      show "thread_ok (ls_fresh (spawn l (del_sub h ?s))) t" if "t \<in> set (ls_threads (spawn l (del_sub h ?s)))" for t
        using that th l by (auto simp: del_sub_def close_conn_def thread_ok_def[of _ "Purge a b" for a b] dest: notin_set_remove1)
    qed (use gm in \<open>auto simp: del_sub_def close_conn_def\<close>)
    then show ?thesis using st by (simp add: end_serving_def Let_def close_conn_def)
  next
    case False
    have "linv ?s"
    proof (rule linv_at[OF assms(1), of _ h])
      show "entry_ok ?s h st" if "map_of (ls_subs ?s) h = Some st" for st
      proof -
        have "map_of (ls_subs s) h = Some st" using that by (simp add: close_conn_def)
        with False linvD(2)[OF assms(1) this] show ?thesis unfolding entry_ok_def d using serve by (auto simp: close_conn_def)
      qed
      show "open_ok ?s" using op by (auto simp: open_ok_def close_conn_def)
    qed (use gm d serve th in \<open>auto simp: close_conn_def\<close>)
    then show ?thesis using False by (auto simp: end_serving_def Let_def close_conn_def split: option.splits)
  qed
qed

subsection \<open>Closing\<close>

lemma map_of_map_snd: "map_of (map (\<lambda>(k, v). (k, f v)) m) k = map_option f (map_of m k)"
  by (induction m) auto

lemma map_of_filter_snd: "gmap_ok m \<Longrightarrow> map_of (filter (\<lambda>(k, v). P v) m) k = (case map_of m k of None \<Rightarrow> None | Some v \<Rightarrow> if P v then Some v else None)"
  by (induction m) (auto simp: gmap_ok_def split: option.splits, (metis fst_conv image_eqI map_of_SomeD)+)

lemma linv_excess:
  assumes "linv s"
  shows "linv (deleteExcessSubscriptions C ds since s)"
proof -
  let ?keep = "spared ds since s"
  let ?f = "\<lambda>st. st\<lparr>ss_prefixes := filter ?keep (ss_prefixes st)\<rparr>"
  let ?pruned = "map (\<lambda>(h, st). (h, ?f st)) (ls_subs s)"
  let ?rest = "filter (\<lambda>(h, st). ss_prefixes st \<noteq> []) ?pruned" and ?closed = "filter (\<lambda>(h, st). ss_prefixes st = []) ?pruned"
  let ?s = "s\<lparr>ls_subs := ?rest, ls_open := filter (\<lambda>c. c \<notin> set (conns_of ?closed)) (ls_open s)\<rparr>"
  have gm: "gmap_ok ?pruned" using linvD(1)[OF assms] by (simp add: gmap_ok_def comp_def case_prod_beta)
  have rest: "map_of ?rest h = (case map_of (ls_subs s) h of None \<Rightarrow> None | Some st \<Rightarrow> if filter ?keep (ss_prefixes st) \<noteq> [] then Some (?f st) else None)" for h
    unfolding map_of_filter_snd[OF gm] map_of_map_snd by (simp split: option.splits)
  have inv: "linv (spawn l ?s)" if l: "\<forall>th\<in>set l. \<exists>ps u. th = Purge ps 1 \<or> th = Listen u" for l
  proof -
    have dl: "filter (is_dial h i) l = []" for h i using l by (auto simp: filter_empty_conv is_dial_def split: lthread.splits)
    have "entry_ok (spawn l ?s) h st" if m: "map_of (ls_subs (spawn l ?s)) h = Some st" for h st
    proof -
      obtain st0 where st0: "map_of (ls_subs s) h = Some st0" "st = ?f st0" "filter ?keep (ss_prefixes st0) \<noteq> []"
        using m by (auto simp: rest split: option.splits if_splits)
      show ?thesis using linvD(2)[OF assms st0(1)] st0(3) dl unfolding st0(2) by (simp add: entry_ok_def dials_def)
    qed
    moreover have "open_ok (spawn l ?s)"
    proof (rule open_ok_drop[OF linvD(4)[OF assms], of _ ?closed])
      fix h st assume st: "map_of (ls_subs s) h = Some st"
      show "(\<exists>st'. map_of (ls_subs (spawn l ?s)) h = Some st' \<and> ss_conn st' = ss_conn st) \<or> (\<exists>st'. (h, st') \<in> set ?closed \<and> ss_conn st' = ss_conn st)"
      proof (cases "filter ?keep (ss_prefixes st) = []")
        case True
        have "(h, ?f st) \<in> set ?closed" using True map_of_SomeD[OF st] by force
        moreover have "ss_conn (?f st) = ss_conn st" by simp
        ultimately show ?thesis by blast
      qed (simp add: rest st)
    qed simp
    moreover have "gmap_ok ?rest" using gm by (simp add: gmap_ok_def distinct_map_filter)
    moreover have "\<forall>th\<in>set (ls_threads (spawn l ?s)). thread_ok (ls_fresh s) th" using linvD(3)[OF assms] l by (auto simp: thread_ok_def)
    ultimately show ?thesis unfolding linv_def by simp
  qed
  show ?thesis unfolding deleteExcessSubscriptions_def Let_def
    by (rule inv) (auto simp: map_filter_def split: if_splits option.splits)
qed

lemma linv_closeAll: "linv s \<Longrightarrow> linv (closeAllSubscriptions C t s)"
proof -
  assume inv: "linv s"
  have "linv (spawn l (s\<lparr>ls_subs := [], ls_open := filter (\<lambda>c. c \<notin> set (conns_of (ls_subs s))) (ls_open s)\<rparr>))" if l: "l = [] \<or> l = [Purge ps 1]" for l ps
  proof -
    have "open_ok (spawn l (s\<lparr>ls_subs := [], ls_open := filter (\<lambda>c. c \<notin> set (conns_of (ls_subs s))) (ls_open s)\<rparr>))"
      by (rule open_ok_drop[OF linvD(4)[OF inv], of _ "ls_subs s"]) (auto dest: map_of_SomeD)
    then show ?thesis using linvD(3)[OF inv] l unfolding linv_def by (auto simp: gmap_ok_def thread_ok_def[of _ "Purge a b" for a b])
  qed
  then show ?thesis using inv by (simp add: closeAllSubscriptions_def)
qed

subsection \<open>Every reachable state\<close>

lemma linv_views:
  assumes "linv s" "ls_subs s' = ls_subs s" "ls_threads s' = ls_threads s" "ls_open s' = ls_open s" "ls_fresh s \<le> ls_fresh s'"
  shows "linv s'"
  by (rule linv_same[OF assms(1)]) (use assms in \<open>auto simp: same_goroutines_def linv_def open_ok_def intro: lthread_ok_mono\<close>)

lemma by_host_ok: "hosts_ok m \<Longrightarrow> hosts_ok (by_host h p m)"
proof -
  have set: "(h', ps') \<in> set (gmap_set h ps m) \<Longrightarrow> (h', ps') = (h, ps) \<or> (h', ps') \<in> set m" for h' ps' ps
    by (induction m) (auto split: if_splits)
  assume "hosts_ok m"
  then show ?thesis unfolding hosts_ok_def by_host_def Let_def
    by (intro ballI, clarify) (fastforce split: if_splits option.splits dest!: set dest: map_of_SomeD)
qed

lemma lexec_inv:
  assumes "linv s" "lexec C a s = Some s'"
  shows "linv s'"
proof (cases a)
  case (AResolve now ps m host)
  then obtain p qs where ps: "ps = p # qs" "Ensure ps m \<in> set (ls_threads s)"
      and s': "s' = (case ensure_resolve C now host p (m, s\<lparr>ls_threads := remove1 (Ensure ps m) (ls_threads s)\<rparr>) of (m', s') \<Rightarrow> spawn [Ensure qs m'] s')"
    using assms(2) by (auto simp: take_thread_def split: list.splits if_splits)
  let ?s = "s\<lparr>ls_threads := remove1 (Ensure ps m) (ls_threads s)\<rparr>"
  obtain m' s1 where r: "ensure_resolve C now host p (m, ?s) = (m', s1)" by fastforce
  have m: "hosts_ok m" using linvD(3)[OF assms(1) ps(2)] by (simp add: thread_ok_def)
  have m': "hosts_ok m'" using r m by_host_ok[OF m] by (auto simp: ensure_resolve_def split: option.splits if_splits)
  have s1: "ls_subs s1 = ls_subs ?s" "ls_threads s1 = ls_threads ?s" "ls_open s1 = ls_open ?s" "ls_fresh s1 = ls_fresh ?s"
    using r by (auto simp: ensure_resolve_def split: option.splits if_splits)
  have inv1: "linv s1" by (rule linv_views[OF plain_taken[OF _ assms(1)]]) (use s1 in \<open>auto simp: plain_thread_def\<close>)
  show ?thesis unfolding s' r prod.case
    by (rule linv_same[OF inv1]) (use m' inv1 in \<open>auto simp: same_goroutines_def plain_thread_def thread_ok_def linv_def open_ok_def\<close>)
next
  case (AEnsure now ps)
  have "linv (stamp now qs s)" for qs by (rule linv_stamp[OF assms(1)])
  then have "linv (spawn [Ensure rs []] (stamp now qs s))" for rs qs
    by (rule linv_same) (use assms(1) in \<open>auto simp: same_goroutines_def plain_thread_def thread_ok_def hosts_ok_def linv_def open_ok_def\<close>)
  then show ?thesis using assms(2) AEnsure by (auto simp: ensure_stamp_def)
next
  case (AMerge now m)
  then show ?thesis using assms linvD(3)[OF assms(1), of "Ensure [] m"]
    by (auto simp: take_thread_def thread_ok_def plain_thread_def intro!: linv_ensure_merge plain_taken split: if_splits)
next
  case (APurge ps d)
  then have s': "s' = (s\<lparr>ls_threads := remove1 (Purge ps d) (ls_threads s)\<rparr>)\<lparr>ls_purged := ls_purged s @ [(ps, d)]\<rparr>"
    using assms(2) by (auto simp: take_thread_def split: if_splits)
  show ?thesis unfolding s' by (rule linv_views[OF plain_taken[OF _ assms(1)]]) (auto simp: plain_thread_def)
next
  case (ADial t h i ok)
  then show ?thesis using assms linv_dial[OF assms(1)] by (auto simp: take_thread_def split: if_splits)
next
  case (AListen u ok)
  then show ?thesis using assms plain_taken[OF _ assms(1), of "Listen u"] by (auto simp: take_thread_def plain_thread_def intro!: linv_listen split: if_splits)
next
  case (AEndServing h i c)
  then show ?thesis using assms linv_serve[OF assms(1)] by (auto simp: take_thread_def split: if_splits)
next
  case AStart
  then show ?thesis using assms by (auto simp: leader_Start_def intro: linv_views[OF assms(1)])
next
  case (AEnd t)
  then show ?thesis using assms by (auto intro: linv_views[OF assms(1)])
next
  case (APoll polls)
  then show ?thesis using assms by (auto simp: pollPeerDemand_def store_polls_def Let_def split: option.splits intro: linv_views[OF assms(1)])
next
  case (AExpire now)
  then show ?thesis using assms by (auto simp: tick_expire_def intro: linv_views[OF assms(1)])
next
  case (ARelay ev)
  then show ?thesis using assms by (auto simp: relay_message_def split: option.splits intro: linv_views[OF assms(1)])
qed (use assms in \<open>auto intro: linv_repair linv_close linv_excess linv_closeAll\<close>)

lemma lreach_inv: "lreach C s \<Longrightarrow> linv s"
proof (induction rule: lreach.induct)
  case init
  then show ?case by (simp add: linv_def NewLeaderSubscriber_def gmap_ok_def open_ok_def)
qed (rule lexec_inv)

section \<open>What a tick of the keeper leaves subscribed\<close>

lemma concat_gmap_set:
  "set (f v') = (case map_of m k of None \<Rightarrow> {} | Some v \<Rightarrow> set (f v)) \<union> X \<Longrightarrow>
   set (concat (map (f \<circ> snd) (gmap_set k v' m))) = set (concat (map (f \<circ> snd) m)) \<union> X"
proof (induction m)
  case (Cons kv m)
  obtain a b where "kv = (a, b)" by fastforce
  then show ?case using Cons by (cases "k = a") (simp_all add: Un_ac)
qed simp

lemma tracked_put:
  assumes "set (ss_prefixes st') = (case map_of (ls_subs s) h of None \<Rightarrow> {} | Some st \<Rightarrow> set (ss_prefixes st)) \<union> X" "ls_subs s' = gmap_set h st' (ls_subs s)"
  shows "set (tracked s') = set (tracked s) \<union> X"
  unfolding tracked_def assms(2) by (rule concat_gmap_set[OF assms(1)])

lemma tracked_merge: "set (tracked (merge_host now t s (h, ps))) = set (tracked s) \<union> set ps"
proof (cases "map_of (ls_subs s) h")
  case None
  then show ?thesis unfolding merge_host_def by (intro tracked_put[of "\<lparr>ss_id = ls_fresh s, ss_prefixes = ps, ss_conn = None, ss_dialing = True\<rparr>" s h]) (simp_all add: Let_def)
next
  case (Some st)
  obtain qs added where a: "add_prefixes (ss_prefixes st) ps = (qs, added)" by fastforce
  have q: "set qs = set (ss_prefixes st) \<union> set ps" by (rule add_prefixes_spec(1)[OF a])
  have "\<exists>st'. set (ss_prefixes st') = set qs \<and> ls_subs (merge_host now t s (h, ps)) = gmap_set h st' (ls_subs s)"
  proof (cases "ss_dialing st \<or> ss_conn st \<noteq> None")
    case True
    then show ?thesis using Some a by (intro exI[of _ "st\<lparr>ss_prefixes := qs\<rparr>"]) (auto simp: merge_host_def Let_def)
  next
    case False
    then show ?thesis using Some a by (intro exI[of _ "st\<lparr>ss_prefixes := qs, ss_dialing := True\<rparr>"]) (simp add: merge_host_def Let_def)
  qed
  then show ?thesis using tracked_put[of _ s h "set ps"] q Some by auto
qed

lemma ensured_stamp: "p \<notin> set ps \<Longrightarrow> map_of (ls_ensuredAt (stamp now ps s)) p = map_of (ls_ensuredAt s) p"
proof -
  have "p \<notin> set ps \<Longrightarrow> map_of (foldl (\<lambda>m p. gmap_set p now m) m ps) p = map_of m p" for m by (induction ps arbitrary: m) auto
  then show "p \<notin> set ps \<Longrightarrow> ?thesis" by (simp add: stamp_def)
qed

lemma merge_views:
  "ls_runCtx (merge_host now t s hp) = ls_runCtx s" "ls_ended (merge_host now t s hp) = ls_ended s" "ls_localSeen (merge_host now t s hp) = ls_localSeen s"
  "ls_ensuredAt (merge_host now t s hp) = ls_ensuredAt (stamp now (snd hp) s)"
  by (auto simp: merge_host_def Let_def spawn_def put_sub_def stamp_def split: prod.splits option.splits)

lemma merge_all:
  "set (tracked (foldl (merge_host now t) s m)) = set (tracked s) \<union> set (concat (map snd m))
   \<and> ls_localSeen (foldl (merge_host now t) s m) = ls_localSeen s
   \<and> (\<forall>p. p \<notin> set (concat (map snd m)) \<longrightarrow> map_of (ls_ensuredAt (foldl (merge_host now t) s m)) p = map_of (ls_ensuredAt s) p)"
proof (induction m arbitrary: s)
  case (Cons hp m)
  obtain h ps where hp: "hp = (h, ps)" by fastforce
  show ?case using Cons[of "merge_host now t s hp"] by (auto simp: hp tracked_merge merge_views ensured_stamp)
qed simp

lemma by_host_all: "set (concat (map snd (by_host h p m))) = insert p (set (concat (map snd m)))"
proof (cases "p \<in> set (case map_of m h of None \<Rightarrow> [] | Some ps \<Rightarrow> ps)")
  case True
  then obtain ps where "map_of m h = Some ps" "p \<in> set ps" by (cases "map_of m h") auto
  then have "p \<in> set (concat (map snd m))" using map_of_SomeD[of m h ps] by force
  then show ?thesis using True by (auto simp: by_host_def)
next
  case False
  then show ?thesis using concat_gmap_set[of "\<lambda>x. x" "(case map_of m h of None \<Rightarrow> [] | Some ps \<Rightarrow> ps) @ [p]" m h "{p}"]
    by (auto simp: by_host_def Let_def comp_def split: option.splits)
qed

lemma resolve_all:
  assumes "foldl (\<lambda>acc p. ensure_resolve C now (resolve p) p acc) (m, s) ps = (m', s')"
  shows "set (concat (map snd m')) = set (concat (map snd m)) \<union> {p \<in> set ps. \<exists>h. resolve p = Some h \<and> h \<noteq> lc_fqdn C}
    \<and> (\<forall>p\<in>set ps. resolve p = Some (lc_fqdn C) \<longrightarrow> map_of (ls_localSeen s') p \<noteq> None) \<and> (\<forall>p. map_of (ls_localSeen s) p \<noteq> None \<longrightarrow> map_of (ls_localSeen s') p \<noteq> None)
    \<and> ls_subs s' = ls_subs s \<and> ls_ensuredAt s' = ls_ensuredAt s \<and> lead_ctx s' = lead_ctx s"
  using assms
proof (induction ps arbitrary: m s)
  case (Cons p ps)
  obtain m1 s1 where r: "ensure_resolve C now (resolve p) p (m, s) = (m1, s1)" by fastforce
  have 1: "set (concat (map snd m1)) = set (concat (map snd m)) \<union> (if \<exists>h. resolve p = Some h \<and> h \<noteq> lc_fqdn C then {p} else {})"
  proof (cases "\<exists>h. resolve p = Some h \<and> h \<noteq> lc_fqdn C")
    case True
    then obtain h where "m1 = by_host h p m" using r by (auto simp: ensure_resolve_def)
    then show ?thesis using True by_host_all[of h p m] by simp
  next
    case False
    then have "m1 = m" using r by (auto simp: ensure_resolve_def split: option.splits)
    then show ?thesis using False by auto
  qed
  have 2: "ls_subs s1 = ls_subs s" "ls_ensuredAt s1 = ls_ensuredAt s" "lead_ctx s1 = lead_ctx s"
      "resolve p = Some (lc_fqdn C) \<longrightarrow> map_of (ls_localSeen s1) p \<noteq> None" "\<forall>q. map_of (ls_localSeen s) q \<noteq> None \<longrightarrow> map_of (ls_localSeen s1) q \<noteq> None"
    using r by (auto simp: ensure_resolve_def lead_ctx_def split: option.splits if_splits)
  have "foldl (\<lambda>acc p. ensure_resolve C now (resolve p) p acc) (m1, s1) ps = (m', s')" using Cons.prems r by simp
  from Cons.IH[OF this] show ?case using 1 2 by auto
qed simp

lemma ensure_all:
  assumes "lead_ctx s \<noteq> None"
    and def: "s' = leader_EnsureSubscriptions C now resolve ps s"
  shows "set (tracked s') = set (tracked s) \<union> {p \<in> set ps. \<exists>h. resolve p = Some h \<and> h \<noteq> lc_fqdn C}"
    and "p \<in> set ps \<Longrightarrow> p \<notin> set (tracked s) \<Longrightarrow> resolve p = Some (lc_fqdn C) \<Longrightarrow> map_of (ls_localSeen s') p \<noteq> None"
    and "q \<notin> set ps \<Longrightarrow> map_of (ls_ensuredAt s') q = map_of (ls_ensuredAt s) q"
proof -
  let ?s1 = "ensure_stamp now ps s" and ?qs = "filter (\<lambda>p. p \<notin> set (tracked s)) ps"
  obtain m s2 where r: "foldl (\<lambda>acc p. ensure_resolve C now (resolve p) p acc) ([], ?s1) ?qs = (m, s2)" by fastforce
  have s1: "tracked ?s1 = tracked s" "lead_ctx ?s1 = lead_ctx s" by (simp_all add: ensure_stamp_def tracked_def lead_ctx_def cong: option.case_cong)
  note ra = resolve_all[OF r]
  then have t2: "tracked s2 = tracked s" "lead_ctx s2 = lead_ctx s" using s1 by (simp_all add: tracked_def)
  then obtain t where t: "lead_ctx s2 = Some t" using assms(1) by auto
  have s': "s' = foldl (merge_host now t) s2 m" unfolding def leader_EnsureSubscriptions_def Let_def r prod.case ensure_merge_def t by simp
  have all: "set (concat (map snd m)) = {p \<in> set ?qs. \<exists>h. resolve p = Some h \<and> h \<noteq> lc_fqdn C}" using ra by simp
  note ma = merge_all[where now = now and t = t and s = s2 and m = m, folded s']
  show "set (tracked s') = set (tracked s) \<union> {p \<in> set ps. \<exists>h. resolve p = Some h \<and> h \<noteq> lc_fqdn C}"
    using ma unfolding all t2(1) by auto
  show "map_of (ls_localSeen s') p \<noteq> None" if "p \<in> set ps" "p \<notin> set (tracked s)" "resolve p = Some (lc_fqdn C)"
    using ma ra that by simp
  show "map_of (ls_ensuredAt s') q = map_of (ls_ensuredAt s) q" if "q \<notin> set ps"
  proof -
    have "q \<notin> set (concat (map snd m))" using all that by simp
    then have "map_of (ls_ensuredAt s') q = map_of (ls_ensuredAt ?s1) q" using ma ra by simp
    then show ?thesis using that by (simp add: ensure_stamp_def ensured_stamp)
  qed
qed

lemma ensure_gmap: "gmap_ok (ls_subs s) \<Longrightarrow> gmap_ok (ls_subs (leader_EnsureSubscriptions C now resolve ps s))"
proof -
  assume gm: "gmap_ok (ls_subs s)"
  obtain m s2 where r: "foldl (\<lambda>acc p. ensure_resolve C now (resolve p) p acc) ([], ensure_stamp now ps s) (filter (\<lambda>p. p \<notin> set (tracked s)) ps) = (m, s2)" by fastforce
  have "ls_subs s2 = ls_subs s" using resolve_all[OF r] by (simp add: ensure_stamp_def)
  moreover have "gmap_ok (ls_subs s) \<Longrightarrow> gmap_ok (ls_subs (foldl (merge_host now t) s m))" for t s
  proof (induction m arbitrary: s)
    case (Cons hp m)
    have "gmap_ok (ls_subs (merge_host now t s hp))" using Cons.prems by (auto simp: merge_host_def Let_def split: prod.splits option.splits)
    then show ?case using Cons.IH by simp
  qed simp
  ultimately show ?thesis using gm by (simp add: leader_EnsureSubscriptions_def r ensure_merge_def split: option.splits)
qed

lemma repair_views:
  assumes "gmap_ok (ls_subs s)"
  shows "set (tracked (repairBrokenSubscriptions s)) = set (tracked s)" "ls_ensuredAt (repairBrokenSubscriptions s) = ls_ensuredAt s"
    "ls_localSeen (repairBrokenSubscriptions s) = ls_localSeen s"
proof -
  have "set (tracked (foldl (repair_host t) s xs)) = set (tracked s)"
    if "distinct (map fst xs)" "\<forall>(h, st)\<in>set xs. map_of (ls_subs s) h = Some st" for t xs s
    using that
  proof (induction xs arbitrary: s)
    case (Cons x xs)
    obtain h st where x: "x = (h, st)" by fastforce
    have "set (tracked (repair_host t s x)) = set (tracked s)"
      using tracked_put[of "st\<lparr>ss_dialing := True\<rparr>" s h "{}"] Cons.prems(2) by (simp add: x repair_host_def)
    moreover have "\<forall>(h', st')\<in>set xs. map_of (ls_subs (repair_host t s x)) h' = Some st'"
    proof (rule ballI, clarify)
      fix h' st' assume h': "(h', st') \<in> set xs"
      then have "h' \<noteq> h" using Cons.prems(1) x by force
      then show "map_of (ls_subs (repair_host t s x)) h' = Some st'" using h' Cons.prems(2) by (auto simp: x repair_host_def)
    qed
    ultimately show ?case using Cons by simp
  qed simp
  then show "set (tracked (repairBrokenSubscriptions s)) = set (tracked s)"
    using assms by (auto simp: repairBrokenSubscriptions_def gmap_ok_def split: option.splits)
  have "ls_ensuredAt (foldl (repair_host t) s xs) = ls_ensuredAt s \<and> ls_localSeen (foldl (repair_host t) s xs) = ls_localSeen s" for t xs s
    by (induction xs arbitrary: s) (auto simp: repair_host_def spawn_def put_sub_def split: prod.splits)
  then show "ls_ensuredAt (repairBrokenSubscriptions s) = ls_ensuredAt s" "ls_localSeen (repairBrokenSubscriptions s) = ls_localSeen s"
    by (auto simp: repairBrokenSubscriptions_def split: option.splits)
qed

lemma excess_tracked:
  "set (tracked (deleteExcessSubscriptions C ds since s)) = {p \<in> set (tracked s). spared ds since s p}"
  "lc_purger C \<Longrightarrow> p \<in> set (tracked s) \<Longrightarrow> \<not> spared ds since s p \<Longrightarrow> \<exists>ps. Purge ps 1 \<in> set (ls_threads (deleteExcessSubscriptions C ds since s)) \<and> p \<in> set ps"
  "ls_localSeen (deleteExcessSubscriptions C ds since s) = ls_localSeen s"
proof -
  have "set (concat (map (ss_prefixes \<circ> snd) (filter (\<lambda>(h, st). ss_prefixes st \<noteq> []) (map (\<lambda>(h, st). (h, st\<lparr>ss_prefixes := filter k (ss_prefixes st)\<rparr>)) m))))
      = {p \<in> set (concat (map (ss_prefixes \<circ> snd) m)). k p}" for k m
    by (induction m) (auto simp: filter_empty_conv)
  then show "set (tracked (deleteExcessSubscriptions C ds since s)) = {p \<in> set (tracked s). spared ds since s p}"
    by (simp add: deleteExcessSubscriptions_def Let_def tracked_def)
qed (auto simp: deleteExcessSubscriptions_def Let_def spawn_def intro!: exI[of _ "filter (\<lambda>p. \<not> spared ds since s p) (tracked s)"] simp: filter_empty_conv)

text \<open>C19. Whatever the interleaving of ensures, dials, connections that break, keeper ticks and lead terms: every open connection is the one
  connection of an entry, so there are at most as many as hosts; an entry is being dialled by one goroutine exactly when it
  says so; and every entry with a connection has a goroutine that will remove it when the connection ends.\<close>

theorem leader_connections:
  assumes "lreach C s"
  shows "distinct (ls_open s) \<and> length (ls_open s) \<le> length (ls_subs s)
    \<and> (\<forall>c\<in>set (ls_open s). \<exists>h st. map_of (ls_subs s) h = Some st \<and> ss_conn st = Some c)
    \<and> (\<forall>h st. map_of (ls_subs s) h = Some st \<longrightarrow> ss_prefixes st \<noteq> [] \<and> distinct (ss_prefixes st)
         \<and> dials s h (ss_id st) = (if ss_dialing st then 1 else 0)
         \<and> (\<forall>c. ss_conn st = Some c \<longrightarrow> \<not> ss_dialing st \<and> Serve h (ss_id st) c \<in> set (ls_threads s)))"
proof -
  have inv: "linv s" by (rule lreach_inv[OF assms])
  have op: "open_ok s" by (rule linvD(4)[OF inv])
  have "set (ls_open s) \<subseteq> set (conns_of (ls_subs s))"
    using op by (force simp: open_ok_def conns_of_def map_filter_def dest: map_of_SomeD)
  moreover have "length (conns_of m) \<le> length m" for m :: "(string, sub_state) gmap" by (induction m) (auto simp: conns_of_def map_filter_simps split: option.splits)
  ultimately have "length (ls_open s) \<le> length (ls_subs s)"
    using op distinct_card[of "ls_open s"] card_mono[of "set (conns_of (ls_subs s))" "set (ls_open s)"] card_length[of "conns_of (ls_subs s)"]
    by (metis List.finite_set le_trans open_ok_def)
  then show ?thesis using op linvD(2)[OF inv] by (simp add: open_ok_def entry_ok_def)
qed

lemma expire_views:
  "tracked (tick_expire now s) = tracked s" "lead_ctx (tick_expire now s) = lead_ctx s" "ls_peerDemand (tick_expire now s) = ls_peerDemand s" "ls_subs (tick_expire now s) = ls_subs s"
  by (simp_all add: tick_expire_def tracked_def lead_ctx_def split: option.splits)

lemma expire_recent:
  "gmap_ok m \<Longrightarrow> (\<exists>a. map_of (filter (\<lambda>(p, stamped). \<not> now - stamped > minute) m) p = Some a \<and> now < a) \<longleftrightarrow> (\<exists>a. map_of m p = Some a \<and> now < a)"
  unfolding map_of_filter_snd by (auto simp: minute_def split: option.splits if_splits)

lemma poll_views:
  "tracked (snd (pollPeerDemand C polls s)) = tracked s" "lead_ctx (snd (pollPeerDemand C polls s)) = lead_ctx s"
  "ls_ensuredAt (snd (pollPeerDemand C polls s)) = ls_ensuredAt s" "ls_subs (snd (pollPeerDemand C polls s)) = ls_subs s"
  "fst (pollPeerDemand C polls (tick_expire now s)) = fst (pollPeerDemand C polls s)"
  by (simp_all add: pollPeerDemand_def store_polls_def Let_def tracked_def lead_ctx_def tick_expire_def split: option.splits)

lemma stamps_stamp: "gmap_ok (ls_ensuredAt s) \<Longrightarrow> gmap_ok (ls_ensuredAt (stamp now ps s))"
proof -
  have "gmap_ok m \<Longrightarrow> gmap_ok (foldl (\<lambda>m p. gmap_set p now m) m ps)" for m :: "(string, gotime) gmap" by (induction ps arbitrary: m) auto
  then show "gmap_ok (ls_ensuredAt s) \<Longrightarrow> ?thesis" by (simp add: stamp_def)
qed

lemma stamps_merge: "gmap_ok (ls_ensuredAt s) \<Longrightarrow> gmap_ok (ls_ensuredAt (ensure_merge now m s))"
proof -
  have "gmap_ok (ls_ensuredAt s) \<Longrightarrow> gmap_ok (ls_ensuredAt (foldl (merge_host now t) s m))" for t s
  proof (induction m arbitrary: s)
    case (Cons hp m)
    then show ?case using Cons.IH[of "merge_host now t s hp"] stamps_stamp[of s now "snd hp"] by (simp add: merge_views(4))
  qed simp
  then show "gmap_ok (ls_ensuredAt s) \<Longrightarrow> ?thesis" by (simp add: ensure_merge_def split: option.splits)
qed

lemma repair_stamps: "ls_ensuredAt (repairBrokenSubscriptions s) = ls_ensuredAt s"
proof -
  have "ls_ensuredAt (foldl (repair_host t) s xs) = ls_ensuredAt s" for t xs s
    by (induction xs arbitrary: s) (auto simp: repair_host_def spawn_def put_sub_def split: prod.splits)
  then show ?thesis by (simp add: repairBrokenSubscriptions_def split: option.splits)
qed

lemmas leader_ops = leader_Start_def spawn_def put_sub_def del_sub_def close_conn_def take_thread_def install_def dialAndRun_def send_listen_def
  end_serving_def relay_message_def deleteExcessSubscriptions_def closeAllSubscriptions_def tick_expire_def pollPeerDemand_def store_polls_def
  ensure_stamp_def ensure_resolve_def Let_def

lemma lexec_stamps: "gmap_ok (ls_ensuredAt s) \<Longrightarrow> lexec C a s = Some s' \<Longrightarrow> gmap_ok (ls_ensuredAt s')"
proof (cases a)
  case (AMerge now m)
  then show "gmap_ok (ls_ensuredAt s) \<Longrightarrow> lexec C a s = Some s' \<Longrightarrow> ?thesis" by (auto simp: take_thread_def split: if_splits intro: stamps_merge)
next
  case (AEnsure now ps)
  then show "gmap_ok (ls_ensuredAt s) \<Longrightarrow> lexec C a s = Some s' \<Longrightarrow> ?thesis"
    using stamps_stamp[of s now] by (auto simp: spawn_def ensure_stamp_def)
next
  case (AExpire now)
  then show "gmap_ok (ls_ensuredAt s) \<Longrightarrow> lexec C a s = Some s' \<Longrightarrow> ?thesis" by (auto simp: tick_expire_def gmap_ok_def distinct_map_filter)
qed (auto simp: leader_ops repair_stamps split: list.splits if_splits option.splits prod.splits)

lemma lreach_stamps: "lreach C s \<Longrightarrow> gmap_ok (ls_ensuredAt s)"
proof (induction rule: lreach.induct)
  case init
  then show ?case by (simp add: NewLeaderSubscriber_def gmap_ok_def)
qed (rule lexec_stamps)

text \<open>C20. After a tick of the keeper, with no other goroutine in between, exactly these prefixes are subscribed: of the demanded ones those that were, and those whose host is
  found and is another server; of the others only those that somebody ensured after the tick began. Demanded prefixes of this
  server are marked as local, and what is dropped is handed to the purger.\<close>

theorem keeper_tick_tracks:
  assumes "lreach C s" "lead_ctx s \<noteq> None" "zero_time \<le> tickStart"
    and D: "D = set (concat clients) \<union> set (fst (pollPeerDemand C polls s))" and s': "s' = keeper_tick C tickStart resolve clients polls s"
  shows "(p \<in> set (tracked s') \<longleftrightarrow> (p \<in> D \<and> (p \<in> set (tracked s) \<or> (\<exists>h. resolve p = Some h \<and> h \<noteq> lc_fqdn C)))
        \<or> (p \<notin> D \<and> p \<in> set (tracked s) \<and> (\<exists>a. map_of (ls_ensuredAt s) p = Some a \<and> tickStart < a)))
    \<and> (p \<in> D \<and> p \<notin> set (tracked s) \<and> resolve p = Some (lc_fqdn C) \<longrightarrow> map_of (ls_localSeen s') p \<noteq> None)
    \<and> (lc_purger C \<and> p \<in> set (tracked s) \<and> p \<notin> set (tracked s') \<longrightarrow> (\<exists>ps. Purge ps 1 \<in> set (ls_threads s') \<and> p \<in> set ps))"
proof -
  obtain peers s1 where poll: "pollPeerDemand C polls (tick_expire tickStart s) = (peers, s1)" by fastforce
  let ?d = "remdups (concat clients @ peers)"
  have peers: "peers = fst (pollPeerDemand C polls s)" using poll_views(5)[of C polls tickStart s] poll by simp
  then have d: "set ?d = D" by (simp add: D)
  have s1: "tracked s1 = tracked s" "lead_ctx s1 = lead_ctx s" "ls_ensuredAt s1 = ls_ensuredAt (tick_expire tickStart s)" "ls_subs s1 = ls_subs s"
    using poll_views(1-4)[of C polls "tick_expire tickStart s"] poll by (simp_all add: expire_views)
  define s2 where "s2 = leader_EnsureSubscriptions C tickStart resolve ?d s1"
  define s3 where "s3 = repairBrokenSubscriptions s2"
  have lead: "lead_ctx s1 \<noteq> None" using assms(2) s1(2) by simp
  note en = ensure_all[OF lead s2_def]
  have gm: "gmap_ok (ls_subs s2)" unfolding s2_def by (rule ensure_gmap) (simp add: s1(4) linvD(1)[OF lreach_inv[OF assms(1)]])
  note rep = repair_views[OF gm, folded s3_def]
  have s'': "s' = deleteExcessSubscriptions C ?d tickStart s3" unfolding s' keeper_tick_def poll prod.case Let_def s3_def s2_def by simp
  have sp: "spared ?d tickStart s3 q \<longleftrightarrow> q \<in> D \<or> (\<exists>a. map_of (ls_ensuredAt s) q = Some a \<and> tickStart < a)" for q
  proof (cases "q \<in> D")
    case False
    then have q: "q \<notin> set ?d" unfolding d .
    have "map_of (ls_ensuredAt s3) q = map_of (ls_ensuredAt (tick_expire tickStart s)) q" unfolding rep(2) en(3)[OF q] s1(3) ..
    then show ?thesis using False d assms(3) expire_recent[OF lreach_stamps[OF assms(1)], of tickStart q]
      by (auto simp: spared_def tick_expire_def split: option.splits)
  qed (use d in \<open>simp add: spared_def\<close>)
  have t3: "set (tracked s3) = set (tracked s) \<union> {p \<in> D. \<exists>h. resolve p = Some h \<and> h \<noteq> lc_fqdn C}" unfolding rep(1) en(1) s1(1) d ..
  have "p \<in> set (tracked s') \<longleftrightarrow> p \<in> set (tracked s3) \<and> spared ?d tickStart s3 p" unfolding s'' excess_tracked(1) by blast
  moreover have "p \<in> D \<Longrightarrow> p \<notin> set (tracked s) \<Longrightarrow> resolve p = Some (lc_fqdn C) \<Longrightarrow> map_of (ls_localSeen s') p \<noteq> None"
    unfolding s'' excess_tracked(3) rep(3) d[symmetric] s1(1)[symmetric] by (rule en(2))
  ultimately show ?thesis unfolding sp t3 using excess_tracked(2)[of C p s3 ?d tickStart, folded s''] sp t3 by blast
qed

section \<open>Runs\<close>

definition demo_leader :: leader_config where
  "demo_leader = \<lparr>lc_fqdn = ''me'', lc_purger = True, lc_discovery = False\<rparr>"

definition demo_listen :: "string list \<Rightarrow> string list \<Rightarrow> listen_update" where
  "demo_listen ps added = \<lparr>lu_host = ''h'', lu_conn = 2, lu_prefixes = ps, lu_added = added\<rparr>"

text \<open>A prefix is ensured and its host dialled; another prefix of the host is ensured before the first listen request is on the wire.\<close>

definition demo_race :: "laction list" where
  "demo_race = [AStart, AEnsure 1 [''p''], AResolve 1 [''p''] [] (Some ''h''), AMerge 1 [(''h'', [''p''])], ADial 0 ''h'' 1 True,
     AEnsure 2 [''q''], AResolve 2 [''q''] [] (Some ''h''), AMerge 2 [(''h'', [''q''])]]"

definition demo_overtaking :: "laction list" where
  "demo_overtaking = demo_race @ [AListen (demo_listen [''p'', ''q''] [''q'']) True, AListen (demo_listen [''p''] [''p'']) True]"

definition demo_after :: "laction list \<Rightarrow> leader" where
  "demo_after as = (case lrun demo_leader as NewLeaderSubscriber of None \<Rightarrow> NewLeaderSubscriber | Some s \<Rightarrow> s)"

lemma demo_after_reach: "lreach demo_leader (demo_after as)"
  unfolding demo_after_def by (auto split: option.splits intro: lreach.init lrun_reach[OF lreach.init])

lemma demo_race_run: "ls_open (demo_after demo_race) = [2]" "map_option ss_prefixes (map_of (ls_subs (demo_after demo_race)) ''h'') = Some [''p'', ''q'']"
  by code_simp+

theorem leader_connections_witness:
  "length (ls_subs (demo_after demo_race)) = 1 \<and> (\<exists>st. map_of (ls_subs (demo_after demo_race)) ''h'' = Some st \<and> ss_conn st = Some 2 \<and> ss_prefixes st = [''p'', ''q'']
     \<and> \<not> ss_dialing st \<and> Serve ''h'' (ss_id st) 2 \<in> set (ls_threads (demo_after demo_race)))"
proof -
  have l: "length (ls_subs (demo_after demo_race)) = 1" "map fst (ls_subs (demo_after demo_race)) = [''h'']" by code_simp+
  obtain st where st: "map_of (ls_subs (demo_after demo_race)) ''h'' = Some st" "ss_conn st = Some 2"
  proof -
    from leader_connections[OF demo_after_reach, of demo_race] demo_race_run(1)
    obtain h st where "map_of (ls_subs (demo_after demo_race)) h = Some st" "ss_conn st = Some 2" by auto
    moreover from this(1) have "h = ''h''" using l(2) by (auto dest!: map_of_SomeD)
    ultimately show thesis using \<open>\<And>st. map_of (ls_subs (demo_after demo_race)) ''h'' = Some st \<Longrightarrow> ss_conn st = Some 2 \<Longrightarrow> thesis\<close> by blast
  qed
  from leader_connections[OF demo_after_reach, of demo_race] st demo_race_run(2) l(1) show ?thesis by auto
qed

theorem keeper_tick_tracks_witness:
  "''q'' \<in> set (tracked (keeper_tick demo_leader 3 (\<lambda>p. Some ''h'') [[''q'']] None (demo_after demo_race)))
   \<and> ''p'' \<notin> set (tracked (keeper_tick demo_leader 3 (\<lambda>p. Some ''h'') [[''q'']] None (demo_after demo_race)))
   \<and> (\<exists>ps. Purge ps 1 \<in> set (ls_threads (keeper_tick demo_leader 3 (\<lambda>p. Some ''h'') [[''q'']] None (demo_after demo_race))) \<and> ''p'' \<in> set ps)"
proof -
  have r: "lead_ctx (demo_after demo_race) \<noteq> None" "''p'' \<in> set (tracked (demo_after demo_race))" "map_of (ls_ensuredAt (demo_after demo_race)) ''p'' = Some 1"
    by code_simp+
  have c: "zero_time \<le> (3 :: gotime)" "lc_purger demo_leader" "fst (pollPeerDemand demo_leader None (demo_after demo_race)) = []" "''h'' \<noteq> lc_fqdn demo_leader"
    by (simp_all add: zero_time_def demo_leader_def pollPeerDemand_def)
  note k = keeper_tick_tracks[OF demo_after_reach r(1) c(1) refl refl, where clients = "[[''q'']]" and polls = None and resolve = "\<lambda>p. Some ''h''"]
  show ?thesis using k[of "''q''"] k[of "''p''"] r c by auto
qed

text \<open>Listen requests are written after the lock is released, and the peer keeps the last one it reads. The request of a dial can be overtaken by
  that of a prefix ensured meanwhile: then the peer is left with the older list, no request remains to be written, the next tick writes
  none, and the prefix that the peer does not know counts as subscribed.\<close>

theorem listen_overtaken:
  "lreach demo_leader (demo_after demo_overtaking)
   \<and> ls_threads (demo_after demo_overtaking) = [Serve ''h'' 1 2, Serve ''h'' 1 2]
   \<and> map_of (ls_wire (demo_after demo_overtaking)) 2 = Some [''p'']
   \<and> leader_CurrentSubscriptions [[''q'']] (demo_after demo_overtaking) = [''q'']
   \<and> ls_threads (keeper_tick demo_leader 9 (\<lambda>p. Some ''h'') [[''p'', ''q'']] None (demo_after demo_overtaking)) = [Serve ''h'' 1 2, Serve ''h'' 1 2]"
proof (intro conjI)
  show "lreach demo_leader (demo_after demo_overtaking)" by (rule demo_after_reach)
qed code_simp+

end
