(* ===== verification/Realtime.thy ===== *)
theory Realtime
  imports Leader_Subscriber Chunkline_Store
begin

text \<open>
  Realtime sessions and how their demand reaches the leader: the use case \<^verbatim>\<open>src/internal/usecase/subscription/subscription.go\<close>, the
  subscriber of the other replicas \<^verbatim>\<open>src/internal/worker/WorkerSubscriber.go\<close>, the choice between the two
  (\<^verbatim>\<open>SubscriberManager.go\<close>), the requests between replicas (\<^verbatim>\<open>src/internal/present/rest/subscriber_coordination.go\<close>) and the events on
  Redis (\<^verbatim>\<open>src/internal/infra/pubsub/redis.go\<close>).

  Shown here: whatever sequence of opening, requesting and closing, the demand of a replica is the union of the last lists its open sessions asked for,
  and each session listens to the channels of its last list; a repeated list does not interrupt the subscription.
\<close>

section \<open>Events on Redis\<close>

definition EventChannelPrefix :: string where
  "EventChannelPrefix = ''cc-event:''"

text \<open>The channel and the event that is sent.\<close>

definition Publish :: "string \<Rightarrow> event \<Rightarrow> string \<times> event" where
  "Publish channel ev = (EventChannelPrefix @ channel, ev\<lparr>e_source := channel\<rparr>)"

definition subscribe_patterns :: "string list \<Rightarrow> string list" where
  "subscribe_patterns prefixes = map (\<lambda>p. EventChannelPrefix @ p @ ''*'') prefixes"

definition subscribe_all_pattern :: string where
  "subscribe_all_pattern = EventChannelPrefix @ ''*''"

text \<open>A message is passed on when it decodes.\<close>

definition receive_message :: "(string \<Rightarrow> event option) \<Rightarrow> string \<Rightarrow> event list \<Rightarrow> event list" where
  "receive_message dec msg out = (case dec msg of None \<Rightarrow> out | Some ev \<Rightarrow> out @ [ev])"

section \<open>Sessions\<close>

record sessions =
  se_nextID :: nat
  se_sessions :: "(nat, string list) gmap"

definition new_sessions :: sessions where
  "new_sessions = \<lparr>se_nextID = 0, se_sessions = []\<rparr>"

definition session_demand :: "sessions \<Rightarrow> string list" where
  "session_demand u = remdups (concat (map snd (se_sessions u)))"

definition SessionCount :: "sessions \<Rightarrow> nat" where
  "SessionCount u = length (se_sessions u)"

definition openSession :: "sessions \<Rightarrow> nat \<times> sessions" where
  "openSession u = (let i = se_nextID u + 1 in (i, u\<lparr>se_nextID := i, se_sessions := gmap_set i [] (se_sessions u)\<rparr>))"

definition updateSession :: "nat \<Rightarrow> string list \<Rightarrow> sessions \<Rightarrow> sessions" where
  "updateSession i prefixes u = u\<lparr>se_sessions := gmap_set i prefixes (se_sessions u)\<rparr>"

definition closeSession :: "nat \<Rightarrow> sessions \<Rightarrow> sessions" where
  "closeSession i u = u\<lparr>se_sessions := gmap_del i (se_sessions u)\<rparr>"

definition samePrefixSet :: "string list \<Rightarrow> string list \<Rightarrow> bool" where
  "samePrefixSet a b = (list_all (\<lambda>p. p \<in> set a) b \<and> list_all (\<lambda>p. p \<in> set b) a)"

text \<open>The loop of \<^verbatim>\<open>Realtime\<close>: the list it holds (\<open>None\<close> for \<^verbatim>\<open>nil\<close>), the patterns its live Redis subscription has, how often it subscribed, and
  the lists it ensured. A request of \<^verbatim>\<open>nil\<close> is \<open>None\<close>.\<close>

record session =
  rt_id :: nat
  rt_current :: "string list option"
  rt_live :: "string list"
  rt_subscribed :: nat
  rt_ensured :: "string list list"

definition prefixes_of :: "string list option \<Rightarrow> string list" where
  "prefixes_of r = (case r of None \<Rightarrow> [] | Some ps \<Rightarrow> ps)"

definition realtime_request :: "string list option \<Rightarrow> sessions \<times> session \<Rightarrow> sessions \<times> session" where
  "realtime_request req us = (case us of (u, r) \<Rightarrow>
     if rt_current r \<noteq> None \<and> samePrefixSet (prefixes_of (rt_current r)) (prefixes_of req) then (u, r)
     else (updateSession (rt_id r) (prefixes_of req) u,
           r\<lparr>rt_current := req, rt_live := subscribe_patterns (prefixes_of req), rt_subscribed := rt_subscribed r + 1, rt_ensured := rt_ensured r @ [prefixes_of req]\<rparr>))"

record replica =
  rp_sessions :: sessions
  rp_open :: "(nat, session) gmap"

datatype session_op = SOpen | SRequest nat "string list option" | SClose nat

fun session_step :: "session_op \<Rightarrow> replica \<Rightarrow> replica" where
  "session_step SOpen s = (case openSession (rp_sessions s) of (i, u) \<Rightarrow>
     s\<lparr>rp_sessions := u, rp_open := gmap_set i \<lparr>rt_id = i, rt_current = None, rt_live = [], rt_subscribed = 0, rt_ensured = []\<rparr> (rp_open s)\<rparr>)"
| "session_step (SRequest i req) s = (case map_of (rp_open s) i of None \<Rightarrow> s
     | Some r \<Rightarrow> (case realtime_request req (rp_sessions s, r) of (u, r') \<Rightarrow> s\<lparr>rp_sessions := u, rp_open := gmap_set i r' (rp_open s)\<rparr>))"
| "session_step (SClose i) s = (case map_of (rp_open s) i of None \<Rightarrow> s
     | Some r \<Rightarrow> s\<lparr>rp_sessions := closeSession i (rp_sessions s), rp_open := gmap_del i (rp_open s)\<rparr>)"

definition new_replica :: replica where
  "new_replica = \<lparr>rp_sessions = new_sessions, rp_open = []\<rparr>"

section \<open>The other replicas\<close>

definition workerDemandCacheTTL :: gotime where
  "workerDemandCacheTTL = 3 * second"

record worker_state =
  ws_cached :: "string list"
  ws_cachedAt :: gotime
  ws_fetching :: bool

text \<open>\<^verbatim>\<open>CurrentSubscriptions\<close> in two parts, before and after the request to the leader: an answer from the cache, or a refresh to run.\<close>

definition worker_begin :: "gotime \<Rightarrow> worker_state \<Rightarrow> string list option \<times> worker_state" where
  "worker_begin now s = (if now - ws_cachedAt s < workerDemandCacheTTL \<or> ws_fetching s then (Some (ws_cached s), s) else (None, s\<lparr>ws_fetching := True\<rparr>))"

text \<open>What the leader answers: its address if known, the status and the decoded body.\<close>

definition fetch_aggregate :: "string option \<Rightarrow> (string \<Rightarrow> (nat \<times> string list option) option) \<Rightarrow> string list" where
  "fetch_aggregate leaderURL get = (case leaderURL of None \<Rightarrow> []
     | Some u \<Rightarrow> (case get (u @ ''/internal/subscriptions'') of Some (st, Some prefixes) \<Rightarrow> if st = 200 then prefixes else [] | _ \<Rightarrow> []))"

definition worker_finish :: "gotime \<Rightarrow> string list \<Rightarrow> worker_state \<Rightarrow> worker_state" where
  "worker_finish now prefixes s = s\<lparr>ws_fetching := False, ws_cached := prefixes, ws_cachedAt := now\<rparr>"

text \<open>The request that forwards demand to the leader, if one is known.\<close>

definition worker_EnsureSubscriptions :: "string option \<Rightarrow> string list \<Rightarrow> (string \<times> string list) option" where
  "worker_EnsureSubscriptions leaderURL prefixes = map_option (\<lambda>u. (u @ ''/internal/subscriptions/ensure'', prefixes)) leaderURL"

definition manager_CurrentSubscriptions :: "bool \<Rightarrow> string list list \<Rightarrow> leader \<Rightarrow> string list \<Rightarrow> string list" where
  "manager_CurrentSubscriptions isLeader clients s worker = (if isLeader then leader_CurrentSubscriptions clients s else worker)"

definition manager_EnsureSubscriptions :: "bool \<Rightarrow> (string list \<Rightarrow> leader \<Rightarrow> leader) \<Rightarrow> string option \<Rightarrow> string list \<Rightarrow> leader
    \<Rightarrow> (string \<times> string list) option \<times> leader" where
  "manager_EnsureSubscriptions isLeader ensure leaderURL prefixes s =
     (if isLeader then (None, ensure prefixes s) else (worker_EnsureSubscriptions leaderURL prefixes, s))"

text \<open>The requests between replicas.\<close>

definition handleDemand :: "sessions \<Rightarrow> string list answer" where
  "handleDemand u = Answer 200 (Some (session_demand u))"

definition handleSubscriptions :: "bool \<Rightarrow> string list \<Rightarrow> string list answer" where
  "handleSubscriptions isLeader aggregate = (if \<not> isLeader then Answer 409 None else Answer 200 (Some aggregate))"

text \<open>The body decodes or not; the leader ensures what it names.\<close>

definition handleEnsure :: "bool \<Rightarrow> (string list \<Rightarrow> leader \<Rightarrow> leader) \<Rightarrow> string list option \<Rightarrow> leader \<Rightarrow> string answer \<times> leader" where
  "handleEnsure isLeader ensure req s = (if \<not> isLeader then (Answer 409 None, s)
     else (case req of None \<Rightarrow> (Answer 400 None, s) | Some prefixes \<Rightarrow> (Answer 200 (Some ''ok''), ensure prefixes s)))"

section \<open>The demand of a replica\<close>

lemma samePrefixSet_iff: "samePrefixSet a b \<longleftrightarrow> set a = set b"
  by (auto simp: samePrefixSet_def list_all_iff)

text \<open>The last request of every open session, as the operations so far have it.\<close>

fun last_step :: "(nat, string list) gmap \<times> nat \<Rightarrow> session_op \<Rightarrow> (nat, string list) gmap \<times> nat" where
  "last_step (m, n) SOpen = (gmap_set (n + 1) [] m, n + 1)"
| "last_step (m, n) (SRequest i req) = (if map_of m i = None then m else gmap_set i (prefixes_of req) m, n)"
| "last_step (m, n) (SClose i) = (gmap_del i m, n)"

definition last_requests :: "session_op list \<Rightarrow> (nat, string list) gmap" where
  "last_requests ops = fst (foldl last_step ([], 0) ops)"

definition session_ok :: "replica \<Rightarrow> (nat, string list) gmap \<Rightarrow> nat \<Rightarrow> session \<Rightarrow> bool" where
  "session_ok s m i r \<longleftrightarrow> rt_id r = i \<and> (\<exists>ps qs. map_of (se_sessions (rp_sessions s)) i = Some ps \<and> map_of m i = Some qs \<and> set ps = set qs
     \<and> ps = prefixes_of (rt_current r) \<and> set (rt_live r) = set (subscribe_patterns qs))"

definition replica_ok :: "replica \<Rightarrow> (nat, string list) gmap \<times> nat \<Rightarrow> bool" where
  "replica_ok s mn \<longleftrightarrow> se_nextID (rp_sessions s) = snd mn \<and> gmap_ok (se_sessions (rp_sessions s)) \<and> gmap_ok (fst mn)
     \<and> dom (map_of (rp_open s)) = dom (map_of (fst mn)) \<and> dom (map_of (se_sessions (rp_sessions s))) = dom (map_of (fst mn))
     \<and> (\<forall>i r. map_of (rp_open s) i = Some r \<longrightarrow> session_ok s (fst mn) i r)"

lemma patterns_set: "set ps = set qs \<Longrightarrow> set (subscribe_patterns ps) = set (subscribe_patterns qs)"
  by (auto simp: subscribe_patterns_def)

lemma gmap_del_absent: "map_of m k = None \<Longrightarrow> gmap_del k m = m"
  unfolding gmap_del_def by (rule filter_True) (force simp: map_of_eq_None_iff)

lemma replica_ok_closed:
  assumes "replica_ok s (m, n)" and "map_of (rp_open s) i = None"
  shows "map_of m i = None" and "map_of (se_sessions (rp_sessions s)) i = None"
  using assms by (simp_all add: replica_ok_def) (metis domIff)+

lemma replica_ok_open:
  assumes "replica_ok s (m, n)" and "map_of (rp_open s) i = Some r"
  obtains ps qs where "map_of (se_sessions (rp_sessions s)) i = Some ps" and "map_of m i = Some qs" and "set ps = set qs"
    and "ps = prefixes_of (rt_current r)" and "set (rt_live r) = set (subscribe_patterns qs)" and "rt_id r = i"
proof -
  have "session_ok s m i r" using assms by (simp add: replica_ok_def)
  then show thesis unfolding session_ok_def using that by blast
qed

lemma session_step_ok:
  assumes "replica_ok s mn"
  shows "replica_ok (session_step a s) (last_step mn a)"
proof (cases a)
  case SOpen
  then show ?thesis using assms
    by (cases mn) (auto simp: replica_ok_def session_ok_def openSession_def Let_def prefixes_of_def subscribe_patterns_def)
next
  case (SClose i)
  obtain m n where mn: "mn = (m, n)" by fastforce
  show ?thesis
  proof (cases "map_of (rp_open s) i")
    case None
    then have "gmap_del i m = m" using assms mn by (intro gmap_del_absent) (simp add: replica_ok_closed)
    then show ?thesis using SClose None assms mn by simp
  next
    case (Some r)
    then show ?thesis using SClose assms mn by (auto simp: replica_ok_def session_ok_def closeSession_def)
  qed
next
  case (SRequest i req)
  obtain m n where mn: "mn = (m, n)" by fastforce
  show ?thesis
  proof (cases "map_of (rp_open s) i")
    case None
    then have "map_of m i = None" using assms mn by (simp add: replica_ok_closed)
    then show ?thesis using SRequest None assms mn by simp
  next
    case (Some r)
    obtain ps qs where ps: "map_of (se_sessions (rp_sessions s)) i = Some ps" "map_of m i = Some qs" "set ps = set qs"
        "ps = prefixes_of (rt_current r)" "set (rt_live r) = set (subscribe_patterns qs)" "rt_id r = i"
      using replica_ok_open [OF _ Some] assms unfolding mn by blast
    show ?thesis
    proof (cases "rt_current r \<noteq> None \<and> samePrefixSet (prefixes_of (rt_current r)) (prefixes_of req)")
      case True
      then have same: "set qs = set (prefixes_of req)" using ps(3,4) by (simp add: samePrefixSet_iff)
      then have "set (subscribe_patterns qs) = set (subscribe_patterns (prefixes_of req))" by (rule patterns_set)
      then show ?thesis using True SRequest Some assms mn ps same
        by (auto simp: replica_ok_def session_ok_def realtime_request_def split: if_splits)
    next
      case False
      then show ?thesis using SRequest Some assms mn ps
        by (auto simp: replica_ok_def session_ok_def realtime_request_def updateSession_def split: if_splits)
    qed
  qed
qed

text \<open>C25. After any sequence of sessions opening, asking for lists of prefixes and closing, the demand of the replica is the union of the lists the
  open sessions asked for last, and each of them listens on Redis to exactly the channels of its last list, although a list that names the same prefixes again is passed over.\<close>

theorem session_demand_union:
  "set (session_demand (rp_sessions (foldl (\<lambda>s a. session_step a s) new_replica ops))) = (\<Union>ps\<in>ran (map_of (last_requests ops)). set ps)
   \<and> map_option (set \<circ> rt_live) (map_of (rp_open (foldl (\<lambda>s a. session_step a s) new_replica ops)) i)
     = map_option (set \<circ> subscribe_patterns) (map_of (last_requests ops) i)"
proof -
  let ?s = "foldl (\<lambda>s a. session_step a s) new_replica ops"
  have "replica_ok s mn \<Longrightarrow> replica_ok (foldl (\<lambda>s a. session_step a s) s ops) (foldl last_step mn ops)" for s mn
  proof (induction ops arbitrary: s mn)
    case (Cons a ops)
    then show ?case using session_step_ok [OF Cons.prems, of a] by simp
  qed simp
  moreover have "replica_ok new_replica ([], 0)" by (simp add: replica_ok_def new_replica_def new_sessions_def gmap_ok_def)
  ultimately have "replica_ok ?s (foldl last_step ([], 0) ops)" .
  then obtain n where ok: "replica_ok ?s (last_requests ops, n)" unfolding last_requests_def by (metis prod.collapse)
  let ?m = "last_requests ops" and ?se = "map_of (se_sessions (rp_sessions ?s))"
  have same: "map_option set (?se j) = map_option set (map_of ?m j) \<and>
      map_option (set \<circ> rt_live) (map_of (rp_open ?s) j) = map_option (set \<circ> subscribe_patterns) (map_of ?m j)" for j
  proof (cases "map_of (rp_open ?s) j")
    case None
    then show ?thesis using replica_ok_closed [OF ok None] by simp
  next
    case (Some r)
    show ?thesis by (rule replica_ok_open [OF ok Some]) (simp add: Some)
  qed
  have "set (session_demand (rp_sessions ?s)) = (\<Union>ps\<in>ran ?se. set ps)"
    using ok by (auto simp: session_demand_def replica_ok_def gmap_ok_def ran_distinct)
  also have "\<dots> = \<Union>(ran (\<lambda>j. map_option set (?se j)))" by (simp only: ran_map_option)
  also have "\<dots> = \<Union>(ran (\<lambda>j. map_option set (map_of ?m j)))" using same by simp
  also have "\<dots> = (\<Union>ps\<in>ran (map_of ?m). set ps)" by (simp only: ran_map_option)
  finally show ?thesis using same by simp
qed

end
