(* ===== verification/Notification.thy ===== *)
theory Notification
  imports Realtime
begin

text \<open>
  Push notifications: the subscriptions and the unread counters (\<^verbatim>\<open>src/internal/usecase/notification/notification.go\<close> over
  \<^verbatim>\<open>src/internal/infra/repository/postgres/notification.go\<close> and \<^verbatim>\<open>src/internal/infra/kvs/kvs.go\<close>), the endpoints that change them
  (\<^verbatim>\<open>src/internal/present/rest/handler.go\<close>), and the reactor that turns events into pushes
  (\<^verbatim>\<open>src/internal/worker/NotificationReactor.go\<close> with the claims of \<^verbatim>\<open>src/internal/infra/pubsub/dedup.go\<close>).

  Parameters: the JSON codec, the SHA-256 digest in hexadecimal, the answer of the push service, whether the database and Redis answer, and
  the times that the object-relational mapper writes into a saved row.

  Shown here: a requester reaches nobody else's subscriptions and counters; the reactor's workers are those of the last listing; the schema an
  event is filtered on is the one its record was stored with; and replicas that overlap deliver a push at most once per claim.
\<close>

section \<open>Subscriptions and counters\<close>

record notification_subscription =
  ns_vendorID :: string
  ns_owner :: string
  ns_schemas :: "string list"
  ns_prefixes :: "string list"
  ns_subscription :: string
  ns_cdate :: gotime
  ns_mdate :: gotime

text \<open>The row of the database.\<close>

record subscription_model =
  sm_vendorID :: string
  sm_owner :: string
  sm_schemas :: "string list"
  sm_prefixes :: "string list"
  sm_subscription :: string
  sm_cdate :: gotime
  sm_mdate :: gotime

definition modelToDomainNotification :: "subscription_model \<Rightarrow> notification_subscription" where
  "modelToDomainNotification m = \<lparr>ns_vendorID = sm_vendorID m, ns_owner = sm_owner m, ns_schemas = sm_schemas m, ns_prefixes = sm_prefixes m,
     ns_subscription = sm_subscription m, ns_cdate = sm_cdate m, ns_mdate = sm_mdate m\<rparr>"

definition domainToModelNotification :: "notification_subscription \<Rightarrow> subscription_model" where
  "domainToModelNotification d = \<lparr>sm_vendorID = ns_vendorID d, sm_owner = ns_owner d, sm_schemas = ns_schemas d, sm_prefixes = ns_prefixes d,
     sm_subscription = ns_subscription d, sm_cdate = ns_cdate d, sm_mdate = ns_mdate d\<rparr>"

text \<open>Both fields of the primary key, vendor and owner, find a row. \<open>nt_resets\<close> are the counter resets handed to the push service.\<close>

record notify_state =
  nt_rows :: "(string \<times> string, subscription_model) gmap"
  nt_counters :: "(string, int) gmap"
  nt_resets :: "notification_subscription list"

text \<open>Whether the database and Redis answer, whether pushes are configured, and the creation and modification times that a
  saved row gets, from the stored one and the given one.\<close>

record notify_env =
  ne_db :: bool
  ne_redis :: bool
  ne_pusher :: bool
  ne_stamp :: "subscription_model option \<Rightarrow> subscription_model \<Rightarrow> gotime \<times> gotime"

abbreviation database_error :: domain_error where
  "database_error \<equiv> EOther ''database''"

abbreviation redis_error :: domain_error where
  "redis_error \<equiv> EOther ''redis''"

definition notification_Subscribe :: "notify_env \<Rightarrow> notification_subscription \<Rightarrow> notify_state \<Rightarrow> notification_subscription db_result \<times> notify_state" where
  "notification_Subscribe N sub s = (if \<not> ne_db N then (Inl database_error, s)
     else let model = domainToModelNotification sub; k = (sm_vendorID model, sm_owner model);
              stamps = ne_stamp N (map_of (nt_rows s) k) model;
              row = model\<lparr>sm_cdate := fst stamps, sm_mdate := snd stamps\<rparr>
       in (Inr (modelToDomainNotification row), s\<lparr>nt_rows := gmap_set k row (nt_rows s)\<rparr>))"

definition notification_List :: "notify_env \<Rightarrow> notify_state \<Rightarrow> notification_subscription list db_result" where
  "notification_List N s = (if \<not> ne_db N then Inl database_error else Inr (map (modelToDomainNotification \<circ> snd) (nt_rows s)))"

definition notification_Get :: "notify_env \<Rightarrow> string \<Rightarrow> string \<Rightarrow> notify_state \<Rightarrow> notification_subscription db_result" where
  "notification_Get N vendorID owner s = (if \<not> ne_db N then Inl database_error
     else (case map_of (nt_rows s) (vendorID, owner) of None \<Rightarrow> Inl (ENotFound ''notification subscription'' [] [])
           | Some m \<Rightarrow> Inr (modelToDomainNotification m)))"

definition notification_repo_Delete :: "notify_env \<Rightarrow> string \<Rightarrow> string \<Rightarrow> notify_state \<Rightarrow> unit db_result \<times> notify_state" where
  "notification_repo_Delete N vendorID owner s = (if \<not> ne_db N then (Inl database_error, s)
     else (Inr (), s\<lparr>nt_rows := gmap_del (vendorID, owner) (nt_rows s)\<rparr>))"

subsection \<open>Counters\<close>

definition notificationCounterKey :: "string \<Rightarrow> string \<Rightarrow> string" where
  "notificationCounterKey vendorID owner = ''notification_counter:'' @ vendorID @ '':'' @ owner"

text \<open>The counter commands of \<^verbatim>\<open>kvs.go\<close>: a missing key counts from zero.\<close>

definition kvs_GetInt :: "notify_env \<Rightarrow> string \<Rightarrow> notify_state \<Rightarrow> int db_result" where
  "kvs_GetInt N k s = (if \<not> ne_redis N then Inl redis_error else Inr (case map_of (nt_counters s) k of None \<Rightarrow> 0 | Some n \<Rightarrow> n))"

definition kvs_Incr :: "notify_env \<Rightarrow> string \<Rightarrow> notify_state \<Rightarrow> int db_result \<times> notify_state" where
  "kvs_Incr N k s = (if \<not> ne_redis N then (Inl redis_error, s)
     else let n = (case map_of (nt_counters s) k of None \<Rightarrow> 0 | Some n \<Rightarrow> n) + 1 in (Inr n, s\<lparr>nt_counters := gmap_set k n (nt_counters s)\<rparr>))"

definition kvs_Delete :: "notify_env \<Rightarrow> string \<Rightarrow> notify_state \<Rightarrow> unit db_result \<times> notify_state" where
  "kvs_Delete N k s = (if \<not> ne_redis N then (Inl redis_error, s) else (Inr (), s\<lparr>nt_counters := gmap_del k (nt_counters s)\<rparr>))"

definition notification_Delete :: "notify_env \<Rightarrow> string \<Rightarrow> string \<Rightarrow> notify_state \<Rightarrow> unit db_result \<times> notify_state" where
  "notification_Delete N vendorID owner s = (case notification_repo_Delete N vendorID owner s of
     (Inl e, s') \<Rightarrow> (Inl e, s')
   | (Inr _, s') \<Rightarrow> kvs_Delete N (notificationCounterKey vendorID owner) s')"

definition IncrementCounter :: "notify_env \<Rightarrow> string \<Rightarrow> string \<Rightarrow> notify_state \<Rightarrow> int db_result \<times> notify_state" where
  "IncrementCounter N vendorID owner s = kvs_Incr N (notificationCounterKey vendorID owner) s"

definition GetCounter :: "notify_env \<Rightarrow> string \<Rightarrow> string \<Rightarrow> notify_state \<Rightarrow> int db_result" where
  "GetCounter N vendorID owner s = kvs_GetInt N (notificationCounterKey vendorID owner) s"

definition ResetCounter :: "notify_env \<Rightarrow> string \<Rightarrow> string \<Rightarrow> notify_state \<Rightarrow> unit db_result \<times> notify_state" where
  "ResetCounter N vendorID owner s = (case kvs_Delete N (notificationCounterKey vendorID owner) s of
     (Inl e, s') \<Rightarrow> (Inl e, s')
   | (Inr _, s') \<Rightarrow> if \<not> ne_pusher N then (Inr (), s')
       else (case notification_Get N vendorID owner s' of
               Inl e \<Rightarrow> (if is_not_found e then Inr () else Inl e, s')
             | Inr sub \<Rightarrow> (Inr (), s'\<lparr>nt_resets := nt_resets s' @ [sub]\<rparr>)))"

section \<open>Endpoints\<close>

definition requireNotificationOwner :: "call_ctx \<Rightarrow> string \<Rightarrow> unit db_result" where
  "requireNotificationOwner cx owner = (case cx_requester cx of None \<Rightarrow> Inl (EPermission ''authentication required'')
     | Some requester \<Rightarrow> if en_id requester \<noteq> owner then Inl (EPermission ''owner mismatch'') else Inr ())"

definition PathUnescape :: "string \<Rightarrow> string option" where
  "PathUnescape s = unescape EncPath s"

text \<open>What each of the endpoints begins with: the owner and the vendor of the path, and that the owner asks.\<close>

definition notification_path :: "call_ctx \<Rightarrow> string \<Rightarrow> string \<Rightarrow> (nat, string \<times> string) result" where
  "notification_path cx ownerParam vendorParam = (case PathUnescape ownerParam of None \<Rightarrow> Inl 400
     | Some owner \<Rightarrow> (case PathUnescape vendorParam of None \<Rightarrow> Inl 400
        | Some vendorID \<Rightarrow> (case requireNotificationOwner cx owner of Inl _ \<Rightarrow> Inl 403 | Inr _ \<Rightarrow> Inr (owner, vendorID))))"

definition handleSubscribeNotification :: "notify_env \<Rightarrow> call_ctx \<Rightarrow> string \<Rightarrow> string \<Rightarrow> notification_subscription option \<Rightarrow> notify_state
    \<Rightarrow> notification_subscription answer \<times> notify_state" where
  "handleSubscribeNotification N cx ownerParam vendorParam body s = (case notification_path cx ownerParam vendorParam of Inl st \<Rightarrow> (Answer st None, s)
     | Inr (owner, vendorID) \<Rightarrow> (case body of None \<Rightarrow> (Answer 400 None, s)
        | Some given \<Rightarrow> let sub = given\<lparr>ns_owner := owner, ns_vendorID := vendorID\<rparr> in
            if ns_prefixes sub = [] then (Answer 400 None, s)
            else if ns_subscription sub = [] then (Answer 400 None, s)
            else (case notification_Subscribe N sub s of (Inl _, s') \<Rightarrow> (Answer 500 None, s')
                  | (Inr saved, s') \<Rightarrow> (Answer 201 (Some saved), s'))))"

definition handleGetNotification :: "notify_env \<Rightarrow> call_ctx \<Rightarrow> string \<Rightarrow> string \<Rightarrow> notify_state \<Rightarrow> notification_subscription answer" where
  "handleGetNotification N cx ownerParam vendorParam s = (case notification_path cx ownerParam vendorParam of Inl st \<Rightarrow> Answer st None
     | Inr (owner, vendorID) \<Rightarrow> (case notification_Get N vendorID owner s of
          Inl e \<Rightarrow> Answer (if is_not_found e then 404 else 500) None | Inr sub \<Rightarrow> Answer 200 (Some sub)))"

definition handleDeleteNotification :: "notify_env \<Rightarrow> call_ctx \<Rightarrow> string \<Rightarrow> string \<Rightarrow> notify_state \<Rightarrow> unit answer \<times> notify_state" where
  "handleDeleteNotification N cx ownerParam vendorParam s = (case notification_path cx ownerParam vendorParam of Inl st \<Rightarrow> (Answer st None, s)
     | Inr (owner, vendorID) \<Rightarrow> (case notification_Delete N vendorID owner s of
          (Inl _, s') \<Rightarrow> (Answer 500 None, s') | (Inr _, s') \<Rightarrow> (Answer 204 None, s')))"

definition handleGetNotificationCounter :: "notify_env \<Rightarrow> call_ctx \<Rightarrow> string \<Rightarrow> string \<Rightarrow> notify_state \<Rightarrow> int answer" where
  "handleGetNotificationCounter N cx ownerParam vendorParam s = (case notification_path cx ownerParam vendorParam of Inl st \<Rightarrow> Answer st None
     | Inr (owner, vendorID) \<Rightarrow> (case GetCounter N vendorID owner s of Inl _ \<Rightarrow> Answer 500 None | Inr n \<Rightarrow> Answer 200 (Some n)))"

definition handleResetNotificationCounter :: "notify_env \<Rightarrow> call_ctx \<Rightarrow> string \<Rightarrow> string \<Rightarrow> notify_state \<Rightarrow> unit answer \<times> notify_state" where
  "handleResetNotificationCounter N cx ownerParam vendorParam s = (case notification_path cx ownerParam vendorParam of Inl st \<Rightarrow> (Answer st None, s)
     | Inr (owner, vendorID) \<Rightarrow> (case ResetCounter N vendorID owner s of
          (Inl _, s') \<Rightarrow> (Answer 500 None, s') | (Inr _, s') \<Rightarrow> (Answer 204 None, s')))"

text \<open>A request that changes something.\<close>

datatype notify_request = NSubscribe string string "notification_subscription option" | NDelete string string | NReset string string

fun serve_notify :: "notify_env \<Rightarrow> call_ctx \<times> notify_request \<Rightarrow> notify_state \<Rightarrow> notify_state" where
  "serve_notify N (cx, NSubscribe o1 v body) s = snd (handleSubscribeNotification N cx o1 v body s)"
| "serve_notify N (cx, NDelete o1 v) s = snd (handleDeleteNotification N cx o1 v s)"
| "serve_notify N (cx, NReset o1 v) s = snd (handleResetNotificationCounter N cx o1 v s)"

section \<open>Nobody reaches another owner's notifications\<close>

lemma notificationCounterKey_inj:
  assumes "notificationCounterKey v a = notificationCounterKey w b" and "CHR '':'' \<notin> set a" and "CHR '':'' \<notin> set b"
  shows "v = w \<and> a = b"
proof -
  have last: "takeWhile (\<lambda>c. c \<noteq> CHR '':'') (rev (u @ CHR '':'' # x)) = rev x" if "CHR '':'' \<notin> set x" for u x :: string
  proof -
    have "takeWhile (\<lambda>c. c \<noteq> CHR '':'') (rev x @ CHR '':'' # rev u) = rev x" by (rule takeWhile_append2 [THEN trans]) (use that in auto)
    then show ?thesis by simp
  qed
  have eq: "v @ CHR '':'' # a = w @ CHR '':'' # b" using assms(1) by (simp add: notificationCounterKey_def)
  then have "a = b" using last [OF assms(2), of v] last [OF assms(3), of w] by simp
  then show ?thesis using eq by simp
qed

text \<open>What belongs to an owner: rows, counters and the resets that were pushed.\<close>

definition owned :: "string \<Rightarrow> notify_state \<Rightarrow> (string \<Rightarrow> subscription_model option) \<times> (string \<Rightarrow> int option) \<times> notification_subscription list" where
  "owned owner s = (\<lambda>v. map_of (nt_rows s) (v, owner), \<lambda>v. map_of (nt_counters s) (notificationCounterKey v owner),
     filter (\<lambda>sub. ns_owner sub = owner) (nt_resets s))"

definition rows_keyed :: "notify_state \<Rightarrow> bool" where
  "rows_keyed s \<longleftrightarrow> (\<forall>v a m. map_of (nt_rows s) (v, a) = Some m \<longrightarrow> sm_vendorID m = v \<and> sm_owner m = a)"

definition new_notify :: notify_state where
  "new_notify = \<lparr>nt_rows = [], nt_counters = [], nt_resets = []\<rparr>"

definition serve_all :: "(notify_env \<times> call_ctx \<times> notify_request) list \<Rightarrow> notify_state \<Rightarrow> notify_state" where
  "serve_all = fold (\<lambda>(N, r). serve_notify N r)"

definition asks_as :: "string \<Rightarrow> call_ctx \<Rightarrow> bool" where
  "asks_as owner cx \<longleftrightarrow> map_option en_id (cx_requester cx) = Some owner"

lemma notification_path_owner:
  "notification_path cx a v = Inr (owner, vendorID) \<Longrightarrow> asks_as owner cx"
  by (auto simp: notification_path_def requireNotificationOwner_def asks_as_def split: option.splits if_splits)

lemmas notify_defs = handleSubscribeNotification_def handleDeleteNotification_def handleResetNotificationCounter_def notification_Subscribe_def
  notification_Delete_def notification_repo_Delete_def kvs_Delete_def ResetCounter_def notification_Get_def Let_def

lemma serve_notify_keyed: "rows_keyed s \<Longrightarrow> rows_keyed (serve_notify N (cx, r) s)"
  by (cases r) (auto simp: rows_keyed_def notify_defs domainToModelNotification_def split: sum.splits option.splits prod.splits if_splits)

lemma serve_notify_owned:
  assumes "rows_keyed s" and "\<not> asks_as owner cx" and "CHR '':'' \<notin> set owner" and "\<And>a. asks_as a cx \<Longrightarrow> CHR '':'' \<notin> set a"
  shows "owned owner (serve_notify N (cx, r) s) = owned owner s"
proof -
  have other: "a \<noteq> owner" "notificationCounterKey w owner \<noteq> notificationCounterKey v a"
    if "notification_path cx x y = Inr (a, v)" for a v w x y
    using notification_path_owner [OF that] assms(2-4) notificationCounterKey_inj [of w owner v a] by auto
  have row: "sm_owner m = a" if "map_of (nt_rows s) (v, a) = Some m" for v a m using that assms(1) by (simp add: rows_keyed_def)
  show ?thesis
    by (cases r) (auto simp: owned_def notify_defs domainToModelNotification_def modelToDomainNotification_def other row
        dest: other split: sum.splits option.splits prod.splits if_splits)
qed

lemma serve_all_keyed: "rows_keyed s \<Longrightarrow> rows_keyed (serve_all reqs s)"
  unfolding serve_all_def by (induction reqs arbitrary: s) (auto simp: serve_notify_keyed)

text \<open>C22. Whatever happened before, requests that are not the owner's leave the owner's subscriptions and unread counters as they are and push no
  counter reset to the owner's devices, whichever owners and vendors the paths and bodies of those requests name; identifiers hold no colon.\<close>

theorem notification_isolation:
  assumes "list_all (\<lambda>(_, cx, _). \<not> asks_as owner cx) reqs" and "CHR '':'' \<notin> set owner"
    and "list_all (\<lambda>(_, cx, _). pred_option (\<lambda>e. CHR '':'' \<notin> set (en_id e)) (cx_requester cx)) reqs"
  shows "owned owner (serve_all reqs (serve_all before new_notify)) = owned owner (serve_all before new_notify)"
proof -
  have "owned owner (serve_all reqs s) = owned owner s" if "rows_keyed s" for s using assms(1,3) that
  proof (induction reqs arbitrary: s)
    case (Cons x reqs)
    obtain N cx r where x: "x = (N, cx, r)" by (cases x)
    have "owned owner (serve_notify N (cx, r) s) = owned owner s"
      by (rule serve_notify_owned) (use Cons.prems assms(2) x in \<open>auto simp: asks_as_def\<close>)
    then show ?case using Cons.IH [OF _ _ serve_notify_keyed [OF Cons.prems(3), of N cx r]] Cons.prems(1,2) x by (simp add: serve_all_def)
  qed (simp add: serve_all_def)
  moreover have "rows_keyed (serve_all before new_notify)" by (rule serve_all_keyed) (simp add: rows_keyed_def new_notify_def)
  ultimately show ?thesis .
qed

definition demo_notify :: notify_env where
  "demo_notify = \<lparr>ne_db = True, ne_redis = True, ne_pusher = True, ne_stamp = (\<lambda>old m. (7, 7))\<rparr>"

definition demo_asker :: "string \<Rightarrow> call_ctx" where
  "demo_asker i = \<lparr>cx_requester = Some \<lparr>en_id = i, en_alias = None, en_domain = ''d'', en_tag = [], en_signedDocument = None\<rparr>, cx_serviceAccountType = []\<rparr>"

definition demo_sub :: notification_subscription where
  "demo_sub = \<lparr>ns_vendorID = ''v'', ns_owner = ''con1a'', ns_schemas = [], ns_prefixes = [''cckv://con1a/''], ns_subscription = ''s'', ns_cdate = 7, ns_mdate = 7\<rparr>"

lemma notification_isolation_witness:
  "owned ''con1a'' (serve_all [(demo_notify, demo_asker ''con1b'', NDelete ''con1a'' ''v''), (demo_notify, demo_asker ''con1b'', NDelete ''con1b'' ''v'')]
     (serve_all [(demo_notify, demo_asker ''con1a'', NSubscribe ''con1a'' ''v'' (Some demo_sub))] new_notify))
   = (\<lambda>v. if v = ''v'' then Some (domainToModelNotification demo_sub) else None, \<lambda>v. None, [])"
proof -
  let ?reqs = "[(demo_notify, demo_asker ''con1b'', NDelete ''con1a'' ''v''), (demo_notify, demo_asker ''con1b'', NDelete ''con1b'' ''v'')]"
  let ?s = "serve_all [(demo_notify, demo_asker ''con1a'', NSubscribe ''con1a'' ''v'' (Some demo_sub))] new_notify"
  have s: "?s = \<lparr>nt_rows = [((''v'', ''con1a''), domainToModelNotification demo_sub)], nt_counters = [], nt_resets = []\<rparr>" by code_simp
  have "owned ''con1a'' (serve_all ?reqs ?s) = owned ''con1a'' ?s"
    by (rule notification_isolation) (simp_all add: asks_as_def demo_asker_def)
  then show ?thesis unfolding s by (auto simp: owned_def fun_eq_iff)
qed

section \<open>The reactor's workers\<close>

record notification_worker =
  nw_mdate :: gotime
  nw_cancel :: nat

text \<open>The workers the reactor keeps by identifier, and those that were started and not cancelled, by the number that stands for their context.\<close>

record reactor =
  rx_workers :: "(string, notification_worker) gmap"
  rx_running :: "(nat \<times> notification_subscription) list"
  rx_next :: nat

definition worker_id :: "notification_subscription \<Rightarrow> string" where
  "worker_id sub = ns_vendorID sub @ ns_owner sub"

definition cancel_worker :: "nat \<Rightarrow> reactor \<Rightarrow> reactor" where
  "cancel_worker h s = s\<lparr>rx_running := filter (\<lambda>r. fst r \<noteq> h) (rx_running s)\<rparr>"

definition start_worker :: "notification_subscription \<Rightarrow> reactor \<Rightarrow> reactor" where
  "start_worker sub s = s\<lparr>rx_workers := gmap_set (worker_id sub) \<lparr>nw_mdate = ns_mdate sub, nw_cancel = rx_next s\<rparr> (rx_workers s),
     rx_running := rx_running s @ [(rx_next s, sub)], rx_next := rx_next s + 1\<rparr>"

definition sync_worker :: "notification_subscription \<Rightarrow> reactor \<Rightarrow> reactor" where
  "sync_worker sub s = (case map_of (rx_workers s) (worker_id sub) of None \<Rightarrow> start_worker sub s
     | Some w \<Rightarrow> if nw_mdate w = ns_mdate sub then s
         else start_worker sub ((cancel_worker (nw_cancel w) s)\<lparr>rx_workers := gmap_del (worker_id sub) (rx_workers s)\<rparr>))"

definition drop_worker :: "string list \<Rightarrow> string \<times> notification_worker \<Rightarrow> reactor \<Rightarrow> reactor" where
  "drop_worker valid w s = (if fst w \<in> set valid then s
     else (cancel_worker (nw_cancel (snd w)) s)\<lparr>rx_workers := gmap_del (fst w) (rx_workers s)\<rparr>)"

definition syncWorkers :: "notification_subscription list db_result \<Rightarrow> reactor \<Rightarrow> reactor" where
  "syncWorkers listing s = (case listing of Inl _ \<Rightarrow> s
     | Inr subscriptions \<Rightarrow> let s' = fold sync_worker subscriptions s in fold (drop_worker (map worker_id subscriptions)) (rx_workers s') s')"

definition new_reactor :: reactor where
  "new_reactor = \<lparr>rx_workers = [], rx_running = [], rx_next = 0\<rparr>"

text \<open>At the end of its context the reactor cancels every worker.\<close>

definition stop_reactor :: "reactor \<Rightarrow> reactor" where
  "stop_reactor s = fold (\<lambda>w. cancel_worker (nw_cancel (snd w))) (rx_workers s) s"

subsection \<open>The workers are those of the last listing\<close>

definition rx_ok :: "reactor \<Rightarrow> bool" where
  "rx_ok s \<longleftrightarrow> gmap_ok (rx_workers s) \<and> distinct (map fst (rx_running s)) \<and> list_all (\<lambda>r. fst r < rx_next s) (rx_running s)
     \<and> (\<forall>i w. map_of (rx_workers s) i = Some w \<longleftrightarrow> (\<exists>sub. (nw_cancel w, sub) \<in> set (rx_running s) \<and> worker_id sub = i \<and> ns_mdate sub = nw_mdate w))"

definition remove_worker :: "string \<Rightarrow> nat \<Rightarrow> reactor \<Rightarrow> reactor" where
  "remove_worker i h s = (cancel_worker h s)\<lparr>rx_workers := gmap_del i (rx_workers s)\<rparr>"

lemma rx_running_worker:
  assumes "rx_ok s" and "(h, sub) \<in> set (rx_running s)"
  shows "map_of (rx_workers s) (worker_id sub) = Some \<lparr>nw_mdate = ns_mdate sub, nw_cancel = h\<rparr>"
  using assms unfolding rx_ok_def by (metis notification_worker.select_convs(1,2))

lemma remove_worker_running:
  assumes ok: "rx_ok s" and w: "map_of (rx_workers s) i = Some w"
  shows "rx_running (remove_worker i (nw_cancel w) s) = filter (\<lambda>r. worker_id (snd r) \<noteq> i) (rx_running s)"
proof -
  have "fst r = nw_cancel w \<longleftrightarrow> worker_id (snd r) = i" if r: "r \<in> set (rx_running s)" for r
  proof
    assume "worker_id (snd r) = i"
    then show "fst r = nw_cancel w" using rx_running_worker [OF ok, of "fst r" "snd r"] r w by simp
  next
    assume h: "fst r = nw_cancel w"
    obtain sub where sub: "(nw_cancel w, sub) \<in> set (rx_running s)" "worker_id sub = i" using ok w unfolding rx_ok_def by metis
    have "distinct (map fst (rx_running s))" using ok by (simp add: rx_ok_def)
    then have "snd r = sub" using r sub(1) h by (metis eq_key_imp_eq_value prod.collapse)
    then show "worker_id (snd r) = i" using sub(2) by simp
  qed
  then show ?thesis by (auto simp: remove_worker_def cancel_worker_def intro!: filter_cong)
qed

lemma remove_worker_ok:
  assumes ok: "rx_ok s" and w: "map_of (rx_workers s) i = Some w"
  shows "rx_ok (remove_worker i (nw_cancel w) s)"
proof -
  have "rx_next (remove_worker i (nw_cancel w) s) = rx_next s" "rx_workers (remove_worker i (nw_cancel w) s) = gmap_del i (rx_workers s)"
    by (simp_all add: remove_worker_def cancel_worker_def)
  then show ?thesis using ok unfolding rx_ok_def remove_worker_running [OF assms]
    by (auto simp: distinct_map inj_on_def list_all_iff)
qed

lemma start_worker_ok:
  assumes ok: "rx_ok s" and new: "map_of (rx_workers s) (worker_id sub) = None"
  shows "rx_ok (start_worker sub s)"
proof -
  have fresh: "rx_next s \<notin> fst ` set (rx_running s)" using ok by (auto simp: rx_ok_def list_all_iff)
  have lt: "list_all (\<lambda>r. fst r < Suc (rx_next s)) (rx_running s)" using ok by (auto simp: rx_ok_def list_all_iff)
  have none: "worker_id sub' \<noteq> worker_id sub" if "(h, sub') \<in> set (rx_running s)" for h sub'
    using rx_running_worker [OF ok that] new by auto
  have iff: "map_of (rx_workers (start_worker sub s)) i = Some w \<longleftrightarrow>
      (\<exists>x. (nw_cancel w, x) \<in> set (rx_running (start_worker sub s)) \<and> worker_id x = i \<and> ns_mdate x = nw_mdate w)" for i w
  proof (cases "i = worker_id sub")
    case True
    then show ?thesis using none by (cases w) (auto simp: start_worker_def)
  next
    case False
    then show ?thesis using ok by (auto simp: start_worker_def rx_ok_def)
  qed
  then show ?thesis using ok fresh lt by (simp add: rx_ok_def) (simp add: start_worker_def)
qed

lemma sync_worker_eq:
  "sync_worker sub s = (case map_of (rx_workers s) (worker_id sub) of None \<Rightarrow> start_worker sub s
     | Some w \<Rightarrow> if nw_mdate w = ns_mdate sub then s else start_worker sub (remove_worker (worker_id sub) (nw_cancel w) s))"
  by (simp add: sync_worker_def remove_worker_def split: option.splits)

lemma sync_worker_ok: "rx_ok s \<Longrightarrow> rx_ok (sync_worker sub s)"
  by (auto simp: sync_worker_eq split: option.splits intro!: start_worker_ok remove_worker_ok) (simp add: remove_worker_def cancel_worker_def)

abbreviation mdates :: "reactor \<Rightarrow> string \<Rightarrow> gotime option" where
  "mdates s i \<equiv> map_option nw_mdate (map_of (rx_workers s) i)"

lemma sync_worker_mdates: "mdates (sync_worker sub s) i = (if i = worker_id sub then Some (ns_mdate sub) else mdates s i)"
  by (auto simp: sync_worker_eq start_worker_def remove_worker_def cancel_worker_def split: option.splits)

lemma sync_worker_keeps:
  assumes "rx_ok s" and "r \<in> set (rx_running s)" and "worker_id (snd r) = worker_id sub \<Longrightarrow> ns_mdate (snd r) = ns_mdate sub"
  shows "r \<in> set (rx_running (sync_worker sub s))"
proof (cases "map_of (rx_workers s) (worker_id sub)")
  case None
  then show ?thesis using assms(2) by (simp add: sync_worker_eq start_worker_def)
next
  case (Some w)
  have "worker_id (snd r) = worker_id sub \<Longrightarrow> nw_mdate w = ns_mdate sub"
    using rx_running_worker [OF assms(1), of "fst r" "snd r"] assms(2,3) Some by auto
  then show ?thesis using assms(2) Some by (auto simp: sync_worker_eq start_worker_def remove_worker_running [OF assms(1) Some])
qed

text \<open>A worker is kept by a listing that names its subscription unchanged.\<close>

abbreviation listed :: "notification_subscription list \<Rightarrow> string \<Rightarrow> gotime option" where
  "listed subs \<equiv> map_of (map (\<lambda>x. (worker_id x, ns_mdate x)) subs)"

lemma fold_sync_ok: "rx_ok s \<Longrightarrow> rx_ok (fold sync_worker subs s)"
  by (induction subs arbitrary: s) (auto simp: sync_worker_ok)

lemma listed_absent: "worker_id x \<notin> worker_id ` set subs \<Longrightarrow> listed subs (worker_id x) = None"
  by (auto simp: map_of_eq_None_iff)

lemma fold_sync_mdates:
  assumes "distinct (map worker_id subs)"
  shows "mdates (fold sync_worker subs s) i = (case listed subs i of Some t \<Rightarrow> Some t | None \<Rightarrow> mdates s i)"
  using assms by (induction subs arbitrary: s) (auto simp: sync_worker_mdates listed_absent split: option.splits)

lemma fold_sync_keeps:
  assumes "distinct (map worker_id subs)" and "rx_ok s" and "r \<in> set (rx_running s)"
    and "listed subs (worker_id (snd r)) \<in> {None, Some (ns_mdate (snd r))}"
  shows "r \<in> set (rx_running (fold sync_worker subs s))"
  using assms
proof (induction subs arbitrary: s)
  case (Cons x subs)
  have "r \<in> set (rx_running (sync_worker x s))" using Cons.prems by (intro sync_worker_keeps) auto
  moreover have "listed subs (worker_id (snd r)) \<in> {None, Some (ns_mdate (snd r))}"
    using Cons.prems(1,4) listed_absent [of x subs] by (cases "worker_id x = worker_id (snd r)") auto
  ultimately show ?case using Cons.IH [OF _ sync_worker_ok [OF Cons.prems(2)]] Cons.prems(1) by simp
qed simp

lemma fold_drop:
  assumes "rx_ok s" and "distinct (map fst ws)" and "\<forall>(i, w)\<in>set ws. map_of (rx_workers s) i = Some w"
  shows "rx_ok (fold (drop_worker valid) ws s)
     \<and> map_of (rx_workers (fold (drop_worker valid) ws s)) = (\<lambda>i. if i \<in> fst ` set ws \<and> i \<notin> set valid then None else map_of (rx_workers s) i)
     \<and> (\<forall>r\<in>set (rx_running s). worker_id (snd r) \<in> set valid \<longrightarrow> r \<in> set (rx_running (fold (drop_worker valid) ws s)))"
  using assms
proof (induction ws arbitrary: s)
  case (Cons x ws)
  show ?case
  proof (cases "fst x \<in> set valid")
    case True
    then show ?thesis using Cons.IH [OF Cons.prems(1)] Cons.prems(2,3) by (auto simp: drop_worker_def fun_eq_iff)
  next
    case False
    have x: "map_of (rx_workers s) (fst x) = Some (snd x)" using Cons.prems(3) by (cases x) auto
    let ?s = "remove_worker (fst x) (nw_cancel (snd x)) s"
    have d: "drop_worker valid x s = ?s" using False by (simp add: drop_worker_def remove_worker_def)
    have w: "rx_workers ?s = gmap_del (fst x) (rx_workers s)" by (simp add: remove_worker_def cancel_worker_def)
    have ws: "\<forall>(i, w)\<in>set ws. map_of (rx_workers ?s) i = Some w" using Cons.prems(2,3) by (force simp: w)
    have ws_d: "distinct (map fst ws)" using Cons.prems(2) by simp
    have run: "r \<in> set (rx_running ?s)" if "r \<in> set (rx_running s)" "worker_id (snd r) \<in> set valid" for r
      using that False by (auto simp: remove_worker_running [OF Cons.prems(1) x])
    show ?thesis using Cons.IH [OF remove_worker_ok [OF Cons.prems(1) x] ws_d ws] False run
      by (simp add: d w fun_eq_iff)
  qed
qed (auto simp: fun_eq_iff)

lemma syncWorkers_ok: "rx_ok s \<Longrightarrow> rx_ok (syncWorkers listing s)"
proof (cases listing)
  case (Inr subs)
  assume "rx_ok s"
  then have ok: "rx_ok (fold sync_worker subs s)" by (rule fold_sync_ok)
  then have g: "distinct (map fst (rx_workers (fold sync_worker subs s)))" by (simp add: rx_ok_def gmap_ok_def)
  show ?thesis using fold_drop [OF ok g] g Inr by (auto simp: syncWorkers_def Let_def)
qed (simp add: syncWorkers_def)

lemma new_reactor_ok: "rx_ok new_reactor"
  by (simp add: rx_ok_def new_reactor_def gmap_ok_def)

lemma worker_id_inj: "worker_id a = worker_id b \<Longrightarrow> length (ns_owner a) = length (ns_owner b) \<Longrightarrow> ns_vendorID a = ns_vendorID b \<and> ns_owner a = ns_owner b"
  by (simp add: worker_id_def)

lemma rx_running_mdates:
  assumes "rx_ok s"
  shows "(\<lambda>r. (worker_id (snd r), ns_mdate (snd r))) ` set (rx_running s) = {(i, t). mdates s i = Some t}"
proof (rule set_eqI)
  fix p :: "string \<times> gotime"
  obtain i t where p: "p = (i, t)" by fastforce
  show "p \<in> (\<lambda>r. (worker_id (snd r), ns_mdate (snd r))) ` set (rx_running s) \<longleftrightarrow> p \<in> {(i, t). mdates s i = Some t}"
  proof
    assume "p \<in> (\<lambda>r. (worker_id (snd r), ns_mdate (snd r))) ` set (rx_running s)"
    then show "p \<in> {(i, t). mdates s i = Some t}" using rx_running_worker [OF assms] by force
  next
    assume "p \<in> {(i, t). mdates s i = Some t}"
    then obtain w where w: "map_of (rx_workers s) i = Some w" "nw_mdate w = t" using p by auto
    then obtain sub where "(nw_cancel w, sub) \<in> set (rx_running s)" "worker_id sub = i" "ns_mdate sub = t" using assms unfolding rx_ok_def by metis
    then show "p \<in> (\<lambda>r. (worker_id (snd r), ns_mdate (snd r))) ` set (rx_running s)" using p by force
  qed
qed

lemma rx_running_distinct:
  assumes "rx_ok s"
  shows "distinct (map (worker_id \<circ> snd) (rx_running s))"
proof -
  have d: "distinct (map fst (rx_running s))" using assms by (simp add: rx_ok_def)
  have "inj_on (worker_id \<circ> snd) (set (rx_running s))"
  proof (rule inj_onI)
    fix a b assume ab: "a \<in> set (rx_running s)" "b \<in> set (rx_running s)" "(worker_id \<circ> snd) a = (worker_id \<circ> snd) b"
    then have "fst a = fst b" using rx_running_worker [OF assms, of "fst a" "snd a"] rx_running_worker [OF assms, of "fst b" "snd b"] by simp
    then show "a = b" using ab d by (metis eq_key_imp_eq_value prod.collapse)
  qed
  then show ?thesis using d by (simp add: distinct_map)
qed

text \<open>C23. After any earlier listings, a listing leaves exactly one worker running per subscription, at the modification time listed, and none for
  others; a worker whose subscription is unchanged keeps running. The workers are kept under vendor and owner joined without a separator: rows are
  told apart because identifiers of owners are equally long.\<close>

theorem syncWorkers_exact:
  assumes "distinct (map (\<lambda>x. (ns_vendorID x, ns_owner x)) subs)" and "list_all (\<lambda>x. length (ns_owner x) = n) subs"
    and "s = fold syncWorkers listings new_reactor" and "s' = syncWorkers (Inr subs) s"
  shows "(\<lambda>(_, x). (worker_id x, ns_mdate x)) ` set (rx_running s') = (\<lambda>x. (worker_id x, ns_mdate x)) ` set subs
    \<and> distinct (map (worker_id \<circ> snd) (rx_running s'))
    \<and> {r \<in> set (rx_running s). (worker_id (snd r), ns_mdate (snd r)) \<in> (\<lambda>x. (worker_id x, ns_mdate x)) ` set subs} \<subseteq> set (rx_running s')"
proof -
  have ids: "distinct (map worker_id subs)"
    using assms(1,2) by (auto simp: distinct_map list_all_iff inj_on_def dest!: worker_id_inj)
  have "rx_ok (fold syncWorkers listings new_reactor)"
    by (rule fold_invariant [where Q = "\<lambda>_. True"]) (auto simp: syncWorkers_ok new_reactor_ok)
  then have ok: "rx_ok s" "rx_ok s'" using assms(3,4) by (simp_all add: syncWorkers_ok)
  let ?f = "fold sync_worker subs s"
  have okf: "rx_ok ?f" using ok(1) by (rule fold_sync_ok)
  have gf: "distinct (map fst (rx_workers ?f))" using okf by (simp add: rx_ok_def gmap_ok_def)
  note drop = fold_drop [OF okf gf, of "map worker_id subs"]
  have s': "s' = fold (drop_worker (map worker_id subs)) (rx_workers ?f) ?f" using assms(4) by (simp add: syncWorkers_def Let_def)
  have "mdates s' i = listed subs i" for i
  proof (cases "listed subs i")
    case None
    then have "i \<notin> worker_id ` set subs" by (simp add: map_of_eq_None_iff image_image)
    then show ?thesis using drop gf None s' by (auto simp: map_of_eq_None_iff [of "rx_workers ?f"])
  next
    case (Some t)
    then have "i \<in> worker_id ` set subs" using map_of_SomeD [OF Some] by auto
    then show ?thesis using drop gf s' fold_sync_mdates [OF ids, of s i] Some by auto
  qed
  moreover have "{(i, t). listed subs i = Some t} = (\<lambda>x. (worker_id x, ns_mdate x)) ` set subs"
    using ids by (auto simp: map_of_eq_Some_iff comp_def)
  ultimately have "(\<lambda>(_, x). (worker_id x, ns_mdate x)) ` set (rx_running s') = (\<lambda>x. (worker_id x, ns_mdate x)) ` set subs"
    using rx_running_mdates [OF ok(2)] by (simp add: split_beta')
  moreover have "r \<in> set (rx_running s')" if r: "r \<in> set (rx_running s)" "x \<in> set subs" "worker_id (snd r) = worker_id x" "ns_mdate (snd r) = ns_mdate x" for r x
  proof -
    have "listed subs (worker_id (snd r)) = Some (ns_mdate (snd r))" using ids r by (auto simp: map_of_eq_Some_iff comp_def)
    then have "r \<in> set (rx_running ?f)" using fold_sync_keeps [OF ids ok(1) r(1)] by simp
    then show ?thesis using drop gf r s' by auto
  qed
  ultimately show ?thesis using rx_running_distinct [OF ok(2)] by auto
qed

lemma syncWorkers_exact_witness:
  "rx_running (syncWorkers (Inr [demo_sub, demo_sub\<lparr>ns_vendorID := ''w''\<rparr>]) (fold syncWorkers [Inr [demo_sub]] new_reactor))
     = [(0, demo_sub), (1, demo_sub\<lparr>ns_vendorID := ''w''\<rparr>)]
   \<and> distinct (map (worker_id \<circ> snd) (rx_running (syncWorkers (Inr [demo_sub, demo_sub\<lparr>ns_vendorID := ''w''\<rparr>]) (fold syncWorkers [Inr [demo_sub]] new_reactor))))"
proof
  show "rx_running (syncWorkers (Inr [demo_sub, demo_sub\<lparr>ns_vendorID := ''w''\<rparr>]) (fold syncWorkers [Inr [demo_sub]] new_reactor))
     = [(0, demo_sub), (1, demo_sub\<lparr>ns_vendorID := ''w''\<rparr>)]" by code_simp
  show "distinct (map (worker_id \<circ> snd) (rx_running (syncWorkers (Inr [demo_sub, demo_sub\<lparr>ns_vendorID := ''w''\<rparr>]) (fold syncWorkers [Inr [demo_sub]] new_reactor))))"
    using syncWorkers_exact [of "[demo_sub, demo_sub\<lparr>ns_vendorID := ''w''\<rparr>]" 5 _ "[Inr [demo_sub]]", OF _ _ refl refl] by (simp add: demo_sub_def)
qed

section \<open>What is pushed\<close>

definition effectiveSchema :: "codec \<Rightarrow> signed_document \<Rightarrow> string" where
  "effectiveSchema C sd = (case dec_doc C (sd_document sd) of None \<Rightarrow> []
     | Some doc \<Rightarrow> if d_schema doc \<noteq> ReferenceURL then d_schema doc
       else (case dec_reference C (sd_document sd) of None \<Rightarrow> d_schema doc
         | Some (_, ref) \<Rightarrow>
             let declared = (case rf_schema ref of Some sc \<Rightarrow> sc | None \<Rightarrow> d_schema doc) in
             (case map_of (sd_references sd) (rf_href ref) of None \<Rightarrow> declared
              | Some refSD \<Rightarrow> (case dec_doc C (sd_document refSD) of None \<Rightarrow> declared
                  | Some targetDoc \<Rightarrow> if d_schema targetDoc \<noteq> [] then d_schema targetDoc else declared))))"

definition eventMatchesSchemas :: "codec \<Rightarrow> event \<Rightarrow> string list \<Rightarrow> bool" where
  "eventMatchesSchemas C ev flt = (flt = [] \<or> list_ex (\<lambda>(_, sd). (case dec_doc C (sd_document sd) of None \<Rightarrow> False
     | Some doc \<Rightarrow> d_schema doc \<in> set flt \<or> (let eff = effectiveSchema C sd in eff \<noteq> d_schema doc \<and> eff \<in> set flt))) (e_references ev))"

record notification_payload =
  np_type :: string
  np_uri :: string
  np_schema :: string
  np_author :: string
  np_createdAt :: gotime
  np_badge :: int

definition buildNotificationPayload :: "codec \<Rightarrow> event \<Rightarrow> notification_payload" where
  "buildNotificationPayload C ev = (let p = \<lparr>np_type = ''notification'', np_uri = e_uri ev, np_schema = [], np_author = [], np_createdAt = e_timestamp ev, np_badge = 0\<rparr> in
     (case e_association ev of None \<Rightarrow> p
      | Some a \<Rightarrow> let p = p\<lparr>np_uri := a\<rparr> in
        (case map_of (e_references ev) a of None \<Rightarrow> p
         | Some sd \<Rightarrow> let p = p\<lparr>np_schema := effectiveSchema C sd\<rparr> in
           (case dec_doc C (sd_document sd) of None \<Rightarrow> p
            | Some doc \<Rightarrow> p\<lparr>np_author := d_author doc, np_createdAt := (if d_createdAt doc \<noteq> zero_time then d_createdAt doc else np_createdAt p)\<rparr>))))"


definition demo_reference :: signed_document where
  "demo_reference = SignedDocument None None ''R'' (Proof ProofTypeEcrecover None None None None None) [(''cckv://o/k'', demo_signed ''E'')] None"


section \<open>Pushing an event\<close>

text \<open>The digest and the encoding of a payload are parameters; \<open>px_clustered\<close> tells whether replicas claim a push before they send it.\<close>

record push_env =
  px_codec :: codec
  px_sha256 :: "string \<Rightarrow> string"
  px_marshal :: "notification_payload \<Rightarrow> string option"
  px_clustered :: bool

definition notificationDedupKey :: "(string \<Rightarrow> string) \<Rightarrow> event \<Rightarrow> notification_subscription \<Rightarrow> string" where
  "notificationDedupKey sha ev sub = ''notification_dedup:'' @ sha (e_source ev @ ''|'' @ e_uri ev @ ''|'' @ e_type ev @ ''|''
     @ (case e_association ev of None \<Rightarrow> [] | Some a \<Rightarrow> a) @ ''|'' @ int_str (int64 (e_timestamp ev)) @ ''|'' @ ns_vendorID sub @ ''|'' @ ns_owner sub)"

text \<open>A push that is being sent: its key, the key it claimed (empty for none) and when, and what it sends to whom.\<close>

record push_flight =
  fl_key :: string
  fl_claimed :: string
  fl_since :: gotime
  fl_payload :: string
  fl_sub :: notification_subscription

text \<open>The claims in Redis expire at the time they map to. \<open>pu_delivered\<close> lists the keys that the push service accepted, with the time of their claim.\<close>

record push_state =
  pu_now :: gotime
  pu_claims :: "(string, gotime) gmap"
  pu_notify :: notify_state
  pu_flights :: "push_flight list"
  pu_delivered :: "(string \<times> gotime) list"

definition claimTTL :: gotime where
  "claimTTL = 5 * minute"

text \<open>\<^verbatim>\<open>SET NX\<close> with a time to live, and \<^verbatim>\<open>DEL\<close>. The first argument tells whether Redis answers.\<close>

definition Claim :: "bool \<Rightarrow> string \<Rightarrow> gotime \<Rightarrow> push_state \<Rightarrow> bool db_result \<times> push_state" where
  "Claim answers k ttl s = (if \<not> answers then (Inl redis_error, s)
     else if (case map_of (pu_claims s) k of None \<Rightarrow> False | Some e \<Rightarrow> pu_now s < e) then (Inr False, s)
     else (Inr True, s\<lparr>pu_claims := gmap_set k (pu_now s + ttl) (pu_claims s)\<rparr>))"

definition releaseClaim :: "push_env \<Rightarrow> bool \<Rightarrow> string \<Rightarrow> push_state \<Rightarrow> push_state" where
  "releaseClaim P answers k s = (if \<not> px_clustered P \<or> k = [] \<or> \<not> answers then s else s\<lparr>pu_claims := gmap_del k (pu_claims s)\<rparr>)"

text \<open>The claimed key, empty when there is no claim; \<open>None\<close> when another replica has it.\<close>

definition claim_push :: "push_env \<Rightarrow> bool \<Rightarrow> string \<Rightarrow> push_state \<Rightarrow> string option \<times> push_state" where
  "claim_push P answers k s = (if \<not> px_clustered P then (Some [], s)
     else (case Claim answers k claimTTL s of (Inl _, s') \<Rightarrow> (Some [], s')
           | (Inr claimed, s') \<Rightarrow> (if claimed then Some k else None, s')))"

text \<open>An event that a worker receives, up to the request to the push service.\<close>

definition begin_push :: "push_env \<Rightarrow> notify_env \<Rightarrow> notification_subscription \<Rightarrow> event \<Rightarrow> push_state \<Rightarrow> push_state" where
  "begin_push P N sub ev s = (if \<not> eventMatchesSchemas (px_codec P) ev (ns_schemas sub) then s
     else let k = notificationDedupKey (px_sha256 P) ev sub in
       (case claim_push P (ne_redis N) k s of (None, s') \<Rightarrow> s'
        | (Some claimedKey, s') \<Rightarrow>
            (case IncrementCounter N (ns_vendorID sub) (ns_owner sub) (pu_notify s') of (cnt, n) \<Rightarrow>
               let s' = s'\<lparr>pu_notify := n\<rparr>; p = buildNotificationPayload (px_codec P) ev;
                   p = (case cnt of Inl _ \<Rightarrow> p | Inr c \<Rightarrow> p\<lparr>np_badge := c\<rparr>) in
               (case px_marshal P p of None \<Rightarrow> releaseClaim P (ne_redis N) claimedKey s'
                | Some body \<Rightarrow> s'\<lparr>pu_flights := pu_flights s' @ [\<lparr>fl_key = k, fl_claimed = claimedKey, fl_since = pu_now s', fl_payload = body, fl_sub = sub\<rparr>]\<rparr>))))"

text \<open>The answer of the push service, \<open>None\<close> for an error, to the push at a position.\<close>

definition end_push :: "push_env \<Rightarrow> bool \<Rightarrow> nat \<Rightarrow> nat option \<Rightarrow> push_state \<Rightarrow> push_state" where
  "end_push P answers i res s = (if i < length (pu_flights s) then
     let f = pu_flights s ! i; s' = s\<lparr>pu_flights := take i (pu_flights s) @ drop (Suc i) (pu_flights s)\<rparr> in
       if res = Some 201 then s'\<lparr>pu_delivered := pu_delivered s' @ [(fl_key f, fl_since f)]\<rparr>
       else releaseClaim P answers (fl_claimed f) s'
     else s)"

definition wait_push :: "gotime \<Rightarrow> push_state \<Rightarrow> push_state" where
  "wait_push dt s = s\<lparr>pu_now := pu_now s + dt\<rparr>"

subsection \<open>A push is delivered once\<close>

text \<open>Replicas that overlap, in any interleaving: they receive events, time passes, and the push service answers or not. Redis answers when a push is claimed, and a push
  is answered before its claim expires.\<close>

inductive push_reach :: "push_env \<Rightarrow> push_state \<Rightarrow> push_state \<Rightarrow> bool" for P s\<^sub>0 where
  start: "push_reach P s\<^sub>0 s\<^sub>0"
| receive: "push_reach P s\<^sub>0 s \<Longrightarrow> ne_redis N \<Longrightarrow> push_reach P s\<^sub>0 (begin_push P N sub ev s)"
| answered: "push_reach P s\<^sub>0 s \<Longrightarrow> push_reach P s\<^sub>0 (end_push P answers i res s)"
| pass: "push_reach P s\<^sub>0 s \<Longrightarrow> 0 \<le> dt \<Longrightarrow> list_all (\<lambda>f. pu_now s + dt < fl_since f + claimTTL) (pu_flights s) \<Longrightarrow> push_reach P s\<^sub>0 (wait_push dt s)"

definition flight_ok :: "push_state \<Rightarrow> push_flight \<Rightarrow> bool" where
  "flight_ok s f \<longleftrightarrow> fl_claimed f = fl_key f \<and> fl_since f \<le> pu_now s \<and> pu_now s < fl_since f + claimTTL \<and> map_of (pu_claims s) (fl_key f) = Some (fl_since f + claimTTL)
     \<and> (\<forall>t. (fl_key f, t) \<in> set (pu_delivered s) \<longrightarrow> t + claimTTL \<le> fl_since f)"

text \<open>A delivered push keeps its claim until the claim expires.\<close>

definition delivered_ok :: "push_state \<Rightarrow> string \<times> gotime \<Rightarrow> bool" where
  "delivered_ok s d \<longleftrightarrow> snd d + claimTTL \<le> pu_now s \<or> (map_of (pu_claims s) (fst d) = Some (snd d + claimTTL) \<and> fst d \<notin> fl_key ` set (pu_flights s))"

definition apart :: "string \<times> gotime \<Rightarrow> string \<times> gotime \<Rightarrow> bool" where
  "apart d d' \<longleftrightarrow> fst d = fst d' \<longrightarrow> snd d + claimTTL \<le> snd d'"

definition push_ok :: "push_state \<Rightarrow> bool" where
  "push_ok s \<longleftrightarrow> distinct (map fl_key (pu_flights s)) \<and> list_all (flight_ok s) (pu_flights s) \<and> list_all (delivered_ok s) (pu_delivered s)
     \<and> sorted_wrt apart (pu_delivered s)"

lemma notificationDedupKey_nonempty [simp]: "notificationDedupKey sha ev sub \<noteq> []"
  by (simp add: notificationDedupKey_def)

lemma claimTTL_pos: "0 < claimTTL"
  by (simp add: claimTTL_def minute_def)

text \<open>The state in which a claim is granted: nothing live claims the key.\<close>

definition unclaimed :: "string \<Rightarrow> push_state \<Rightarrow> bool" where
  "unclaimed k s \<longleftrightarrow> pred_option (\<lambda>e. e \<le> pu_now s) (map_of (pu_claims s) k)"

lemma claim_push_cases:
  assumes "px_clustered P"
  obtains "claim_push P True k s = (None, s)" | "unclaimed k s" and "claim_push P True k s = (Some k, s\<lparr>pu_claims := gmap_set k (pu_now s + claimTTL) (pu_claims s)\<rparr>)"
proof (cases "unclaimed k s")
  case True
  then have "claim_push P True k s = (Some k, s\<lparr>pu_claims := gmap_set k (pu_now s + claimTTL) (pu_claims s)\<rparr>)"
    using assms by (auto simp: claim_push_def Claim_def unclaimed_def split: option.splits)
  then show thesis using that(2) True by blast
next
  case False
  then have "claim_push P True k s = (None, s)" using assms
    by (cases "map_of (pu_claims s) k") (auto simp: claim_push_def Claim_def unclaimed_def)
  then show thesis using that(1) by blast
qed

lemma push_ok_notify [simp]: "push_ok (s\<lparr>pu_notify := n\<rparr>) = push_ok s"
  by (simp add: push_ok_def flight_ok_def [abs_def] delivered_ok_def [abs_def])

lemma unclaimed_idle:
  assumes "push_ok s" and "unclaimed k s"
  shows "k \<notin> fl_key ` set (pu_flights s)" and "(k, t) \<in> set (pu_delivered s) \<Longrightarrow> t + claimTTL \<le> pu_now s"
  using assms by (auto simp: push_ok_def list_all_iff flight_ok_def unclaimed_def delivered_ok_def)

lemma push_ok_claim:
  assumes ok: "push_ok s" and k: "unclaimed k s"
  shows "push_ok (s\<lparr>pu_claims := gmap_set k (pu_now s + claimTTL) (pu_claims s),
      pu_flights := pu_flights s @ [\<lparr>fl_key = k, fl_claimed = k, fl_since = pu_now s, fl_payload = b, fl_sub = sub\<rparr>]\<rparr>)"
  using ok unclaimed_idle [OF assms] claimTTL_pos
  by (fastforce simp: push_ok_def list_all_iff flight_ok_def delivered_ok_def)

lemma push_ok_forget:
  assumes ok: "push_ok s" and "k \<notin> fl_key ` set (pu_flights s)" and "\<And>t. (k, t) \<in> set (pu_delivered s) \<Longrightarrow> t + claimTTL \<le> pu_now s"
  shows "push_ok (s\<lparr>pu_claims := gmap_del k (gmap_set k e (pu_claims s))\<rparr>)" and "push_ok (s\<lparr>pu_claims := gmap_set k e (pu_claims s)\<rparr>)"
    and "push_ok (s\<lparr>pu_claims := gmap_del k (pu_claims s)\<rparr>)"
  using assms by (fastforce simp: push_ok_def list_all_iff flight_ok_def delivered_ok_def)+

lemma push_ok_cong:
  "pu_now s = pu_now s' \<Longrightarrow> pu_claims s = pu_claims s' \<Longrightarrow> pu_flights s = pu_flights s' \<Longrightarrow> pu_delivered s = pu_delivered s' \<Longrightarrow> push_ok s = push_ok s'"
  by (simp add: push_ok_def flight_ok_def [abs_def] delivered_ok_def [abs_def])

lemma push_ok_deliver:
  assumes ok: "push_ok s" and k: "k \<notin> fl_key ` set (pu_flights s)" and "map_of (pu_claims s) k = Some (t + claimTTL)"
    and old: "\<And>u. (k, u) \<in> set (pu_delivered s) \<Longrightarrow> u + claimTTL \<le> t"
  shows "push_ok (s\<lparr>pu_delivered := pu_delivered s @ [(k, t)]\<rparr>)"
proof -
  let ?s = "s\<lparr>pu_delivered := pu_delivered s @ [(k, t)]\<rparr>"
  have "list_all (flight_ok ?s) (pu_flights ?s)" using ok k by (auto simp: push_ok_def list_all_iff flight_ok_def image_iff)
  moreover have "list_all (delivered_ok ?s) (pu_delivered ?s)" using assms by (auto simp: push_ok_def list_all_iff delivered_ok_def)
  moreover have "sorted_wrt apart (pu_delivered ?s)" using ok old by (auto simp: push_ok_def sorted_wrt_append apart_def)
  ultimately show ?thesis using ok by (simp add: push_ok_def)
qed

lemma begin_push_ok:
  assumes ok: "push_ok s" and "px_clustered P" and "ne_redis N"
  shows "push_ok (begin_push P N sub ev s)"
proof (cases "eventMatchesSchemas (px_codec P) ev (ns_schemas sub)")
  case True
  let ?k = "notificationDedupKey (px_sha256 P) ev sub"
  show ?thesis
  proof (cases rule: claim_push_cases [OF assms(2), of ?k s])
    case 1
    then show ?thesis using ok True assms(3) by (simp add: begin_push_def)
  next
    case 2
    obtain c n where n: "IncrementCounter N (ns_vendorID sub) (ns_owner sub) (pu_notify s) = (c, n)" by fastforce
    have "push_ok (s\<lparr>pu_claims := gmap_set ?k (pu_now s + claimTTL) (pu_claims s), pu_notify := n,
        pu_flights := pu_flights s @ [\<lparr>fl_key = ?k, fl_claimed = ?k, fl_since = pu_now s, fl_payload = b, fl_sub = sub\<rparr>]\<rparr>)" for b
      by (rule iffD1 [OF push_ok_cong push_ok_claim [OF ok 2(1), of b sub]]) simp_all
    moreover have "push_ok (s\<lparr>pu_notify := n, pu_claims := gmap_del ?k (gmap_set ?k (pu_now s + claimTTL) (pu_claims s))\<rparr>)"
      using push_ok_forget(1) [of "s\<lparr>pu_notify := n\<rparr>" ?k] ok unclaimed_idle [OF ok 2(1)] by simp
    ultimately show ?thesis using True assms(2,3) 2(2) n
      by (auto simp: begin_push_def Let_def releaseClaim_def split: option.splits)
  qed
qed (simp add: begin_push_def ok)

lemma flight_removed:
  assumes "push_ok s" and i: "i < length (pu_flights s)" and "fs = take i (pu_flights s) @ drop (Suc i) (pu_flights s)" and "f = pu_flights s ! i"
  shows "push_ok (s\<lparr>pu_flights := fs\<rparr>)" and "fl_key f \<notin> fl_key ` set fs" and "flight_ok s f"
proof -
  have split: "pu_flights s = take i (pu_flights s) @ f # drop (Suc i) (pu_flights s)" using id_take_nth_drop [OF i] assms(4) by simp
  have "distinct (map fl_key (take i (pu_flights s) @ f # drop (Suc i) (pu_flights s)))" using assms(1) unfolding push_ok_def by (metis split)
  then show "fl_key f \<notin> fl_key ` set fs" using assms(3) by auto
  have "distinct (map fl_key fs)"
    using \<open>distinct (map fl_key (take i (pu_flights s) @ f # drop (Suc i) (pu_flights s)))\<close> assms(3) by auto
  moreover have sub: "set fs \<subseteq> set (pu_flights s)" using assms(3) set_take_subset set_drop_subset by fastforce
  ultimately show "push_ok (s\<lparr>pu_flights := fs\<rparr>)" using assms(1)
    by (fastforce simp: push_ok_def list_all_iff flight_ok_def delivered_ok_def)
  show "flight_ok s f" using assms(1,4) i by (auto simp: push_ok_def list_all_iff)
qed

lemma end_push_ok:
  assumes ok: "push_ok s" and "px_clustered P"
  shows "push_ok (end_push P answers i res s)"
proof (cases "i < length (pu_flights s)")
  case True
  let ?f = "pu_flights s ! i" and ?fs = "take i (pu_flights s) @ drop (Suc i) (pu_flights s)"
  let ?s = "s\<lparr>pu_flights := ?fs\<rparr>"
  note removed = flight_removed [OF ok True refl refl]
  have old: "t + claimTTL \<le> fl_since ?f" "fl_since ?f \<le> pu_now s" if "(fl_key ?f, t) \<in> set (pu_delivered s)" for t
    using removed(3) that by (auto simp: flight_ok_def)
  show ?thesis
  proof (cases "res = Some 201")
    case res: True
    have "push_ok (?s\<lparr>pu_delivered := pu_delivered s @ [(fl_key ?f, fl_since ?f)]\<rparr>)"
      using push_ok_deliver [OF removed(1), of "fl_key ?f" "fl_since ?f"] removed(2,3) old by (simp add: flight_ok_def)
    then show ?thesis using True res by (simp add: end_push_def Let_def)
  next
    case False
    have "push_ok (?s\<lparr>pu_claims := gmap_del (fl_key ?f) (pu_claims ?s)\<rparr>)"
      by (rule push_ok_forget(3)) (use removed old in \<open>auto intro: order_trans\<close>)
    moreover have "fl_claimed ?f = fl_key ?f" using removed(3) by (simp add: flight_ok_def)
    ultimately show ?thesis using True False removed(1) by (simp add: end_push_def Let_def releaseClaim_def)
  qed
qed (simp add: end_push_def ok)

lemma wait_push_ok:
  assumes "push_ok s" and "0 \<le> dt" and "list_all (\<lambda>f. pu_now s + dt < fl_since f + claimTTL) (pu_flights s)"
  shows "push_ok (wait_push dt s)"
  using assms by (fastforce simp: push_ok_def wait_push_def list_all_iff flight_ok_def delivered_ok_def)

definition new_push :: push_state where
  "new_push = \<lparr>pu_now = 0, pu_claims = [], pu_notify = new_notify, pu_flights = [], pu_delivered = []\<rparr>"


definition demo_push :: push_env where
  "demo_push = \<lparr>px_codec = demo_codec, px_sha256 = (\<lambda>_. ''0''), px_marshal = (\<lambda>_. Some ''p''), px_clustered = True\<rparr>"

definition demo_reaction :: event where
  "demo_reaction = \<lparr>e_type = ''associated'', e_source = ''c'', e_uri = ''u'', e_association = Some ''a'', e_references = [], e_timestamp = 3\<rparr>"

abbreviation demo_receive :: "push_state \<Rightarrow> push_state" where
  "demo_receive \<equiv> begin_push demo_push demo_notify demo_sub demo_reaction"

abbreviation demo_key :: string where
  "demo_key \<equiv> ''notification_dedup:0''"

lemma demo_receive:
  "demo_receive s = (if pred_option (\<lambda>e. e \<le> pu_now s) (map_of (pu_claims s) demo_key)
     then s\<lparr>pu_claims := gmap_set demo_key (pu_now s + claimTTL) (pu_claims s), pu_notify := snd (IncrementCounter demo_notify ''v'' ''con1a'' (pu_notify s)),
        pu_flights := pu_flights s @ [\<lparr>fl_key = demo_key, fl_claimed = demo_key, fl_since = pu_now s, fl_payload = ''p'', fl_sub = demo_sub\<rparr>]\<rparr>
     else s)"
  by (cases "map_of (pu_claims s) demo_key")
    (simp_all add: begin_push_def claim_push_def Claim_def eventMatchesSchemas_def notificationDedupKey_def demo_push_def demo_notify_def demo_sub_def Let_def split_beta)

lemma demo_clustered: "px_clustered demo_push"
  by (simp add: demo_push_def)

lemmas demo_run = demo_receive end_push_def releaseClaim_def wait_push_def new_push_def demo_clustered Let_def minute_def claimTTL_def

text \<open>One push, from the event to the answer, while nothing else is under way.\<close>

lemma demo_round:
  assumes "pu_flights s = []" and "pred_option (\<lambda>e. e \<le> pu_now s) (map_of (pu_claims s) demo_key)" and "s' = end_push demo_push True 0 res (demo_receive s)"
  shows "pu_flights s' = []" and "pu_now s' = pu_now s"
    and "map_of (pu_claims s') demo_key = (if res = Some 201 then Some (pu_now s + claimTTL) else None)"
    and "pu_delivered s' = (if res = Some 201 then pu_delivered s @ [(demo_key, pu_now s)] else pu_delivered s)"
  using assms(1,2) unfolding assms(3) by (simp_all add: demo_run)


text \<open>What the condition on slow pushes excludes: a claim is given back without asking whose it is, so a push that fails after its claim expired gives back the claim of the
  replica that took over, and a third push is sent and accepted beside it.\<close>

lemma late_release:
  "map snd (pu_delivered (end_push demo_push True 0 (Some 201) (end_push demo_push True 0 (Some 201)
     (demo_receive (end_push demo_push True 0 None (demo_receive (wait_push (5 * minute) (demo_receive new_push)))))))) = [5 * minute, 5 * minute]"
  by (simp add: demo_run)

end
